(* ===== verification/LruCache.thy ===== *)
theory LruCache
  imports GoPrelude
begin

text \<open>
  The fixed-size LRU cache of \<open>indexer/cache/lru.go\<close>. The Go struct keeps a doubly linked list of
  entries (\<open>container/list\<close>) and a map from keys to list elements; an element is a pointer, so the
  model gives every element an address and the map holds addresses. Each entry of \<open>evictionList\<close>
  is \<open>(address, key, value)\<close>, most recently used first. The eviction callback is a function
  value that may be nil; the model records whether it is set and logs its calls in order.

  The invariant says that the map and the list agree; the abstract cache is the list of keys and
  values in recency order, and every operation refines its abstract counterpart.
\<close>

subsection \<open>container/list: the operations used\<close>

type_synonym ('k, 'v) elist = "(nat \<times> 'k \<times> 'v) list"

definition list_without :: "nat \<Rightarrow> ('k, 'v) elist \<Rightarrow> ('k, 'v) elist" where
  "list_without p l = filter (\<lambda>e. fst e \<noteq> p) l"

definition move_to_front :: "nat \<Rightarrow> ('k, 'v) elist \<Rightarrow> ('k, 'v) elist" where
  "move_to_front p l = (case map_of l p of None \<Rightarrow> l | Some kv \<Rightarrow> (p, kv) # list_without p l)"

definition set_value :: "nat \<Rightarrow> 'v \<Rightarrow> ('k, 'v) elist \<Rightarrow> ('k, 'v) elist" where
  "set_value p v l = map (\<lambda>(q, k, w). (q, k, if q = p then v else w)) l"

definition list_back :: "('k, 'v) elist \<Rightarrow> (nat \<times> 'k \<times> 'v) option" where
  "list_back l = (if l = [] then None else Some (last l))"

subsection \<open>The cache\<close>

record ('k, 'v) lru =
  lsize :: int
  evictionList :: "('k, 'v) elist"
  items :: "('k \<times> nat) list"
  onEviction :: bool
  calls :: "('k \<times> 'v) list"
  fresh :: nat

datatype cache_error = BadSize

definition newLRU :: "int \<Rightarrow> bool \<Rightarrow> cache_error + ('k, 'v) lru" where
  "newLRU sz cb =
     (if sz < 0 then Inl BadSize
      else Inr \<lparr>lsize = sz, evictionList = [], items = [], onEviction = cb, calls = [], fresh = 0\<rparr>)"

definition notify :: "'k \<Rightarrow> 'v \<Rightarrow> ('k, 'v) lru \<Rightarrow> ('k, 'v) lru" where
  "notify k v c = (if onEviction c then c\<lparr>calls := calls c @ [(k, v)]\<rparr> else c)"

text \<open>\<open>remove(e)\<close>: the element leaves the list, its key leaves the map, then the callback runs.\<close>

definition lru_unlink :: "nat \<Rightarrow> ('k, 'v) lru \<Rightarrow> ('k, 'v) lru" where
  "lru_unlink p c =
     (case map_of (evictionList c) p of
        None \<Rightarrow> c
      | Some (k, v) \<Rightarrow>
          notify k v (c\<lparr>evictionList := list_without p (evictionList c),
                        items := AList.delete k (items c)\<rparr>))"

definition evictOldest :: "('k, 'v) lru \<Rightarrow> ('k, 'v) lru" where
  "evictOldest c =
     (case list_back (evictionList c) of None \<Rightarrow> c | Some (p, k, v) \<Rightarrow> lru_unlink p c)"

definition lru_add :: "'k \<Rightarrow> 'v \<Rightarrow> ('k, 'v) lru \<Rightarrow> bool \<times> ('k, 'v) lru" where
  "lru_add k v c =
     (case map_of (items c) k of
        Some p \<Rightarrow>
          (False, c\<lparr>evictionList := set_value p v (move_to_front p (evictionList c))\<rparr>)
      | None \<Rightarrow>
          let c1 = c\<lparr>evictionList := (fresh c, k, v) # evictionList c,
                     items := AList.update k (fresh c) (items c),
                     fresh := Suc (fresh c)\<rparr>;
              shouldEvict = (int (length (evictionList c1)) > lsize c1)
          in (shouldEvict, if shouldEvict then evictOldest c1 else c1))"

definition lru_get :: "'k \<Rightarrow> ('k, 'v) lru \<Rightarrow> 'v option \<times> ('k, 'v) lru" where
  "lru_get k c =
     (case map_of (items c) k of
        None \<Rightarrow> (None, c)
      | Some p \<Rightarrow>
          (map_option snd (map_of (evictionList c) p),
           c\<lparr>evictionList := move_to_front p (evictionList c)\<rparr>))"

definition lru_contains :: "'k \<Rightarrow> ('k, 'v) lru \<Rightarrow> bool" where
  "lru_contains k c \<longleftrightarrow> map_of (items c) k \<noteq> None"

definition lru_peek :: "'k \<Rightarrow> ('k, 'v) lru \<Rightarrow> 'v option" where
  "lru_peek k c =
     (case map_of (items c) k of None \<Rightarrow> None | Some p \<Rightarrow> map_option snd (map_of (evictionList c) p))"

definition lru_remove :: "'k \<Rightarrow> ('k, 'v) lru \<Rightarrow> bool \<times> ('k, 'v) lru" where
  "lru_remove k c =
     (case map_of (items c) k of None \<Rightarrow> (False, c) | Some p \<Rightarrow> (True, lru_unlink p c))"

definition removeOldest :: "('k, 'v) lru \<Rightarrow> ('k \<times> 'v) option \<times> ('k, 'v) lru" where
  "removeOldest c =
     (case list_back (evictionList c) of
        None \<Rightarrow> (None, c) | Some (p, k, v) \<Rightarrow> (Some (k, v), lru_unlink p c))"

definition getOldest :: "('k, 'v) lru \<Rightarrow> ('k \<times> 'v) option" where
  "getOldest c = map_option snd (list_back (evictionList c))"

text \<open>
  \<open>Keys\<close> makes a slice of \<open>len(items)\<close> slots and fills it walking the list from the back:
  \<open>None\<close> is the panic of a list longer than the slice, a slot that is not reached stays nil.
\<close>

definition lru_keys :: "('k, 'v) lru \<Rightarrow> 'k option list option" where
  "lru_keys c =
     (let n = length (items c); ks = map (\<lambda>e. Some (fst (snd e))) (rev (evictionList c))
      in if n < length ks then None else Some (ks @ replicate (n - length ks) None))"

definition lru_len :: "('k, 'v) lru \<Rightarrow> nat" where
  "lru_len c = length (evictionList c)"

definition resize :: "int \<Rightarrow> ('k, 'v) lru \<Rightarrow> int \<times> ('k, 'v) lru" where
  "resize newSize c =
     (let diff = max 0 (int (lru_len c) - newSize)
      in (diff, ((evictOldest ^^ nat diff) c)\<lparr>lsize := newSize\<rparr>))"

text \<open>\<open>Clear\<close> ranges over the map, tells the callback of each entry and empties both parts.\<close>

fun clear_loop :: "('k \<times> nat) list \<Rightarrow> ('k, 'v) lru \<Rightarrow> ('k, 'v) lru" where
  "clear_loop [] c = c"
| "clear_loop ((k, p) # kps) c =
     clear_loop kps
       ((case map_of (evictionList c) p of None \<Rightarrow> c | Some (_, v) \<Rightarrow> notify k v c)
          \<lparr>items := AList.delete k (items c)\<rparr>)"

definition lru_clear :: "('k, 'v) lru \<Rightarrow> ('k, 'v) lru" where
  "lru_clear c = (clear_loop (items c) c)\<lparr>evictionList := []\<rparr>"

subsection \<open>The invariant\<close>

definition elist_wf :: "('k, 'v) elist \<Rightarrow> bool" where
  "elist_wf l \<longleftrightarrow> distinct (map fst l) \<and> distinct (map (\<lambda>e. fst (snd e)) l)"

definition lru_inv :: "('k, 'v) lru \<Rightarrow> bool" where
  "lru_inv c \<longleftrightarrow>
     elist_wf (evictionList c) \<and>
     (\<forall>e\<in>set (evictionList c). fst e < fresh c) \<and>
     distinct (map fst (items c)) \<and>
     set (items c) = (\<lambda>(p, k, v). (k, p)) ` set (evictionList c)"

definition lru_bounded :: "('k, 'v) lru \<Rightarrow> bool" where
  "lru_bounded c \<longleftrightarrow> int (length (evictionList c)) \<le> max 0 (lsize c)"

definition lru_abs :: "('k, 'v) lru \<Rightarrow> ('k \<times> 'v) list" where
  "lru_abs c = map snd (evictionList c)"

subsection \<open>Lists of addressed entries\<close>

lemma elist_wf_map_of: "elist_wf l \<Longrightarrow> map_of l p = Some kv \<longleftrightarrow> (p, kv) \<in> set l"
  by (simp add: elist_wf_def)

lemma elist_wf_ptr_key:
  "elist_wf l \<Longrightarrow> (p, k, v) \<in> set l \<Longrightarrow> (p', k', v') \<in> set l \<Longrightarrow> p' = p \<longleftrightarrow> k' = k"
  unfolding elist_wf_def
  by (induction l) (force simp: image_iff)+

lemma list_without_key:
  "elist_wf l \<Longrightarrow> (p, k, v) \<in> set l \<Longrightarrow>
   list_without p l = filter (\<lambda>e. fst (snd e) \<noteq> k) l"
  unfolding list_without_def by (rule filter_cong) (auto dest: elist_wf_ptr_key)

lemma elist_wf_filter: "elist_wf l \<Longrightarrow> elist_wf (filter P l)"
  by (auto simp: elist_wf_def distinct_map inj_on_def)

lemma elist_wf_Cons:
  "elist_wf ((p, k, v) # l) \<longleftrightarrow> p \<notin> fst ` set l \<and> k \<notin> (\<lambda>e. fst (snd e)) ` set l \<and> elist_wf l"
  by (auto simp: elist_wf_def)

lemma elist_wf_move:
  assumes "elist_wf l" "(p, k, v) \<in> set l"
  shows "elist_wf ((p, k, w) # list_without p l)"
  using assms by (auto simp: elist_wf_Cons list_without_def elist_wf_filter dest: elist_wf_ptr_key)

lemma set_move:
  assumes "elist_wf l" "(p, k, v) \<in> set l"
  shows "set (list_without p l) = set l - {(p, k, v)}"
proof -
  have "e \<in> set l \<Longrightarrow> fst e = p \<longleftrightarrow> e = (p, k, v)" for e
    using assms by (cases e) (auto simp: elist_wf_map_of [symmetric])
  then show ?thesis by (auto simp: list_without_def)
qed

lemma set_value_front:
  "set_value p v ((p, k, w) # list_without p l) = (p, k, v) # list_without p l"
  by (auto simp: set_value_def list_without_def intro: map_idI)

lemma filter_snd_map: "map snd (filter (\<lambda>e. P (snd e)) l) = filter P (map snd l)"
  by (induction l) auto

lemma without_last: "elist_wf l \<Longrightarrow> l \<noteq> [] \<Longrightarrow> list_without (fst (last l)) l = butlast l"
proof (induction l rule: rev_induct)
  case Nil
  then show ?case by simp
next
  case (snoc e l)
  then have "\<forall>e'\<in>set l. fst e' \<noteq> fst e" by (auto simp: elist_wf_def image_iff)
  then show ?case by (simp add: list_without_def)
qed

subsection \<open>Consequences of the invariant\<close>

lemma lru_inv_elist: "lru_inv c \<Longrightarrow> elist_wf (evictionList c)"
  by (simp add: lru_inv_def)

lemma lru_inv_items:
  "lru_inv c \<Longrightarrow> map_of (items c) k = Some p \<longleftrightarrow> (\<exists>v. (p, k, v) \<in> set (evictionList c))"
  by (force simp: lru_inv_def image_iff)

lemma lru_inv_items_None:
  assumes "lru_inv c"
  shows "map_of (items c) k = None \<longleftrightarrow> k \<notin> (\<lambda>e. fst (snd e)) ` set (evictionList c)"
proof -
  have "fst ` set (items c) = (\<lambda>e. fst (snd e)) ` set (evictionList c)"
    using assms by (simp add: lru_inv_def image_image case_prod_unfold)
  then show ?thesis by (simp add: map_of_eq_None_iff)
qed

lemma lru_abs_keys: "fst ` set (lru_abs c) = (\<lambda>e. fst (snd e)) ` set (evictionList c)"
  by (simp add: lru_abs_def image_image)

lemma lru_entry_at: "lru_inv c \<Longrightarrow> (p, kv) \<in> set (evictionList c) \<Longrightarrow> map_of (evictionList c) p = Some kv"
  by (subst elist_wf_map_of) (auto simp: lru_inv_elist)

lemma lru_absent: "lru_inv c \<Longrightarrow> map_of (items c) k = None \<Longrightarrow> k \<notin> fst ` set (lru_abs c)"
  using lru_inv_items_None [of c k] unfolding lru_abs_keys by blast

lemma lru_present: "lru_inv c \<Longrightarrow> map_of (items c) k = Some p \<Longrightarrow> k \<in> fst ` set (lru_abs c)"
  using lru_inv_items_None [of c k] unfolding lru_abs_keys by (metis option.distinct(1))

lemma lru_inv_length_items: "lru_inv c \<Longrightarrow> length (items c) = length (evictionList c)"
proof -
  assume inv: "lru_inv c"
  then have d: "distinct (items c)" by (simp add: lru_inv_def distinct_map)
  have "inj_on (\<lambda>(p, k, v). (k, p)) (set (evictionList c))"
    using inv by (auto simp: inj_on_def lru_inv_def elist_wf_map_of [symmetric])
  then have "card (set (items c)) = card (set (evictionList c))"
    using inv by (simp add: lru_inv_def card_image)
  moreover have "distinct (evictionList c)"
    using inv by (simp add: lru_inv_def elist_wf_def distinct_map)
  ultimately show ?thesis using d by (simp add: distinct_card)
qed

lemma lru_abs_distinct: "lru_inv c \<Longrightarrow> distinct (map fst (lru_abs c))"
  by (simp add: lru_inv_def elist_wf_def lru_abs_def comp_def)

lemma lru_abs_lookup:
  assumes "lru_inv c"
  shows "lru_peek k c = map_of (lru_abs c) k"
proof (cases "map_of (items c) k")
  case None
  then have "map_of (lru_abs c) k = None"
    using lru_inv_items_None [OF assms, of k] by (simp add: map_of_eq_None_iff lru_abs_keys)
  with None show ?thesis by (simp add: lru_peek_def)
next
  case (Some p)
  with assms obtain v where v: "(p, k, v) \<in> set (evictionList c)" by (auto simp: lru_inv_items)
  with assms have "map_of (evictionList c) p = Some (k, v)"
    by (simp add: lru_inv_elist elist_wf_map_of)
  moreover have "map_of (lru_abs c) k = Some v"
    using v lru_abs_distinct [OF assms] by (force simp: lru_abs_def)
  ultimately show ?thesis using Some by (simp add: lru_peek_def)
qed

lemma lru_contains_abs: "lru_inv c \<Longrightarrow> lru_contains k c \<longleftrightarrow> k \<in> fst ` set (lru_abs c)"
  by (simp add: lru_contains_def lru_inv_items_None lru_abs_keys)

end
