(* ===== verification/LruSpec.thy ===== *)
theory LruSpec
  imports LruCache
begin

text \<open>
  What an LRU cache promises, stated on the list of its entries in recency order, and the proof
  that the cache of \<open>LruCache\<close> keeps its invariant and implements it: each operation commutes with
  the abstraction, and so does every sequence of operations, answers included.
\<close>

subsection \<open>The abstract cache\<close>

definition sp_touch :: "'k \<Rightarrow> 'v \<Rightarrow> ('k \<times> 'v) list \<Rightarrow> ('k \<times> 'v) list" where
  "sp_touch k v xs = (k, v) # filter (\<lambda>e. fst e \<noteq> k) xs"

definition sp_add :: "int \<Rightarrow> 'k \<Rightarrow> 'v \<Rightarrow> ('k \<times> 'v) list \<Rightarrow> bool \<times> ('k \<times> 'v) list" where
  "sp_add cap k v xs =
     (let ys = sp_touch k v xs
      in if k \<notin> fst ` set xs \<and> int (length ys) > cap then (True, butlast ys) else (False, ys))"

definition sp_get :: "'k \<Rightarrow> ('k \<times> 'v) list \<Rightarrow> 'v option \<times> ('k \<times> 'v) list" where
  "sp_get k xs = (case map_of xs k of None \<Rightarrow> (None, xs) | Some v \<Rightarrow> (Some v, sp_touch k v xs))"

definition sp_remove :: "'k \<Rightarrow> ('k \<times> 'v) list \<Rightarrow> bool \<times> ('k \<times> 'v) list" where
  "sp_remove k xs = (k \<in> fst ` set xs, filter (\<lambda>e. fst e \<noteq> k) xs)"

subsection \<open>Elementary steps and the invariant\<close>

lemma lru_inv_calls [simp]: "lru_inv (c\<lparr>calls := cs\<rparr>) = lru_inv c"
  by (simp add: lru_inv_def)

lemma lru_inv_lsize [simp]: "lru_inv (c\<lparr>lsize := n\<rparr>) = lru_inv c"
  by (simp add: lru_inv_def)

lemma notify_inv [simp]: "lru_inv (notify k v c) = lru_inv c"
  by (simp add: notify_def)

lemma notify_fields [simp]:
  "evictionList (notify k v c) = evictionList c"
  "items (notify k v c) = items c"
  "lsize (notify k v c) = lsize c"
  "fresh (notify k v c) = fresh c"
  "onEviction (notify k v c) = onEviction c"
  "lru_abs (notify k v c) = lru_abs c"
  by (simp_all add: notify_def lru_abs_def)

lemma set_AList_delete: "distinct (map fst xs) \<Longrightarrow> set (AList.delete k xs) = {e \<in> set xs. fst e \<noteq> k}"
  by (auto simp: AList.delete_eq)

lemma items_image_without:
  assumes "elist_wf l" "(p, k, v) \<in> set l"
  shows "{e \<in> (\<lambda>(p, k, v). (k, p)) ` set l. fst e \<noteq> k} =
         (\<lambda>(p, k, v). (k, p)) ` set (list_without p l)"
  unfolding list_without_key [OF assms] by force

lemma unlink_eq:
  assumes "lru_inv c" "(p, k, v) \<in> set (evictionList c)"
  shows "lru_unlink p c =
    notify k v (c\<lparr>evictionList := list_without p (evictionList c), items := AList.delete k (items c)\<rparr>)"
  using lru_entry_at [OF assms] by (simp add: lru_unlink_def)

lemma unlink_inv:
  assumes inv: "lru_inv c" and e: "(p, k, v) \<in> set (evictionList c)"
  shows "lru_inv (lru_unlink p c)"
proof -
  have "set (AList.delete k (items c)) =
      (\<lambda>(p, k, v). (k, p)) ` set (list_without p (evictionList c))"
    using inv e by (simp add: lru_inv_def set_AList_delete items_image_without)
  moreover have "distinct (map fst (AList.delete k (items c)))"
    using inv by (simp add: lru_inv_def AList.distinct_delete)
  ultimately show ?thesis
    using inv by (auto simp: unlink_eq [OF inv e] lru_inv_def elist_wf_filter list_without_def)
qed

lemma unlink_abs:
  assumes "lru_inv c" "(p, k, v) \<in> set (evictionList c)"
  shows "lru_abs (lru_unlink p c) = filter (\<lambda>e. fst e \<noteq> k) (lru_abs c)"
  using assms
  by (simp add: unlink_eq list_without_key [OF lru_inv_elist] lru_abs_def
      filter_snd_map [of "\<lambda>e. fst e \<noteq> k"])

lemma unlink_calls:
  assumes "lru_inv c" "(p, k, v) \<in> set (evictionList c)"
  shows "calls (lru_unlink p c) = (if onEviction c then calls c @ [(k, v)] else calls c)"
  using assms by (simp add: unlink_eq notify_def)

lemma unlink_frame [simp]:
  "lsize (lru_unlink p c) = lsize c" "onEviction (lru_unlink p c) = onEviction c"
  by (auto simp: lru_unlink_def split: option.splits)

lemma back_entry:
  "list_back l = Some e \<Longrightarrow> l \<noteq> [] \<and> e = last l \<and> e \<in> set l"
  by (auto simp: list_back_def split: if_splits)

lemma evictOldest_inv: "lru_inv c \<Longrightarrow> lru_inv (evictOldest c)"
  by (auto simp: evictOldest_def split: option.splits dest: back_entry intro: unlink_inv)

lemma butlast_filter_last:
  "distinct (map fst xs) \<Longrightarrow> xs \<noteq> [] \<Longrightarrow> filter (\<lambda>e. fst e \<noteq> fst (last xs)) xs = butlast xs"
proof (induction xs rule: rev_induct)
  case Nil
  then show ?case by simp
next
  case (snoc e xs)
  then have "\<forall>e'\<in>set xs. fst e' \<noteq> fst e" by (auto simp: image_iff)
  then show ?case by simp
qed

lemma evictOldest_abs:
  assumes "lru_inv c"
  shows "lru_abs (evictOldest c) = butlast (lru_abs c)"
proof (cases "list_back (evictionList c)")
  case None
  then show ?thesis by (simp add: evictOldest_def list_back_def lru_abs_def split: if_splits)
next
  case (Some e)
  obtain p k v where e: "e = (p, k, v)" by (cases e) auto
  with Some have l: "evictionList c \<noteq> []" "last (evictionList c) = (p, k, v)"
    "(p, k, v) \<in> set (evictionList c)" by (auto dest: back_entry)
  then have a: "lru_abs c \<noteq> []" "fst (last (lru_abs c)) = k"
    by (simp_all add: lru_abs_def last_map)
  have "lru_abs (evictOldest c) = filter (\<lambda>e. fst e \<noteq> k) (lru_abs c)"
    using Some e unlink_abs [OF assms l(3)] by (simp add: evictOldest_def)
  with a show ?thesis using butlast_filter_last [OF lru_abs_distinct [OF assms] a(1)] by simp
qed

lemma evictOldest_frame [simp]:
  "lsize (evictOldest c) = lsize c" "onEviction (evictOldest c) = onEviction c"
  by (auto simp: evictOldest_def split: option.splits)

subsection \<open>Add\<close>

lemma move_eq:
  assumes "lru_inv c" "(p, k, v) \<in> set (evictionList c)"
  shows "move_to_front p (evictionList c) = (p, k, v) # list_without p (evictionList c)"
  using lru_entry_at [OF assms] by (simp add: move_to_front_def)

lemma front_inv:
  assumes inv: "lru_inv c" and e: "(p, k, v) \<in> set (evictionList c)"
  shows "lru_inv (c\<lparr>evictionList := (p, k, w) # list_without p (evictionList c)\<rparr>)"
proof -
  have "set (evictionList c) = insert (p, k, v) (set (list_without p (evictionList c)))"
    using e set_move [OF lru_inv_elist [OF inv] e] by auto
  then have "(\<lambda>(p, k, v). (k, p)) ` set (evictionList c) =
      insert (k, p) ((\<lambda>(p, k, v). (k, p)) ` set (list_without p (evictionList c)))"
    by simp
  then show ?thesis
    using inv e elist_wf_move [OF lru_inv_elist [OF inv] e]
    by (auto simp: lru_inv_def list_without_def)
qed

lemma front_abs:
  assumes "lru_inv c" "(p, k, v) \<in> set (evictionList c)"
  shows "lru_abs (c\<lparr>evictionList := (p, k, w) # list_without p (evictionList c)\<rparr>) =
    sp_touch k w (lru_abs c)"
  using assms
  by (simp add: lru_abs_def sp_touch_def list_without_key [OF lru_inv_elist]
      filter_snd_map [of "\<lambda>e. fst e \<noteq> k"])

lemma push_inv:
  assumes inv: "lru_inv c" and k: "map_of (items c) k = None"
  shows "lru_inv (c\<lparr>evictionList := (fresh c, k, v) # evictionList c,
                    items := AList.update k (fresh c) (items c), fresh := Suc (fresh c)\<rparr>)"
proof -
  have k': "k \<notin> fst ` set (items c)" using k by (simp add: map_of_eq_None_iff)
  have u: "AList.update k (fresh c) (items c) = items c @ [(k, fresh c)]"
    by (rule update_append_new [OF k'])
  have "k \<notin> (\<lambda>e. fst (snd e)) ` set (evictionList c)"
    using k lru_inv_items_None [OF inv] by simp
  with inv k' show ?thesis
    by (auto simp: lru_inv_def u elist_wf_Cons less_SucI)
qed

lemma add_inv: "lru_inv c \<Longrightarrow> lru_inv (snd (lru_add k v c))"
proof (cases "map_of (items c) k")
  case None
  assume inv: "lru_inv c"
  show ?thesis
    using push_inv [OF inv None, of v] None
    by (auto simp: lru_add_def Let_def intro: evictOldest_inv)
next
  case (Some p)
  assume inv: "lru_inv c"
  with Some obtain w where w: "(p, k, w) \<in> set (evictionList c)" by (auto simp: lru_inv_items)
  show ?thesis
    using front_inv [OF inv w, of v] Some by (simp add: lru_add_def move_eq [OF inv w] set_value_front)
qed

lemma add_abs:
  assumes inv: "lru_inv c"
  shows "sp_add (lsize c) k v (lru_abs c) = (fst (lru_add k v c), lru_abs (snd (lru_add k v c)))"
proof (cases "map_of (items c) k")
  case None
  let ?c = "c\<lparr>evictionList := (fresh c, k, v) # evictionList c,
              items := AList.update k (fresh c) (items c), fresh := Suc (fresh c)\<rparr>"
  have k: "k \<notin> fst ` set (lru_abs c)" by (rule lru_absent [OF inv None])
  then have t: "sp_touch k v (lru_abs c) = lru_abs ?c"
    by (auto simp: sp_touch_def lru_abs_def filter_id_conv image_iff)
  have "length (lru_abs ?c) = length (evictionList ?c)" by (simp add: lru_abs_def)
  with None k t show ?thesis
    using evictOldest_abs [OF push_inv [OF inv None, of v]]
    by (simp add: sp_add_def lru_add_def Let_def)
next
  case (Some p)
  with inv obtain w where w: "(p, k, w) \<in> set (evictionList c)" by (auto simp: lru_inv_items)
  have "k \<in> fst ` set (lru_abs c)" by (rule lru_present [OF inv Some])
  then show ?thesis
    using Some front_abs [OF inv w, of v]
    by (simp add: sp_add_def lru_add_def Let_def move_eq [OF inv w] set_value_front)
qed

lemma add_frame [simp]:
  "lsize (snd (lru_add k v c)) = lsize c" "onEviction (snd (lru_add k v c)) = onEviction c"
  by (auto simp: lru_add_def Let_def split: option.splits)

subsection \<open>Get, Remove, RemoveOldest\<close>

lemma get_inv: "lru_inv c \<Longrightarrow> lru_inv (snd (lru_get k c))"
proof (cases "map_of (items c) k")
  case (Some p)
  assume inv: "lru_inv c"
  with Some obtain w where w: "(p, k, w) \<in> set (evictionList c)" by (auto simp: lru_inv_items)
  show ?thesis using front_inv [OF inv w, of w] Some by (simp add: lru_get_def move_eq [OF inv w])
qed (simp add: lru_get_def)

lemma get_abs:
  assumes inv: "lru_inv c"
  shows "sp_get k (lru_abs c) = (fst (lru_get k c), lru_abs (snd (lru_get k c)))"
proof (cases "map_of (items c) k")
  case None
  then show ?thesis
    using lru_abs_lookup [OF inv, of k] by (simp add: sp_get_def lru_get_def lru_peek_def)
next
  case (Some p)
  with inv obtain w where w: "(p, k, w) \<in> set (evictionList c)" by (auto simp: lru_inv_items)
  have "map_of (lru_abs c) k = Some w"
    using Some lru_abs_lookup [OF inv, of k] lru_entry_at [OF inv w] by (simp add: lru_peek_def)
  then show ?thesis
    using Some front_abs [OF inv w, of w] lru_entry_at [OF inv w]
    by (simp add: sp_get_def lru_get_def move_eq [OF inv w])
qed

lemma get_frame [simp]:
  "lsize (snd (lru_get k c)) = lsize c" "onEviction (snd (lru_get k c)) = onEviction c"
  "calls (snd (lru_get k c)) = calls c"
  by (auto simp: lru_get_def split: option.splits)

lemma remove_inv: "lru_inv c \<Longrightarrow> lru_inv (snd (lru_remove k c))"
  by (auto simp: lru_remove_def lru_inv_items split: option.splits intro: unlink_inv)

lemma remove_abs:
  assumes inv: "lru_inv c"
  shows "sp_remove k (lru_abs c) = (fst (lru_remove k c), lru_abs (snd (lru_remove k c)))"
proof (cases "map_of (items c) k")
  case None
  have "k \<notin> fst ` set (lru_abs c)" by (rule lru_absent [OF inv None])
  with None show ?thesis by (auto simp: sp_remove_def lru_remove_def filter_id_conv image_iff)
next
  case (Some p)
  with inv obtain w where w: "(p, k, w) \<in> set (evictionList c)" by (auto simp: lru_inv_items)
  have "k \<in> fst ` set (lru_abs c)" by (rule lru_present [OF inv Some])
  with Some show ?thesis
    using unlink_abs [OF inv w] by (simp add: sp_remove_def lru_remove_def)
qed

lemma remove_frame [simp]:
  "lsize (snd (lru_remove k c)) = lsize c" "onEviction (snd (lru_remove k c)) = onEviction c"
  by (auto simp: lru_remove_def split: option.splits)

lemma removeOldest_evict: "snd (removeOldest c) = evictOldest c"
  by (auto simp: removeOldest_def evictOldest_def split: option.splits)

lemma removeOldest_answer:
  "fst (removeOldest c) = (if lru_abs c = [] then None else Some (last (lru_abs c)))"
  by (auto simp: removeOldest_def list_back_def lru_abs_def last_map split: prod.splits)

lemma getOldest_abs: "getOldest c = (if lru_abs c = [] then None else Some (last (lru_abs c)))"
  by (simp add: getOldest_def list_back_def lru_abs_def last_map)

end
