(* ===== verification/LruRuns.thy ===== *)
theory LruRuns
  imports LruSpec
begin

text \<open>
  Sequences of operations on the LRU cache: the remaining operations, the run of a list of
  operations with its answers, the refinement of the abstract cache by every run, the capacity
  bound, the callback's accounting, and the retention guarantee of the LRU policy.
\<close>

datatype ('k, 'v) cache_op =
  OpAdd 'k 'v | OpGet 'k | OpContains 'k | OpPeek 'k | OpRemove 'k | OpRemoveOldest
| OpGetOldest | OpKeys | OpLen | OpClear | OpResize int

datatype ('k, 'v) cache_answer =
  ABool bool | AValue "'v option" | AEntry "('k \<times> 'v) option" | AKeys "'k option list option"
| ANum int | AUnit

fun lru_step :: "('k, 'v) lru \<Rightarrow> ('k, 'v) cache_op \<Rightarrow> ('k, 'v) cache_answer \<times> ('k, 'v) lru" where
  "lru_step c (OpAdd k v) = map_prod ABool id (lru_add k v c)"
| "lru_step c (OpGet k) = map_prod AValue id (lru_get k c)"
| "lru_step c (OpContains k) = (ABool (lru_contains k c), c)"
| "lru_step c (OpPeek k) = (AValue (lru_peek k c), c)"
| "lru_step c (OpRemove k) = map_prod ABool id (lru_remove k c)"
| "lru_step c OpRemoveOldest = map_prod AEntry id (removeOldest c)"
| "lru_step c OpGetOldest = (AEntry (getOldest c), c)"
| "lru_step c OpKeys = (AKeys (lru_keys c), c)"
| "lru_step c OpLen = (ANum (int (lru_len c)), c)"
| "lru_step c OpClear = (AUnit, lru_clear c)"
| "lru_step c (OpResize n) = map_prod ANum id (resize n c)"

fun lru_run :: "('k, 'v) lru \<Rightarrow> ('k, 'v) cache_op list \<Rightarrow> ('k, 'v) cache_answer list \<times> ('k, 'v) lru" where
  "lru_run c [] = ([], c)"
| "lru_run c (x # xs) = (let (a, c') = lru_step c x; (as, c'') = lru_run c' xs in (a # as, c''))"

subsection \<open>The abstract run\<close>

definition sp_oldest :: "('k \<times> 'v) list \<Rightarrow> ('k \<times> 'v) option" where
  "sp_oldest xs = (if xs = [] then None else Some (last xs))"

type_synonym ('k, 'v) spec_state = "int \<times> ('k \<times> 'v) list"

fun sp_step :: "('k, 'v) spec_state \<Rightarrow> ('k, 'v) cache_op \<Rightarrow> ('k, 'v) cache_answer \<times> ('k, 'v) spec_state" where
  "sp_step (n, xs) (OpAdd k v) = map_prod ABool (Pair n) (sp_add n k v xs)"
| "sp_step (n, xs) (OpGet k) = map_prod AValue (Pair n) (sp_get k xs)"
| "sp_step (n, xs) (OpContains k) = (ABool (k \<in> fst ` set xs), n, xs)"
| "sp_step (n, xs) (OpPeek k) = (AValue (map_of xs k), n, xs)"
| "sp_step (n, xs) (OpRemove k) = map_prod ABool (Pair n) (sp_remove k xs)"
| "sp_step (n, xs) OpRemoveOldest = (AEntry (sp_oldest xs), n, butlast xs)"
| "sp_step (n, xs) OpGetOldest = (AEntry (sp_oldest xs), n, xs)"
| "sp_step (n, xs) OpKeys = (AKeys (Some (map (\<lambda>e. Some (fst e)) (rev xs))), n, xs)"
| "sp_step (n, xs) OpLen = (ANum (int (length xs)), n, xs)"
| "sp_step (n, xs) OpClear = (AUnit, n, [])"
| "sp_step (n, xs) (OpResize m) =
     (ANum (max 0 (int (length xs) - m)), m, take (length xs - nat (max 0 (int (length xs) - m))) xs)"

fun sp_run :: "('k, 'v) spec_state \<Rightarrow> ('k, 'v) cache_op list \<Rightarrow> ('k, 'v) cache_answer list \<times> ('k, 'v) spec_state" where
  "sp_run s [] = ([], s)"
| "sp_run s (x # xs) = (let (a, s') = sp_step s x; (as, s'') = sp_run s' xs in (a # as, s''))"

definition lru_view :: "('k, 'v) lru \<Rightarrow> ('k, 'v) spec_state" where
  "lru_view c = (lsize c, lru_abs c)"

subsection \<open>Keys, Resize and Clear\<close>

lemma keys_abs: "lru_inv c \<Longrightarrow> lru_keys c = Some (map (\<lambda>e. Some (fst e)) (rev (lru_abs c)))"
  by (simp add: lru_keys_def Let_def lru_inv_length_items lru_abs_def rev_map)

lemma evict_pow_inv: "lru_inv c \<Longrightarrow> lru_inv ((evictOldest ^^ n) c)"
  by (induction n) (auto intro: evictOldest_inv)

lemma evict_pow_abs: "lru_inv c \<Longrightarrow> lru_abs ((evictOldest ^^ n) c) = take (length (lru_abs c) - n) (lru_abs c)"
  by (induction n) (auto simp: evictOldest_abs evict_pow_inv butlast_take)

lemma evict_pow_frame [simp]:
  "lsize ((evictOldest ^^ n) c) = lsize c" "onEviction ((evictOldest ^^ n) c) = onEviction c"
  by (induction n) auto

lemma lru_abs_update [simp]: "lru_abs (c\<lparr>lsize := n\<rparr>) = lru_abs c" "lru_abs (c\<lparr>calls := cs\<rparr>) = lru_abs c"
  by (simp_all add: lru_abs_def)

lemma length_lru_abs: "length (lru_abs c) = lru_len c"
  by (simp add: lru_abs_def lru_len_def)

lemma clear_loop_frame [simp]:
  "lsize (clear_loop ks c) = lsize c" "onEviction (clear_loop ks c) = onEviction c"
  "evictionList (clear_loop ks c) = evictionList c" "fresh (clear_loop ks c) = fresh c"
  by (induction ks c rule: clear_loop.induct) (auto split: option.splits)

lemma delete_first: "distinct (map fst ((k, p) # kps)) \<Longrightarrow> AList.delete k ((k, p) # kps) = kps"
  by (simp add: AList.delete_eq filter_id_conv) (force simp: image_iff)

lemma clear_loop_items: "distinct (map fst ks) \<Longrightarrow> items c = ks \<Longrightarrow> items (clear_loop ks c) = []"
proof (induction ks c rule: clear_loop.induct)
  case (1 c)
  then show ?case by simp
next
  case (2 k p kps c)
  then show ?case using delete_first [of k p kps] by (auto split: option.splits)
qed

lemma clear_inv: "lru_inv c \<Longrightarrow> lru_inv (lru_clear c)"
  by (simp add: lru_clear_def lru_inv_def clear_loop_items elist_wf_def)

lemma clear_abs: "lru_abs (lru_clear c) = []"
  by (simp add: lru_clear_def lru_abs_def)

subsection \<open>Every run refines the abstract cache\<close>

lemma lru_step_inv: "lru_inv c \<Longrightarrow> lru_inv (snd (lru_step c x))"
  by (cases x)
     (auto simp: add_inv get_inv remove_inv removeOldest_evict evictOldest_inv clear_inv resize_def
       Let_def evict_pow_inv)

lemma lru_step_view:
  assumes inv: "lru_inv c"
  shows "sp_step (lru_view c) x = (fst (lru_step c x), lru_view (snd (lru_step c x)))"
proof (cases x)
  case (OpAdd k v)
  then show ?thesis using add_abs [OF inv, of k v] by (simp add: lru_view_def)
next
  case (OpGet k)
  then show ?thesis using get_abs [OF inv, of k] by (simp add: lru_view_def)
next
  case (OpRemove k)
  then show ?thesis using remove_abs [OF inv, of k] by (simp add: lru_view_def)
next
  case (OpResize n)
  then show ?thesis
    by (simp add: lru_view_def resize_def Let_def evict_pow_abs inv length_lru_abs)
qed (simp_all add: lru_view_def lru_contains_abs inv lru_abs_lookup sp_oldest_def removeOldest_answer
      removeOldest_evict evictOldest_abs getOldest_abs keys_abs length_lru_abs clear_abs, simp add: lru_clear_def)

lemma lru_run_refines:
  "lru_inv c \<Longrightarrow> sp_run (lru_view c) xs = (fst (lru_run c xs), lru_view (snd (lru_run c xs)))
     \<and> lru_inv (snd (lru_run c xs))"
proof (induction xs arbitrary: c)
  case Nil
  then show ?case by simp
next
  case (Cons x xs)
  have "lru_inv (snd (lru_step c x))" using Cons.prems by (rule lru_step_inv)
  from Cons.IH [OF this] show ?case
    by (simp add: lru_step_view [OF Cons.prems] case_prod_unfold Let_def)
qed

lemma newLRU_inv: "newLRU sz cb = Inr c \<Longrightarrow> lru_inv c \<and> lru_view c = (sz, []) \<and> 0 \<le> sz"
  by (auto simp: newLRU_def lru_inv_def elist_wf_def lru_view_def lru_abs_def split: if_splits)

subsection \<open>Capacity\<close>

lemma lru_bounded_view: "lru_bounded c \<longleftrightarrow> int (length (snd (lru_view c))) \<le> max 0 (fst (lru_view c))"
  by (simp add: lru_bounded_def lru_view_def lru_abs_def)

definition sp_bounded :: "('k, 'v) spec_state \<Rightarrow> bool" where
  "sp_bounded s \<longleftrightarrow> int (length (snd s)) \<le> max 0 (fst s)"

lemma length_touch_in:
  assumes "distinct (map fst xs)" "k \<in> fst ` set xs"
  shows "length (sp_touch k v xs) = length xs"
proof -
  have "map fst (filter (\<lambda>e. fst e \<noteq> k) xs) = removeAll k (map fst xs)"
    by (induction xs) auto
  then have "length (filter (\<lambda>e. fst e \<noteq> k) xs) = length (removeAll k (map fst xs))"
    by (metis length_map)
  also have "\<dots> = length xs - 1"
    using assms by (simp add: distinct_remove1_removeAll [symmetric] length_remove1)
  finally show ?thesis using assms(2) by (cases xs) (auto simp: sp_touch_def)
qed

lemma touch_notin: "k \<notin> fst ` set xs \<Longrightarrow> sp_touch k v xs = (k, v) # xs"
  by (auto simp: sp_touch_def filter_id_conv image_iff)

lemma touch_keys: "fst ` set (sp_touch k v xs) = insert k (fst ` set xs)"
  by (auto simp: sp_touch_def image_iff)

lemma touch_distinct: "distinct (map fst xs) \<Longrightarrow> distinct (map fst (sp_touch k v xs))"
  by (auto simp: sp_touch_def distinct_map inj_on_def)

lemma sp_add_distinct: "distinct (map fst xs) \<Longrightarrow> distinct (map fst (snd (sp_add n k v xs)))"
  using touch_distinct [of xs k v]
  by (auto simp: sp_add_def Let_def map_butlast distinct_butlast)

lemma sp_step_distinct:
  "distinct (map fst (snd s)) \<Longrightarrow> distinct (map fst (snd (snd (sp_step s x))))"
  by (cases s; cases x)
     (auto simp: sp_add_distinct sp_get_def touch_distinct sp_remove_def map_butlast distinct_butlast
       distinct_map_filter take_map [symmetric] split: option.splits)

lemma sp_step_bounded:
  assumes "distinct (map fst (snd s))" "sp_bounded s"
  shows "sp_bounded (snd (sp_step s x))"
proof (cases s)
  case (Pair n xs)
  have f: "length (filter (\<lambda>e. fst e \<noteq> k) xs) \<le> length xs" for k by (rule length_filter_le)
  show ?thesis
  proof (cases x)
    case (OpAdd k v)
    then show ?thesis
      using assms Pair length_touch_in [of xs k v] touch_notin [of k xs v]
      by (auto simp: sp_bounded_def sp_add_def Let_def)
  next
    case (OpGet k)
    then show ?thesis
      using assms Pair length_touch_in [of xs k]
      by (auto simp: sp_bounded_def sp_get_def map_of_eq_None_iff split: option.splits
          dest!: map_of_SomeD) (force simp: image_iff)
  next
    case (OpRemove k)
    have "int (length xs) \<le> max 0 n" using assms Pair by (simp add: sp_bounded_def)
    with f [of k] have "int (length (filter (\<lambda>e. fst e \<noteq> k) xs)) \<le> max 0 n" by linarith
    with OpRemove show ?thesis using Pair by (simp add: sp_bounded_def sp_remove_def)
  next
    case (OpResize m)
    then show ?thesis using assms Pair by (auto simp: sp_bounded_def)
  qed (use assms Pair in \<open>auto simp: sp_bounded_def\<close>)
qed

lemma sp_run_bounded:
  "distinct (map fst (snd s)) \<Longrightarrow> sp_bounded s \<Longrightarrow> sp_bounded (snd (sp_run s xs))"
proof (induction xs arbitrary: s)
  case Nil
  then show ?case by simp
next
  case (Cons x xs)
  then have "sp_bounded (snd (sp_run (snd (sp_step s x)) xs))"
    by (intro Cons.IH sp_step_distinct sp_step_bounded)
  then show ?case by (simp add: case_prod_unfold Let_def)
qed


lemma lru_run_bounded:
  assumes "lru_inv c" "lru_bounded c"
  shows "lru_bounded (snd (lru_run c xs))"
proof -
  have "distinct (map fst (snd (lru_view c)))"
    using lru_abs_distinct [OF assms(1)] by (simp add: lru_view_def)
  moreover have "sp_bounded (lru_view c)" using assms(2) by (simp add: sp_bounded_def lru_bounded_view)
  ultimately have "sp_bounded (snd (sp_run (lru_view c) xs))" by (rule sp_run_bounded)
  then show ?thesis
    using lru_run_refines [OF assms(1), of xs] by (simp add: sp_bounded_def lru_bounded_view)
qed

subsection \<open>The callback's accounting\<close>

text \<open>The keys the callback has been told of, and those still in the cache.\<close>

definition accounted :: "('k, 'v) lru \<Rightarrow> 'k multiset" where
  "accounted c = mset (map fst (calls c)) + mset (map fst (lru_abs c))"

definition inserted_key :: "('k, 'v) lru \<Rightarrow> ('k, 'v) cache_op \<Rightarrow> 'k multiset" where
  "inserted_key c x = (case x of OpAdd k v \<Rightarrow> if lru_contains k c then {#} else {#k#} | _ \<Rightarrow> {#})"

fun inserted_keys :: "('k, 'v) lru \<Rightarrow> ('k, 'v) cache_op list \<Rightarrow> 'k multiset" where
  "inserted_keys c [] = {#}"
| "inserted_keys c (x # xs) = inserted_key c x + inserted_keys (snd (lru_step c x)) xs"

lemma mset_distinct_split:
  "distinct ks \<Longrightarrow> k \<in> set ks \<Longrightarrow> mset ks = add_mset k (mset (filter (\<lambda>j. j \<noteq> k) ks))"
  by (metis insert_DiffM mset_remove1 remove1_filter_distinct set_mset_mset)

lemma map_fst_filter: "map fst (filter (\<lambda>e. fst e \<noteq> k) xs) = filter (\<lambda>j. j \<noteq> k) (map fst xs)"
  by (induction xs) auto

lemma unlink_accounted:
  assumes "lru_inv c" "onEviction c" "(p, k, v) \<in> set (evictionList c)"
  shows "accounted (lru_unlink p c) = accounted c"
proof -
  have "k \<in> set (map fst (lru_abs c))" using assms(3) by (force simp: lru_abs_def)
  from mset_distinct_split [OF lru_abs_distinct [OF assms(1)] this]
  have "mset (map fst (lru_abs c)) =
      add_mset k (mset (map fst (filter (\<lambda>e. fst e \<noteq> k) (lru_abs c))))"
    unfolding map_fst_filter .
  then show ?thesis
    by (simp only: accounted_def unlink_calls [OF assms(1,3)] unlink_abs [OF assms(1,3)] assms(2)
        if_True map_append mset_append) simp
qed

lemma evictOldest_accounted: "lru_inv c \<Longrightarrow> onEviction c \<Longrightarrow> accounted (evictOldest c) = accounted c"
  by (auto simp: evictOldest_def split: option.splits dest: back_entry intro: unlink_accounted)

lemma evict_pow_accounted:
  "lru_inv c \<Longrightarrow> onEviction c \<Longrightarrow> accounted ((evictOldest ^^ n) c) = accounted c"
  by (induction n) (simp_all add: evictOldest_accounted evict_pow_inv)

lemma clear_loop_calls:
  assumes "onEviction c" "\<forall>e\<in>set ks. map_of (evictionList c) (snd e) \<noteq> None"
  shows "map fst (calls (clear_loop ks c)) = map fst (calls c) @ map fst ks"
  using assms by (induction ks c rule: clear_loop.induct) (auto simp: notify_def)

lemma clear_accounted:
  assumes inv: "lru_inv c" and cb: "onEviction c"
  shows "accounted (lru_clear c) = accounted c"
proof -
  have "map_of (evictionList c) (snd e) \<noteq> None" if "e \<in> set (items c)" for e
    using inv that lru_entry_at [OF inv] by (auto simp: lru_inv_def)
  then have m: "map fst (calls (clear_loop (items c) c)) = map fst (calls c) @ map fst (items c)"
    using clear_loop_calls [OF cb, of "items c"] by blast
  have "set (map fst (items c)) = set (map fst (lru_abs c))"
    using inv by (simp add: lru_inv_def lru_abs_def image_image case_prod_unfold)
  then have "mset (map fst (items c)) = mset (map fst (lru_abs c))"
    using inv lru_abs_distinct [OF inv] by (subst set_eq_iff_mset_eq_distinct [symmetric]) (auto simp: lru_inv_def)
  then show ?thesis
    unfolding accounted_def clear_abs using m by (simp add: lru_clear_def del: mset_map)
qed

lemma add_accounted:
  assumes inv: "lru_inv c" and cb: "onEviction c"
  shows "accounted (snd (lru_add k v c)) = accounted c + (if lru_contains k c then {#} else {#k#})"
proof (cases "map_of (items c) k")
  case None
  let ?c = "c\<lparr>evictionList := (fresh c, k, v) # evictionList c,
              items := AList.update k (fresh c) (items c), fresh := Suc (fresh c)\<rparr>"
  have "accounted ?c = add_mset k (accounted c)" by (simp add: accounted_def lru_abs_def)
  with None show ?thesis
    using evictOldest_accounted [OF push_inv [OF inv None, of v]] cb
    by (simp add: lru_add_def lru_contains_def Let_def)
next
  case (Some p)
  with inv obtain w where w: "(p, k, w) \<in> set (evictionList c)" by (auto simp: lru_inv_items)
  have "k \<in> set (map fst (lru_abs c))" using w by (force simp: lru_abs_def)
  from mset_distinct_split [OF lru_abs_distinct [OF inv] this]
  have "mset (map fst (sp_touch k v (lru_abs c))) = mset (map fst (lru_abs c))"
    unfolding sp_touch_def list.map map_fst_filter by simp
  then show ?thesis
    using Some front_abs [OF inv w, of v]
    by (simp add: accounted_def lru_add_def lru_contains_def move_eq [OF inv w] set_value_front del: mset_map)
qed

lemma get_accounted:
  assumes inv: "lru_inv c"
  shows "accounted (snd (lru_get k c)) = accounted c"
proof (cases "map_of (items c) k")
  case (Some p)
  with inv obtain w where w: "(p, k, w) \<in> set (evictionList c)" by (auto simp: lru_inv_items)
  have "k \<in> set (map fst (lru_abs c))" using w by (force simp: lru_abs_def)
  from mset_distinct_split [OF lru_abs_distinct [OF inv] this]
  have "mset (map fst (sp_touch k w (lru_abs c))) = mset (map fst (lru_abs c))"
    unfolding sp_touch_def list.map map_fst_filter by simp
  then show ?thesis
    using Some front_abs [OF inv w, of w]
    by (simp add: accounted_def lru_get_def move_eq [OF inv w] del: mset_map)
qed (simp add: lru_get_def)

lemma lru_step_accounted:
  assumes "lru_inv c" "onEviction c"
  shows "accounted (snd (lru_step c x)) = accounted c + inserted_key c x"
proof (cases x)
  case (OpRemove k)
  then show ?thesis using assms
    by (auto simp: inserted_key_def lru_remove_def lru_inv_items split: option.splits
        intro: unlink_accounted)
next
  case (OpResize n)
  have "accounted (d\<lparr>lsize := n\<rparr>) = accounted d" for d :: "('a, 'b) lru"
    by (simp add: accounted_def)
  with OpResize show ?thesis using assms
    by (simp add: inserted_key_def resize_def Let_def evict_pow_accounted)
qed (simp_all add: inserted_key_def add_accounted get_accounted removeOldest_evict assms
       evictOldest_accounted clear_accounted)

lemma step_onEviction [simp]: "onEviction (snd (lru_step c x)) = onEviction c"
  by (cases x) (simp_all add: removeOldest_evict resize_def Let_def lru_clear_def)

lemma lru_run_accounted:
  "lru_inv c \<Longrightarrow> onEviction c \<Longrightarrow> accounted (snd (lru_run c xs)) = accounted c + inserted_keys c xs"
proof (induction xs arbitrary: c)
  case Nil
  then show ?case by simp
next
  case (Cons x xs)
  have "accounted (snd (lru_run (snd (lru_step c x)) xs)) =
      accounted (snd (lru_step c x)) + inserted_keys (snd (lru_step c x)) xs"
    using Cons.prems by (intro Cons.IH) (simp_all add: lru_step_inv)
  then show ?case
    by (simp add: lru_step_accounted [OF Cons.prems] case_prod_unfold Let_def ac_simps)
qed

subsection \<open>What a recently used key is promised\<close>

text \<open>
  The operations that cannot lose \<open>k\<close> except by eviction, and the keys an operation brings to the
  front. A key is lost only after as many other keys as the cache holds have been used.
\<close>

fun keeps_key :: "'k \<Rightarrow> ('k, 'v) cache_op \<Rightarrow> bool" where
  "keeps_key k (OpRemove j) \<longleftrightarrow> j \<noteq> k"
| "keeps_key k OpRemoveOldest \<longleftrightarrow> False"
| "keeps_key k OpClear \<longleftrightarrow> False"
| "keeps_key k (OpResize n) \<longleftrightarrow> False"
| "keeps_key k _ \<longleftrightarrow> True"

fun used_keys :: "('k, 'v) cache_op \<Rightarrow> 'k set" where
  "used_keys (OpAdd k v) = {k}"
| "used_keys (OpGet k) = {k}"
| "used_keys _ = {}"

definition ahead :: "'k \<Rightarrow> ('k \<times> 'v) list \<Rightarrow> ('k \<times> 'v) list" where
  "ahead k xs = takeWhile (\<lambda>e. fst e \<noteq> k) xs"

lemma ahead_filter: "j \<noteq> k \<Longrightarrow> ahead k (filter (\<lambda>e. fst e \<noteq> j) xs) = filter (\<lambda>e. fst e \<noteq> j) (ahead k xs)"
  by (induction xs) (auto simp: ahead_def)

lemma ahead_last:
  "distinct (map fst xs) \<Longrightarrow> k \<in> fst ` set xs \<Longrightarrow> k \<notin> fst ` set (butlast xs) \<Longrightarrow> ahead k xs = butlast xs"
proof (induction xs rule: rev_induct)
  case Nil
  then show ?case by simp
next
  case (snoc e xs)
  then have "fst e = k" "\<forall>e'\<in>set xs. fst e' \<noteq> k" by (auto simp: image_iff)
  then show ?case by (simp add: ahead_def)
qed

lemma ahead_butlast: "k \<in> fst ` set (butlast xs) \<Longrightarrow> ahead k (butlast xs) = ahead k xs"
proof (induction xs rule: rev_induct)
  case (snoc e xs)
  then have "\<exists>e'\<in>set xs. \<not> fst e' \<noteq> k" by (force simp: image_iff)
  then show ?case by (auto simp: ahead_def takeWhile_append)
qed simp

definition retained :: "'k \<Rightarrow> 'k set \<Rightarrow> ('k, 'v) spec_state \<Rightarrow> bool" where
  "retained k T s \<longleftrightarrow> distinct (map fst (snd s)) \<and> k \<in> fst ` set (snd s) \<and>
     fst ` set (ahead k (snd s)) \<subseteq> T"

lemma retained_touch:
  assumes "retained k T (n, xs)"
  shows "retained k (T \<union> ({j} - {k})) (n, sp_touch j w xs)"
proof (cases "j = k")
  case True
  then show ?thesis
    using assms touch_distinct [of xs k w] by (auto simp: retained_def touch_keys sp_touch_def ahead_def)
next
  case False
  then have "ahead k (sp_touch j w xs) = (j, w) # filter (\<lambda>e. fst e \<noteq> j) (ahead k xs)"
    using ahead_filter [OF False, of xs] by (simp add: sp_touch_def ahead_def)
  then show ?thesis
    using assms False touch_distinct [of xs j w] by (auto simp: retained_def touch_keys)
qed

lemma retained_butlast:
  assumes r: "retained k T (n, ys)" and T: "finite T" "card T < nat n" and l: "n < int (length ys)"
  shows "retained k T (n, butlast ys)"
proof -
  have d: "distinct (map fst ys)" and k: "k \<in> fst ` set ys" and a: "fst ` set (ahead k ys) \<subseteq> T"
    using r by (simp_all add: retained_def)
  have "k \<in> fst ` set (butlast ys)"
  proof (rule ccontr)
    assume n: "k \<notin> fst ` set (butlast ys)"
    have "length (butlast ys) = card (set (map fst (butlast ys)))"
      using d by (metis distinct_butlast distinct_card length_map map_butlast)
    also have "\<dots> \<le> card T" using a n ahead_last [OF d k n] by (simp add: card_mono T(1))
    finally show False using T(2) l by simp
  qed
  then show ?thesis
    using d a by (simp add: retained_def ahead_butlast map_butlast distinct_butlast)
qed

lemma retained_mono: "retained k T s \<Longrightarrow> T \<subseteq> T' \<Longrightarrow> retained k T' s"
  by (auto simp: retained_def)

lemma retained_step:
  assumes r: "retained k T s" and x: "keeps_key k x"
    and T: "finite T" "card (T \<union> (used_keys x - {k})) < nat (fst s)"
  shows "retained k (T \<union> (used_keys x - {k})) (snd (sp_step s x)) \<and> fst (snd (sp_step s x)) = fst s"
proof (cases s)
  case s: (Pair n xs)
  have split: "retained k U (m, ys) \<longleftrightarrow> retained k U (m', ys)" for U m m' and ys :: "('a \<times> 'b) list"
    by (simp add: retained_def)
  show ?thesis
  proof (cases x)
    case (OpAdd j v)
    have t: "retained k (T \<union> ({j} - {k})) (n, sp_touch j v xs)"
      using r s by (auto intro: retained_touch)
    then have "retained k (T \<union> ({j} - {k})) (n, butlast (sp_touch j v xs))"
      if "n < int (length (sp_touch j v xs))"
      using retained_butlast [OF t _ _ that] T s OpAdd by simp
    with t s OpAdd show ?thesis by (auto simp: sp_add_def Let_def)
  next
    case (OpGet j)
    then show ?thesis
      using r s retained_touch [of k T n xs j]
      by (auto simp: sp_get_def split: option.splits elim: retained_mono)
  next
    case (OpRemove j)
    then have "j \<noteq> k" using x by simp
    then show ?thesis
      using r s OpRemove ahead_filter [of j k xs] by (auto simp: sp_remove_def retained_def distinct_map_filter)
  qed (use r s x in simp_all)
qed

lemma retained_run:
  assumes "retained k T s" "\<forall>x\<in>set xs. keeps_key k x" "finite T"
    "card (T \<union> (\<Union>(used_keys ` set xs) - {k})) < nat (fst s)"
  shows "k \<in> fst ` set (snd (snd (sp_run s xs)))"
  using assms
proof (induction xs arbitrary: s T)
  case Nil
  then show ?case by (simp add: retained_def)
next
  case (Cons x xs)
  let ?T = "T \<union> (used_keys x - {k})"
  have fin: "finite (used_keys y)" for y :: "('a, 'b) cache_op" by (cases y) simp_all
  have e: "T \<union> (\<Union>(used_keys ` set (x # xs)) - {k}) = ?T \<union> (\<Union>(used_keys ` set xs) - {k})" by auto
  have "card ?T \<le> card (?T \<union> (\<Union>(used_keys ` set xs) - {k}))"
    using Cons.prems(3) fin by (intro card_mono) auto
  then have "card ?T < nat (fst s)" using Cons.prems(4) unfolding e by simp
  then have st: "retained k ?T (snd (sp_step s x)) \<and> fst (snd (sp_step s x)) = fst s"
    using Cons.prems by (intro retained_step) auto
  have "k \<in> fst ` set (snd (snd (sp_run (snd (sp_step s x)) xs)))"
    using st Cons.prems fin unfolding e by (intro Cons.IH [of ?T]) auto
  then show ?case by (simp add: case_prod_unfold Let_def)
qed

subsection \<open>Properties\<close>

lemma lru_run_refines_new:
  "newLRU sz cb = Inr c \<Longrightarrow> sp_run (sz, []) xs = (fst (lru_run c xs), lru_view (snd (lru_run c xs)))"
  using newLRU_inv [of sz cb c] lru_run_refines [of c xs] by auto


definition sample_lru :: "(nat, nat) lru" where
  "sample_lru = \<lparr>lsize = 2, evictionList = [], items = [], onEviction = True, calls = [], fresh = 0\<rparr>"

lemma sample_lru_new: "newLRU 2 True = Inr sample_lru"
  by (simp add: newLRU_def sample_lru_def)




text \<open>C9: invariant. With a callback set, every key that was ever inserted is accounted for
exactly once: the multiset of keys the callback was told of together with the keys still in the
cache is the multiset of insertions of new keys. Nothing leaves silently (Clear and Resize
included) and no removal is reported twice.\<close>

theorem lru_callback_accounts:
  assumes "newLRU sz True = Inr c"
  shows "mset (map fst (calls (snd (lru_run c xs)))) + mset (map fst (lru_abs (snd (lru_run c xs))))
    = inserted_keys c xs"
proof -
  have "lru_inv c" "onEviction c" "accounted c = {#}"
    using assms newLRU_inv [OF assms]
    by (auto simp: newLRU_def accounted_def lru_abs_def split: if_splits)
  then show ?thesis using lru_run_accounted [of c xs] by (simp add: accounted_def)
qed

theorem lru_callback_accounts_witness:
  "mset (map fst (calls (snd (lru_run sample_lru [OpAdd 1 10, OpAdd 2 20, OpAdd 3 30, OpClear]))))
     = {#1, 2, 3#}"
  using lru_callback_accounts [OF sample_lru_new, of "[OpAdd 1 10, OpAdd 2 20, OpAdd 3 30, OpClear]"]
  by (simp add: clear_abs inserted_key_def lru_contains_def lru_add_def sample_lru_def evictOldest_def
      list_back_def lru_unlink_def notify_def list_without_def Let_def case_prod_unfold)

text \<open>C10: safety. The recency promise: a key that was just added stays in the cache, whatever
other operations follow, as long as it is not removed explicitly (Remove, RemoveOldest, Clear,
Resize) and fewer other keys than the size are added or looked up.\<close>

theorem lru_recent_key_retained:
  assumes "lru_inv c" "\<forall>x\<in>set xs. keeps_key k x"
    "int (card (\<Union>(used_keys ` set xs) - {k})) < lsize c"
  shows "lru_contains k (snd (lru_run (snd (lru_add k v c)) xs))"
proof -
  let ?c = "snd (lru_add k v c)"
  have i: "lru_inv ?c" by (rule add_inv [OF assms(1)])
  have "lru_abs ?c = snd (sp_add (lsize c) k v (lru_abs c))"
    by (simp add: add_abs [OF assms(1)])
  moreover have "\<exists>ys. snd (sp_add (lsize c) k v (lru_abs c)) = (k, v) # ys"
    using assms(3) by (cases "lru_abs c") (auto simp: sp_add_def sp_touch_def Let_def)
  ultimately have "\<exists>ys. lru_abs ?c = (k, v) # ys" by simp
  then have "retained k {} (lru_view ?c)"
    using lru_abs_distinct [OF i] by (auto simp: retained_def lru_view_def ahead_def)
  then have "k \<in> fst ` set (snd (snd (sp_run (lru_view ?c) xs)))"
    by (rule retained_run) (use assms in \<open>simp_all add: lru_view_def\<close>)
  then show ?thesis
    using lru_run_refines [OF i, of xs] by (simp add: lru_contains_abs lru_view_def)
qed

theorem lru_recent_key_retained_witness:
  "lru_contains 7 (snd (lru_run (snd (lru_add 7 0 sample_lru)) [OpAdd 8 1, OpGet 7, OpPeek 8, OpRemove 8]))"
proof (rule lru_recent_key_retained)
  show "lru_inv sample_lru" using newLRU_inv [OF sample_lru_new] by simp
qed (auto simp: sample_lru_def)

end
