(* ===== verification/TtlCache.thy ===== *)
theory TtlCache
  imports LruRuns
begin

text \<open>
  The cache with a time to live of \<open>indexer/cache/ttledLru.go\<close>: an LRU cache whose values carry
  the time of their last \<open>Add\<close>. The clock is an argument of every operation that reads it, in
  nanoseconds. The sweep that runs on every tick is modelled by its two critical sections per key
  (the look-up and the removal), so that other operations may run between them; \<open>sweep\<close> is a tick
  with nothing in between.
\<close>

record 'v ttledCacheValue =
  tvalue :: 'v
  lastAccessTime :: int

record ('k, 'v) withTTL =
  base :: "('k, 'v ttledCacheValue) lru"
  ttl :: int
  userEvict :: bool

definition stale_at :: "int \<Rightarrow> int \<Rightarrow> 'v ttledCacheValue \<Rightarrow> bool" where
  "stale_at d now e \<longleftrightarrow> now > lastAccessTime e + d"

text \<open>
  The callback given to the inner cache is never nil: it unwraps the value and calls the user's
  callback when there is one.
\<close>

definition newTTLWithEvict :: "int \<Rightarrow> int \<Rightarrow> bool \<Rightarrow> cache_error + ('k, 'v) withTTL" where
  "newTTLWithEvict sz d cb =
     (if sz \<le> 0 then Inl BadSize
      else case newLRU sz True of
        Inl e \<Rightarrow> Inl e | Inr b \<Rightarrow> Inr \<lparr>base = b, ttl = d, userEvict = cb\<rparr>)"

definition newTTL :: "int \<Rightarrow> int \<Rightarrow> cache_error + ('k, 'v) withTTL" where
  "newTTL sz d = newTTLWithEvict sz d False"

definition user_calls :: "('k, 'v) withTTL \<Rightarrow> ('k \<times> 'v) list" where
  "user_calls t = (if userEvict t then map (\<lambda>(k, e). (k, tvalue e)) (calls (base t)) else [])"

definition ttl_add :: "int \<Rightarrow> 'k \<Rightarrow> 'v \<Rightarrow> ('k, 'v) withTTL \<Rightarrow> bool \<times> ('k, 'v) withTTL" where
  "ttl_add now k v t =
     (let (ev, b) = lru_add k \<lparr>tvalue = v, lastAccessTime = now\<rparr> (base t) in (ev, t\<lparr>base := b\<rparr>))"

definition ttl_get :: "int \<Rightarrow> 'k \<Rightarrow> ('k, 'v) withTTL \<Rightarrow> 'v option \<times> ('k, 'v) withTTL" where
  "ttl_get now k t =
     (case lru_get k (base t) of
        (None, b) \<Rightarrow> (None, t\<lparr>base := b\<rparr>)
      | (Some e, b) \<Rightarrow>
          if stale_at (ttl t) now e then (None, t\<lparr>base := snd (lru_remove k b)\<rparr>)
          else (Some (tvalue e), t\<lparr>base := b\<rparr>))"

definition ttl_peek :: "'k \<Rightarrow> ('k, 'v) withTTL \<Rightarrow> 'v option" where
  "ttl_peek k t = map_option tvalue (lru_peek k (base t))"

definition ttl_contains :: "'k \<Rightarrow> ('k, 'v) withTTL \<Rightarrow> bool" where
  "ttl_contains k t = lru_contains k (base t)"

definition ttl_clear :: "('k, 'v) withTTL \<Rightarrow> ('k, 'v) withTTL" where
  "ttl_clear t = t\<lparr>base := lru_clear (base t)\<rparr>"

definition ttl_remove :: "'k \<Rightarrow> ('k, 'v) withTTL \<Rightarrow> bool \<times> ('k, 'v) withTTL" where
  "ttl_remove k t = (let (ok, b) = lru_remove k (base t) in (ok, t\<lparr>base := b\<rparr>))"

text \<open>\<open>RemoveOldest\<close> hands out the wrapper, not the user's value: the code does not unwrap it.\<close>

definition ttl_removeOldest ::
    "('k, 'v) withTTL \<Rightarrow> ('k \<times> 'v ttledCacheValue) option \<times> ('k, 'v) withTTL" where
  "ttl_removeOldest t = (let (e, b) = removeOldest (base t) in (e, t\<lparr>base := b\<rparr>))"

definition ttl_keys :: "('k, 'v) withTTL \<Rightarrow> 'k option list option" where
  "ttl_keys t = lru_keys (base t)"

definition ttl_len :: "('k, 'v) withTTL \<Rightarrow> nat" where
  "ttl_len t = lru_len (base t)"

subsection \<open>The sweep\<close>

text \<open>
  The first critical section looks the key up, which also moves it to the front; the answer says
  whether the value found is stale at the time \<open>now\<close>. The second one removes the key.
\<close>

definition sweep_look :: "int \<Rightarrow> 'k \<Rightarrow> ('k, 'v) withTTL \<Rightarrow> bool \<times> ('k, 'v) withTTL" where
  "sweep_look now k t =
     (let (v, b) = lru_get k (base t)
      in ((case v of None \<Rightarrow> False | Some e \<Rightarrow> stale_at (ttl t) now e), t\<lparr>base := b\<rparr>))"

definition sweep_key :: "int \<Rightarrow> 'k \<Rightarrow> ('k, 'v) withTTL \<Rightarrow> ('k, 'v) withTTL" where
  "sweep_key now k t =
     (let (st, t') = sweep_look now k t in if st then snd (ttl_remove k t') else t')"

text \<open>\<open>at k\<close> is the clock read for the key \<open>k\<close>; a nil slot is a key that is not there.\<close>

fun sweep :: "('k \<Rightarrow> int) \<Rightarrow> 'k option list \<Rightarrow> ('k, 'v) withTTL \<Rightarrow> ('k, 'v) withTTL" where
  "sweep at [] t = t"
| "sweep at (None # ks) t = sweep at ks t"
| "sweep at (Some k # ks) t = sweep at ks (sweep_key (at k) k t)"

definition ttl_tick :: "('k \<Rightarrow> int) \<Rightarrow> ('k, 'v) withTTL \<Rightarrow> ('k, 'v) withTTL option" where
  "ttl_tick at t = map_option (\<lambda>ks. sweep at ks t) (ttl_keys t)"

subsection \<open>The invariant and the view of the entries\<close>

definition ttl_inv :: "('k, 'v) withTTL \<Rightarrow> bool" where
  "ttl_inv t \<longleftrightarrow> lru_inv (base t) \<and> onEviction (base t)"

definition ttl_abs :: "('k, 'v) withTTL \<Rightarrow> ('k \<times> 'v ttledCacheValue) list" where
  "ttl_abs t = lru_abs (base t)"

lemma newTTL_inv:
  "newTTLWithEvict sz d cb = Inr t \<Longrightarrow>
   ttl_inv t \<and> ttl_abs t = [] \<and> ttl t = d \<and> lsize (base t) = sz \<and> 0 < sz"
  by (auto simp: newTTLWithEvict_def newLRU_def ttl_inv_def lru_inv_def elist_wf_def ttl_abs_def
      lru_abs_def split: if_splits)

lemma ttl_add_inv: "ttl_inv t \<Longrightarrow> ttl_inv (snd (ttl_add now k v t))"
  by (simp add: ttl_inv_def ttl_add_def case_prod_unfold Let_def add_inv)

lemma ttl_add_abs:
  "ttl_inv t \<Longrightarrow>
   ttl_abs (snd (ttl_add now k v t)) =
     snd (sp_add (lsize (base t)) k \<lparr>tvalue = v, lastAccessTime = now\<rparr> (ttl_abs t))"
  using add_abs [of "base t" k "\<lparr>tvalue = v, lastAccessTime = now\<rparr>"]
  by (simp add: ttl_inv_def ttl_add_def case_prod_unfold Let_def ttl_abs_def)

lemma ttl_get_inv: "ttl_inv t \<Longrightarrow> ttl_inv (snd (ttl_get now k t))"
proof -
  assume t: "ttl_inv t"
  obtain v b where g: "lru_get k (base t) = (v, b)" by fastforce
  have "lru_inv b" "onEviction b"
    using t get_inv [of "base t" k] g get_frame(2) [of k "base t"] by (simp_all add: ttl_inv_def)
  then show ?thesis using g by (auto simp: ttl_inv_def ttl_get_def remove_inv split: option.splits)
qed

lemma sp_remove_touch: "snd (sp_remove k (sp_touch k v xs)) = filter (\<lambda>e. fst e \<noteq> k) xs"
  by (simp add: sp_remove_def sp_touch_def)

lemma ttl_get_abs:
  assumes inv: "ttl_inv t"
  shows "(fst (ttl_get now k t), ttl_abs (snd (ttl_get now k t))) =
     (case map_of (ttl_abs t) k of
        None \<Rightarrow> (None, ttl_abs t)
      | Some e \<Rightarrow>
          if stale_at (ttl t) now e then (None, filter (\<lambda>e. fst e \<noteq> k) (ttl_abs t))
          else (Some (tvalue e), sp_touch k e (ttl_abs t)))"
proof -
  have i: "lru_inv (base t)" using inv by (simp add: ttl_inv_def)
  obtain v b where g: "lru_get k (base t) = (v, b)" by fastforce
  then have a: "sp_get k (lru_abs (base t)) = (v, lru_abs b)" and ib: "lru_inv b"
    using get_abs [OF i, of k] get_inv [OF i, of k] by simp_all
  show ?thesis
  proof (cases "map_of (lru_abs (base t)) k")
    case None
    with a g show ?thesis by (simp add: ttl_get_def ttl_abs_def sp_get_def)
  next
    case (Some e)
    with a have b: "v = Some e" "lru_abs b = sp_touch k e (lru_abs (base t))"
      by (simp_all add: sp_get_def)
    then have "lru_abs (snd (lru_remove k b)) = filter (\<lambda>e. fst e \<noteq> k) (lru_abs (base t))"
      using remove_abs [OF ib, of k] sp_remove_touch [of k e "lru_abs (base t)"] by simp
    with Some b g show ?thesis by (simp add: ttl_get_def ttl_abs_def)
  qed
qed

lemma ttl_remove_inv: "ttl_inv t \<Longrightarrow> ttl_inv (snd (ttl_remove k t))"
  by (simp add: ttl_inv_def ttl_remove_def case_prod_unfold Let_def remove_inv)

lemma ttl_remove_abs:
  "ttl_inv t \<Longrightarrow> ttl_abs (snd (ttl_remove k t)) = filter (\<lambda>e. fst e \<noteq> k) (ttl_abs t)"
  using remove_abs [of "base t" k]
  by (simp add: ttl_inv_def ttl_remove_def case_prod_unfold Let_def ttl_abs_def sp_remove_def)

lemma sweep_look_inv: "ttl_inv t \<Longrightarrow> ttl_inv (snd (sweep_look now k t))"
  by (simp add: ttl_inv_def sweep_look_def case_prod_unfold Let_def get_inv)

lemma sweep_look_abs:
  "ttl_inv t \<Longrightarrow>
   (fst (sweep_look now k t), ttl_abs (snd (sweep_look now k t))) =
     (case map_of (ttl_abs t) k of
        None \<Rightarrow> (False, ttl_abs t) | Some e \<Rightarrow> (stale_at (ttl t) now e, sp_touch k e (ttl_abs t)))"
  using get_abs [of "base t" k]
  by (auto simp: ttl_inv_def sweep_look_def case_prod_unfold Let_def ttl_abs_def sp_get_def
      split: option.splits)

lemma sweep_look_ttl [simp]: "ttl (snd (sweep_look now k t)) = ttl t"
  by (simp add: sweep_look_def case_prod_unfold Let_def)

lemma ttl_remove_ttl [simp]: "ttl (snd (ttl_remove k t)) = ttl t"
  by (simp add: ttl_remove_def case_prod_unfold Let_def)

lemma sweep_key_inv: "ttl_inv t \<Longrightarrow> ttl_inv (sweep_key now k t) \<and> ttl (sweep_key now k t) = ttl t"
  by (simp add: sweep_key_def case_prod_unfold Let_def ttl_remove_inv sweep_look_inv)

lemma sweep_key_abs:
  assumes inv: "ttl_inv t"
  shows "ttl_abs (sweep_key now k t) =
     (case map_of (ttl_abs t) k of
        None \<Rightarrow> ttl_abs t
      | Some e \<Rightarrow> if stale_at (ttl t) now e then filter (\<lambda>e. fst e \<noteq> k) (ttl_abs t)
                  else sp_touch k e (ttl_abs t))"
  using sweep_look_abs [OF inv, of now k] ttl_remove_abs [OF sweep_look_inv [OF inv], of k now k]
  by (auto simp: sweep_key_def case_prod_unfold Let_def sp_touch_def split: option.splits)

subsection \<open>A tick keeps exactly the live entries, in their order\<close>

definition live_entries ::
    "('k \<Rightarrow> int) \<Rightarrow> int \<Rightarrow> ('k \<times> 'v ttledCacheValue) list \<Rightarrow> ('k \<times> 'v ttledCacheValue) list" where
  "live_entries at d xs = filter (\<lambda>(k, e). \<not> stale_at d (at k) e) xs"

lemma sweep_pass:
  assumes "ttl_inv t" "ttl_abs t = ys @ xs"
  shows "ttl_inv (sweep at (map (\<lambda>e. Some (fst e)) (rev xs)) t) \<and>
     ttl_abs (sweep at (map (\<lambda>e. Some (fst e)) (rev xs)) t) = live_entries at (ttl t) xs @ ys"
  using assms
proof (induction xs arbitrary: t ys rule: rev_induct)
  case Nil
  then show ?case by (simp add: live_entries_def)
next
  case (snoc x xs)
  obtain k e where x: "x = (k, e)" by (cases x)
  have d: "distinct (map fst (ttl_abs t))"
    using snoc.prems(1) lru_abs_distinct by (auto simp: ttl_inv_def ttl_abs_def)
  then have m: "map_of (ttl_abs t) k = Some e"
    by (subst map_of_eq_Some_iff) (simp_all add: snoc.prems(2) x)
  have f: "filter (\<lambda>e. fst e \<noteq> k) (ttl_abs t) = ys @ xs"
  proof -
    have "\<forall>e\<in>set ys. fst e \<noteq> k" "\<forall>e\<in>set xs. fst e \<noteq> k"
      using d snoc.prems(2) x by (auto simp: image_iff)
    then show ?thesis using snoc.prems(2) x by simp
  qed
  let ?t = "sweep_key (at k) k t" and ?zs = "if stale_at (ttl t) (at k) e then ys else (k, e) # ys"
  have i: "ttl_inv ?t" "ttl ?t = ttl t" using sweep_key_inv [OF snoc.prems(1)] by blast+
  have a: "ttl_abs ?t = ?zs @ xs"
    using sweep_key_abs [OF snoc.prems(1), of "at k" k] m f by (simp add: sp_touch_def)
  from snoc.IH [OF i(1) a] show ?case
    using i(2) x by (simp add: live_entries_def)
qed

lemma ttl_tick_live:
  assumes "ttl_inv t"
  shows "\<exists>t'. ttl_tick at t = Some t' \<and> ttl_inv t' \<and> ttl_abs t' = live_entries at (ttl t) (ttl_abs t)"
  using keys_abs [of "base t"] assms sweep_pass [OF assms, of "[]" "ttl_abs t" at]
  by (simp add: ttl_tick_def ttl_keys_def ttl_inv_def ttl_abs_def)

subsection \<open>Histories: what a look-up returns\<close>

datatype ('k, 'v) ttl_op =
  TAdd int 'k 'v | TGet int 'k | TRemove 'k | TRemoveOldest | TClear | TResize int | TLook int 'k

fun ttl_step :: "('k, 'v) ttl_op \<Rightarrow> ('k, 'v) withTTL \<Rightarrow> ('k, 'v) withTTL" where
  "ttl_step (TAdd now k v) t = snd (ttl_add now k v t)"
| "ttl_step (TGet now k) t = snd (ttl_get now k t)"
| "ttl_step (TRemove k) t = snd (ttl_remove k t)"
| "ttl_step TRemoveOldest t = snd (ttl_removeOldest t)"
| "ttl_step TClear t = ttl_clear t"
| "ttl_step (TResize n) t = t\<lparr>base := snd (resize n (base t))\<rparr>"
| "ttl_step (TLook now k) t = snd (sweep_look now k t)"

text \<open>The last \<open>Add\<close> of a key in a history that was not followed by its removal.\<close>

fun last_add_from :: "'k \<Rightarrow> 'v ttledCacheValue option \<Rightarrow> ('k, 'v) ttl_op list \<Rightarrow> 'v ttledCacheValue option" where
  "last_add_from k acc [] = acc"
| "last_add_from k acc (TAdd now j v # xs) =
     last_add_from k (if j = k then Some \<lparr>tvalue = v, lastAccessTime = now\<rparr> else acc) xs"
| "last_add_from k acc (TRemove j # xs) = last_add_from k (if j = k then None else acc) xs"
| "last_add_from k acc (TClear # xs) = last_add_from k None xs"
| "last_add_from k acc (_ # xs) = last_add_from k acc xs"

definition justified :: "('k \<Rightarrow> 'v ttledCacheValue option) \<Rightarrow> ('k, 'v) withTTL \<Rightarrow> bool" where
  "justified h t \<longleftrightarrow> (\<forall>(k, e)\<in>set (ttl_abs t). h k = Some e)"

lemma clear_onEviction: "onEviction (lru_clear c) = onEviction c"
  by (simp add: lru_clear_def)

lemma ttl_step_inv: "ttl_inv t \<Longrightarrow> ttl_inv (ttl_step x t) \<and> ttl (ttl_step x t) = ttl t"
  by (cases x)
     (auto simp: ttl_add_inv ttl_get_inv ttl_remove_inv sweep_look_inv,
      auto simp: ttl_inv_def ttl_add_def ttl_get_def ttl_removeOldest_def ttl_clear_def clear_inv resize_def
        case_prod_unfold Let_def removeOldest_evict evictOldest_inv evict_pow_inv clear_onEviction
        split: option.splits)

lemma sp_add_subset: "set (snd (sp_add n k v xs)) \<subseteq> insert (k, v) {e \<in> set xs. fst e \<noteq> k}"
  by (auto simp: sp_add_def sp_touch_def Let_def dest!: in_set_butlastD)

lemma ttl_step_subset:
  assumes "ttl_inv t"
  shows "set (ttl_abs (ttl_step x t)) \<subseteq>
    (case x of
       TAdd now k v \<Rightarrow> insert (k, \<lparr>tvalue = v, lastAccessTime = now\<rparr>) {e \<in> set (ttl_abs t). fst e \<noteq> k}
     | TRemove k \<Rightarrow> {e \<in> set (ttl_abs t). fst e \<noteq> k}
     | TClear \<Rightarrow> {}
     | _ \<Rightarrow> set (ttl_abs t))"
proof (cases x)
  case (TAdd now k v)
  then show ?thesis using ttl_add_abs [OF assms, of now k v] sp_add_subset by simp
next
  case (TGet now k)
  then show ?thesis using ttl_get_abs [OF assms, of now k]
    by (auto simp: sp_touch_def split: option.splits if_splits dest: map_of_SomeD)
next
  case (TRemove k)
  then show ?thesis using ttl_remove_abs [OF assms, of k] by auto
next
  case TRemoveOldest
  then show ?thesis using assms
    by (auto simp: ttl_removeOldest_def case_prod_unfold Let_def ttl_abs_def removeOldest_evict
        ttl_inv_def evictOldest_abs dest: in_set_butlastD)
next
  case TClear
  then show ?thesis by (simp add: ttl_clear_def ttl_abs_def clear_abs)
next
  case (TResize n)
  then show ?thesis using assms
    by (auto simp: resize_def Let_def ttl_abs_def ttl_inv_def evict_pow_abs dest: in_set_takeD)
next
  case (TLook now k)
  then show ?thesis using sweep_look_abs [OF assms, of now k]
    by (auto simp: sp_touch_def split: option.splits dest: map_of_SomeD)
qed

lemma justified_step:
  assumes "ttl_inv t" "justified h t"
  shows "justified (\<lambda>k. last_add_from k (h k) [x]) (ttl_step x t)"
  using ttl_step_subset [OF assms(1), of x] assms(2)
  by (cases x) (fastforce simp: justified_def)+

lemma last_add_from_Cons: "last_add_from k acc (x # xs) = last_add_from k (last_add_from k acc [x]) xs"
  by (cases x) simp_all

lemma justified_run:
  "ttl_inv t \<Longrightarrow> justified h t \<Longrightarrow>
   ttl_inv (fold ttl_step xs t) \<and> justified (\<lambda>k. last_add_from k (h k) xs) (fold ttl_step xs t)
     \<and> ttl (fold ttl_step xs t) = ttl t"
proof (induction xs arbitrary: t h)
  case Nil
  then show ?case by simp
next
  case (Cons x xs t h)
  let ?h = "\<lambda>k. last_add_from k (h k) [x]"
  have j: "justified ?h (ttl_step x t)" by (rule justified_step [OF Cons.prems])
  have i: "ttl_inv (ttl_step x t)" "ttl (ttl_step x t) = ttl t"
    using ttl_step_inv [OF Cons.prems(1)] by blast+
  have "ttl_inv (fold ttl_step xs (ttl_step x t)) \<and>
      justified (\<lambda>k. last_add_from k (?h k) xs) (fold ttl_step xs (ttl_step x t)) \<and>
      ttl (fold ttl_step xs (ttl_step x t)) = ttl t"
    using Cons.IH [OF i(1) j] unfolding i(2) .
  moreover have "(\<lambda>k. last_add_from k (h k) (x # xs)) = (\<lambda>k. last_add_from k (last_add_from k (h k) [x]) xs)"
    by (rule ext) (rule last_add_from_Cons)
  ultimately show ?case by simp
qed

lemma ttl_get_justified:
  assumes "ttl_inv t" "justified h t" "fst (ttl_get now k t) = Some v"
  shows "\<exists>e. h k = Some e \<and> tvalue e = v \<and> now \<le> lastAccessTime e + ttl t"
  using assms ttl_get_abs [OF assms(1), of now k]
  by (auto simp: justified_def stale_at_def split: option.splits if_splits dest!: map_of_SomeD)

subsection \<open>Properties\<close>

definition sample_ttl :: "(nat, nat) withTTL" where
  "sample_ttl = \<lparr>base = \<lparr>lsize = 2, evictionList = [], items = [], onEviction = True, calls = [],
     fresh = 0\<rparr>, ttl = 100, userEvict = False\<rparr>"

lemma sample_ttl_new: "newTTL 2 100 = Inr sample_ttl"
  by (simp add: newTTL_def newTTLWithEvict_def newLRU_def sample_ttl_def)

text \<open>C11: functional. One uninterrupted tick of the sweep keeps exactly the entries whose time
to live has not passed when the sweep reads the clock for their key, in the recency order they had,
although it looks every key up and so moves it to the front.\<close>

theorem ttl_tick_keeps_live:
  assumes "ttl_inv t"
  shows "map_option ttl_abs (ttl_tick at t) =
    Some (filter (\<lambda>(k, e). at k \<le> lastAccessTime e + ttl t) (ttl_abs t))"
  using ttl_tick_live [OF assms, of at]
  by (auto simp: live_entries_def stale_at_def not_less case_prod_unfold)

theorem ttl_tick_keeps_live_witness:
  "map_option ttl_abs (ttl_tick (\<lambda>k. 150) (snd (ttl_add 90 2 20 (snd (ttl_add 10 1 (11::nat) sample_ttl))))) =
     Some [(2, \<lparr>tvalue = 20, lastAccessTime = 90\<rparr>)]"
proof -
  let ?t = "snd (ttl_add 90 2 20 (snd (ttl_add 10 1 11 sample_ttl)))"
  have "ttl_inv sample_ttl" using newTTL_inv [OF sample_ttl_new [unfolded newTTL_def]] by blast
  then have i: "ttl_inv ?t" by (intro ttl_add_inv)
  have a: "ttl_abs ?t = [(2, \<lparr>tvalue = 20, lastAccessTime = 90\<rparr>), (1, \<lparr>tvalue = 11, lastAccessTime = 10\<rparr>)]"
    by code_simp
  have b: "ttl ?t = 100" by code_simp
  show ?thesis unfolding ttl_tick_keeps_live [OF i] a b by simp
qed

text \<open>C12: safety. What Get returns is never stale and never invented: after any history of
operations, the steps of the sweep of other threads included, the value returned for a key is that
of the last Add of the key, not followed by its removal, and that Add is at most the time to live
old.\<close>

theorem ttl_get_returns_live_last_add:
  assumes "newTTLWithEvict sz d cb = Inr t"
    and "fst (ttl_get now k (fold ttl_step xs t)) = Some v"
  shows "\<exists>e. last_add_from k None xs = Some e \<and> tvalue e = v \<and> now \<le> lastAccessTime e + d"
proof -
  have n: "ttl_inv t" "ttl_abs t = []" "ttl t = d" using newTTL_inv [OF assms(1)] by blast+
  then have "justified (\<lambda>k. None) t" by (simp add: justified_def)
  from justified_run [OF n(1) this, of xs] show ?thesis
    using ttl_get_justified [OF _ _ assms(2)] n(3) by auto
qed

theorem ttl_get_returns_live_last_add_witness:
  "\<exists>e. last_add_from (1::nat) None [TAdd 0 1 10, TLook 30 1, TAdd 40 1 11] = Some e \<and> tvalue e = (11::nat)
     \<and> 60 \<le> lastAccessTime e + 100"
  by (rule ttl_get_returns_live_last_add [OF sample_ttl_new [unfolded newTTL_def]])
     (simp add: sample_ttl_def ttl_add_def lru_add_def sweep_look_def lru_get_def Let_def
       ttl_get_def stale_at_def move_to_front_def list_without_def set_value_def)

text \<open>safety. The sweep decides in one critical section and removes in another: an Add of the
same key that runs in between is lost, although its entry is new. The fresh entry is removed for
every key, time and value.\<close>

theorem ttl_sweep_race_drops_fresh_add:
  assumes "ttl_inv t"
  shows "fst (ttl_get now k
    (snd (ttl_remove k (snd (ttl_add now k v (snd (sweep_look now k t))))))) = None"
proof -
  let ?t = "snd (ttl_remove k (snd (ttl_add now k v (snd (sweep_look now k t)))))"
  have i: "ttl_inv (snd (ttl_add now k v (snd (sweep_look now k t))))"
    by (intro ttl_add_inv sweep_look_inv assms)
  then have "map_of (ttl_abs ?t) k = None"
    by (simp add: ttl_remove_abs map_of_eq_None_iff) auto
  then show ?thesis using ttl_get_abs [OF ttl_remove_inv [OF i], of now k k] by simp
qed

theorem ttl_sweep_race_drops_fresh_add_witness:
  "fst (ttl_get 300 1 (snd (ttl_remove 1 (snd (ttl_add 300 1 5
     (snd (sweep_look 300 1 (snd (ttl_add 0 1 4 sample_ttl))))))))) = None
   \<and> fst (sweep_look 300 1 (snd (ttl_add 0 1 4 sample_ttl)))"
proof
  show "fst (ttl_get 300 1 (snd (ttl_remove 1 (snd (ttl_add 300 1 5
     (snd (sweep_look 300 1 (snd (ttl_add 0 1 4 sample_ttl))))))))) = None"
    using newTTL_inv [OF sample_ttl_new [unfolded newTTL_def]]
    by (intro ttl_sweep_race_drops_fresh_add ttl_add_inv) blast
qed (simp add: sample_ttl_def ttl_add_def lru_add_def sweep_look_def lru_get_def Let_def
       stale_at_def)

end
