(* ===== verification/CacheInterface.thy ===== *)
theory CacheInterface
  imports TtlCache
begin

text \<open>
  The interface \<open>LRUCache\<close> of \<open>indexer/cache/lruIface.go\<close> as the connectivity caches use it
  (\<open>Add\<close>, \<open>Contains\<close>, \<open>Remove\<close>), with the laws its three providers satisfy, and the
  thread-safe cache of \<open>indexer/cache/threadsafeLru.go\<close>. The lemmas of the locale are proved once
  and hold for the plain cache, the thread-safe one and the one with a time to live.
\<close>

datatype ('k, 'v) cache_event = EAdd 'k 'v | ERemove 'k

fun event_key :: "('k, 'v) cache_event \<Rightarrow> 'k" where
  "event_key (EAdd k v) = k"
| "event_key (ERemove k) = k"

text \<open>Whether the last event of a history on the key \<open>k\<close> is an \<open>Add\<close>.\<close>

fun last_is_add :: "'k \<Rightarrow> bool \<Rightarrow> ('k, 'v) cache_event list \<Rightarrow> bool" where
  "last_is_add k acc [] = acc"
| "last_is_add k acc (EAdd j v # xs) = last_is_add k (j = k \<or> acc) xs"
| "last_is_add k acc (ERemove j # xs) = last_is_add k (j \<noteq> k \<and> acc) xs"

fun cache_event_step ::
    "('k \<Rightarrow> 'v \<Rightarrow> 's \<Rightarrow> bool \<times> 's) \<Rightarrow> ('k \<Rightarrow> 's \<Rightarrow> bool \<times> 's) \<Rightarrow> ('k, 'v) cache_event \<Rightarrow> 's \<Rightarrow> 's" where
  "cache_event_step add remove (EAdd k v) s = snd (add k v s)"
| "cache_event_step add remove (ERemove k) s = snd (remove k s)"

definition touch_key :: "int \<Rightarrow> 'k \<Rightarrow> 'k list \<Rightarrow> 'k list" where
  "touch_key n k ks =
     (let ks' = k # filter (\<lambda>j. j \<noteq> k) ks
      in if k \<notin> set ks \<and> int (length ks') > n then butlast ks' else ks')"

locale lru_cache =
  fixes add :: "'k \<Rightarrow> 'v \<Rightarrow> 's \<Rightarrow> bool \<times> 's"
    and contains :: "'k \<Rightarrow> 's \<Rightarrow> bool"
    and remove :: "'k \<Rightarrow> 's \<Rightarrow> bool \<times> 's"
    and inv :: "'s \<Rightarrow> bool"
    and keys :: "'s \<Rightarrow> 'k list"
    and capacity :: "'s \<Rightarrow> int"
  assumes keys_distinct: "inv s \<Longrightarrow> distinct (keys s)"
    and contains_keys: "inv s \<Longrightarrow> contains k s \<longleftrightarrow> k \<in> set (keys s)"
    and add_keeps: "inv s \<Longrightarrow> inv (snd (add k v s)) \<and> capacity (snd (add k v s)) = capacity s"
    and remove_keeps: "inv s \<Longrightarrow> inv (snd (remove k s)) \<and> capacity (snd (remove k s)) = capacity s"
    and add_keys: "inv s \<Longrightarrow> keys (snd (add k v s)) = touch_key (capacity s) k (keys s)"
    and remove_keys: "inv s \<Longrightarrow> keys (snd (remove k s)) = filter (\<lambda>j. j \<noteq> k) (keys s)"
begin

lemma step_keeps:
  "inv s \<Longrightarrow> inv (cache_event_step add remove x s) \<and>
     capacity (cache_event_step add remove x s) = capacity s"
  by (cases x) (simp_all add: add_keeps remove_keeps)

lemma run_keeps:
  "inv s \<Longrightarrow> inv (fold (cache_event_step add remove) xs s) \<and>
     capacity (fold (cache_event_step add remove) xs s) = capacity s"
  by (induction xs arbitrary: s) (auto simp: step_keeps)

lemma contains_add:
  assumes "inv s" "0 < capacity s"
  shows "contains k (snd (add k v s))"
proof -
  have "k \<in> set (touch_key (capacity s) k (keys s))"
    using assms(2) by (cases "keys s") (auto simp: touch_key_def Let_def)
  then show ?thesis using assms add_keeps by (simp add: contains_keys add_keys)
qed

lemma contains_remove: "inv s \<Longrightarrow> \<not> contains k (snd (remove k s))"
  using remove_keeps by (simp add: contains_keys remove_keys)

lemma touch_key_subset: "set (touch_key n k ks) \<subseteq> insert k (set ks)"
  by (auto simp: touch_key_def Let_def dest!: in_set_butlastD)

lemma contains_add_other: "inv s \<Longrightarrow> contains j (snd (add k v s)) \<Longrightarrow> j = k \<or> contains j s"
  using add_keeps touch_key_subset [of "capacity s" k "keys s"] by (auto simp: contains_keys add_keys)

lemma touch_key_bounded:
  assumes "distinct ks" "int (length ks) \<le> n" "0 \<le> n"
  shows "int (length (touch_key n k ks)) \<le> n"
proof (cases "k \<in> set ks")
  case True
  from mset_distinct_split [OF assms(1) True]
  have "length ks = Suc (length (filter (\<lambda>j. j \<noteq> k) ks))" by (metis size_add_mset size_mset)
  with True assms(2) show ?thesis by (simp add: touch_key_def)
next
  case False
  then have "filter (\<lambda>j. j \<noteq> k) ks = ks" by (auto simp: filter_id_conv)
  with False assms show ?thesis by (simp add: touch_key_def Let_def)
qed

lemma step_bounded:
  assumes "inv s" "int (length (keys s)) \<le> capacity s" "0 \<le> capacity s"
  shows "int (length (keys (cache_event_step add remove x s))) \<le> capacity s"
proof (cases x)
  case (EAdd k v)
  then show ?thesis using assms by (simp add: add_keys touch_key_bounded keys_distinct)
next
  case (ERemove k)
  have "length (filter (\<lambda>j. j \<noteq> k) (keys s)) \<le> length (keys s)" by (rule length_filter_le)
  then have "int (length (filter (\<lambda>j. j \<noteq> k) (keys s))) \<le> capacity s" using assms(2) by linarith
  with ERemove assms show ?thesis by (simp add: remove_keys)
qed

text \<open>A key that is present was added after its last removal.\<close>

lemma last_is_add_mono: "last_is_add k a xs \<Longrightarrow> (a \<longrightarrow> b) \<Longrightarrow> last_is_add k b xs"
proof (induction xs arbitrary: a b)
  case Nil
  then show ?case by simp
next
  case (Cons x xs)
  show ?case
  proof (cases x)
    case (EAdd j v)
    then show ?thesis using Cons.IH [of "j = k \<or> a" "j = k \<or> b"] Cons.prems by simp
  next
    case (ERemove j)
    then show ?thesis using Cons.IH [of "j \<noteq> k \<and> a" "j \<noteq> k \<and> b"] Cons.prems by simp
  qed
qed

lemma present_added:
  "inv s \<Longrightarrow> contains k (fold (cache_event_step add remove) xs s) \<Longrightarrow> last_is_add k (contains k s) xs"
proof (induction xs arbitrary: s)
  case Nil
  then show ?case by simp
next
  case (Cons x xs)
  let ?s = "cache_event_step add remove x s"
  have i: "inv ?s" using step_keeps [OF Cons.prems(1)] by simp
  from Cons have l: "last_is_add k (contains k ?s) xs" using i by simp
  show ?case
  proof (cases x)
    case (EAdd j v)
    then show ?thesis
      using last_is_add_mono [OF l, of "j = k \<or> contains k s"] contains_add_other [OF Cons.prems(1), of k j v]
      by auto
  next
    case (ERemove j)
    have "contains k ?s \<Longrightarrow> j \<noteq> k \<and> contains k s"
      using ERemove i Cons.prems(1) by (auto simp: contains_keys remove_keys)
    with last_is_add_mono [OF l, of "j \<noteq> k \<and> contains k s"] ERemove show ?thesis by simp
  qed
qed

text \<open>While fewer keys than the capacity have been used, nothing is evicted: presence is exact.\<close>

lemma touch_key_room:
  assumes "distinct ks" "set ks \<subseteq> K" "k \<in> K" "finite K" "int (card K) \<le> n"
  shows "set (touch_key n k ks) = insert k (set ks)"
proof (cases "k \<in> set ks")
  case True
  then show ?thesis by (auto simp: touch_key_def)
next
  case False
  then have f: "filter (\<lambda>j. j \<noteq> k) ks = ks" by (auto simp: filter_id_conv)
  have "card (set (k # ks)) \<le> card K" using assms by (intro card_mono) auto
  then have "int (length (k # ks)) \<le> n" using assms False by (simp add: distinct_card)
  with f show ?thesis by (simp add: touch_key_def)
qed

lemma present_exact:
  assumes "inv s" "set (keys s) \<subseteq> K" "event_key ` set xs \<subseteq> K" "finite K" "int (card K) \<le> capacity s"
  shows "contains k (fold (cache_event_step add remove) xs s) \<longleftrightarrow> last_is_add k (contains k s) xs"
  using assms
proof (induction xs arbitrary: s)
  case Nil
  then show ?case by simp
next
  case (Cons x xs)
  let ?s = "cache_event_step add remove x s"
  have i: "inv ?s" "capacity ?s = capacity s" using step_keeps [OF Cons.prems(1)] by simp_all
  have k: "set (keys ?s) = (case x of EAdd j v \<Rightarrow> insert j (set (keys s)) | ERemove j \<Rightarrow> set (keys s) - {j})"
    using Cons.prems touch_key_room [of "keys s" K _ "capacity s"]
    by (cases x) (auto simp: add_keys remove_keys keys_distinct)
  then have "set (keys ?s) \<subseteq> K" using Cons.prems by (cases x) auto
  with Cons i have "contains k (fold (cache_event_step add remove) xs ?s) \<longleftrightarrow>
      last_is_add k (contains k ?s) xs" by simp
  moreover have "contains k ?s \<longleftrightarrow>
      (case x of EAdd j v \<Rightarrow> j = k \<or> contains k s | ERemove j \<Rightarrow> j \<noteq> k \<and> contains k s)"
    unfolding contains_keys [OF i(1)] contains_keys [OF Cons.prems(1)] k by (cases x) auto
  then have "last_is_add k (contains k ?s) xs \<longleftrightarrow> last_is_add k (contains k s) (x # xs)"
    by (cases x) simp_all
  ultimately show ?case by simp
qed

end

subsection \<open>The plain cache is a provider\<close>

definition lru_key_list :: "('k, 'v) lru \<Rightarrow> 'k list" where
  "lru_key_list c = map fst (lru_abs c)"

lemma sp_add_keys: "map fst (snd (sp_add n k v xs)) = touch_key n k (map fst xs)"
proof -
  have m: "k # filter (\<lambda>j. j \<noteq> k) (map fst xs) = map fst (sp_touch k v xs)"
    by (simp add: sp_touch_def map_fst_filter)
  show ?thesis unfolding touch_key_def m Let_def by (simp add: sp_add_def Let_def map_butlast)
qed

lemma add_key_list: "lru_inv c \<Longrightarrow> lru_key_list (snd (lru_add k v c)) = touch_key (lsize c) k (lru_key_list c)"
  using add_abs [of c k v] sp_add_keys [of "lsize c" k v "lru_abs c"] by (simp add: lru_key_list_def)

lemma remove_key_list: "lru_inv c \<Longrightarrow> lru_key_list (snd (lru_remove k c)) = filter (\<lambda>j. j \<noteq> k) (lru_key_list c)"
  using arg_cong [OF remove_abs [of c k], of "map fst \<circ> snd"]
  by (simp add: lru_key_list_def sp_remove_def flip: map_fst_filter)

lemma contains_key_list: "lru_inv c \<Longrightarrow> lru_contains k c \<longleftrightarrow> k \<in> set (lru_key_list c)"
  by (simp add: lru_contains_abs lru_key_list_def)

interpretation plain: lru_cache lru_add lru_contains lru_remove lru_inv lru_key_list lsize
  by unfold_locales
     (simp_all add: add_inv remove_inv add_key_list remove_key_list contains_key_list,
      simp add: lru_key_list_def lru_abs_distinct)

subsection \<open>The cache with a time to live is a provider\<close>

text \<open>The value given to \<open>Add\<close> is paired with the clock the operation reads.\<close>

definition ttl_add_at :: "'k \<Rightarrow> int \<times> 'v \<Rightarrow> ('k, 'v) withTTL \<Rightarrow> bool \<times> ('k, 'v) withTTL" where
  "ttl_add_at k tv t = ttl_add (fst tv) k (snd tv) t"

definition ttl_key_list :: "('k, 'v) withTTL \<Rightarrow> 'k list" where
  "ttl_key_list t = lru_key_list (base t)"

definition ttl_capacity :: "('k, 'v) withTTL \<Rightarrow> int" where
  "ttl_capacity t = lsize (base t)"

interpretation timed: lru_cache ttl_add_at ttl_contains ttl_remove ttl_inv ttl_key_list ttl_capacity
  by unfold_locales
     (auto simp: ttl_add_at_def ttl_contains_def ttl_key_list_def ttl_capacity_def ttl_inv_def ttl_add_def
       ttl_remove_def case_prod_unfold Let_def plain.add_keeps plain.remove_keeps plain.contains_keys
       plain.keys_distinct add_key_list remove_key_list)

subsection \<open>The thread-safe cache\<close>

text \<open>
  Every operation of \<open>Cache\<close> takes the lock for the whole of its body, so each is one step on the
  inner cache. The operations under the read lock (\<open>Contains\<close>, \<open>Peek\<close>, \<open>Keys\<close>, \<open>Len\<close>) leave it as
  it is.
\<close>

record ('k, 'v) safe_cache =
  inner :: "('k, 'v) lru"

definition newThreadSafeWithEvict :: "int \<Rightarrow> bool \<Rightarrow> cache_error + ('k, 'v) safe_cache" where
  "newThreadSafeWithEvict sz cb =
     (case newLRU sz cb of Inl e \<Rightarrow> Inl e | Inr c \<Rightarrow> Inr \<lparr>inner = c\<rparr>)"

definition newThreadSafeCache :: "int \<Rightarrow> cache_error + ('k, 'v) safe_cache" where
  "newThreadSafeCache sz = newThreadSafeWithEvict sz False"

definition on_inner :: "(('k, 'v) lru \<Rightarrow> 'a \<times> ('k, 'v) lru) \<Rightarrow> ('k, 'v) safe_cache \<Rightarrow> 'a \<times> ('k, 'v) safe_cache" where
  "on_inner f c = (let (a, l) = f (inner c) in (a, c\<lparr>inner := l\<rparr>))"

definition safe_clear :: "('k, 'v) safe_cache \<Rightarrow> ('k, 'v) safe_cache" where
  "safe_clear c = c\<lparr>inner := lru_clear (inner c)\<rparr>"

definition safe_add :: "'k \<Rightarrow> 'v \<Rightarrow> ('k, 'v) safe_cache \<Rightarrow> bool \<times> ('k, 'v) safe_cache" where
  "safe_add k v = on_inner (lru_add k v)"

definition safe_get :: "'k \<Rightarrow> ('k, 'v) safe_cache \<Rightarrow> 'v option \<times> ('k, 'v) safe_cache" where
  "safe_get k = on_inner (lru_get k)"

definition safe_contains :: "'k \<Rightarrow> ('k, 'v) safe_cache \<Rightarrow> bool" where
  "safe_contains k c = lru_contains k (inner c)"

definition safe_peek :: "'k \<Rightarrow> ('k, 'v) safe_cache \<Rightarrow> 'v option" where
  "safe_peek k c = lru_peek k (inner c)"

definition containsOrAdd :: "'k \<Rightarrow> 'v \<Rightarrow> ('k, 'v) safe_cache \<Rightarrow> (bool \<times> bool) \<times> ('k, 'v) safe_cache" where
  "containsOrAdd k v c =
     (if lru_contains k (inner c) then ((True, False), c)
      else let (evicted, c') = on_inner (lru_add k v) c in ((False, evicted), c'))"

definition peekOrAdd ::
    "'k \<Rightarrow> 'v \<Rightarrow> ('k, 'v) safe_cache \<Rightarrow> ('v option \<times> bool) \<times> ('k, 'v) safe_cache" where
  "peekOrAdd k v c =
     (case lru_peek k (inner c) of
        Some previous \<Rightarrow> ((Some previous, False), c)
      | None \<Rightarrow> let (evicted, c') = on_inner (lru_add k v) c in ((None, evicted), c'))"

definition safe_remove :: "'k \<Rightarrow> ('k, 'v) safe_cache \<Rightarrow> bool \<times> ('k, 'v) safe_cache" where
  "safe_remove k = on_inner (lru_remove k)"

definition safe_resize :: "int \<Rightarrow> ('k, 'v) safe_cache \<Rightarrow> int \<times> ('k, 'v) safe_cache" where
  "safe_resize n = on_inner (resize n)"

definition safe_removeOldest :: "('k, 'v) safe_cache \<Rightarrow> ('k \<times> 'v) option \<times> ('k, 'v) safe_cache" where
  "safe_removeOldest = on_inner removeOldest"

definition safe_getOldest :: "('k, 'v) safe_cache \<Rightarrow> ('k \<times> 'v) option" where
  "safe_getOldest c = getOldest (inner c)"

definition safe_keys :: "('k, 'v) safe_cache \<Rightarrow> 'k option list option" where
  "safe_keys c = lru_keys (inner c)"

definition safe_len :: "('k, 'v) safe_cache \<Rightarrow> nat" where
  "safe_len c = lru_len (inner c)"

definition safe_inv :: "('k, 'v) safe_cache \<Rightarrow> bool" where
  "safe_inv c \<longleftrightarrow> lru_inv (inner c)"

interpretation locked: lru_cache safe_add safe_contains safe_remove safe_inv
    "\<lambda>c. lru_key_list (inner c)" "\<lambda>c. lsize (inner c)"
  by unfold_locales
     (auto simp: safe_add_def safe_contains_def safe_remove_def safe_inv_def on_inner_def case_prod_unfold
       Let_def plain.add_keeps plain.remove_keeps plain.contains_keys plain.keys_distinct
       add_key_list remove_key_list)

lemma newThreadSafe_inv:
  "newThreadSafeWithEvict sz cb = Inr c \<Longrightarrow>
   safe_inv c \<and> lsize (inner c) = sz \<and> lru_key_list (inner c) = []"
  by (auto simp: newThreadSafeWithEvict_def newLRU_def safe_inv_def lru_inv_def elist_wf_def
      lru_key_list_def lru_abs_def split: if_splits)

end
