(* ===== verification/Connectivity.thy ===== *)
theory Connectivity
  imports CacheInterface
begin

text \<open>
  The connectivity testers of \<open>indexer/cache/optimisticCache.go\<close> and
  \<open>indexer/cache/connectivityCache.go\<close>. They are clients of the interface \<open>LRUCache\<close>: every
  definition takes the operations it calls as arguments. What the fetcher answers when it opens a
  URL is a parameter (the browser is outside the model): an error, an HTML page with its status
  code, or some other kind of result. The optimistic tester keeps the URLs known to be bad, the
  other one the URLs known to be good.
\<close>

datatype fetch_outcome = FetchFailed | HTMLFetchResult int | OtherFetchResult

datatype conn_error = NoBrowser | OpenFailed | NonHtml | BadStatus int

record details =
  added :: int

definition status_ok :: int where
  "status_ok = 200"

definition validateBrowserCall :: "fetch_outcome \<Rightarrow> conn_error option" where
  "validateBrowserCall r =
     (case r of
        HTMLFetchResult code \<Rightarrow> if code \<noteq> status_ok then Some (BadStatus code) else None
      | _ \<Rightarrow> Some NonHtml)"

text \<open>The common start of both \<open>Test\<close> methods; \<open>fetcher\<close> is \<open>None\<close> when it is nil.\<close>

definition probe_url :: "(string \<Rightarrow> fetch_outcome) option \<Rightarrow> string \<Rightarrow> conn_error option" where
  "probe_url fetcher u =
     (case fetcher of
        None \<Rightarrow> Some NoBrowser
      | Some open_url \<Rightarrow>
          (case open_url u of FetchFailed \<Rightarrow> Some OpenFailed | r \<Rightarrow> validateBrowserCall r))"

subsection \<open>The optimistic tester\<close>

definition newOptimistic :: "cache_error + (string, details) safe_cache" where
  "newOptimistic = newThreadSafeWithEvict 10000 False"

definition opt_isOk :: "(string \<Rightarrow> 's \<Rightarrow> bool) \<Rightarrow> string \<Rightarrow> 's \<Rightarrow> bool" where
  "opt_isOk contains u s \<longleftrightarrow> \<not> contains u s"

definition opt_invalidate ::
    "(string \<Rightarrow> details \<Rightarrow> 's \<Rightarrow> bool \<times> 's) \<Rightarrow> int \<Rightarrow> string \<Rightarrow> 's \<Rightarrow> 's" where
  "opt_invalidate add now u s = snd (add u \<lparr>added = now\<rparr> s)"

text \<open>The factory may change the cache (it usually calls \<open>Test\<close>): it is a state transformer.\<close>

definition opt_isValidOrSet ::
    "(string \<Rightarrow> 's \<Rightarrow> bool) \<Rightarrow> string \<Rightarrow> ('s \<Rightarrow> bool \<times> 's) \<Rightarrow> 's \<Rightarrow> bool \<times> 's" where
  "opt_isValidOrSet contains u factory s = (if \<not> contains u s then (True, s) else factory s)"

definition opt_test ::
    "(string \<Rightarrow> 's \<Rightarrow> bool \<times> 's) \<Rightarrow> (string \<Rightarrow> fetch_outcome) option \<Rightarrow> string \<Rightarrow> 's \<Rightarrow>
     conn_error option \<times> 's" where
  "opt_test remove fetcher u s =
     (case probe_url fetcher u of None \<Rightarrow> (None, snd (remove u s)) | Some e \<Rightarrow> (Some e, s))"

subsection \<open>The pessimistic tester\<close>

definition minute :: int where
  "minute = 60 * 1000000000"

definition newConnectivity :: "cache_error + (string, details) withTTL" where
  "newConnectivity = newTTL 10000 (60 * minute)"

definition conn_invalidate :: "(string \<Rightarrow> 's \<Rightarrow> bool \<times> 's) \<Rightarrow> string \<Rightarrow> 's \<Rightarrow> 's" where
  "conn_invalidate remove u s = snd (remove u s)"

definition conn_isOk :: "(string \<Rightarrow> 's \<Rightarrow> bool) \<Rightarrow> string \<Rightarrow> 's \<Rightarrow> bool" where
  "conn_isOk contains u s \<longleftrightarrow> contains u s"

definition conn_isValidOrSet ::
    "(string \<Rightarrow> 's \<Rightarrow> bool) \<Rightarrow> string \<Rightarrow> ('s \<Rightarrow> bool \<times> 's) \<Rightarrow> 's \<Rightarrow> bool \<times> 's" where
  "conn_isValidOrSet contains u f s = (if \<not> contains u s then f s else (True, s))"

definition conn_test ::
    "(string \<Rightarrow> int \<times> details \<Rightarrow> 's \<Rightarrow> bool \<times> 's) \<Rightarrow> int \<Rightarrow> (string \<Rightarrow> fetch_outcome) option \<Rightarrow>
     string \<Rightarrow> 's \<Rightarrow> conn_error option \<times> 's" where
  "conn_test add now fetcher u s =
     (case probe_url fetcher u of
        None \<Rightarrow> (None, snd (add u (now, \<lparr>added = now\<rparr>) s)) | Some e \<Rightarrow> (Some e, s))"

subsection \<open>Histories of a tester\<close>

text \<open>One call of \<open>Invalidate\<close> or \<open>Test\<close>, at a time and with the fetcher of that moment.\<close>

datatype conn_call =
  CInvalidate int string | CTest int "(string \<Rightarrow> fetch_outcome) option" string

fun opt_step ::
    "(string \<Rightarrow> details \<Rightarrow> 's \<Rightarrow> bool \<times> 's) \<Rightarrow> (string \<Rightarrow> 's \<Rightarrow> bool \<times> 's) \<Rightarrow> conn_call \<Rightarrow> 's \<Rightarrow> 's" where
  "opt_step add remove (CInvalidate now u) s = opt_invalidate add now u s"
| "opt_step add remove (CTest now fetcher u) s = snd (opt_test remove fetcher u s)"

fun conn_step ::
    "(string \<Rightarrow> int \<times> details \<Rightarrow> 's \<Rightarrow> bool \<times> 's) \<Rightarrow> (string \<Rightarrow> 's \<Rightarrow> bool \<times> 's) \<Rightarrow> conn_call \<Rightarrow> 's \<Rightarrow> 's" where
  "conn_step add remove (CInvalidate now u) s = conn_invalidate remove u s"
| "conn_step add remove (CTest now fetcher u) s = snd (conn_test add now fetcher u s)"

text \<open>
  The last call on the URL that decided its state: \<open>Some True\<close> a successful test, \<open>Some False\<close>
  an invalidation, \<open>None\<close> neither. A failed test decides nothing.
\<close>

fun verdict :: "string \<Rightarrow> bool option \<Rightarrow> conn_call list \<Rightarrow> bool option" where
  "verdict u acc [] = acc"
| "verdict u acc (CInvalidate now w # xs) = verdict u (if w = u then Some False else acc) xs"
| "verdict u acc (CTest now fetcher w # xs) =
     verdict u (if w = u \<and> probe_url fetcher w = None then Some True else acc) xs"

fun call_url :: "conn_call \<Rightarrow> string" where
  "call_url (CInvalidate now u) = u"
| "call_url (CTest now fetcher u) = u"

fun opt_events :: "conn_call \<Rightarrow> (string, details) cache_event list" where
  "opt_events (CInvalidate now u) = [EAdd u \<lparr>added = now\<rparr>]"
| "opt_events (CTest now fetcher u) = (if probe_url fetcher u = None then [ERemove u] else [])"

fun conn_events :: "conn_call \<Rightarrow> (string, int \<times> details) cache_event list" where
  "conn_events (CInvalidate now u) = [ERemove u]"
| "conn_events (CTest now fetcher u) =
     (if probe_url fetcher u = None then [EAdd u (now, \<lparr>added = now\<rparr>)] else [])"

lemma opt_step_events:
  "opt_step add remove x s = fold (cache_event_step add remove) (opt_events x) s"
  by (cases x) (auto simp: opt_invalidate_def opt_test_def split: option.splits)

lemma conn_step_events:
  "conn_step add remove x s = fold (cache_event_step add remove) (conn_events x) s"
  by (cases x) (auto simp: conn_invalidate_def conn_test_def split: option.splits)

lemma opt_run_events:
  "fold (opt_step add remove) xs s = fold (cache_event_step add remove) (concat (map opt_events xs)) s"
  by (induction xs arbitrary: s) (simp_all add: opt_step_events)

lemma conn_run_events:
  "fold (conn_step add remove) xs s = fold (cache_event_step add remove) (concat (map conn_events xs)) s"
  by (induction xs arbitrary: s) (simp_all add: conn_step_events)

lemma opt_last_add:
  "last_is_add u (acc = Some False) (concat (map opt_events xs)) \<longleftrightarrow> verdict u acc xs = Some False"
proof (induction xs arbitrary: acc)
  case Nil
  then show ?case by simp
next
  case (Cons x xs)
  show ?case
  proof (cases x)
    case (CInvalidate now w)
    show ?thesis using Cons.IH [of "Some False"] Cons.IH [of acc] CInvalidate by (cases "w = u") simp_all
  next
    case (CTest now fetcher w)
    show ?thesis using Cons.IH [of "Some True"] Cons.IH [of acc] CTest by (cases "w = u") simp_all
  qed
qed

lemma conn_last_add:
  "last_is_add u (acc = Some True) (concat (map conn_events xs)) \<longleftrightarrow> verdict u acc xs = Some True"
proof (induction xs arbitrary: acc)
  case Nil
  then show ?case by simp
next
  case (Cons x xs)
  show ?case
  proof (cases x)
    case (CInvalidate now w)
    show ?thesis using Cons.IH [of "Some False"] Cons.IH [of acc] CInvalidate by (cases "w = u") simp_all
  next
    case (CTest now fetcher w)
    show ?thesis using Cons.IH [of "Some True"] Cons.IH [of acc] CTest by (cases "w = u") simp_all
  qed
qed

lemma opt_event_keys: "event_key ` set (concat (map opt_events xs)) \<subseteq> call_url ` set xs"
proof -
  have "event_key ` set (opt_events x) \<subseteq> {call_url x}" for x by (cases x) auto
  then show ?thesis by fastforce
qed

subsection \<open>The testers over any provider\<close>

text \<open>
  The interface at the types the testers use: URLs as keys, \<open>Details\<close> as values. The clock an
  \<open>Add\<close> reads is part of the value for the pessimistic tester.
\<close>

locale optimistic_tester = lru_cache add contains remove inv keys capacity
  for add :: "string \<Rightarrow> details \<Rightarrow> 's \<Rightarrow> bool \<times> 's"
    and contains :: "string \<Rightarrow> 's \<Rightarrow> bool"
    and remove :: "string \<Rightarrow> 's \<Rightarrow> bool \<times> 's"
    and inv :: "'s \<Rightarrow> bool"
    and keys :: "'s \<Rightarrow> string list"
    and capacity :: "'s \<Rightarrow> int"
begin

lemma blocked_invalidated:
  assumes "inv s" "keys s = []" "\<not> opt_isOk contains u (fold (opt_step add remove) xs s)"
  shows "verdict u None xs = Some False"
proof -
  have "\<not> contains u s" using assms by (simp add: contains_keys)
  moreover have "last_is_add u (contains u s) (concat (map opt_events xs))"
    using assms(3) unfolding opt_isOk_def opt_run_events by (intro present_added assms(1)) simp
  ultimately show ?thesis using opt_last_add [of u None xs] by simp
qed

lemma blocked_exact:
  assumes "inv s" "keys s = []" "int (card (call_url ` set xs)) \<le> capacity s"
  shows "opt_isOk contains u (fold (opt_step add remove) xs s) \<longleftrightarrow> verdict u None xs \<noteq> Some False"
proof -
  have n: "\<not> contains u s" using assms by (simp add: contains_keys)
  have "contains u (fold (cache_event_step add remove) (concat (map opt_events xs)) s) \<longleftrightarrow>
      last_is_add u (contains u s) (concat (map opt_events xs))"
    by (rule present_exact [OF assms(1) _ opt_event_keys _ assms(3)]) (simp_all add: assms(2))
  then show ?thesis using n opt_last_add [of u None xs] by (simp add: opt_isOk_def opt_run_events)
qed

text \<open>The factory runs exactly for the URLs that are blocked.\<close>

lemma gate_opens: "opt_isOk contains u s \<Longrightarrow> opt_isValidOrSet contains u f s = (True, s)"
  by (simp add: opt_isOk_def opt_isValidOrSet_def)

lemma test_unblocks:
  "inv s \<Longrightarrow> opt_test remove fetcher u s = (None, s') \<Longrightarrow> opt_isOk contains u s'"
  using contains_remove [of s u] by (auto simp: opt_test_def opt_isOk_def split: option.splits)

end

locale pessimistic_tester = lru_cache add contains remove inv keys capacity
  for add :: "string \<Rightarrow> int \<times> details \<Rightarrow> 's \<Rightarrow> bool \<times> 's"
    and contains :: "string \<Rightarrow> 's \<Rightarrow> bool"
    and remove :: "string \<Rightarrow> 's \<Rightarrow> bool \<times> 's"
    and inv :: "'s \<Rightarrow> bool"
    and keys :: "'s \<Rightarrow> string list"
    and capacity :: "'s \<Rightarrow> int"
begin

lemma trusted_tested:
  assumes "inv s" "keys s = []" "conn_isOk contains u (fold (conn_step add remove) xs s)"
  shows "verdict u None xs = Some True"
proof -
  have "\<not> contains u s" using assms by (simp add: contains_keys)
  moreover have "last_is_add u (contains u s) (concat (map conn_events xs))"
    using assms(3) unfolding conn_isOk_def conn_run_events by (intro present_added assms(1)) simp
  ultimately show ?thesis using conn_last_add [of u None xs] by simp
qed

lemma test_trusts:
  "inv s \<Longrightarrow> 0 < capacity s \<Longrightarrow> conn_test add now fetcher u s = (None, s') \<Longrightarrow> conn_isOk contains u s'"
  using contains_add [of s u] by (auto simp: conn_test_def conn_isOk_def split: option.splits)

end

interpretation optimistic: optimistic_tester safe_add safe_contains safe_remove safe_inv
    "\<lambda>c. lru_key_list (inner c)" "\<lambda>c. lsize (inner c)"
  by unfold_locales

interpretation pessimistic: pessimistic_tester ttl_add_at ttl_contains ttl_remove ttl_inv
    ttl_key_list ttl_capacity
  by unfold_locales

lemma newOptimistic_ok:
  "newOptimistic = Inr c \<Longrightarrow> safe_inv c \<and> lru_key_list (inner c) = [] \<and> lsize (inner c) = 10000"
  unfolding newOptimistic_def by (drule newThreadSafe_inv) simp

lemma newConnectivity_ok:
  "newConnectivity = Inr c \<Longrightarrow> ttl_inv c \<and> ttl_key_list c = [] \<and> ttl_capacity c = 10000"
  unfolding newConnectivity_def newTTL_def
  by (drule newTTL_inv) (simp add: ttl_key_list_def lru_key_list_def ttl_capacity_def ttl_abs_def)

subsection \<open>Properties\<close>

text \<open>While at most 10000 different URLs have been tested or invalidated, the
optimistic tester reports a URL as not ok exactly when the last call that decided its state was an
Invalidate (a failed Test decides nothing); with no such call it is ok.\<close>

theorem optimistic_exact:
  assumes "newOptimistic = Inr c" "card (call_url ` set xs) \<le> 10000"
  shows "opt_isOk safe_contains u (fold (opt_step safe_add safe_remove) xs c)
    \<longleftrightarrow> verdict u None xs \<noteq> Some False"
  by (rule optimistic.blocked_exact) (use newOptimistic_ok [OF assms(1)] assms(2) in simp_all)

definition sample_optimistic :: "(string, details) safe_cache" where
  "sample_optimistic = \<lparr>inner = \<lparr>lsize = 10000, evictionList = [], items = [], onEviction = False,
     calls = [], fresh = 0\<rparr>\<rparr>"

theorem optimistic_exact_witness:
  "\<not> opt_isOk safe_contains ''http://a'' (fold (opt_step safe_add safe_remove)
     [CInvalidate 1 ''http://a'', CTest 2 (Some (\<lambda>u. HTMLFetchResult 503)) ''http://a''] sample_optimistic)"
proof -
  have n: "newOptimistic = Inr sample_optimistic"
    by (simp add: newOptimistic_def newThreadSafeWithEvict_def newLRU_def sample_optimistic_def)
  show ?thesis
    by (subst optimistic_exact [OF n])
       (simp_all add: probe_url_def validateBrowserCall_def status_ok_def)
qed

text \<open>The optimistic tester never reports a URL as not ok that was not invalidated
since its last successful Test, however many URLs it has seen.\<close>

theorem optimistic_never_blocks_unjustly:
  assumes "newOptimistic = Inr c"
    and "\<not> opt_isOk safe_contains u (fold (opt_step safe_add safe_remove) xs c)"
  shows "verdict u None xs = Some False"
  by (rule optimistic.blocked_invalidated) (use newOptimistic_ok [OF assms(1)] assms(2) in simp_all)

theorem optimistic_never_blocks_unjustly_witness:
  "verdict ''http://b'' None [CInvalidate 1 ''http://b''] = Some False"
proof (rule optimistic_never_blocks_unjustly)
  show "newOptimistic = Inr sample_optimistic"
    by (simp add: newOptimistic_def newThreadSafeWithEvict_def newLRU_def sample_optimistic_def)
qed (simp add: opt_isOk_def safe_contains_def lru_contains_def opt_invalidate_def safe_add_def on_inner_def
      lru_add_def sample_optimistic_def Let_def)

text \<open>C13: safety. The pessimistic tester reports a URL as ok only if its last deciding call was
a Test that got an HTML page with status 200; and such a Test does make the URL ok.\<close>

theorem pessimistic_trusts_tested:
  assumes "newConnectivity = Inr c"
  shows "(conn_isOk ttl_contains u (fold (conn_step ttl_add_at ttl_remove) xs c)
      \<longrightarrow> verdict u None xs = Some True)
    \<and> conn_isOk ttl_contains u (snd (conn_test ttl_add_at now (Some (\<lambda>u. HTMLFetchResult 200)) u
          (fold (conn_step ttl_add_at ttl_remove) xs c)))"
proof
  note n = newConnectivity_ok [OF assms]
  let ?c = "fold (conn_step ttl_add_at ttl_remove) xs c"
  show "conn_isOk ttl_contains u ?c \<longrightarrow> verdict u None xs = Some True"
    using pessimistic.trusted_tested [of c u xs] n by blast
  have i: "ttl_inv ?c" "ttl_capacity ?c = 10000"
    using timed.run_keeps [of c "concat (map conn_events xs)"] n by (simp_all add: conn_run_events)
  have "fst (conn_test ttl_add_at now (Some (\<lambda>u. HTMLFetchResult 200)) u ?c) = None"
    by (simp add: conn_test_def probe_url_def validateBrowserCall_def status_ok_def)
  then show "conn_isOk ttl_contains u (snd (conn_test ttl_add_at now (Some (\<lambda>u. HTMLFetchResult 200)) u ?c))"
    using pessimistic.test_trusts [of ?c now _ u] i by (metis prod.collapse zero_less_numeral)
qed

definition sample_pessimistic :: "(string, details) withTTL" where
  "sample_pessimistic = \<lparr>base = \<lparr>lsize = 10000, evictionList = [], items = [], onEviction = True,
     calls = [], fresh = 0\<rparr>, ttl = 60 * minute, userEvict = False\<rparr>"

theorem pessimistic_trusts_tested_witness:
  "verdict ''u'' None [CTest 5 (Some (\<lambda>u. HTMLFetchResult 200)) ''u''] = Some True"
proof -
  have n: "newConnectivity = Inr sample_pessimistic"
    by (simp add: newConnectivity_def newTTL_def newTTLWithEvict_def newLRU_def sample_pessimistic_def)
  have "conn_isOk ttl_contains ''u'' (fold (conn_step ttl_add_at ttl_remove)
      [CTest 5 (Some (\<lambda>u. HTMLFetchResult 200)) ''u''] sample_pessimistic)"
    by (simp add: conn_isOk_def ttl_contains_def lru_contains_def conn_test_def ttl_add_at_def ttl_add_def
        lru_add_def sample_pessimistic_def probe_url_def validateBrowserCall_def status_ok_def Let_def)
  then show ?thesis
    using pessimistic_trusts_tested [OF n, of "''u''" "[CTest 5 (Some (\<lambda>u. HTMLFetchResult 200)) ''u'']" 0]
    by blast
qed

end
