(* ===== verification/GoStrconv.thy ===== *)
theory GoStrconv
  imports GoPrelude
begin

text \<open>
  The functions of \<open>strconv\<close> and \<open>fmt\<close> the program calls on numbers: \<open>Itoa\<close>, \<open>Atoi\<close> with its two
  errors, and the zero-padded verbs \<open>%0<n>d\<close> and \<open>%02s\<close>; and the round trips between them and
  between \<open>Join\<close> and \<open>Split\<close>.
\<close>

subsection \<open>Digits\<close>

definition digit_char :: "nat \<Rightarrow> char" where
  "digit_char d = char_of (48 + d)"

definition is_digit :: "char \<Rightarrow> bool" where
  "is_digit c \<longleftrightarrow> 48 \<le> (of_char c :: nat) \<and> (of_char c :: nat) \<le> 57"

definition digit_val :: "char \<Rightarrow> nat" where
  "digit_val c = of_char c - 48"

fun nat_digits :: "nat \<Rightarrow> string" where
  "nat_digits n = (if n < 10 then [digit_char n] else nat_digits (n div 10) @ [digit_char (n mod 10)])"

declare nat_digits.simps [simp del]

fun digits_val :: "nat \<Rightarrow> string \<Rightarrow> nat" where
  "digits_val acc [] = acc"
| "digits_val acc (c # cs) = digits_val (10 * acc + digit_val c) cs"

lemma of_char_digit: "d < 10 \<Longrightarrow> (of_char (digit_char d) :: nat) = 48 + d"
  by (simp add: digit_char_def of_char_of take_bit_eq_mod)

lemma is_digit_digit_char [simp]: "d < 10 \<Longrightarrow> is_digit (digit_char d)"
  by (simp add: is_digit_def of_char_digit)

lemma digit_val_digit_char [simp]: "d < 10 \<Longrightarrow> digit_val (digit_char d) = d"
  by (simp add: digit_val_def of_char_digit)

lemma digit_val_less: "is_digit c \<Longrightarrow> digit_val c < 10"
  unfolding is_digit_def digit_val_def by linarith

lemma nat_digits_nonempty [simp]: "nat_digits n \<noteq> []"
  by (subst nat_digits.simps) simp

lemma nat_digits_is_digit: "list_all is_digit (nat_digits n)"
proof (induction n rule: nat_digits.induct)
  case (1 n)
  then show ?case by (subst nat_digits.simps) auto
qed

lemma digits_val_append: "digits_val acc (xs @ ys) = digits_val (digits_val acc xs) ys"
  by (induction xs arbitrary: acc) auto

lemma digits_val_nat_digits: "digits_val 0 (nat_digits n) = n"
proof (induction n rule: nat_digits.induct)
  case (1 n)
  show ?case
  proof (cases "n < 10")
    case True
    then show ?thesis by (subst nat_digits.simps) simp
  next
    case False
    with 1 have "digits_val 0 (nat_digits (n div 10)) = n div 10" by simp
    with False show ?thesis by (subst nat_digits.simps) (simp add: digits_val_append)
  qed
qed

lemma digits_val_replicate0: "digits_val 0 (replicate k (CHR ''0'') @ xs) = digits_val 0 xs"
  by (induction k) (auto simp: digit_val_def)

lemma digits_val_mono: "acc \<le> digits_val acc xs"
proof (induction xs arbitrary: acc)
  case Nil
  then show ?case by simp
next
  case (Cons c xs)
  have "10 * acc + digit_val c \<le> digits_val (10 * acc + digit_val c) xs" by (rule Cons.IH)
  then show ?case by simp
qed

lemma is_digit_not_sign: "is_digit c \<Longrightarrow> c \<noteq> CHR ''-'' \<and> c \<noteq> CHR ''+''"
  by (auto simp: is_digit_def)

subsection \<open>strconv.Itoa and strconv.Atoi\<close>

datatype num_error = ErrSyntax | ErrRange

definition itoa :: "int \<Rightarrow> string" where
  "itoa n = (if n < 0 then CHR ''-'' # nat_digits (nat (- n)) else nat_digits (nat n))"

text \<open>The digit loop of \<open>ParseUint\<close>: the first offending character decides the error.\<close>

fun parse_uint_loop :: "nat \<Rightarrow> string \<Rightarrow> num_error + nat" where
  "parse_uint_loop n [] = Inr n"
| "parse_uint_loop n (c # cs) =
     (if \<not> is_digit c then Inl ErrSyntax
      else if 10 * n + digit_val c \<ge> 2 ^ 64 then Inl ErrRange
      else parse_uint_loop (10 * n + digit_val c) cs)"

text \<open>\<open>Atoi\<close> returns a value and an error together: 0 on a syntax error, the nearest bound of
  \<open>int\<close> on a range error.\<close>

definition atoi :: "string \<Rightarrow> int \<times> num_error option" where
  "atoi s =
     (let neg = (s \<noteq> [] \<and> hd s = CHR ''-'');
          ds = (if s \<noteq> [] \<and> (hd s = CHR ''-'' \<or> hd s = CHR ''+'') then tl s else s);
          clamp = (if neg then - (2 ^ 63) else 2 ^ 63 - 1)
      in if ds = [] then (0, Some ErrSyntax)
         else case parse_uint_loop 0 ds of
           Inl ErrSyntax \<Rightarrow> (0, Some ErrSyntax)
         | Inl ErrRange \<Rightarrow> (clamp, Some ErrRange)
         | Inr n \<Rightarrow>
             if neg \<and> int n > 2 ^ 63 \<or> \<not> neg \<and> int n \<ge> 2 ^ 63 then (clamp, Some ErrRange)
             else (if neg then - int n else int n, None))"

lemma parse_uint_loop_digits:
  "list_all is_digit ds \<Longrightarrow> digits_val n ds < 2 ^ 64 \<Longrightarrow> parse_uint_loop n ds = Inr (digits_val n ds)"
proof (induction ds arbitrary: n)
  case Nil
  then show ?case by simp
next
  case (Cons c ds)
  have "10 * n + digit_val c \<le> digits_val (10 * n + digit_val c) ds"
    by (rule digits_val_mono)
  with Cons show ?case by auto
qed

lemma atoi_digits:
  assumes "ds \<noteq> []" "list_all is_digit ds" "digits_val 0 ds < 2 ^ 63"
  shows "atoi ds = (int (digits_val 0 ds), None)"
proof -
  obtain c cs where ds: "ds = c # cs" using assms(1) by (cases ds) auto
  have c: "c \<noteq> CHR ''-''" "c \<noteq> CHR ''+''" using assms(2) ds is_digit_not_sign by auto
  have p: "parse_uint_loop 0 ds = Inr (digits_val 0 ds)"
    using assms by (intro parse_uint_loop_digits) auto
  have "int (digits_val 0 ds) < 2 ^ 63" using assms(3) by simp
  with p c ds show ?thesis by (simp add: atoi_def Let_def del: parse_uint_loop.simps digits_val.simps)
qed

lemma atoi_neg_digits:
  assumes "ds \<noteq> []" "list_all is_digit ds" "digits_val 0 ds \<le> 2 ^ 63"
  shows "atoi (CHR ''-'' # ds) = (- int (digits_val 0 ds), None)"
proof -
  have p: "parse_uint_loop 0 ds = Inr (digits_val 0 ds)"
    using assms by (intro parse_uint_loop_digits) auto
  have "int (digits_val 0 ds) \<le> 2 ^ 63" using assms(3) by simp
  with p assms(1) show ?thesis by (simp add: atoi_def Let_def)
qed

lemma atoi_itoa: "int64_range n \<Longrightarrow> atoi (itoa n) = (n, None)"
  using atoi_digits [of "nat_digits (nat n)"] atoi_neg_digits [of "nat_digits (nat (- n))"]
  by (auto simp: itoa_def int64_range_def digits_val_nat_digits nat_digits_is_digit nat_le_iff
      nat_less_iff)

lemma atoi_range: "int64_range (fst (atoi s))"
  by (auto simp: atoi_def Let_def int64_range_def split: sum.splits num_error.splits)

lemma itoa_inject: "int64_range m \<Longrightarrow> int64_range n \<Longrightarrow> itoa m = itoa n \<Longrightarrow> m = n"
  by (metis atoi_itoa prod.inject)

lemma itoa_chars: "c \<in> set (itoa n) \<Longrightarrow> is_digit c \<or> c = CHR ''-''"
  using nat_digits_is_digit by (auto simp: itoa_def list_all_iff split: if_splits)

lemma itoa_nonempty [simp]: "itoa n \<noteq> []"
  by (simp add: itoa_def)

subsection \<open>Zero padding: the verbs of fmt\<close>

text \<open>\<open>fmt.Sprintf("%0<w>d", n)\<close>: the sign counts into the width.\<close>

definition pad_int :: "nat \<Rightarrow> int \<Rightarrow> string" where
  "pad_int w n =
     (if n < 0 then CHR ''-'' # replicate (w - 1 - length (nat_digits (nat (- n)))) (CHR ''0'')
        @ nat_digits (nat (- n))
      else replicate (w - length (nat_digits (nat n))) (CHR ''0'') @ nat_digits (nat n))"

text \<open>\<open>fmt.Sprintf("%02s", s)\<close>.\<close>

definition pad2 :: "string \<Rightarrow> string" where
  "pad2 s = replicate (2 - length s) (CHR ''0'') @ s"

lemma pad_int_nonempty [simp]: "pad_int w n \<noteq> []"
  by (simp add: pad_int_def)

lemma pad_int_digits: "0 \<le> n \<Longrightarrow> list_all is_digit (pad_int w n)"
  using nat_digits_is_digit by (auto simp: pad_int_def is_digit_def list_all_iff)

lemma pad_int_val: "0 \<le> n \<Longrightarrow> digits_val 0 (pad_int w n) = nat n"
  by (simp add: pad_int_def digits_val_replicate0 digits_val_nat_digits)

lemma atoi_pad_int: "0 \<le> n \<Longrightarrow> n < 2 ^ 63 \<Longrightarrow> atoi (pad_int w n) = (n, None)"
  using atoi_digits [of "pad_int w n"] by (simp add: pad_int_digits pad_int_val nat_less_iff)

lemma pad_int_inject:
  "0 \<le> m \<Longrightarrow> 0 \<le> n \<Longrightarrow> pad_int w m = pad_int w' n \<Longrightarrow> m = n"
  by (metis pad_int_val eq_nat_nat_iff)

lemma length_nat_digits_pos: "0 < length (nat_digits n)"
  by simp

lemma length_nat_digits_le: "0 < w \<Longrightarrow> n < 10 ^ w \<Longrightarrow> length (nat_digits n) \<le> w"
proof (induction n arbitrary: w rule: nat_digits.induct)
  case (1 n)
  show ?case
  proof (cases "n < 10")
    case True
    with 1 show ?thesis by (subst nat_digits.simps) simp
  next
    case False
    with "1.prems" obtain v where v: "w = Suc v" "0 < v" by (cases w; cases "w - 1") auto
    with "1.prems" have "n div 10 < 10 ^ v" by auto
    with "1.IH" False v have "length (nat_digits (n div 10)) \<le> v" by simp
    with False v show ?thesis by (subst nat_digits.simps) simp
  qed
qed

lemma length_pad_int: "0 < w \<Longrightarrow> 0 \<le> n \<Longrightarrow> n < 10 ^ w \<Longrightarrow> length (pad_int w n) = w"
  using length_nat_digits_le [of w "nat n"] by (simp add: pad_int_def nat_less_iff)

subsection \<open>Join and Split on a one-byte separator\<close>

lemma index_of_single:
  "index_of [c] s = (if c \<in> set s then Some (length (takeWhile (\<lambda>x. x \<noteq> c) s)) else None)"
  by (induction s) (auto simp: has_prefix_def)

lemma go_split_single_notin: "c \<notin> set s \<Longrightarrow> go_split s [c] = [s]"
  by (subst go_split.simps) (simp add: index_of_single)

lemma go_split_single_append:
  assumes "c \<notin> set x"
  shows "go_split (x @ c # s) [c] = x # go_split s [c]"
proof -
  have "takeWhile (\<lambda>y. y \<noteq> c) (x @ c # s) = x"
    using assms by (subst takeWhile_append2) auto
  then have "index_of [c] (x @ c # s) = Some (length x)"
    by (simp add: index_of_single)
  then show ?thesis by (subst go_split.simps) simp
qed

lemma go_split_join:
  "xs \<noteq> [] \<Longrightarrow> \<forall>x\<in>set xs. c \<notin> set x \<Longrightarrow> go_split (join [c] xs) [c] = xs"
  by (induction "[c]" xs rule: join.induct) (auto simp: go_split_single_notin go_split_single_append)

lemma go_split_nonempty: "sep \<noteq> [] \<Longrightarrow> go_split s sep \<noteq> []"
  by (subst go_split.simps) (simp split: option.splits)

subsection \<open>strconv.ParseBool\<close>

definition parse_bool :: "string \<Rightarrow> bool option" where
  "parse_bool s =
     (if s \<in> {''1'', ''t'', ''T'', ''TRUE'', ''true'', ''True''} then Some True
      else if s \<in> {''0'', ''f'', ''F'', ''FALSE'', ''false'', ''False''} then Some False
      else None)"

end
