(* ===== verification/Categories.thy ===== *)
theory Categories
  imports GoStrconv
begin

text \<open>
  Categories: the Newznab table and the sets of categories of \<open>indexer/categories/category.go\<close>, the
  map from an index' local categories to them of \<open>indexer/categoryMap.go\<close>, the capabilities of a
  definition (\<open>indexer/indexDefinitionParsing.go\<close>) and those published to clients
  (\<open>torznab/capabilities.go\<close>), and the category given to a result
  (\<open>indexer/categoryResolving.go\<close>).

  A Go map is an association list whose order is the one the runtime picks when it is ranged over;
  the properties hold for every order.
\<close>

datatype category = Category (catID: int) (catName: string)

definition customCategoryOffset :: int where
  "customCategoryOffset = 100000"

definition CategoryOther :: category where
  "CategoryOther = Category 0 ''Other''"

definition CategoryConsole :: category where
  "CategoryConsole = Category 1000 ''Console''"

definition CategoryMovies :: category where
  "CategoryMovies = Category 2000 ''Movies''"

definition CategoryAudio :: category where
  "CategoryAudio = Category 3000 ''Audio''"

definition CategoryPC :: category where
  "CategoryPC = Category 4000 ''PC''"

definition CategoryTV :: category where
  "CategoryTV = Category 5000 ''TV''"

definition CategoryXXX :: category where
  "CategoryXXX = Category 6000 ''XXX''"

definition CategoryBooks :: category where
  "CategoryBooks = Category 7000 ''Books''"

text \<open>The variables of the package in the order in which \<open>AllCategories\<close> lists them.\<close>

definition category_table :: "category list" where
  "category_table = [
   Category (-1) ''Subtitle'',
   Category (-2) ''Rental'',
   CategoryOther,
   Category 10 ''Other/Misc'',
   Category 20 ''Other/Hashed'',
   CategoryConsole,
   Category 1010 ''Console/NDS'',
   Category 1020 ''Console/PSP'',
   Category 1030 ''Console/Wii'',
   Category 1040 ''Console/Xbox'',
   Category 1050 ''Console/Xbox360'',
   Category 1060 ''Console/Wiiware/V'',
   Category 1070 ''Console/Xbox360'',
   Category 1080 ''Console/PS3'',
   Category 1999 ''Console/Other'',
   Category 1110 ''Console/3DS'',
   Category 1120 ''Console/PS Vita'',
   Category 1130 ''Console/WiiU'',
   Category 1140 ''Console/XboxOne'',
   Category 1180 ''Console/PS4'',
   CategoryMovies,
   Category 2010 ''Movies/Foreign'',
   Category 2020 ''Movies/Other'',
   Category 2030 ''Movies/SD'',
   Category 2040 ''Movies/HD'',
   Category 2045 ''Movies/UHD'',
   Category 2050 ''Movies/3D'',
   Category 2060 ''Movies/BluRay'',
   Category 2070 ''Movies/DVD'',
   Category 2080 ''Movies/WEBDL'',
   Category 2090 ''Movies/Trailers'',
   CategoryAudio,
   Category 3010 ''Audio/MP3'',
   Category 3020 ''Audio/Video'',
   Category 3030 ''Audio/Audiobook'',
   Category 3040 ''Audio/Lossless'',
   Category 3999 ''Audio/Other'',
   Category 3060 ''Audio/Foreign'',
   CategoryPC,
   Category 4010 ''PC/0day'',
   Category 4020 ''PC/ISO'',
   Category 4030 ''PC/Mac'',
   Category 4040 ''PC/Phone-Other'',
   Category 4050 ''PC/Games'',
   Category 4060 ''PC/Phone-IOS'',
   Category 4070 ''PC/Phone-Android'',
   CategoryTV,
   Category 5010 ''TV/WEB-DL'',
   Category 5020 ''TV/Foreign'',
   Category 5025 ''TV/DVD'',
   Category 5030 ''TV/SD'',
   Category 5040 ''TV/HD'',
   Category 5045 ''TV/UHD'',
   Category 5999 ''TV/Other'',
   Category 5060 ''TV/Sport'',
   Category 5070 ''TV/Anime'',
   Category 5080 ''TV/Documentary'',
   CategoryXXX,
   Category 6010 ''XXX/DVD'',
   Category 6020 ''XXX/WMV'',
   Category 6030 ''XXX/XviD'',
   Category 6040 ''XXX/x264'',
   Category 6999 ''XXX/Other'',
   Category 6060 ''XXX/Imageset'',
   Category 6070 ''XXX/Packs'',
   CategoryBooks,
   Category 7010 ''Books/Magazines'',
   Category 7020 ''Books/Ebook'',
   Category 7030 ''Books/Comics'',
   Category 7040 ''Books/Technical'',
   Category 7060 ''Books/Foreign'',
   Category 7999 ''Books/Unknown''
  ]"

type_synonym categories = "(int \<times> category) list"

definition createCategorySet :: "category list \<Rightarrow> categories" where
  "createCategorySet cats = fold (\<lambda>c m. AList.update (catID c) c m) cats []"

definition allCategories :: categories where
  "allCategories = createCategorySet category_table"

definition parentCategory :: "category \<Rightarrow> category" where
  "parentCategory c =
     (if catID c < 1000 then CategoryOther
      else if catID c < 2000 then CategoryConsole
      else if catID c < 3000 then CategoryMovies
      else if catID c < 4000 then CategoryAudio
      else if catID c < 5000 then CategoryPC
      else if catID c < 6000 then CategoryTV
      else if catID c < 7000 then CategoryXXX
      else if catID c < 8000 then CategoryBooks
      else CategoryOther)"

definition categories_items :: "categories \<Rightarrow> category list" where
  "categories_items m = map snd m"

definition containsCat :: "categories \<Rightarrow> category \<Rightarrow> bool" where
  "containsCat m c \<longleftrightarrow> map_of m (catID c) \<noteq> None"

text \<open>\<open>Subset\<close> does not look at its receiver: it picks from \<open>AllCategories\<close>, whose
order when ranged over is \<open>all_cats\<close>.\<close>

definition categories_subset :: "categories \<Rightarrow> int list \<Rightarrow> categories" where
  "categories_subset all_cats ids =
     fold (\<lambda>(_, cat) m. fold (\<lambda>i m. if catID cat = i then AList.update (catID cat) cat m else m) ids m)
       all_cats []"

definition categories_len :: "categories \<Rightarrow> nat" where
  "categories_len m = length m"

text \<open>
  \<open>Less\<close> indexes the map with positions \<open>i\<close> and \<open>j\<close> of the sort: a position that is not the ID of a
  category gives a nil pointer, whose field cannot be read (\<open>None\<close>: a panic).
\<close>

definition categories_less :: "categories \<Rightarrow> int \<Rightarrow> int \<Rightarrow> bool option" where
  "categories_less m i j =
     (case (map_of m i, map_of m j) of (Some a, Some b) \<Rightarrow> Some (catID a < catID b) | _ \<Rightarrow> None)"

subsection \<open>The category map of an index\<close>

type_synonym categoryMap = "(string \<times> category) list"

definition collect_category :: "category \<Rightarrow> categories \<Rightarrow> categories" where
  "collect_category c cats =
     (if map_of cats (catID c) \<noteq> None then cats else AList.update (catID c) c cats)"

definition mapped_categories :: "categoryMap \<Rightarrow> categories" where
  "mapped_categories m = fold (\<lambda>e. collect_category (snd e)) m []"

definition local_ids :: "(category \<Rightarrow> bool) \<Rightarrow> categoryMap \<Rightarrow> string list" where
  "local_ids P m = map fst (filter (\<lambda>e. P (snd e)) m)"

definition resolve :: "categoryMap \<Rightarrow> category option \<Rightarrow> string list" where
  "resolve m cat =
     (case cat of
        None \<Rightarrow> []
      | Some c \<Rightarrow>
          let exact = local_ids (\<lambda>mc. catID mc = catID c) m
          in if exact \<noteq> [] then exact
             else let children = local_ids (\<lambda>mc. catID (parentCategory mc) = catID c) m
                  in if children \<noteq> [] then children
                     else local_ids (\<lambda>mc. catID mc = catID (parentCategory c)) m)"

definition resolveAll :: "categoryMap \<Rightarrow> category list \<Rightarrow> string list" where
  "resolveAll m cats = concat (map (\<lambda>c. resolve m (Some c)) cats)"

definition dedup_step :: "string \<Rightarrow> string list \<Rightarrow> string list" where
  "dedup_step i localCats = (if i \<in> set localCats then localCats else localCats @ [i])"

definition getLocalCategoriesMatchingQuery ::
    "categories \<Rightarrow> int list \<Rightarrow> categoryMap \<Rightarrow> string list" where
  "getLocalCategoriesMatchingQuery all_cats queryCategories m =
     (if queryCategories = [] then []
      else fold dedup_step (resolveAll m (categories_items (categories_subset all_cats queryCategories))) [])"

subsection \<open>Capabilities\<close>

record search_mode =
  modeKey :: string
  available :: bool
  supportedParams :: "string list"

record capabilities_block =
  categoryMap :: categoryMap
  searchModes :: "search_mode list"

text \<open>\<open>UnmarshalYAML\<close> after the YAML decoder: the local categories with their standard names, and
the modes. The first category of the name in the order of \<open>allCats\<close> is taken.\<close>

definition category_named :: "categories \<Rightarrow> string \<Rightarrow> category option" where
  "category_named allCats name = map_option snd (List.find (\<lambda>(_, c). catName c = name) allCats)"

definition unmarshal_capabilities ::
    "categories \<Rightarrow> (string \<times> string) list \<Rightarrow> (string \<times> string list) list \<Rightarrow> capabilities_block" where
  "unmarshal_capabilities allCats cats modes =
     \<lparr>categoryMap = List.map_filter (\<lambda>(i, name). map_option (Pair i) (category_named allCats name)) cats,
      searchModes = map (\<lambda>(key, supported).
        \<lparr>modeKey = key, available = True, supportedParams = supported\<rparr>) modes\<rparr>"

record capabilities =
  capModes :: "search_mode list"
  capCategories :: categories

definition hasCategory :: "capabilities \<Rightarrow> category \<Rightarrow> bool" where
  "hasCategory c cat = containsCat (capCategories c) cat"

definition hasCategories :: "capabilities \<Rightarrow> category list \<Rightarrow> bool" where
  "hasCategories c cats \<longleftrightarrow> (\<forall>cat\<in>set cats. containsCat (capCategories c) cat)"

definition hasSearchMode :: "capabilities \<Rightarrow> string \<Rightarrow> string list option" where
  "hasSearchMode c key =
     map_option supportedParams (List.find (\<lambda>m. modeKey m = key \<and> available m) (capModes c))"

definition hasTVShows :: "capabilities \<Rightarrow> bool" where
  "hasTVShows c \<longleftrightarrow> (\<exists>e\<in>set (capCategories c). 5000 \<le> catID (snd e) \<and> catID (snd e) < 6000)"

definition hasMovies :: "capabilities \<Rightarrow> bool" where
  "hasMovies c \<longleftrightarrow> (\<exists>e\<in>set (capCategories c). 2000 \<le> catID (snd e) \<and> catID (snd e) < 3000)"

definition toTorznab :: "capabilities_block \<Rightarrow> capabilities" where
  "toTorznab b =
     (let caps = \<lparr>capModes = [\<lparr>modeKey = ''search'', available = True, supportedParams = [''q'']\<rparr>],
                  capCategories = mapped_categories (categoryMap b)\<rparr>;
          tv = (if hasTVShows caps
                then [\<lparr>modeKey = ''tv-search'', available = True,
                       supportedParams = [''q'', ''season'', ''ep'']\<rparr>] else []);
          movies = (if hasMovies caps
                then [\<lparr>modeKey = ''movie-search'', available = True, supportedParams = [''q'']\<rparr>] else [])
      in caps\<lparr>capModes := capModes caps @ tv @ movies\<rparr>)"

subsection \<open>The category of a result\<close>

definition resolveCategoryForTorrent :: "categoryMap \<Rightarrow> string \<Rightarrow> int \<Rightarrow> int" where
  "resolveCategoryForTorrent m localCategoryID current =
     (case map_of m localCategoryID of
        Some mappedCat \<Rightarrow> catID mappedCat
      | None \<Rightarrow>
          (case atoi localCategoryID of
             (n, None) \<Rightarrow> wrap64 (n + customCategoryOffset)
           | (_, Some _) \<Rightarrow> current))"

subsection \<open>The table\<close>

lemma allCategories_list: "allCategories = map (\<lambda>c. (catID c, c)) category_table"
  by code_simp

lemma table_ids_distinct: "distinct (map catID category_table)"
  by code_simp

lemma allCategories_distinct: "distinct (map fst allCategories)"
  using table_ids_distinct by (simp add: allCategories_list comp_def)

lemma allCategories_keys: "e \<in> set allCategories \<Longrightarrow> fst e = catID (snd e)"
  by (auto simp: allCategories_list)

lemma parent_by_id: "catID a = catID b \<Longrightarrow> parentCategory a = parentCategory b"
  by (simp add: parentCategory_def)

lemma parent_cases:
  "parentCategory c \<in> {CategoryOther, CategoryConsole, CategoryMovies, CategoryAudio, CategoryPC,
     CategoryTV, CategoryXXX, CategoryBooks}"
  by (simp add: parentCategory_def)

lemma parent_idem: "parentCategory (parentCategory c) = parentCategory c"
  using parent_cases [of c]
  by (auto simp: parentCategory_def CategoryOther_def CategoryConsole_def CategoryMovies_def
      CategoryAudio_def CategoryPC_def CategoryTV_def CategoryXXX_def CategoryBooks_def)

subsection \<open>Resolving\<close>

lemma local_ids_iff: "x \<in> set (local_ids P m) \<longleftrightarrow> (\<exists>mc. (x, mc) \<in> set m \<and> P mc)"
  by (force simp: local_ids_def)

lemma local_ids_perm: "mset m = mset m' \<Longrightarrow> mset (local_ids P m) = mset (local_ids P m')"
  by (simp add: local_ids_def)

lemma resolve_perm: "mset m = mset m' \<Longrightarrow> mset (resolve m c) = mset (resolve m' c)"
proof -
  assume m: "mset m = mset m'"
  have e: "local_ids P m = [] \<longleftrightarrow> local_ids P m' = []" for P
    using local_ids_perm [OF m, of P] by (metis mset_zero_iff)
  show ?thesis by (auto simp: resolve_def Let_def e local_ids_perm [OF m] split: option.splits)
qed

lemma resolve_family:
  assumes "x \<in> set (resolve m (Some c))"
  shows "\<exists>mc. (x, mc) \<in> set m \<and> parentCategory mc = parentCategory c"
proof -
  consider mc where "(x, mc) \<in> set m" "catID mc = catID c"
    | mc where "(x, mc) \<in> set m" "catID (parentCategory mc) = catID c"
    | mc where "(x, mc) \<in> set m" "catID mc = catID (parentCategory c)"
    using assms by (auto simp: resolve_def Let_def local_ids_iff split: if_splits)
  then show ?thesis
  proof cases
    case 1
    then show ?thesis using parent_by_id by blast
  next
    case 2
    then show ?thesis using parent_by_id [OF 2(2)] by (auto simp: parent_idem)
  next
    case 3
    then show ?thesis using parent_by_id [OF 3(2)] by (auto simp: parent_idem)
  qed
qed

lemma resolve_exact: "(x, mc) \<in> set m \<Longrightarrow> catID mc = catID c \<Longrightarrow> x \<in> set (resolve m (Some c))"
proof -
  assume "(x, mc) \<in> set m" "catID mc = catID c"
  then have "x \<in> set (local_ids (\<lambda>mc. catID mc = catID c) m)" by (auto simp: local_ids_iff)
  then show ?thesis by (auto simp: resolve_def Let_def)
qed

lemma dedup_fold: "distinct acc \<Longrightarrow> distinct (fold dedup_step xs acc) \<and> set (fold dedup_step xs acc) = set acc \<union> set xs"
  by (induction xs arbitrary: acc) (auto simp: dedup_step_def)

lemma subset_inner:
  "fold (\<lambda>i m. if n = i then AList.update n c m else m) ids m =
     (if n \<in> set ids then AList.update n c m else m)"
  by (induction ids arbitrary: m) auto

lemma subset_outer:
  assumes "distinct (map fst all_cats)" "\<forall>e\<in>set all_cats. fst e = catID (snd e)"
    "fst ` set acc \<inter> fst ` set all_cats = {}"
  shows "fold (\<lambda>(_, cat) m. fold (\<lambda>i m. if catID cat = i then AList.update (catID cat) cat m else m) ids m)
       all_cats acc = acc @ filter (\<lambda>e. fst e \<in> set ids) all_cats"
  using assms
proof (induction all_cats arbitrary: acc)
  case Nil
  then show ?case by simp
next
  case (Cons e cs)
  obtain k c where e: "e = (k, c)" by (cases e)
  have k: "k = catID c" "k \<notin> fst ` set acc" using Cons.prems e by auto
  have "fst ` set (acc @ [(k, c)]) \<inter> fst ` set cs = {}" using Cons.prems e by auto
  with Cons.IH [of acc] Cons.IH [of "acc @ [(k, c)]"] Cons.prems k e show ?case
    by (simp add: subset_inner update_append_new)
qed

lemma categories_subset_eq:
  assumes "mset all_cats = mset allCategories"
  shows "categories_subset all_cats ids = filter (\<lambda>e. fst e \<in> set ids) all_cats"
proof -
  have "distinct (map fst all_cats)"
    using assms allCategories_distinct by (metis mset_eq_imp_distinct_iff mset_map)
  moreover have "\<forall>e\<in>set all_cats. fst e = catID (snd e)"
    using assms allCategories_keys by (metis set_mset_mset)
  ultimately show ?thesis by (simp add: categories_subset_def subset_outer)
qed

lemma getLocal_set:
  assumes "mset all_cats = mset allCategories"
  shows "set (getLocalCategoriesMatchingQuery all_cats q m) =
      (\<Union>c\<in>{c \<in> set category_table. catID c \<in> set q}. set (resolve m (Some c)))"
    and "distinct (getLocalCategoriesMatchingQuery all_cats q m)"
proof -
  have s: "set all_cats = (\<lambda>c. (catID c, c)) ` set category_table"
    using assms by (metis allCategories_list image_set set_mset_mset)
  show "set (getLocalCategoriesMatchingQuery all_cats q m) =
      (\<Union>c\<in>{c \<in> set category_table. catID c \<in> set q}. set (resolve m (Some c)))"
    by (auto simp: getLocalCategoriesMatchingQuery_def dedup_fold categories_subset_eq [OF assms]
        resolveAll_def categories_items_def s)
  show "distinct (getLocalCategoriesMatchingQuery all_cats q m)"
    by (simp add: getLocalCategoriesMatchingQuery_def dedup_fold)
qed

subsection \<open>Published capabilities\<close>

lemma collect_category_keys:
  assumes "\<forall>e\<in>set cats. fst e = catID (snd e)"
  shows "fst ` set (collect_category c cats) = insert (catID c) (fst ` set cats)"
    and "\<forall>e\<in>set (collect_category c cats). fst e = catID (snd e)"
proof -
  consider "catID c \<in> fst ` set cats" "collect_category c cats = cats"
    | "collect_category c cats = cats @ [(catID c, c)]"
    by (cases "catID c \<in> fst ` set cats")
       (auto simp: collect_category_def map_of_eq_None_iff update_append_new simp del: not_None_eq)
  note cases = this
  show "fst ` set (collect_category c cats) = insert (catID c) (fst ` set cats)"
    using cases by cases auto
  show "\<forall>e\<in>set (collect_category c cats). fst e = catID (snd e)"
    using cases assms by cases auto
qed

lemma mapped_categories_fold:
  "\<forall>e\<in>set cats. fst e = catID (snd e) \<Longrightarrow>
   fst ` set (fold (\<lambda>e. collect_category (snd e)) m cats) = fst ` set cats \<union> catID ` snd ` set m
   \<and> (\<forall>e\<in>set (fold (\<lambda>e. collect_category (snd e)) m cats). fst e = catID (snd e))"
proof (induction m arbitrary: cats)
  case Nil
  then show ?case by simp
next
  case (Cons e m)
  from Cons.IH [OF collect_category_keys(2) [OF Cons.prems, of "snd e"]]
  show ?case
    unfolding collect_category_keys(1) [OF Cons.prems] fold_simps list.set(2) image_insert by blast
qed

lemma mapped_categories_keys:
  "fst ` set (mapped_categories m) = catID ` snd ` set m"
  "\<forall>e\<in>set (mapped_categories m). fst e = catID (snd e)"
proof -
  have f: "fst ` set (mapped_categories m) = fst ` set ([] :: categories) \<union> catID ` snd ` set m \<and>
      (\<forall>e\<in>set (mapped_categories m). fst e = catID (snd e))"
    unfolding mapped_categories_def by (rule mapped_categories_fold) simp
  then have "fst ` set (mapped_categories m) = fst ` set ([] :: categories) \<union> catID ` snd ` set m"
    by (rule conjunct1)
  then show "fst ` set (mapped_categories m) = catID ` snd ` set m"
    unfolding list.set(1) image_empty Un_empty_left .
  from f show "\<forall>e\<in>set (mapped_categories m). fst e = catID (snd e)" by (rule conjunct2)
qed

lemma mapped_categories_ex:
  "(\<exists>e\<in>set (mapped_categories m). P (catID (snd e))) \<longleftrightarrow> (\<exists>e\<in>set m. P (catID (snd e)))"
proof -
  have "(\<exists>e\<in>set (mapped_categories m). P (catID (snd e))) \<longleftrightarrow>
      (\<exists>k\<in>fst ` set (mapped_categories m). P k)"
    using mapped_categories_keys(2) by auto
  then show ?thesis by (auto simp: mapped_categories_keys(1))
qed

subsection \<open>Properties\<close>

text \<open>The table of standard categories is consistent: its IDs are distinct, so
none is lost in AllCategories; the parent of every category is a member that is its own parent; and
the name of every category with a non-negative ID begins with its parent's name.\<close>

theorem category_table_consistent:
  "distinct (map catID category_table)
   \<and> map_of allCategories = map_of (map (\<lambda>c. (catID c, c)) category_table)
   \<and> parentCategory ` set category_table \<subseteq> {c \<in> set category_table. parentCategory c = c}
   \<and> list_all (\<lambda>c. 0 \<le> catID c \<and> parentCategory c \<noteq> CategoryOther \<longrightarrow>
       has_prefix (catName c) (catName (parentCategory c))) category_table"
proof -
  have m: "list_all (\<lambda>c. parentCategory c \<in> set category_table) category_table" by code_simp
  have n: "list_all (\<lambda>c. 0 \<le> catID c \<and> parentCategory c \<noteq> CategoryOther \<longrightarrow>
       has_prefix (catName c) (catName (parentCategory c))) category_table" by code_simp
  have "parentCategory ` set category_table \<subseteq> {c \<in> set category_table. parentCategory c = c}"
    using m by (simp only: image_subset_iff mem_Collect_eq list_all_iff parent_idem ball_simps simp_thms)
  with n show ?thesis by (simp only: table_ids_distinct allCategories_list simp_thms)
qed

theorem category_table_consistent_witness:
  "parentCategory (Category 5070 ''TV/Anime'') = CategoryTV \<and> has_prefix ''TV/Anime'' (catName CategoryTV)"
proof
  show p: "parentCategory (Category 5070 ''TV/Anime'') = CategoryTV" by (simp add: parentCategory_def)
  have "Category 5070 ''TV/Anime'' \<in> set category_table" by (simp add: category_table_def)
  then have "0 \<le> catID (Category 5070 ''TV/Anime'') \<and> parentCategory (Category 5070 ''TV/Anime'') \<noteq> CategoryOther \<longrightarrow>
      has_prefix (catName (Category 5070 ''TV/Anime'')) (catName (parentCategory (Category 5070 ''TV/Anime'')))"
    using category_table_consistent unfolding list_all_iff by blast
  then show "has_prefix ''TV/Anime'' (catName CategoryTV)" by (simp add: p CategoryTV_def CategoryOther_def)
qed



text \<open>A result found under a local category that the map knows gets the category
of the map, and a query for that standard category searches this local category.\<close>

theorem category_of_result_is_searched:
  assumes "mset all_cats = mset allCategories" "map_of m x = Some mc" "mc \<in> set category_table"
  shows "x \<in> set (getLocalCategoriesMatchingQuery all_cats [resolveCategoryForTorrent m x current] m)"
  using assms resolve_exact [OF map_of_SomeD [OF assms(2)], of mc]
  by (auto simp: getLocal_set(1) [OF assms(1)] resolveCategoryForTorrent_def)

theorem category_of_result_is_searched_witness:
  "''tv'' \<in> set (getLocalCategoriesMatchingQuery allCategories
     [resolveCategoryForTorrent [(''pc'', CategoryPC), (''tv'', CategoryTV)] ''tv'' 0]
     [(''pc'', CategoryPC), (''tv'', CategoryTV)])"
  by (rule category_of_result_is_searched [of _ _ _ CategoryTV]) (simp_all add: category_table_def)

text \<open>functional. The capabilities published for a definition offer the mode search always,
tv-search exactly when a local category is mapped to an ID from 5000 to 5999 and movie-search
exactly for one from 2000 to 2999, and they list exactly the mapped standard categories.\<close>

theorem published_capabilities:
  "hasSearchMode (toTorznab b) ''search'' = Some [''q'']
   \<and> (hasSearchMode (toTorznab b) ''tv-search'' \<noteq> None \<longleftrightarrow>
        (\<exists>e\<in>set (categoryMap b). 5000 \<le> catID (snd e) \<and> catID (snd e) < 6000))
   \<and> (hasSearchMode (toTorznab b) ''movie-search'' \<noteq> None \<longleftrightarrow>
        (\<exists>e\<in>set (categoryMap b). 2000 \<le> catID (snd e) \<and> catID (snd e) < 3000))
   \<and> (hasCategory (toTorznab b) c \<longleftrightarrow> catID c \<in> catID ` snd ` set (categoryMap b))"
proof -
  let ?tv = "\<lambda>i. 5000 \<le> i \<and> i < (6000::int)" and ?mv = "\<lambda>i. 2000 \<le> i \<and> i < (3000::int)"
  have tv: "(\<exists>e\<in>set (mapped_categories m). 5000 \<le> catID (snd e) \<and> catID (snd e) < 6000) \<longleftrightarrow>
      (\<exists>e\<in>set m. 5000 \<le> catID (snd e) \<and> catID (snd e) < 6000)" for m
    using mapped_categories_ex [of m ?tv] by simp
  have mv: "(\<exists>e\<in>set (mapped_categories m). 2000 \<le> catID (snd e) \<and> catID (snd e) < 3000) \<longleftrightarrow>
      (\<exists>e\<in>set m. 2000 \<le> catID (snd e) \<and> catID (snd e) < 3000)" for m
    using mapped_categories_ex [of m ?mv] by simp
  have c: "map_of (mapped_categories m) i \<noteq> None \<longleftrightarrow> i \<in> catID ` snd ` set m" for m i
    unfolding map_of_eq_None_iff mapped_categories_keys(1) by simp
  show ?thesis
    unfolding toTorznab_def hasSearchMode_def hasCategory_def containsCat_def hasTVShows_def hasMovies_def Let_def
    using tv [of "categoryMap b"] mv [of "categoryMap b"] c [of "categoryMap b" "catID c"] by auto
qed

text \<open>The order that MarshalXML sorts the published categories by takes positions for
IDs: with fewer than eleven positions, of a set of standard categories, comparing any two different
positions panics, whatever algorithm asks for the comparison.\<close>

theorem sorting_capabilities_panics:
  assumes "snd ` set (categoryMap b) \<subseteq> set category_table"
    and "0 \<le> i" "i < 10" "0 \<le> j" "j < 10" "i \<noteq> j"
  shows "categories_less (capCategories (toTorznab b)) i j = None"
proof -
  have k: "fst ` set (capCategories (toTorznab b)) = catID ` snd ` set (categoryMap b)"
    by (simp add: toTorznab_def Let_def mapped_categories_keys(1))
  have "list_all (\<lambda>c. catID c \<le> 0 \<or> 10 \<le> catID c) category_table" by code_simp
  then have "n \<in> fst ` set (capCategories (toTorznab b)) \<Longrightarrow> n \<le> 0 \<or> 10 \<le> n" for n
    using assms(1) unfolding k by (auto simp: list_all_iff)
  then have "i \<notin> fst ` set (capCategories (toTorznab b)) \<or> j \<notin> fst ` set (capCategories (toTorznab b))"
    using assms(2-6) by (metis (no_types) linorder_not_le order_antisym)
  then have "map_of (capCategories (toTorznab b)) i = None \<or> map_of (capCategories (toTorznab b)) j = None"
    by (simp only: map_of_eq_None_iff)
  then show ?thesis by (auto simp: categories_less_def split: option.splits)
qed

theorem sorting_capabilities_panics_witness:
  "categories_less (capCategories (toTorznab
     \<lparr>categoryMap = [(''1'', CategoryTV), (''2'', CategoryMovies)], searchModes = []\<rparr>)) 1 0 = None"
  by (rule sorting_capabilities_panics) (simp_all add: category_table_def)

end
