(* ===== verification/Query.thy ===== *)
theory Query
  imports Categories "HOL-Library.Sublist"
begin

text \<open>
  Search queries (\<open>indexer/search/query.go\<close>): the query record, the pattern language of query
  strings, the parser of URL parameters, and the way back to URL parameters, which also is the
  unique key of a query. A step that indexes past the end of a slice is a panic, written out as
  a value of the result. \<open>url.Values\<close> is an association list with distinct keys in the order in
  which the runtime ranges over it; its text form (percent encoding, sorted keys) is left to the
  standard library.
\<close>

datatype field_value = RangeField "string list" | OtherValue string

record query =
  qType :: string
  queryString :: string
  qSeries :: string
  qEp :: string
  qSeason :: string
  qMovie :: string
  qYear :: string
  qLimit :: uint64
  qOffset :: uint64
  qExtended :: bool
  qCategories :: "int list"
  apiKey :: string
  tvdbID :: string
  tvRageID :: string
  imdbID :: string
  tvMazeID :: string
  traktID :: string
  qFields :: "(string \<times> field_value) list"
  stopOnStale :: bool
  numberOfPagesToFetch :: uint64
  qPage :: uint64

definition newQuery :: query where
  "newQuery = \<lparr>qType = [], queryString = [], qSeries = [], qEp = [], qSeason = [], qMovie = [],
     qYear = [], qLimit = 0, qOffset = 0, qExtended = False, qCategories = [], apiKey = [],
     tvdbID = [], tvRageID = [], imdbID = [], tvMazeID = [], traktID = [], qFields = [],
     stopOnStale = False, numberOfPagesToFetch = 0, qPage = 0\<rparr>"

definition getDefaultQuery :: query where
  "getDefaultQuery = newQuery\<lparr>qLimit := 20\<rparr>"

subsection \<open>Query strings with patterns\<close>

text \<open>The result of code that may panic, return an error or return a value.\<close>

datatype 'a outcome = Panics | Fails string | Returns 'a

record queryFunction =
  funcName :: string
  funcParams :: "string list"

definition trimSpaces :: "string list \<Rightarrow> string list" where
  "trimSpaces params = map (\<lambda>v. go_trim v [CHR '' '', CHR 0x09, CHR 0x0A]) params"

definition parseQueryPatternValue :: "string \<Rightarrow> queryFunction option outcome" where
  "parseQueryPatternValue patternValue =
     (if str_contains patternValue ''('' \<and> str_contains patternValue '')'' then
        let split = go_split2 patternValue ''('';
            name = split ! 0
        in if name = ''range'' then
             (if split ! 1 = [] then Panics
              else Returns (Some \<lparr>funcName = name,
                funcParams = trimSpaces (go_split (butlast (split ! 1)) '','')\<rparr>))
           else Returns None
      else Returns None)"

definition populateFieldWithQueryFunction ::
    "query \<Rightarrow> string \<Rightarrow> queryFunction \<Rightarrow> query outcome" where
  "populateFieldWithQueryFunction q field function =
     (if funcName function = ''range''
      then Returns (q\<lparr>qFields := AList.update field (RangeField (funcParams function)) (qFields q)\<rparr>)
      else Fails ''function is not supported'')"

text \<open>
  One part of a pattern query. \<open>partSplit[0][1:]\<close> panics on an empty name, \<open>partSplit[1]\<close> when
  there is no colon.
\<close>

definition parse_pattern_part :: "query \<Rightarrow> string \<Rightarrow> query outcome" where
  "parse_pattern_part q part =
     (let partSplit = go_split2 part '':''
      in if partSplit ! 0 = [] then Panics
         else let field = tl (partSplit ! 0)
              in if length partSplit < 2 then Panics
                 else case parseQueryPatternValue (partSplit ! 1) of
                        Panics \<Rightarrow> Panics
                      | Fails e \<Rightarrow> Fails e
                      | Returns None \<Rightarrow> Returns q
                      | Returns (Some function) \<Rightarrow> populateFieldWithQueryFunction q field function)"

fun parse_pattern_parts :: "query \<Rightarrow> string list \<Rightarrow> query outcome" where
  "parse_pattern_parts q [] = Returns q"
| "parse_pattern_parts q (part # parts) =
     (case parse_pattern_part q part of
        Returns q' \<Rightarrow> parse_pattern_parts q' parts | Fails e \<Rightarrow> Fails e | Panics \<Rightarrow> Panics)"

definition parsePatternQuery :: "query \<Rightarrow> string \<Rightarrow> query outcome" where
  "parsePatternQuery q rawQuery = parse_pattern_parts q (go_split rawQuery '';'')"

definition queryUsesPatterns :: "string \<Rightarrow> bool" where
  "queryUsesPatterns s \<longleftrightarrow> (\<exists>part\<in>set (go_split s '';''). has_prefix part ''$'')"

definition newQueryFromQueryString :: "string \<Rightarrow> query outcome" where
  "newQueryFromQueryString s =
     (let q = newQuery\<lparr>qType := ''search''\<rparr>
      in if queryUsesPatterns s then parsePatternQuery q s
         else Returns (q\<lparr>queryString := s\<rparr>))"

subsection \<open>URL parameters\<close>

fun split_ints_loop :: "string list \<Rightarrow> int list option" where
  "split_ints_loop [] = Some []"
| "split_ints_loop (v # vs) =
     (case atoi v of
        (n, None) \<Rightarrow> map_option (Cons n) (split_ints_loop vs)
      | (_, Some _) \<Rightarrow> None)"

definition splitInts :: "string \<Rightarrow> string \<Rightarrow> int list option" where
  "splitInts s delim = split_ints_loop (go_split s delim)"

fun cats_loop :: "string list \<Rightarrow> int list option" where
  "cats_loop [] = Some []"
| "cats_loop (v # vs) =
     (case splitInts v '','' of
        None \<Rightarrow> None | Some ints \<Rightarrow> map_option (append ints) (cats_loop vs))"

definition to_uint :: "int \<Rightarrow> uint64" where
  "to_uint n = word_of_int n"

text \<open>
  What one parameter does: it panics (an empty list of values), fails and hands back the query so
  far or none at all, or changes the query.
\<close>

datatype param_effect = PPanic | PFail | PFailNil | PSet "query \<Rightarrow> query"

definition single_value :: "string list \<Rightarrow> (string \<Rightarrow> param_effect) \<Rightarrow> param_effect" where
  "single_value vals f = (case vals of [] \<Rightarrow> PPanic | [v] \<Rightarrow> f v | _ \<Rightarrow> PFail)"

definition int_value :: "string list \<Rightarrow> (int \<Rightarrow> query \<Rightarrow> query) \<Rightarrow> param_effect" where
  "int_value vals f =
     single_value vals (\<lambda>v. case atoi v of (n, None) \<Rightarrow> PSet (f n) | (_, Some _) \<Rightarrow> PFail)"

datatype param_key =
  KType | KPages | KQuery | KSeries | KMovie | KYear | KEp | KSeason | KApiKey | KLimit | KOffset
| KExtended | KCat | KTvdb | KRage | KMaze | KImdb | KIgnored

text \<open>The cases of the switch; \<open>l\<close>, \<open>format\<close> and unknown keys change nothing.\<close>

definition param_keys :: "(string \<times> param_key) list" where
  "param_keys = [(''t'', KType), (''p'', KPages), (''q'', KQuery), (''series'', KSeries),
     (''movie'', KMovie), (''year'', KYear), (''ep'', KEp), (''season'', KSeason),
     (''apikey'', KApiKey), (''limit'', KLimit), (''offset'', KOffset), (''extended'', KExtended),
     (''cat'', KCat), (''tvdbid'', KTvdb), (''rid'', KRage), (''tvmazeid'', KMaze), (''imdbid'', KImdb)]"

definition param_key_of :: "string \<Rightarrow> param_key" where
  "param_key_of k = (case map_of param_keys k of Some x \<Rightarrow> x | None \<Rightarrow> KIgnored)"

fun key_effect :: "param_key \<Rightarrow> string list \<Rightarrow> param_effect" where
  "key_effect KType vals = single_value vals (\<lambda>v. PSet (qType_update (\<lambda>_. v)))"
| "key_effect KPages vals =
     (case vals of [] \<Rightarrow> PPanic
      | v # _ \<Rightarrow> PSet (numberOfPagesToFetch_update (\<lambda>_. to_uint (fst (atoi v)))))"
| "key_effect KQuery vals = PSet (queryString_update (\<lambda>_. join '' '' vals))"
| "key_effect KSeries vals = PSet (qSeries_update (\<lambda>_. join '' '' vals))"
| "key_effect KMovie vals = PSet (qMovie_update (\<lambda>_. join '' '' vals))"
| "key_effect KYear vals = single_value vals (\<lambda>v. PSet (qYear_update (\<lambda>_. v)))"
| "key_effect KEp vals = single_value vals (\<lambda>v. PSet (qEp_update (\<lambda>_. v)))"
| "key_effect KSeason vals = single_value vals (\<lambda>v. PSet (qSeason_update (\<lambda>_. v)))"
| "key_effect KApiKey vals = single_value vals (\<lambda>v. PSet (apiKey_update (\<lambda>_. v)))"
| "key_effect KLimit vals = int_value vals (\<lambda>n. qLimit_update (\<lambda>_. to_uint n))"
| "key_effect KOffset vals = int_value vals (\<lambda>n. qOffset_update (\<lambda>_. to_uint n))"
| "key_effect KExtended vals =
     single_value vals (\<lambda>v. case parse_bool v of
       None \<Rightarrow> PFail | Some b \<Rightarrow> PSet (qExtended_update (\<lambda>_. b)))"
| "key_effect KCat vals =
     (case cats_loop vals of None \<Rightarrow> PFailNil | Some cs \<Rightarrow> PSet (qCategories_update (\<lambda>_. cs)))"
| "key_effect KTvdb vals = single_value vals (\<lambda>v. PSet (tvdbID_update (\<lambda>_. v)))"
| "key_effect KRage vals = single_value vals (\<lambda>v. PSet (tvRageID_update (\<lambda>_. v)))"
| "key_effect KMaze vals = single_value vals (\<lambda>v. PSet (tvMazeID_update (\<lambda>_. v)))"
| "key_effect KImdb vals = single_value vals (\<lambda>v. PSet (imdbID_update (\<lambda>_. v)))"
| "key_effect KIgnored vals = PSet id"

definition param_effect_of :: "string \<Rightarrow> string list \<Rightarrow> param_effect" where
  "param_effect_of k vals = key_effect (param_key_of k) vals"

text \<open>The query and whether the error is nil; \<open>None\<close> as outer value is a panic.\<close>

fun params_loop :: "query \<Rightarrow> (string \<times> string list) list \<Rightarrow> (query option \<times> bool) option" where
  "params_loop q [] = Some (Some q, True)"
| "params_loop q ((k, vals) # ps) =
     (case param_effect_of k vals of
        PPanic \<Rightarrow> None
      | PFail \<Rightarrow> Some (Some q, False)
      | PFailNil \<Rightarrow> Some (None, False)
      | PSet f \<Rightarrow> params_loop (f q) ps)"

definition newQueryFromUrl :: "(string \<times> string list) list \<Rightarrow> (query option \<times> bool) option" where
  "newQueryFromUrl v = params_loop getDefaultQuery v"

subsection \<open>The query as text\<close>

definition episode :: "query \<Rightarrow> string" where
  "episode q =
     (if qSeason q \<noteq> [] then ''S'' @ pad2 (qSeason q) else []) @
     (if qEp q \<noteq> [] then ''E'' @ pad2 (qEp q) else [])"

definition addCategory :: "category \<Rightarrow> query \<Rightarrow> query" where
  "addCategory cat q = q\<lparr>qCategories := qCategories q @ [catID cat]\<rparr>"

definition query_keywords :: "query \<Rightarrow> string" where
  "query_keywords q = join '' ''
     ((if queryString q \<noteq> [] then [queryString q] else []) @
      (if qSeries q \<noteq> [] then [qSeries q] else []) @
      (if qMovie q \<noteq> [] then [qMovie q] else []) @
      (if qYear q \<noteq> [] then [qYear q] else []) @
      (if qSeason q \<noteq> [] \<or> qEp q \<noteq> [] then [episode q] else []))"

text \<open>\<open>%v\<close> prints a range as its values between brackets.\<close>

fun show_field_value :: "field_value \<Rightarrow> string" where
  "show_field_value (RangeField vs) = ''['' @ join '' '' vs @ '']''"
| "show_field_value (OtherValue s) = s"

definition fieldsToString :: "query \<Rightarrow> string" where
  "fieldsToString q =
     join '', '' (map (\<lambda>(n, v). ''{'' @ n @ '': '' @ show_field_value v @ ''}'') (qFields q))"

definition toVerboseString :: "query \<Rightarrow> string" where
  "toVerboseString q =
     join ''; ''
       ((if query_keywords q \<noteq> [] then [''keywords: '' @ query_keywords q] else []) @
        (if fieldsToString q \<noteq> [] then [''fields: '' @ fieldsToString q] else []))"

text \<open>\<open>int(query.Limit)\<close> of a \<open>uint\<close> is its two's complement value.\<close>

definition text_param :: "string \<Rightarrow> string \<Rightarrow> (string \<times> string list) list" where
  "text_param k v = (if v \<noteq> [] then [(k, [v])] else [])"

definition uint_param :: "string \<Rightarrow> uint64 \<Rightarrow> (string \<times> string list) list" where
  "uint_param k n = (if n \<noteq> 0 then [(k, [itoa (sint n)])] else [])"

definition query_values :: "query \<Rightarrow> (string \<times> string list) list" where
  "query_values q = concat
    [[(''t'', [if qType q \<noteq> [] then qType q else ''search''])],
     text_param ''q'' (queryString q),
     text_param ''ep'' (qEp q),
     text_param ''season'' (qSeason q),
     text_param ''movie'' (qMovie q),
     text_param ''year'' (qYear q),
     text_param ''series'' (qSeries q),
     uint_param ''offset'' (qOffset q),
     uint_param ''limit'' (qLimit q),
     if qExtended q then [(''extended'', [''1''])] else [],
     text_param ''apikey'' (apiKey q),
     if qCategories q \<noteq> [] then [(''cat'', [join '','' (map itoa (qCategories q))])] else [],
     text_param ''tvdbid'' (tvdbID q),
     text_param ''rid'' (tvRageID q),
     text_param ''tvmazeid'' (tvMazeID q),
     text_param ''traktid'' (traktID q),
     text_param ''imdbid'' (imdbID q)]"

definition encode :: "((string \<times> string list) list \<Rightarrow> string) \<Rightarrow> query \<Rightarrow> string" where
  "encode values_encode q = values_encode (query_values q)"

definition uniqueKey :: "((string \<times> string list) list \<Rightarrow> string) \<Rightarrow> query \<Rightarrow> string" where
  "uniqueKey values_encode q = encode values_encode q"

definition hasEnoughResults :: "query \<Rightarrow> uint64 \<Rightarrow> bool" where
  "hasEnoughResults q n \<longleftrightarrow> qLimit q > 0 \<and> n \<ge> qLimit q"

subsection \<open>Parameters commute\<close>

definition set_param :: "string \<times> string list \<Rightarrow> query \<Rightarrow> query" where
  "set_param p = (case param_effect_of (fst p) (snd p) of PSet f \<Rightarrow> f | _ \<Rightarrow> id)"

definition ok_param :: "string \<times> string list \<Rightarrow> bool" where
  "ok_param p \<longleftrightarrow> (case param_effect_of (fst p) (snd p) of PSet f \<Rightarrow> True | _ \<Rightarrow> False)"

lemma params_loop_ok:
  "\<forall>p\<in>set ps. ok_param p \<Longrightarrow> params_loop q ps = Some (Some (fold set_param ps q), True)"
  by (induction q ps rule: params_loop.induct)
     (auto simp: ok_param_def set_param_def split: param_effect.splits)

text \<open>A parameter sets the one field of its key, or nothing.\<close>

fun setter_of :: "param_key \<Rightarrow> (query \<Rightarrow> query) set" where
  "setter_of KType = range (\<lambda>v. qType_update (\<lambda>_. v))"
| "setter_of KPages = range (\<lambda>v. numberOfPagesToFetch_update (\<lambda>_. v))"
| "setter_of KQuery = range (\<lambda>v. queryString_update (\<lambda>_. v))"
| "setter_of KSeries = range (\<lambda>v. qSeries_update (\<lambda>_. v))"
| "setter_of KMovie = range (\<lambda>v. qMovie_update (\<lambda>_. v))"
| "setter_of KYear = range (\<lambda>v. qYear_update (\<lambda>_. v))"
| "setter_of KEp = range (\<lambda>v. qEp_update (\<lambda>_. v))"
| "setter_of KSeason = range (\<lambda>v. qSeason_update (\<lambda>_. v))"
| "setter_of KApiKey = range (\<lambda>v. apiKey_update (\<lambda>_. v))"
| "setter_of KLimit = range (\<lambda>v. qLimit_update (\<lambda>_. v))"
| "setter_of KOffset = range (\<lambda>v. qOffset_update (\<lambda>_. v))"
| "setter_of KExtended = range (\<lambda>v. qExtended_update (\<lambda>_. v))"
| "setter_of KCat = range (\<lambda>v. qCategories_update (\<lambda>_. v))"
| "setter_of KTvdb = range (\<lambda>v. tvdbID_update (\<lambda>_. v))"
| "setter_of KRage = range (\<lambda>v. tvRageID_update (\<lambda>_. v))"
| "setter_of KMaze = range (\<lambda>v. tvMazeID_update (\<lambda>_. v))"
| "setter_of KImdb = range (\<lambda>v. imdbID_update (\<lambda>_. v))"
| "setter_of KIgnored = {}"

lemma key_effect_setter:
  "key_effect x vals \<in> {PPanic, PFail, PFailNil, PSet id} \<union> PSet ` setter_of x"
  by (cases x) (auto simp: single_value_def int_value_def split: list.splits option.splits prod.splits)

lemma set_param_setter: "set_param p = id \<or> set_param p \<in> setter_of (param_key_of (fst p))"
  using key_effect_setter [of "param_key_of (fst p)" "snd p"]
  by (auto simp: set_param_def param_effect_of_def)

fun key_rank :: "param_key \<Rightarrow> nat" where
  "key_rank KType = 0"
| "key_rank KPages = 1"
| "key_rank KQuery = 2"
| "key_rank KSeries = 3"
| "key_rank KMovie = 4"
| "key_rank KYear = 5"
| "key_rank KEp = 6"
| "key_rank KSeason = 7"
| "key_rank KApiKey = 8"
| "key_rank KLimit = 9"
| "key_rank KOffset = 10"
| "key_rank KExtended = 11"
| "key_rank KCat = 12"
| "key_rank KTvdb = 13"
| "key_rank KRage = 14"
| "key_rank KMaze = 15"
| "key_rank KImdb = 16"
| "key_rank KIgnored = 17"

lemma setter_commute_ranked:
  assumes "key_rank x < key_rank y" "f \<in> setter_of x" "g \<in> setter_of y"
  shows "f \<circ> g = g \<circ> f"
  using assms
  by (cases x; cases y; simp only: setter_of.simps key_rank.simps empty_iff;
      simp (no_asm_use); (elim rangeE)?; simp (no_asm_simp) only: fun_eq_iff comp_apply; (intro allI)?; simp (no_asm))

lemma key_rank_inject: "key_rank x = key_rank y \<Longrightarrow> x = y"
  by (cases x; cases y; simp)

lemma setter_commute:
  assumes "x \<noteq> y" "f \<in> setter_of x" "g \<in> setter_of y"
  shows "f \<circ> g = g \<circ> f"
proof (cases "key_rank x < key_rank y")
  case True
  then show ?thesis by (rule setter_commute_ranked [OF _ assms(2,3)])
next
  case False
  with assms(1) have "key_rank y < key_rank x" using key_rank_inject [of x y] by linarith
  then show ?thesis by (rule setter_commute_ranked [OF _ assms(3,2), symmetric])
qed

lemma param_key_inj:
  assumes "param_key_of k = param_key_of k'" "k \<noteq> k'"
  shows "param_key_of k = KIgnored"
proof (rule ccontr)
  assume n: "param_key_of k \<noteq> KIgnored"
  have d: "distinct (map snd param_keys)" by code_simp
  have m: "(j, param_key_of j) \<in> set param_keys" if "param_key_of j \<noteq> KIgnored" for j
    using that by (auto simp: param_key_of_def split: option.splits dest: map_of_SomeD)
  have "(k, param_key_of k) \<in> set param_keys" "(k', param_key_of k) \<in> set param_keys"
    using m [of k] m [of k'] n assms(1) by simp_all
  moreover have "inj_on snd (set param_keys)" using d by (simp add: distinct_map)
  ultimately have "(k, param_key_of k) = (k', param_key_of k)"
    by (intro inj_onD [of snd "set param_keys"]) simp_all
  with assms(2) show False by simp
qed

lemma set_param_commute: "fst p \<noteq> fst p' \<Longrightarrow> set_param p \<circ> set_param p' = set_param p' \<circ> set_param p"
proof (cases "param_key_of (fst p) = param_key_of (fst p')")
  case True
  assume "fst p \<noteq> fst p'"
  from param_key_inj [OF True this] True
  have "set_param p = id" using set_param_setter [of p] by auto
  then show ?thesis by simp
next
  case False
  from set_param_setter [of p] show ?thesis
  proof
    assume p: "set_param p \<in> setter_of (param_key_of (fst p))"
    from set_param_setter [of p'] show ?thesis
      by (elim disjE) (simp, rule setter_commute [OF False p])
  qed simp
qed

lemma fold_params_order:
  assumes "mset ps = mset ps'" "distinct (map fst ps')"
  shows "fold set_param ps = fold set_param ps'"
proof (rule fold_multiset_equiv)
  show "mset ps = mset ps'" by (rule assms(1))
  have s: "set ps = set ps'" using assms(1) by (metis set_mset_mset)
  fix x y
  assume "x \<in> set ps" "y \<in> set ps"
  then have "x = y \<or> fst x \<noteq> fst y" using assms(2) s by (auto simp: distinct_map dest: inj_onD)
  then show "set_param x \<circ> set_param y = set_param y \<circ> set_param x" using set_param_commute by blast
qed

subsection \<open>Parsing what Encode writes\<close>

text \<open>The fields that survive: not the Trakt ID, the number of pages, the page, the patterns and
the stale flag; a missing type becomes \<open>search\<close> and a missing limit the default of 20.\<close>

definition encoded_part :: "query \<Rightarrow> query" where
  "encoded_part q = newQuery\<lparr>
     qType := (if qType q \<noteq> [] then qType q else ''search''), queryString := queryString q,
     qSeries := qSeries q, qEp := qEp q, qSeason := qSeason q, qMovie := qMovie q, qYear := qYear q,
     qLimit := (if qLimit q \<noteq> 0 then qLimit q else 20), qOffset := qOffset q,
     qExtended := qExtended q, qCategories := qCategories q, apiKey := apiKey q,
     tvdbID := tvdbID q, tvRageID := tvRageID q, imdbID := imdbID q, tvMazeID := tvMazeID q\<rparr>"

lemma sint_range64: "int64_range (sint (n :: uint64))"
  using sint_range_size [of n] by (simp add: int64_range_def word_size)

lemma set_uint_param:
  "param_key_of k = KLimit \<Longrightarrow> ok_param (k, [itoa (sint n)]) \<and>
     set_param (k, [itoa (sint n)]) = qLimit_update (\<lambda>_. n)"
  "param_key_of k = KOffset \<Longrightarrow> ok_param (k, [itoa (sint n)]) \<and>
     set_param (k, [itoa (sint n)]) = qOffset_update (\<lambda>_. n)"
  by (simp_all add: set_param_def ok_param_def param_effect_of_def int_value_def single_value_def
      atoi_itoa sint_range64 to_uint_def)

lemma itoa_no_comma: "CHR '','' \<notin> set (itoa n)"
  using itoa_chars [of "CHR '',''" n] by (auto simp: is_digit_def)

lemma split_ints_itoa: "\<forall>n\<in>set ns. int64_range n \<Longrightarrow> split_ints_loop (map itoa ns) = Some ns"
  by (induction ns) (simp_all add: atoi_itoa)

lemma cats_roundtrip:
  assumes "\<forall>n\<in>set ns. int64_range n" "ns \<noteq> []"
  shows "cats_loop [join '','' (map itoa ns)] = Some ns"
proof -
  have "go_split (join '','' (map itoa ns)) '','' = map itoa ns"
    using assms(2) by (intro go_split_join) (auto simp: itoa_no_comma)
  then show ?thesis using split_ints_itoa [OF assms(1)] by (simp add: splitInts_def)
qed

lemma text_piece:
  "fold set_param (text_param k v) q = (if v = [] then q else set_param (k, [v]) q)"
  "\<forall>p\<in>set (text_param k v). ok_param p \<longleftrightarrow> v = [] \<or> ok_param (k, [v])"
  by (simp_all add: text_param_def)

lemma uint_piece:
  "fold set_param (uint_param k n) q = (if n = 0 then q else set_param (k, [itoa (sint n)]) q)"
  by (simp add: uint_param_def)

lemma text_setters:
  "set_param (''t'', [v]) = qType_update (\<lambda>_. v)"
  "set_param (''q'', [v]) = queryString_update (\<lambda>_. v)"
  "set_param (''ep'', [v]) = qEp_update (\<lambda>_. v)"
  "set_param (''season'', [v]) = qSeason_update (\<lambda>_. v)"
  "set_param (''movie'', [v]) = qMovie_update (\<lambda>_. v)"
  "set_param (''year'', [v]) = qYear_update (\<lambda>_. v)"
  "set_param (''series'', [v]) = qSeries_update (\<lambda>_. v)"
  "set_param (''apikey'', [v]) = apiKey_update (\<lambda>_. v)"
  "set_param (''tvdbid'', [v]) = tvdbID_update (\<lambda>_. v)"
  "set_param (''rid'', [v]) = tvRageID_update (\<lambda>_. v)"
  "set_param (''tvmazeid'', [v]) = tvMazeID_update (\<lambda>_. v)"
  "set_param (''imdbid'', [v]) = imdbID_update (\<lambda>_. v)"
  "set_param (''traktid'', [v]) = id"
  "set_param (''extended'', [''1'']) = qExtended_update (\<lambda>_. True)"
  by (simp_all add: set_param_def param_effect_of_def param_key_of_def param_keys_def single_value_def
      parse_bool_def)

lemma text_ok:
  "ok_param (''t'', [v])"
  "ok_param (''q'', [v])"
  "ok_param (''ep'', [v])"
  "ok_param (''season'', [v])"
  "ok_param (''movie'', [v])"
  "ok_param (''year'', [v])"
  "ok_param (''series'', [v])"
  "ok_param (''apikey'', [v])"
  "ok_param (''tvdbid'', [v])"
  "ok_param (''rid'', [v])"
  "ok_param (''tvmazeid'', [v])"
  "ok_param (''imdbid'', [v])"
  "ok_param (''traktid'', [v])"
  "ok_param (''extended'', [''1''])"
  by (simp_all add: ok_param_def param_effect_of_def param_key_of_def param_keys_def single_value_def
      parse_bool_def)

lemma keys_of_uints: "param_key_of ''limit'' = KLimit" "param_key_of ''offset'' = KOffset"
  by (simp_all add: param_key_of_def param_keys_def)

lemma uint_setters:
  "set_param (''limit'', [itoa (sint n)]) = qLimit_update (\<lambda>_. n)"
  "set_param (''offset'', [itoa (sint n)]) = qOffset_update (\<lambda>_. n)"
  by (simp_all add: set_uint_param keys_of_uints)

lemma uint_ok:
  "ok_param (''limit'', [itoa (sint (n :: uint64))])" "ok_param (''offset'', [itoa (sint n)])"
  using set_uint_param(1) [OF keys_of_uints(1), of n] set_uint_param(2) [OF keys_of_uints(2), of n]
  by simp_all

lemma cat_setter:
  assumes "\<forall>n\<in>set ns. int64_range n" "ns \<noteq> []"
  shows "set_param (''cat'', [join '','' (map itoa ns)]) = qCategories_update (\<lambda>_. ns)"
    and "ok_param (''cat'', [join '','' (map itoa ns)])"
  using cats_roundtrip [OF assms]
  by (simp_all add: set_param_def ok_param_def param_effect_of_def param_key_of_def param_keys_def del: cats_loop.simps)

lemma query_values_ok:
  assumes "\<forall>n\<in>set (qCategories q). int64_range n" "p \<in> set (query_values q)"
  shows "ok_param p"
  using assms(2) cat_setter(2) [OF assms(1)]
  by (auto simp: query_values_def text_param_def uint_param_def text_ok uint_ok)

lemma distinct_pieces_keys:
  "list_all2 (\<lambda>k p. p = [] \<or> p = [k]) ks kss \<Longrightarrow>
   set (concat kss) \<subseteq> set ks \<and> (distinct ks \<longrightarrow> distinct (concat kss))"
proof (induction ks kss rule: list_all2_induct)
  case (Cons k ks p kss)
  have "concat (p # kss) = p @ concat kss" by simp
  then show ?case using Cons by (auto simp del: concat.simps set_concat)
qed simp

lemma distinct_pieces:
  "list_all2 (\<lambda>k p. map fst p = [] \<or> map fst p = [k]) ks ps \<Longrightarrow> distinct ks \<Longrightarrow> distinct (map fst (concat ps))"
  using distinct_pieces_keys [of ks "map (map fst) ps"] by (simp add: map_concat list_all2_map2)

lemma query_values_distinct: "distinct (map fst (query_values q))"
proof -
  have s: "map fst (text_param k v) = [] \<or> map fst (text_param k v) = [k]" for k v
    by (simp add: text_param_def)
  have u: "map fst (uint_param k n) = [] \<or> map fst (uint_param k n) = [k]" for k n
    by (simp add: uint_param_def)
  show ?thesis unfolding query_values_def
    by (rule distinct_pieces [of "[''t'', ''q'', ''ep'', ''season'', ''movie'', ''year'', ''series'',
      ''offset'', ''limit'', ''extended'', ''apikey'', ''cat'', ''tvdbid'', ''rid'', ''tvmazeid'',
      ''traktid'', ''imdbid'']"]) (simp_all only: list_all2_Cons list_all2_Nil s u, simp_all)
qed

text \<open>What each piece of the encoding does to a query.\<close>

lemma piece_folds:
  "fold set_param (text_param ''q'' v) = queryString_update (\<lambda>w. if v = [] then w else v)"
  "fold set_param (text_param ''ep'' v) = qEp_update (\<lambda>w. if v = [] then w else v)"
  "fold set_param (text_param ''season'' v) = qSeason_update (\<lambda>w. if v = [] then w else v)"
  "fold set_param (text_param ''movie'' v) = qMovie_update (\<lambda>w. if v = [] then w else v)"
  "fold set_param (text_param ''year'' v) = qYear_update (\<lambda>w. if v = [] then w else v)"
  "fold set_param (text_param ''series'' v) = qSeries_update (\<lambda>w. if v = [] then w else v)"
  "fold set_param (text_param ''apikey'' v) = apiKey_update (\<lambda>w. if v = [] then w else v)"
  "fold set_param (text_param ''tvdbid'' v) = tvdbID_update (\<lambda>w. if v = [] then w else v)"
  "fold set_param (text_param ''rid'' v) = tvRageID_update (\<lambda>w. if v = [] then w else v)"
  "fold set_param (text_param ''tvmazeid'' v) = tvMazeID_update (\<lambda>w. if v = [] then w else v)"
  "fold set_param (text_param ''imdbid'' v) = imdbID_update (\<lambda>w. if v = [] then w else v)"
  "fold set_param (text_param ''traktid'' v) = id"
  by (simp_all add: fun_eq_iff text_piece(1) text_setters)

lemma uint_folds:
  "fold set_param (uint_param ''limit'' n) = qLimit_update (\<lambda>w. if n = 0 then w else n)"
  "fold set_param (uint_param ''offset'' n) = qOffset_update (\<lambda>w. if n = 0 then w else n)"
  by (simp_all add: fun_eq_iff uint_piece uint_setters)

lemma other_folds:
  "fold set_param (if b then [(''extended'', [''1''])] else []) = qExtended_update (\<lambda>w. b \<or> w)"
  "fold set_param [(''t'', [v])] = qType_update (\<lambda>w. v)"
  by (simp_all add: fun_eq_iff text_setters)

lemma cat_fold:
  assumes "\<forall>n\<in>set ns. int64_range n"
  shows "fold set_param (if ns \<noteq> [] then [(''cat'', [join '','' (map itoa ns)])] else []) =
    qCategories_update (\<lambda>w. if ns = [] then w else ns)"
  using cat_setter(1) [OF assms] by (simp add: fun_eq_iff)

lemma if_same_default: "(if v = d then d else v) = v"
  by simp

lemma query_values_fold:
  assumes "\<forall>n\<in>set (qCategories q). int64_range n"
  shows "fold set_param (query_values q) getDefaultQuery = encoded_part q"
proof -
  note folds = piece_folds uint_folds other_folds cat_fold [OF assms]
  have "fold set_param (query_values q) getDefaultQuery = 
    (imdbID_update (\<lambda>w. if imdbID q = [] then w else imdbID q) \<circ>
     tvMazeID_update (\<lambda>w. if tvMazeID q = [] then w else tvMazeID q) \<circ>
     tvRageID_update (\<lambda>w. if tvRageID q = [] then w else tvRageID q) \<circ>
     tvdbID_update (\<lambda>w. if tvdbID q = [] then w else tvdbID q) \<circ>
     qCategories_update (\<lambda>w. if qCategories q = [] then w else qCategories q) \<circ>
     apiKey_update (\<lambda>w. if apiKey q = [] then w else apiKey q) \<circ>
     qExtended_update (\<lambda>w. qExtended q \<or> w) \<circ>
     qLimit_update (\<lambda>w. if qLimit q = 0 then w else qLimit q) \<circ>
     qOffset_update (\<lambda>w. if qOffset q = 0 then w else qOffset q) \<circ>
     qSeries_update (\<lambda>w. if qSeries q = [] then w else qSeries q) \<circ>
     qYear_update (\<lambda>w. if qYear q = [] then w else qYear q) \<circ>
     qMovie_update (\<lambda>w. if qMovie q = [] then w else qMovie q) \<circ>
     qSeason_update (\<lambda>w. if qSeason q = [] then w else qSeason q) \<circ>
     qEp_update (\<lambda>w. if qEp q = [] then w else qEp q) \<circ>
     queryString_update (\<lambda>w. if queryString q = [] then w else queryString q) \<circ>
     qType_update (\<lambda>w. if qType q \<noteq> [] then qType q else ''search'')) getDefaultQuery"
    unfolding query_values_def concat.simps fold_append append_Nil2 folds by (simp only: comp_apply id_apply)
  also have "\<dots> = encoded_part q"
    unfolding getDefaultQuery_def newQuery_def encoded_part_def comp_apply
    by (simp only: query.update_convs if_same_default if_not_P simp_thms)  simp
  finally show ?thesis .
qed

lemma newQueryFromUrl_encoded:
  assumes "\<forall>n\<in>set (qCategories q). int64_range n" "mset ps = mset (query_values q)"
  shows "newQueryFromUrl ps = Some (Some (encoded_part q), True)"
proof -
  have "set ps = set (query_values q)" using assms(2) by (metis set_mset_mset)
  then have "newQueryFromUrl ps = Some (Some (fold set_param ps getDefaultQuery), True)"
    unfolding newQueryFromUrl_def using query_values_ok [OF assms(1)] by (intro params_loop_ok) blast
  then show ?thesis
    by (simp add: fold_params_order [OF assms(2) query_values_distinct] query_values_fold [OF assms(1)])
qed

subsection \<open>Pattern queries\<close>

text \<open>The text of a pattern query for ranges.\<close>

definition range_part :: "string \<times> string \<times> string \<Rightarrow> string" where
  "range_part = (\<lambda>(n, a, b). CHR ''$'' # n @ '':range('' @ a @ '','' @ b @ '')'')"

definition clean :: "string \<Rightarrow> bool" where
  "clean s \<longleftrightarrow> set s \<inter> set ''$;:,() '' = {} \<and> CHR 0x09 \<notin> set s \<and> CHR 0x0A \<notin> set s"

lemma go_split2_single: "c \<notin> set x \<Longrightarrow> go_split2 (x @ c # y) [c] = [x, y]"
proof -
  assume c: "c \<notin> set x"
  then have "takeWhile (\<lambda>d. d \<noteq> c) (x @ c # y) = x" by (auto simp: takeWhile_append)
  then show ?thesis by (simp add: go_split2_def index_of_single)
qed

lemma str_contains_single: "str_contains s [c] \<longleftrightarrow> c \<in> set s"
  by (simp add: str_contains_def index_of_single)

lemma go_trim_clean: "set s \<inter> set cs = {} \<Longrightarrow> go_trim s cs = s"
proof -
  assume a: "set s \<inter> set cs = {}"
  then have "dropWhile (\<lambda>c. c \<in> set cs) s = s" by (cases s) auto
  moreover have "dropWhile (\<lambda>c. c \<in> set cs) (rev s) = rev s" using a by (cases s rule: rev_cases) auto
  ultimately show ?thesis by (simp add: go_trim_def trim_right_def)
qed

lemma parse_range_value:
  assumes "clean a" "clean b"
  shows "parseQueryPatternValue (''range('' @ a @ '','' @ b @ '')'') =
    Returns (Some \<lparr>funcName = ''range'', funcParams = [a, b]\<rparr>)"
proof -
  have s1: "go_split2 (''range('' @ a @ '','' @ b @ '')'') ''('' = [''range'', a @ '','' @ b @ '')'']"
    using go_split2_single [of "CHR ''(''" "''range''" "a @ '','' @ b @ '')''"] by simp
  have b: "butlast (a @ '','' @ b @ '')'') = a @ CHR '','' # b"
    by (simp add: butlast_append)
  have s2: "go_split (a @ CHR '','' # b) '','' = [a, b]"
    using assms by (simp add: go_split_single_append go_split_single_notin clean_def)
  have t: "trimSpaces [a, b] = [a, b]"
    using assms by (auto simp: trimSpaces_def clean_def intro!: go_trim_clean)
  show ?thesis
    unfolding parseQueryPatternValue_def s1 Let_def
    by (simp add: str_contains_single b [simplified] s2 t)
qed

lemma parse_range_part:
  assumes "clean n" "clean a" "clean b"
  shows "parse_pattern_part q (range_part (n, a, b)) =
    Returns (q\<lparr>qFields := AList.update n (RangeField [a, b]) (qFields q)\<rparr>)"
proof -
  have "go_split2 (range_part (n, a, b)) '':'' = [CHR ''$'' # n, ''range('' @ a @ '','' @ b @ '')'']"
    using assms(1) go_split2_single [of "CHR '':''" "CHR ''$'' # n" "''range('' @ a @ '','' @ b @ '')''"]
    by (simp add: range_part_def clean_def)
  then show ?thesis
    using parse_range_value [OF assms(2,3)]
    by (simp add: parse_pattern_part_def populateFieldWithQueryFunction_def)
qed

definition range_fields :: "(string \<times> string \<times> string) list \<Rightarrow> (string \<times> field_value) list" where
  "range_fields rs = fold (\<lambda>(n, a, b). AList.update n (RangeField [a, b])) rs []"

lemma parse_range_parts:
  "\<forall>(n, a, b)\<in>set rs. clean n \<and> clean a \<and> clean b \<Longrightarrow>
   parse_pattern_parts q (map range_part rs) =
     Returns (q\<lparr>qFields := fold (\<lambda>(n, a, b). AList.update n (RangeField [a, b])) rs (qFields q)\<rparr>)"
proof (induction rs arbitrary: q)
  case Nil
  then show ?case by simp
next
  case (Cons r rs)
  obtain n a b where r: "r = (n, a, b)" by (cases r)
  then show ?case using Cons parse_range_part [of n a b q] by simp
qed

lemma range_part_no_semicolon:
  "clean n \<Longrightarrow> clean a \<Longrightarrow> clean b \<Longrightarrow> CHR '';'' \<notin> set (range_part (n, a, b))"
  by (simp add: range_part_def clean_def)

lemma pattern_query_split:
  assumes "rs \<noteq> []" "\<forall>(n, a, b)\<in>set rs. clean n \<and> clean a \<and> clean b"
  shows "go_split (join '';'' (map range_part rs)) '';'' = map range_part rs"
proof (rule go_split_join)
  show "\<forall>x\<in>set (map range_part rs). CHR '';'' \<notin> set x"
    using assms(2) range_part_no_semicolon by fastforce
qed (use assms(1) in simp)

lemma pattern_query_fields:
  assumes "rs \<noteq> []" "\<forall>(n, a, b)\<in>set rs. clean n \<and> clean a \<and> clean b"
  shows "newQueryFromQueryString (join '';'' (map range_part rs)) =
    Returns (newQuery\<lparr>qType := ''search'', qFields := range_fields rs\<rparr>)"
proof -
  note s = pattern_query_split [OF assms]
  obtain r rs' where r: "rs = r # rs'" using assms(1) by (cases rs) auto
  have "has_prefix (range_part r) ''$''" by (cases r) (simp add: range_part_def has_prefix_def)
  then have "queryUsesPatterns (join '';'' (map range_part rs))"
    unfolding queryUsesPatterns_def s using r by simp
  then show ?thesis
    by (simp add: newQueryFromQueryString_def parsePatternQuery_def s parse_range_parts [OF assms(2)]
        range_fields_def newQuery_def)
qed

lemma pattern_part_without_colon:
  "CHR '':'' \<notin> set part \<Longrightarrow> parse_pattern_part q part = Panics"
  by (auto simp: parse_pattern_part_def go_split2_def index_of_single Let_def)

subsection \<open>Properties\<close>

text \<open>C15: roundtrip. The URL parameters a query is encoded to are read back without error, in
whatever order the runtime ranges over them, to the encoded part of the query: text fields,
categories, offset and limit at their full 64 bits and the identifiers are kept; an empty type
becomes search and a zero limit (no limit) the default of 20; the Trakt ID, the number of pages, the
page, the patterns and the stale flag are lost.\<close>

theorem query_url_roundtrip:
  assumes "\<forall>n\<in>set (qCategories q). int64_range n" "mset ps = mset (query_values q)"
  shows "newQueryFromUrl ps = Some (Some (newQuery\<lparr>
     qType := (if qType q \<noteq> [] then qType q else ''search''), queryString := queryString q,
     qSeries := qSeries q, qEp := qEp q, qSeason := qSeason q, qMovie := qMovie q, qYear := qYear q,
     qLimit := (if qLimit q \<noteq> 0 then qLimit q else 20), qOffset := qOffset q,
     qExtended := qExtended q, qCategories := qCategories q, apiKey := apiKey q,
     tvdbID := tvdbID q, tvRageID := tvRageID q, imdbID := imdbID q, tvMazeID := tvMazeID q\<rparr>), True)"
  using newQueryFromUrl_encoded [OF assms] by (simp add: encoded_part_def)

theorem query_url_roundtrip_witness:
  "newQueryFromUrl (rev (query_values (newQuery\<lparr>queryString := ''ubuntu'', qOffset := - 1,
      qCategories := [4000, 5070]\<rparr>))) =
   Some (Some (newQuery\<lparr>qType := ''search'', queryString := ''ubuntu'', qLimit := 20, qOffset := - 1,
      qCategories := [4000, 5070]\<rparr>), True)"
  using query_url_roundtrip [of "newQuery\<lparr>queryString := ''ubuntu'', qOffset := - 1,
      qCategories := [4000, 5070]\<rparr>" "rev (query_values (newQuery\<lparr>queryString := ''ubuntu'', qOffset := - 1,
      qCategories := [4000, 5070]\<rparr>))"]
  by (simp add: int64_range_def newQuery_def)



end
