(* ===== verification/SearchIterator.thy ===== *)
theory SearchIterator
  imports Query
begin

text \<open>
  The iteration of a search over the pages and the range fields of a query:
  \<open>indexer/search/rangeFieldState.go\<close> and \<open>indexer/search/searchIterator.go\<close>. The counters are
  64-bit words, the current value of a range is text that is parsed, incremented and padded again.
\<close>

subsection \<open>The state of a range field\<close>

record range_state =
  rStart :: string
  rEnd :: string
  rCurrent :: string

definition newRangeFieldState :: "string \<Rightarrow> string \<Rightarrow> range_state" where
  "newRangeFieldState a b = \<lparr>rStart = a, rEnd = b, rCurrent = []\<rparr>"

definition getCurrent :: "range_state \<Rightarrow> string" where
  "getCurrent r = (if rCurrent r = [] then rStart r else rCurrent r)"

definition hasNext :: "range_state \<Rightarrow> bool" where
  "hasNext r \<longleftrightarrow> rCurrent r \<noteq> rEnd r"

text \<open>The error of \<open>Atoi\<close> is ignored: a value that is not a number counts as 0.\<close>

definition range_increment :: "range_state \<Rightarrow> range_state" where
  "range_increment r =
     (if \<not> hasNext r then r
      else let current = getCurrent r; num = wrap64 (fst (atoi current) + 1)
           in r\<lparr>rCurrent := pad_int (length current) num\<rparr>)"

definition range_next :: "range_state \<Rightarrow> string \<times> range_state" where
  "range_next r =
     (if rCurrent r = [] then (rStart r, r\<lparr>rCurrent := rStart r\<rparr>)
      else if \<not> hasNext r then (rCurrent r, r)
      else let r' = range_increment r in (rCurrent r', r'))"

subsection \<open>The iterator\<close>

record iterator =
  fieldState :: "(string \<times> range_state) list"
  startingPage :: uint64
  currentPage :: uint64
  itStopOnStale :: bool
  pageCount :: uint64
  discoveredItems :: uint64
  reachedStale :: bool

text \<open>\<open>value[0]\<close> and \<open>value[1]\<close> of a range with fewer than two values panic (\<open>None\<close>).\<close>

fun setFieldState :: "string \<Rightarrow> field_value \<Rightarrow> iterator \<Rightarrow> iterator option" where
  "setFieldState name (RangeField (a # b # _)) s =
     Some (s\<lparr>fieldState := AList.update name (newRangeFieldState a b) (fieldState s)\<rparr>)"
| "setFieldState name (RangeField _) s = None"
| "setFieldState name (OtherValue _) s = Some s"

fun setFieldStates :: "(string \<times> field_value) list \<Rightarrow> iterator \<Rightarrow> iterator option" where
  "setFieldStates [] s = Some s"
| "setFieldStates ((name, v) # fs) s =
     (case setFieldState name v s of None \<Rightarrow> None | Some s' \<Rightarrow> setFieldStates fs s')"

definition newIterator :: "query \<Rightarrow> iterator option" where
  "newIterator q = setFieldStates (qFields q)
     \<lparr>fieldState = [], startingPage = qPage q, currentPage = qPage q, itStopOnStale = stopOnStale q,
      pageCount = numberOfPagesToFetch q, discoveredItems = 0, reachedStale = False\<rparr>"

definition hasNextFieldState :: "iterator \<Rightarrow> bool" where
  "hasNextFieldState s \<longleftrightarrow> (\<exists>f\<in>set (fieldState s). hasNext (snd f))"

definition iter_next :: "iterator \<Rightarrow> ((string \<times> string) list \<times> uint64) \<times> iterator" where
  "iter_next s =
     ((map (\<lambda>(f, st). (f, getCurrent st)) (fieldState s), currentPage s),
      s\<lparr>fieldState := map (\<lambda>(f, st). (f, range_increment st)) (fieldState s),
        currentPage := currentPage s + 1\<rparr>)"

definition getFieldStateOrDefault ::
    "string \<Rightarrow> range_state option \<Rightarrow> iterator \<Rightarrow> range_state option \<times> iterator" where
  "getFieldStateOrDefault name dflt s =
     (case map_of (fieldState s) name of
        Some st \<Rightarrow> (Some st, s)
      | None \<Rightarrow>
          (case dflt of
             None \<Rightarrow> (None, s)
           | Some st \<Rightarrow> (Some st, s\<lparr>fieldState := AList.update name st (fieldState s)\<rparr>)))"

text \<open>The results of a page, each as its flag \<open>IsNew\<close>.\<close>

definition updateIteratorState :: "bool list \<Rightarrow> iterator \<Rightarrow> iterator" where
  "updateIteratorState isNews s =
     (let s' = s\<lparr>discoveredItems := discoveredItems s + of_nat (length isNews)\<rparr>
      in if itStopOnStale s' \<and> (\<exists>new\<in>set isNews. \<not> new) then s'\<lparr>reachedStale := True\<rparr> else s')"

definition hasExceededPages :: "iterator \<Rightarrow> bool" where
  "hasExceededPages s \<longleftrightarrow>
     (let pagesTraversed = currentPage s - startingPage s
      in pageCount s \<noteq> 0 \<and> pageCount s \<le> pagesTraversed \<and> pagesTraversed \<noteq> 0)"

definition iter_isComplete :: "iterator \<Rightarrow> bool" where
  "iter_isComplete s =
     (let hasNextField = hasNextFieldState s;
          isPageLimited = (pageCount s \<noteq> 0);
          exceeded = hasExceededPages s;
          hasFields = (fieldState s \<noteq> [])
      in if \<not> hasFields \<and> exceeded then True
         else if isPageLimited \<and> exceeded then True
         else if hasFields \<and> \<not> hasNextField then True
         else if itStopOnStale s \<and> reachedStale s then True
         else \<not> hasNextField \<and> exceeded)"

fun iter_run :: "nat \<Rightarrow> iterator \<Rightarrow> ((string \<times> string) list \<times> uint64) list \<times> iterator" where
  "iter_run 0 s = ([], s)"
| "iter_run (Suc n) s =
     (let (out, s') = iter_next s; (outs, s'') = iter_run n s' in (out # outs, s''))"

subsection \<open>Padded numbers\<close>

lemma length_nat_digits_mono: "m \<le> n \<Longrightarrow> length (nat_digits m) \<le> length (nat_digits n)"
proof (induction n arbitrary: m rule: nat_digits.induct)
  case (1 n)
  show ?case
  proof (cases "n < 10")
    case True
    with "1.prems" show ?thesis by (subst (1 2) nat_digits.simps) simp
  next
    case False
    show ?thesis
    proof (cases "m < 10")
      case True
      with False show ?thesis by (subst (1 2) nat_digits.simps) (simp add: Suc_le_eq)
    next
      case m: False
      have "m div 10 \<le> n div 10" using "1.prems" by (rule div_le_mono)
      with "1.IH" False have "length (nat_digits (m div 10)) \<le> length (nat_digits (n div 10))" by simp
      with False m show ?thesis by (subst (1 2) nat_digits.simps) simp
    qed
  qed
qed

lemma pad_int_succ:
  assumes "0 \<le> n"
  shows "pad_int (length (pad_int w n)) (n + 1) = pad_int w (n + 1)"
proof -
  have "length (nat_digits (nat n)) \<le> length (nat_digits (nat (n + 1)))"
    by (rule length_nat_digits_mono) simp
  then show ?thesis using assms by (simp add: pad_int_def)
qed

subsection \<open>A range of padded numbers\<close>

definition num_range :: "nat \<Rightarrow> int \<Rightarrow> int \<Rightarrow> range_state" where
  "num_range w a b = newRangeFieldState (pad_int w a) (pad_int w b)"

definition range_after :: "nat \<Rightarrow> int \<Rightarrow> int \<Rightarrow> nat \<Rightarrow> range_state" where
  "range_after w a b n =
     (if n = 0 then num_range w a b else (num_range w a b)\<lparr>rCurrent := pad_int w (min (a + int n) b)\<rparr>)"

lemma getCurrent_after:
  "a < b \<Longrightarrow> getCurrent (range_after w a b n) = pad_int w (min (a + int n) b)"
  by (simp add: range_after_def getCurrent_def num_range_def newRangeFieldState_def)

lemma hasNext_after:
  assumes "0 \<le> a" "a < b"
  shows "hasNext (range_after w a b n) \<longleftrightarrow> int n < b - a"
proof (cases n)
  case 0
  then show ?thesis using assms
    by (simp add: range_after_def hasNext_def num_range_def newRangeFieldState_def pad_int_nonempty [symmetric, of w b])
next
  case (Suc m)
  have "pad_int w (min (a + int n) b) = pad_int w b \<longleftrightarrow> min (a + int n) b = b"
    using assms pad_int_inject by (auto dest: pad_int_inject [rotated 2])
  then show ?thesis using Suc assms
    by (auto simp: range_after_def hasNext_def num_range_def newRangeFieldState_def)
qed

lemma increment_after:
  assumes "0 \<le> a" "a < b" "b < 2 ^ 63"
  shows "range_increment (range_after w a b n) = range_after w a b (Suc n)"
proof (cases "int n < b - a")
  case True
  let ?x = "a + int n"
  have "range_increment (range_after w a b n) = (range_after w a b n)\<lparr>rCurrent := pad_int w (?x + 1)\<rparr>"
  proof -
    have x: "getCurrent (range_after w a b n) = pad_int w ?x"
      using True assms by (simp add: getCurrent_after min_def)
    have "fst (atoi (pad_int w ?x)) = ?x" using True assms by (subst atoi_pad_int) simp_all
    moreover have "wrap64 (?x + 1) = ?x + 1" using True assms by (intro wrap64_id) (simp add: int64_range_def)
    ultimately show ?thesis
      using True assms by (simp add: range_increment_def hasNext_after x pad_int_succ Let_def)
  qed
  then show ?thesis using True by (auto simp: range_after_def min_def ac_simps)
next
  case False
  then have m: "min (a + int n) b = b" "min (a + int (Suc n)) b = b" "n \<noteq> 0" using assms by auto
  have "range_increment (range_after w a b n) = range_after w a b n"
    using False assms by (simp add: range_increment_def hasNext_after)
  then show ?thesis unfolding range_after_def m(1,2) using m(3) by simp
qed

subsection \<open>Runs of the iterator\<close>

text \<open>An iterator over ranges of padded numbers \<open>(name, width, first, end)\<close> after \<open>n\<close> steps.\<close>

type_synonym num_field = "string \<times> nat \<times> int \<times> int"

definition fields_after :: "num_field list \<Rightarrow> nat \<Rightarrow> (string \<times> range_state) list" where
  "fields_after fs n = map (\<lambda>(f, w, a, b). (f, range_after w a b n)) fs"

definition proper_field :: "num_field \<Rightarrow> bool" where
  "proper_field = (\<lambda>(f, w, a, b). 0 \<le> a \<and> a < b \<and> b < 2 ^ 63)"

definition num_iterator :: "num_field list \<Rightarrow> uint64 \<Rightarrow> uint64 \<Rightarrow> nat \<Rightarrow> iterator" where
  "num_iterator fs start pages n =
     \<lparr>fieldState = fields_after fs n, startingPage = start, currentPage = start + of_nat n,
      itStopOnStale = False, pageCount = pages, discoveredItems = 0, reachedStale = False\<rparr>"

definition emitted_at :: "num_field list \<Rightarrow> uint64 \<Rightarrow> nat \<Rightarrow> (string \<times> string) list \<times> uint64" where
  "emitted_at fs start n =
     (map (\<lambda>(f, w, a, b). (f, pad_int w (min (a + int n) b))) fs, start + of_nat n)"

lemma num_iterator_next:
  assumes "\<forall>f\<in>set fs. proper_field f"
  shows "iter_next (num_iterator fs start pages n) = (emitted_at fs start n, num_iterator fs start pages (Suc n))"
  using assms
  by (auto simp: iter_next_def num_iterator_def emitted_at_def fields_after_def proper_field_def
      getCurrent_after increment_after ac_simps)

lemma num_iterator_run:
  assumes "\<forall>f\<in>set fs. proper_field f"
  shows "iter_run k (num_iterator fs start pages n) =
    (map (emitted_at fs start) [n..<n + k], num_iterator fs start pages (n + k))"
proof (induction k arbitrary: n)
  case 0
  then show ?case by simp
next
  case (Suc k)
  have "map (emitted_at fs start) [n..<n + Suc k] =
      emitted_at fs start n # map (emitted_at fs start) [Suc n..<Suc n + k]"
    by (subst upt_conv_Cons) simp_all
  with Suc [of "Suc n"] show ?case by (simp add: num_iterator_next [OF assms])
qed

definition fields_done :: "num_field list \<Rightarrow> nat \<Rightarrow> bool" where
  "fields_done fs n \<longleftrightarrow> fs \<noteq> [] \<and> (\<forall>(f, w, a, b)\<in>set fs. b - a \<le> int n)"

lemma num_iterator_complete:
  assumes "\<forall>f\<in>set fs. proper_field f" "n < 2 ^ 64"
  shows "iter_isComplete (num_iterator fs start pages n) \<longleftrightarrow>
    (pages \<noteq> 0 \<and> unat pages \<le> n) \<or> fields_done fs n"
proof -
  have u: "unat (of_nat n :: uint64) = n" using assms(2) by (simp add: unat_of_nat take_bit_nat_eq_self)
  have t: "currentPage (num_iterator fs start pages n) - startingPage (num_iterator fs start pages n) = of_nat n"
    and p: "pageCount (num_iterator fs start pages n) = pages"
    by (simp_all add: num_iterator_def)
  have z: "(of_nat n :: uint64) = 0 \<longleftrightarrow> n = 0" 
  proof
    assume "(of_nat n :: uint64) = 0"
    then have "unat (of_nat n :: uint64) = 0" by (simp only: unat_0)
    then show "n = 0" by (simp only: u)
  qed simp
  have e: "hasExceededPages (num_iterator fs start pages n) \<longleftrightarrow> pages \<noteq> 0 \<and> unat pages \<le> n"
  proof (cases "n = 0")
    case True
    then show ?thesis
      unfolding hasExceededPages_def Let_def t p z word_le_nat_alt u by (simp add: unat_eq_zero)
  next
    case False
    then show ?thesis unfolding hasExceededPages_def Let_def t p z word_le_nat_alt u by simp
  qed
  have f: "fieldState (num_iterator fs start pages n) \<noteq> [] \<longleftrightarrow> fs \<noteq> []"
    and st: "itStopOnStale (num_iterator fs start pages n) \<longleftrightarrow> False"
    by (simp_all add: num_iterator_def fields_after_def)
  have "hasNextFieldState (num_iterator fs start pages n) \<longleftrightarrow> (\<exists>(f, w, a, b)\<in>set fs. int n < b - a)"
  proof -
    have "hasNextFieldState (num_iterator fs start pages n) \<longleftrightarrow>
        (\<exists>(f, w, a, b)\<in>set fs. hasNext (range_after w a b n))"
      by (simp add: hasNextFieldState_def num_iterator_def fields_after_def case_prod_unfold)
    also have "\<dots> \<longleftrightarrow> (\<exists>(f, w, a, b)\<in>set fs. int n < b - a)"
      using assms(1) by (intro bex_cong refl) (auto simp: proper_field_def hasNext_after)
    finally show ?thesis .
  qed
  then have h: "hasNextFieldState (num_iterator fs start pages n) \<longleftrightarrow>
      \<not> (\<forall>(f, w, a, b)\<in>set fs. b - a \<le> int n)"
    by (simp add: case_prod_unfold not_le)
  define E where "E \<longleftrightarrow> pages \<noteq> 0 \<and> unat pages \<le> n"
  define Q where "Q \<longleftrightarrow> (\<forall>(f, w, a, b)\<in>set fs. b - a \<le> int n)"
  have "E \<Longrightarrow> pages \<noteq> 0" by (simp add: E_def)
  then show ?thesis
    unfolding iter_isComplete_def Let_def e h fields_done_def p f st E_def [symmetric] Q_def [symmetric]
    by (cases E; cases Q; cases "fs = []") simp_all
qed

definition range_query :: "num_field list \<Rightarrow> uint64 \<Rightarrow> uint64 \<Rightarrow> query" where
  "range_query fs start pages = newQuery\<lparr>qPage := start, numberOfPagesToFetch := pages,
     qFields := map (\<lambda>(f, w, a, b). (f, RangeField [pad_int w a, pad_int w b])) fs\<rparr>"

lemma setFieldStates_ranges:
  assumes "distinct (map fst (fieldState s) @ map fst fs)"
  shows "setFieldStates (map (\<lambda>(f, w, a, b). (f, RangeField [pad_int w a, pad_int w b])) fs) s =
    Some (s\<lparr>fieldState := fieldState s @ fields_after fs 0\<rparr>)"
  using assms
proof (induction fs arbitrary: s)
  case Nil
  then show ?case by (simp add: fields_after_def)
next
  case (Cons x fs)
  obtain f w a b where x: "x = (f, w, a, b)" by (cases x)
  have "f \<notin> fst ` set (fieldState s)" using Cons.prems x by auto
  with Cons.IH [of "s\<lparr>fieldState := fieldState s @ [(f, num_range w a b)]\<rparr>"] Cons.prems x
  show ?case
    by (simp add: update_append_new fields_after_def range_after_def num_range_def)
qed

lemma newIterator_ranges:
  assumes "distinct (map fst fs)"
  shows "newIterator (range_query fs start pages) = Some (num_iterator fs start pages 0)"
  using setFieldStates_ranges [of _ fs] assms
  by (simp add: newIterator_def range_query_def newQuery_def num_iterator_def)

text \<open>A range whose first value is not below its end.\<close>

definition bad_after :: "nat \<Rightarrow> int \<Rightarrow> int \<Rightarrow> nat \<Rightarrow> range_state" where
  "bad_after w a b n =
     (if n = 0 then num_range w a b else (num_range w a b)\<lparr>rCurrent := pad_int w (a + int n)\<rparr>)"

lemma bad_after_next:
  assumes "0 \<le> b" "b \<le> a" "a + int n < 2 ^ 63 - 1"
  shows "hasNext (bad_after w a b n)" "range_increment (bad_after w a b n) = bad_after w a b (Suc n)"
proof -
  have ne: "pad_int w (a + int (Suc n)) \<noteq> pad_int w b" for n
    using assms pad_int_inject [of "a + int (Suc n)" b w w] by auto
  then show h: "hasNext (bad_after w a b n)"
    by (cases n) (simp_all add: bad_after_def hasNext_def num_range_def newRangeFieldState_def
        pad_int_nonempty [symmetric, of w b])
  have c: "getCurrent (bad_after w a b n) = pad_int w (a + int n)"
    by (simp add: bad_after_def getCurrent_def num_range_def newRangeFieldState_def)
  have "fst (atoi (pad_int w (a + int n))) = a + int n" using assms by (subst atoi_pad_int) simp_all
  moreover have "wrap64 (a + int n + 1) = a + int n + 1" using assms by (intro wrap64_id) (simp add: int64_range_def)
  moreover have "pad_int (length (pad_int w (a + int n))) (a + int n + 1) = pad_int w (a + int n + 1)"
    using assms by (intro pad_int_succ) simp
  ultimately show "range_increment (bad_after w a b n) = bad_after w a b (Suc n)"
    using h by (simp add: range_increment_def c Let_def) (simp add: bad_after_def ac_simps)
qed

lemma bad_iterator_run:
  assumes "0 \<le> b" "b \<le> a" "a + int n + int k < 2 ^ 63 - 1"
    "fieldState s = [(f, bad_after w a b n)]" "pageCount s = 0" "\<not> itStopOnStale s"
  shows "fieldState (snd (iter_run k s)) = [(f, bad_after w a b (n + k))] \<and>
    pageCount (snd (iter_run k s)) = 0 \<and> \<not> itStopOnStale (snd (iter_run k s))"
  using assms
proof (induction k arbitrary: n s)
  case 0
  then show ?case by simp
next
  case (Suc k)
  have "range_increment (bad_after w a b n) = bad_after w a b (Suc n)"
    using Suc.prems by (intro bad_after_next) auto
  then have "fieldState (snd (iter_next s)) = [(f, bad_after w a b (Suc n))]"
    "pageCount (snd (iter_next s)) = 0" "\<not> itStopOnStale (snd (iter_next s))"
    using Suc.prems by (simp_all add: iter_next_def)
  with Suc.IH [of "Suc n" "snd (iter_next s)"] Suc.prems show ?case
    by (simp add: case_prod_unfold Let_def)
qed

subsection \<open>Properties\<close>

text \<open>C17: functional. The iterator of a query over ranges of (zero-padded) numbers first below end
gives, at its k-th step, the page start + k and for every field the number first + k, or the end once it is
reached; it is complete after n steps exactly when the page limit is reached or every field has
taken end - first steps. So the field with the longest range never gives its end value.\<close>

theorem range_iteration:
  assumes "distinct (map fst fs)" "\<forall>(f, w, a, b)\<in>set fs. 0 \<le> a \<and> a < b \<and> b < 2 ^ 63" "n < 2 ^ 64"
  shows "\<exists>it. newIterator (range_query fs start pages) = Some it
    \<and> fst (iter_run n it) =
        map (\<lambda>k. (map (\<lambda>(f, w, a, b). (f, pad_int w (min (a + int k) b))) fs, start + of_nat k)) [0..<n]
    \<and> (iter_isComplete (snd (iter_run n it)) \<longleftrightarrow>
        (pages \<noteq> 0 \<and> unat pages \<le> n) \<or> (fs \<noteq> [] \<and> (\<forall>(f, w, a, b)\<in>set fs. b - a \<le> int n)))"
proof -
  have p: "\<forall>f\<in>set fs. proper_field f" using assms(2) by (auto simp: proper_field_def)
  show ?thesis
    using newIterator_ranges [OF assms(1), of start pages] num_iterator_run [OF p, of n start pages 0]
      num_iterator_complete [OF p assms(3), of start pages]
    by (simp add: emitted_at_def fields_done_def)
qed

theorem range_iteration_witness:
  "\<exists>it. newIterator (range_query [(''id'', 3, 8, 11)] 0 0) = Some it
    \<and> map fst (fst (iter_run 3 it)) = [[(''id'', ''008'')], [(''id'', ''009'')], [(''id'', ''010'')]]
    \<and> iter_isComplete (snd (iter_run 3 it))"
proof -
  have "pad_int 3 8 = ''008''" "pad_int 3 9 = ''009''" "pad_int 3 10 = ''010''"
    by code_simp+
  then show ?thesis
    using range_iteration [of "[(''id'', 3, 8, 11)]" 3 0 0] by (auto simp: numeral_3_eq_3)
qed

text \<open>liveness. A range whose first value is not below its end is never complete: without a
page limit the search goes on at every step up to the largest machine integer (the comparison is for equality with
the end, and the current value is increased before it is compared).\<close>

theorem reversed_range_never_completes:
  assumes "0 \<le> b" "b \<le> a" "a + int n < 2 ^ 63 - 1"
  shows "\<exists>it. newIterator (range_query [(f, w, a, b)] start 0) = Some it
    \<and> \<not> iter_isComplete (snd (iter_run n it))"
proof -
  let ?it = "num_iterator [(f, w, a, b)] start 0 0"
  have i: "newIterator (range_query [(f, w, a, b)] start 0) = Some ?it" by (rule newIterator_ranges) simp
  have s: "fieldState ?it = [(f, bad_after w a b 0)]"
    by (simp add: num_iterator_def fields_after_def bad_after_def range_after_def)
  have p: "pageCount ?it = 0" "\<not> itStopOnStale ?it" by (simp_all add: num_iterator_def)
  have "fieldState (snd (iter_run n ?it)) = [(f, bad_after w a b n)] \<and>
      pageCount (snd (iter_run n ?it)) = 0 \<and> \<not> itStopOnStale (snd (iter_run n ?it))"
    using bad_iterator_run [OF assms(1,2) _ s p, of n] assms(3) by simp
  moreover have "hasNext (bad_after w a b n)" using bad_after_next(1) [OF assms] .
  ultimately have "\<not> iter_isComplete (snd (iter_run n ?it))"
    by (simp add: iter_isComplete_def hasNextFieldState_def hasExceededPages_def Let_def)
  with i show ?thesis by blast
qed

theorem reversed_range_never_completes_witness:
  "\<exists>it. newIterator (range_query [(''id'', 1, 5, 5)] 0 0) = Some it
    \<and> \<not> iter_isComplete (snd (iter_run 1000 it))"
  by (rule reversed_range_never_completes) simp_all

end
