(* ===== verification/ResultItem.thy ===== *)
theory ResultItem
  imports GoStrconv
begin

text \<open>
  Search results: the scraped item of \<open>indexer/search/result.go\<close> and the torrent item of
  \<open>indexer/search/torrent.go\<close>, with their accessors and their comparison. A value of type
  \<open>interface{}\<close> is a \<open>go_value\<close>, which keeps its dynamic type; comparing two slices panics.
  A map that may be nil is an \<open>option\<close>.
\<close>

subsection \<open>Dynamic values\<close>

datatype int_kind = GoInt | GoInt8 | GoInt16 | GoInt32 | GoInt64 | GoUInt | GoUInt8 | GoUInt16 | GoUInt32 | GoUInt64

text \<open>A float is given by the text \<open>%v\<close> prints for it; \<open>VOther\<close> is a pointer or a struct that no
code here looks into, \<open>VHidden\<close> a field that reflection may not read.\<close>

datatype go_value =
  VNil | VStr string | VNum int_kind int | VBool bool | VFloat32 string | VFloat64 string
| VTime int | VStrings "string list" | VOther nat | VHidden

text \<open>\<open>==\<close> on interfaces: different dynamic types differ, a slice cannot be compared (\<open>None\<close>).\<close>

definition go_equal :: "go_value \<Rightarrow> go_value \<Rightarrow> bool option" where
  "go_equal a b =
     (case (a, b) of (VStrings _, VStrings _) \<Rightarrow> None | _ \<Rightarrow> Some (a = b))"

subsection \<open>Scraped items\<close>

record result_indexer =
  riID :: string
  riName :: string

record scrape_item =
  itemID :: uint32
  uuidValue :: string
  createdAt :: int
  updatedAt :: int
  modelData :: "(string \<times> go_value) list option"
  localID :: string
  itSite :: string
  itLink :: string
  itSourceLink :: string
  publishDate :: int
  isNew :: bool
  isUpdate :: bool
  itIndexer :: "result_indexer option"

definition empty_scrape_item :: scrape_item where
  "empty_scrape_item = \<lparr>itemID = 0, uuidValue = [], createdAt = 0, updatedAt = 0, modelData = None,
     localID = [], itSite = [], itLink = [], itSourceLink = [], publishDate = 0, isNew = False,
     isUpdate = False, itIndexer = None\<rparr>"

definition setSite :: "string \<Rightarrow> scrape_item \<Rightarrow> scrape_item" where
  "setSite s i = i\<lparr>itSite := s\<rparr>"

definition setIndexer :: "result_indexer option \<Rightarrow> scrape_item \<Rightarrow> scrape_item" where
  "setIndexer x i = i\<lparr>itIndexer := x\<rparr>"

definition setLocalID :: "string \<Rightarrow> scrape_item \<Rightarrow> scrape_item" where
  "setLocalID s i = i\<lparr>localID := s\<rparr>"

definition setPublishDate :: "int \<Rightarrow> scrape_item \<Rightarrow> scrape_item" where
  "setPublishDate unix i = i\<lparr>publishDate := unix\<rparr>"

definition setUUID :: "string \<Rightarrow> scrape_item \<Rightarrow> scrape_item" where
  "setUUID u i = i\<lparr>uuidValue := u\<rparr>"

definition setState :: "bool \<Rightarrow> bool \<Rightarrow> scrape_item \<Rightarrow> scrape_item" where
  "setState new update i = i\<lparr>isNew := new, isUpdate := update\<rparr>"

definition setID :: "uint32 \<Rightarrow> scrape_item \<Rightarrow> scrape_item" where
  "setID n i = i\<lparr>itemID := n\<rparr>"

text \<open>Writing to a nil map panics (\<open>None\<close>).\<close>

definition setField :: "string \<Rightarrow> go_value \<Rightarrow> scrape_item \<Rightarrow> scrape_item option" where
  "setField key v i =
     (case modelData i of
        None \<Rightarrow> None | Some m \<Rightarrow> Some (i\<lparr>modelData := Some (AList.update key v m)\<rparr>))"

definition model_lookup :: "scrape_item \<Rightarrow> string \<Rightarrow> go_value option" where
  "model_lookup i key = (case modelData i of None \<Rightarrow> None | Some m \<Rightarrow> map_of m key)"

definition getField :: "string \<Rightarrow> scrape_item \<Rightarrow> go_value" where
  "getField key i = (case model_lookup i key of None \<Rightarrow> VStr [] | Some v \<Rightarrow> v)"

definition getFieldWithDefault :: "string \<Rightarrow> go_value \<Rightarrow> scrape_item \<Rightarrow> go_value" where
  "getFieldWithDefault key d i = (case model_lookup i key of None \<Rightarrow> d | Some v \<Rightarrow> v)"

definition scrape_string :: "scrape_item \<Rightarrow> string" where
  "scrape_string i = localID i @ '': '' @ itLink i"

subsection \<open>Torrent items\<close>

record torrent_item =
  scraped :: scrape_item
  title :: string
  originalTitle :: string
  shortTitle :: string
  description :: string
  comments :: string
  tLink :: string
  fingerprint :: string
  banner :: string
  isMagnet :: bool
  tSourceLink :: string
  magnetLink :: string
  category :: int
  tSize :: uint32
  tFiles :: int
  grabs :: int
  seeders :: int
  peers :: int
  minimumRatio :: string
  minimumSeedTime :: int
  downloadVolumeFactor :: string
  uploadVolumeFactor :: string
  author :: string
  authorID :: string
  localCategoryID :: string
  localCategoryName :: string
  announce :: string
  publisher :: string
  publishedWith :: string

definition torrent_string :: "torrent_item \<Rightarrow> string" where
  "torrent_string t = ''['' @ localID (scraped t) @ '']'' @ title t"

subsection \<open>Equals\<close>

text \<open>What an \<open>interface{}\<close> argument of \<open>Equals\<close> may hold: a pointer to an item, or the item itself.\<close>

datatype any_item = PtrScrape scrape_item | ValScrape scrape_item | PtrTorrent torrent_item

fun fields_equal :: "(string \<times> go_value) list \<Rightarrow> (string \<Rightarrow> go_value option) \<Rightarrow> bool option" where
  "fields_equal [] m = Some True"
| "fields_equal ((key, v) # kvs) m =
     (case m key of
        None \<Rightarrow> Some False
      | Some w \<Rightarrow>
          (case go_equal v w of
             None \<Rightarrow> None | Some False \<Rightarrow> Some False | Some True \<Rightarrow> fields_equal kvs m))"

definition data_of :: "scrape_item \<Rightarrow> (string \<times> go_value) list" where
  "data_of i = (case modelData i of None \<Rightarrow> [] | Some m \<Rightarrow> m)"

definition scrape_equals :: "scrape_item \<Rightarrow> any_item \<Rightarrow> bool option" where
  "scrape_equals i other =
     (case other of
        PtrScrape item \<Rightarrow>
          if (modelData item = None \<and> modelData i \<noteq> None)
             \<or> (modelData i = None \<and> modelData item \<noteq> None)
             \<or> length (data_of i) \<noteq> length (data_of item) then Some False
          else fields_equal (data_of i) (model_lookup item)
      | _ \<Rightarrow> Some False)"

text \<open>
  The torrent's own fields, in the order of the switch; the site, the publish date and the local
  ID are promoted from the scraped item.
\<close>

definition torrent_fields_equal :: "torrent_item \<Rightarrow> torrent_item \<Rightarrow> bool" where
  "torrent_fields_equal t u \<longleftrightarrow>
     isMagnet t = isMagnet u \<and> tSize t = tSize u \<and> banner t = banner u \<and>
     itSite (scraped t) = itSite (scraped u) \<and> tLink t = tLink u \<and> category t = category u \<and>
     title t = title u \<and> seeders t = seeders u \<and> publishDate (scraped t) = publishDate (scraped u) \<and>
     localID (scraped t) = localID (scraped u) \<and> magnetLink t = magnetLink u \<and>
     tSourceLink t = tSourceLink u \<and> downloadVolumeFactor t = downloadVolumeFactor u \<and>
     shortTitle t = shortTitle u \<and> author t = author u \<and> localCategoryID t = localCategoryID u \<and>
     localCategoryName t = localCategoryName u \<and> authorID t = authorID u \<and> grabs t = grabs u \<and>
     originalTitle t = originalTitle u \<and> fingerprint t = fingerprint u \<and>
     publisher t = publisher u \<and> publishedWith t = publishedWith u \<and> peers t = peers u \<and>
     comments t = comments u \<and> minimumSeedTime t = minimumSeedTime u \<and>
     minimumRatio t = minimumRatio u \<and> description t = description u \<and> tFiles t = tFiles u"

text \<open>The comparison of the scraped parts passes the other part by value, not by pointer.\<close>

definition torrent_equals :: "torrent_item \<Rightarrow> any_item \<Rightarrow> bool option" where
  "torrent_equals t other =
     (case other of
        PtrTorrent u \<Rightarrow>
          (case scrape_equals (scraped t) (ValScrape (scraped u)) of
             None \<Rightarrow> None
           | Some False \<Rightarrow> Some False
           | Some True \<Rightarrow> Some (torrent_fields_equal t u))
      | _ \<Rightarrow> Some False)"

subsection \<open>Comparing items\<close>

lemma go_equal_refl: "go_equal v v \<noteq> Some False"
  by (cases v) (simp_all add: go_equal_def)

lemma go_equal_True: "go_equal v w = Some True \<Longrightarrow> v = w"
  by (simp add: go_equal_def split: go_value.splits)

lemma fields_equal_True:
  "fields_equal kvs m = Some True \<longleftrightarrow>
     (\<forall>(k, v)\<in>set kvs. m k = Some v \<and> go_equal v v = Some True)"
proof (induction kvs)
  case Nil
  then show ?case by simp
next
  case (Cons kv kvs)
  obtain k v where kv: "kv = (k, v)" by (cases kv)
  show ?case
  proof (cases "m k")
    case None
    then show ?thesis using kv by simp
  next
    case (Some w)
    show ?thesis
    proof (cases "go_equal v w = Some True")
      case True
      then have "w = v" using go_equal_True by metis
      with True Some Cons kv show ?thesis by simp
    next
      case False
      then have "\<not> (w = v \<and> go_equal v v = Some True)" by auto
      with False Some kv show ?thesis by (auto split: option.splits bool.splits)
    qed
  qed
qed

definition comparable :: "scrape_item \<Rightarrow> bool" where
  "comparable i \<longleftrightarrow> distinct (map fst (data_of i)) \<and> (\<forall>(k, v)\<in>set (data_of i). go_equal v v = Some True)"

lemma scrape_equals_iff:
  assumes "comparable i" "distinct (map fst (data_of j))"
  shows "scrape_equals i (PtrScrape j) = Some True \<longleftrightarrow>
    (modelData i = None \<longleftrightarrow> modelData j = None) \<and> model_lookup i = model_lookup j"
proof -
  have m: "model_lookup x = map_of (data_of x)" for x
    by (auto simp: model_lookup_def data_of_def fun_eq_iff split: option.splits)
  have f: "fields_equal (data_of i) (model_lookup j) = Some True \<longleftrightarrow> set (data_of i) \<subseteq> set (data_of j)"
    using assms by (auto simp: fields_equal_True m comparable_def)
  have "set (data_of i) \<subseteq> set (data_of j) \<and> length (data_of i) = length (data_of j) \<longleftrightarrow>
      map_of (data_of i) = map_of (data_of j)"
  proof
    assume a: "set (data_of i) \<subseteq> set (data_of j) \<and> length (data_of i) = length (data_of j)"
    have "card (set (data_of i)) = card (set (data_of j))"
      using a assms by (simp add: distinct_card distinct_map comparable_def)
    with a have "set (data_of i) = set (data_of j)" by (intro card_subset_eq) auto
    then show "map_of (data_of i) = map_of (data_of j)"
      using assms by (simp add: map_of_inject_set comparable_def)
  next
    assume a: "map_of (data_of i) = map_of (data_of j)"
    then have "set (data_of i) = set (data_of j)"
      using assms by (simp add: map_of_inject_set comparable_def)
    moreover have "distinct (data_of i)" "distinct (data_of j)"
      using assms by (simp_all add: distinct_map comparable_def)
    ultimately show "set (data_of i) \<subseteq> set (data_of j) \<and> length (data_of i) = length (data_of j)"
      by (metis distinct_card order_refl)
  qed
  with f show ?thesis unfolding scrape_equals_def m by auto
qed

lemma torrent_never_equal: "torrent_equals t other = Some False"
  by (simp add: torrent_equals_def scrape_equals_def split: any_item.splits)

subsection \<open>Properties\<close>

text \<open>The comparison of scraped items holds exactly when their extra fields are
the same map (nil and empty kept apart), whatever order the runtime ranges over them; it is
the same in both directions.\<close>

theorem scrape_equals_same_fields:
  assumes "comparable i" "comparable j"
  shows "(scrape_equals i (PtrScrape j) = Some True \<longleftrightarrow>
      (modelData i = None \<longleftrightarrow> modelData j = None) \<and> model_lookup i = model_lookup j)
    \<and> (scrape_equals i (PtrScrape j) = Some True \<longleftrightarrow> scrape_equals j (PtrScrape i) = Some True)"
proof -
  have d: "distinct (map fst (data_of i))" "distinct (map fst (data_of j))"
    using assms by (simp_all add: comparable_def)
  show ?thesis
    using scrape_equals_iff [OF assms(1) d(2)] scrape_equals_iff [OF assms(2) d(1)] by metis
qed

definition sample_item :: "(string \<times> go_value) list \<Rightarrow> scrape_item" where
  "sample_item kvs = empty_scrape_item\<lparr>modelData := Some kvs\<rparr>"

theorem scrape_equals_same_fields_witness:
  "scrape_equals (sample_item [(''a'', VStr ''x''), (''b'', VBool True)])
     (PtrScrape (sample_item [(''b'', VBool True), (''a'', VStr ''x'')])) = Some True"
  by (subst scrape_equals_same_fields [THEN conjunct1])
     (auto simp: comparable_def sample_item_def data_of_def go_equal_def empty_scrape_item_def
       model_lookup_def fun_eq_iff)

text \<open>The comparison of a torrent item is never true, not even with itself: it hands
the other scraped part over by value, where a pointer is asked for.\<close>

theorem torrent_equals_never:
  "torrent_equals t (PtrTorrent t) = Some False \<and> torrent_equals t (PtrTorrent u) = Some False
   \<and> torrent_fields_equal t t"
  by (simp add: torrent_never_equal torrent_fields_equal_def)

end
