(* ===== verification/BoltDb.thy ===== *)
theory BoltDb
  imports GoStrconv
begin

text \<open>
  What the storage uses of the package bolt, a key-value store outside this repository. A database
  is a value of some type, given with its operations as a record; a bucket is named by the path of the
  names from the root, and the path \<open>[]\<close> is the transaction itself, whose entries are the top-level
  buckets. \<open>bolt_laws\<close> is what the package documents: keys are kept in byte order, \<open>Put\<close> replaces
  one entry, a nested bucket is an entry without a value, an operation that fails changes nothing, and
  the sequence of a bucket counts up. The reference database satisfies the laws.
\<close>

type_synonym path = "string list"
type_synonym entries = "(string \<times> string option) list"

record 'd db_ops =
  db_items :: "path \<Rightarrow> 'd \<Rightarrow> entries option"
  db_put :: "path \<Rightarrow> string \<Rightarrow> string \<Rightarrow> 'd \<Rightarrow> bool \<times> 'd"
  db_delete :: "path \<Rightarrow> string \<Rightarrow> 'd \<Rightarrow> bool \<times> 'd"
  db_create :: "path \<Rightarrow> string \<Rightarrow> 'd \<Rightarrow> bool \<times> 'd"
  db_seq :: "path \<Rightarrow> 'd \<Rightarrow> nat"
  db_next_seq :: "path \<Rightarrow> 'd \<Rightarrow> nat \<times> 'd"

subsection \<open>Entries in key order\<close>

fun put_entry :: "string \<Rightarrow> string option \<Rightarrow> entries \<Rightarrow> entries" where
  "put_entry k v [] = [(k, v)]"
| "put_entry k v ((j, w) # es) =
     (if k < j then (k, v) # (j, w) # es
      else if k = j then (k, v) # es
      else (j, w) # put_entry k v es)"

definition key_sorted :: "entries \<Rightarrow> bool" where
  "key_sorted es \<longleftrightarrow> sorted_wrt (<) (map fst es)"

lemma put_entry_set_keys: "fst ` set (put_entry k v es) = insert k (fst ` set es)"
  by (induction k v es rule: put_entry.induct) auto

lemma put_entry_sorted: "key_sorted es \<Longrightarrow> key_sorted (put_entry k v es)"
proof (induction k v es rule: put_entry.induct)
  case (1 k v)
  then show ?case by (simp add: key_sorted_def)
next
  case (2 k v j w es)
  have "\<forall>x\<in>fst ` set es. j < x" using 2(2) by (auto simp: key_sorted_def)
  moreover have "key_sorted es" using 2(2) by (simp add: key_sorted_def)
  ultimately show ?case
    using 2 put_entry_set_keys [of k v es] by (auto simp: key_sorted_def)
qed

lemma map_of_put_entry: "key_sorted es \<Longrightarrow> map_of (put_entry k v es) j = (if j = k then Some v else map_of es j)"
proof (induction k v es rule: put_entry.induct)
  case (1 k v)
  then show ?case by simp
next
  case (2 k v i w es)
  have "\<forall>x\<in>fst ` set es. i < x" "key_sorted es" using 2(2) by (auto simp: key_sorted_def)
  with 2 show ?case by auto
qed

lemma key_sorted_Cons: "key_sorted ((k, v) # es) \<longleftrightarrow> (\<forall>j\<in>fst ` set es. k < j) \<and> key_sorted es"
  by (auto simp: key_sorted_def)

lemma key_sorted_distinct: "key_sorted es \<Longrightarrow> distinct (map fst es)"
  by (induction es) (auto simp: key_sorted_Cons, fastforce)

lemma key_sorted_filter: "key_sorted es \<Longrightarrow> key_sorted (filter P es)"
  by (induction es) (auto simp: key_sorted_Cons)

lemma put_entry_last: "\<forall>j\<in>fst ` set es. j < k \<Longrightarrow> put_entry k v es = es @ [(k, v)]"
  by (induction es) auto

subsection \<open>Reading a bucket\<close>

definition bucket_exists :: "'d db_ops \<Rightarrow> path \<Rightarrow> 'd \<Rightarrow> bool" where
  "bucket_exists B p d \<longleftrightarrow> db_items B p d \<noteq> None"

definition bucket_items :: "'d db_ops \<Rightarrow> path \<Rightarrow> 'd \<Rightarrow> entries" where
  "bucket_items B p d = (case db_items B p d of None \<Rightarrow> [] | Some es \<Rightarrow> es)"

text \<open>\<open>Get\<close> gives nil for a missing key and for a nested bucket.\<close>

definition bucket_get :: "'d db_ops \<Rightarrow> path \<Rightarrow> string \<Rightarrow> 'd \<Rightarrow> string option" where
  "bucket_get B p k d = (case map_of (bucket_items B p d) k of Some (Some v) \<Rightarrow> Some v | _ \<Rightarrow> None)"

definition create_if_missing :: "'d db_ops \<Rightarrow> path \<Rightarrow> string \<Rightarrow> 'd \<Rightarrow> bool \<times> 'd" where
  "create_if_missing B p name d =
     (if bucket_exists B (p @ [name]) d then (True, d) else db_create B p name d)"

subsection \<open>The documented laws\<close>

definition same_items :: "'d db_ops \<Rightarrow> path set \<Rightarrow> 'd \<Rightarrow> 'd \<Rightarrow> bool" where
  "same_items B ps d d' \<longleftrightarrow>
     (\<forall>q. q \<notin> ps \<longrightarrow> db_items B q d' = db_items B q d \<and> db_seq B q d' = db_seq B q d)"

definition law_sorted :: "'d db_ops \<Rightarrow> bool" where
  "law_sorted B \<longleftrightarrow> (\<forall>p d es. db_items B p d = Some es \<longrightarrow> key_sorted es)"

definition law_put :: "'d db_ops \<Rightarrow> bool" where
  "law_put B \<longleftrightarrow> (\<forall>p k v d. let (ok, d') = db_put B p k v d in
     (if ok then (\<exists>es. db_items B p d = Some es \<and> map_of es k \<noteq> Some None
                   \<and> db_items B p d' = Some (put_entry k (Some v) es)) \<and> same_items B {p} d d'
                   \<and> db_seq B p d' = db_seq B p d
      else d' = d))"

definition law_delete :: "'d db_ops \<Rightarrow> bool" where
  "law_delete B \<longleftrightarrow> (\<forall>p k d. let (ok, d') = db_delete B p k d in
     (if ok then (\<exists>es. db_items B p d = Some es \<and> map_of es k \<noteq> Some None
                   \<and> db_items B p d' = Some (filter (\<lambda>e. fst e \<noteq> k) es)) \<and> same_items B {p} d d'
                   \<and> db_seq B p d' = db_seq B p d
      else d' = d))"

definition law_create :: "'d db_ops \<Rightarrow> bool" where
  "law_create B \<longleftrightarrow> (\<forall>p n d. let (ok, d') = db_create B p n d in
     (if ok then (\<exists>es. db_items B p d = Some es \<and> db_items B (p @ [n]) d = None
                   \<and> map_of es n = None \<and> db_items B p d' = Some (put_entry n None es))
                   \<and> db_items B (p @ [n]) d' = Some []
                   \<and> same_items B {p, p @ [n]} d d' \<and> db_seq B p d' = db_seq B p d
      else d' = d))"

definition law_next_seq :: "'d db_ops \<Rightarrow> bool" where
  "law_next_seq B \<longleftrightarrow> (\<forall>p d. db_items B p d \<noteq> None \<longrightarrow> (let (n, d') = db_next_seq B p d in
     n = Suc (db_seq B p d) \<and> db_seq B p d' = n \<and> db_items B p d' = db_items B p d
     \<and> same_items B {p} d d'))"

definition bolt_laws :: "'d db_ops \<Rightarrow> bool" where
  "bolt_laws B \<longleftrightarrow> law_sorted B \<and> law_put B \<and> law_delete B \<and> law_create B \<and> law_next_seq B"

lemma put_law:
  assumes "bolt_laws B"
  shows "case db_put B p k v d of (ok, d') \<Rightarrow>
     (if ok then (\<exists>es. db_items B p d = Some es \<and> map_of es k \<noteq> Some None
                   \<and> db_items B p d' = Some (put_entry k (Some v) es)) \<and> same_items B {p} d d'
                   \<and> db_seq B p d' = db_seq B p d
      else d' = d)"
proof -
  have "law_put B" using assms by (simp add: bolt_laws_def)
  then show ?thesis
    unfolding law_put_def Let_def
    by (drule_tac x = p in spec, drule_tac x = k in spec, drule_tac x = v in spec, drule_tac x = d in spec)
qed

lemma create_law:
  assumes "bolt_laws B"
  shows "case db_create B p n d of (ok, d') \<Rightarrow>
     (if ok then (\<exists>es. db_items B p d = Some es \<and> db_items B (p @ [n]) d = None
                   \<and> map_of es n = None \<and> db_items B p d' = Some (put_entry n None es))
                   \<and> db_items B (p @ [n]) d' = Some []
                   \<and> same_items B {p, p @ [n]} d d' \<and> db_seq B p d' = db_seq B p d
      else d' = d)"
proof -
  have "law_create B" using assms by (simp add: bolt_laws_def)
  then show ?thesis
    unfolding law_create_def Let_def
    by (drule_tac x = p in spec, drule_tac x = n in spec, drule_tac x = d in spec)
qed

lemma next_seq_law:
  assumes "bolt_laws B" "db_items B p d \<noteq> None"
  shows "case db_next_seq B p d of (n, d') \<Rightarrow>
     n = Suc (db_seq B p d) \<and> db_seq B p d' = n \<and> db_items B p d' = db_items B p d \<and> same_items B {p} d d'"
proof -
  have "law_next_seq B" using assms(1) by (simp add: bolt_laws_def)
  then show ?thesis
    using assms(2) unfolding law_next_seq_def Let_def
    by (drule_tac x = p in spec, drule_tac x = d in spec, simp)
qed

subsection \<open>A reference database\<close>

type_synonym ref_db = "path \<Rightarrow> (entries \<times> nat) option"

definition ref_empty :: ref_db where
  "ref_empty = (\<lambda>p. if p = [] then Some ([], 0) else None)"

text \<open>The entries are put in order when they are read, so that every value of the type has its
keys in order.\<close>

definition in_order :: "entries \<Rightarrow> entries" where
  "in_order es = fold (\<lambda>(k, v). put_entry k v) es []"

definition ref_items :: "path \<Rightarrow> ref_db \<Rightarrow> entries option" where
  "ref_items p d = map_option (\<lambda>b. in_order (fst b)) (d p)"

definition ref_seq :: "path \<Rightarrow> ref_db \<Rightarrow> nat" where
  "ref_seq p d = (case d p of None \<Rightarrow> 0 | Some b \<Rightarrow> snd b)"

definition ref_set :: "path \<Rightarrow> entries \<Rightarrow> ref_db \<Rightarrow> ref_db" where
  "ref_set p es d = d(p := Some (es, ref_seq p d))"

definition ref_put :: "path \<Rightarrow> string \<Rightarrow> string \<Rightarrow> ref_db \<Rightarrow> bool \<times> ref_db" where
  "ref_put p k v d =
     (case ref_items p d of
        None \<Rightarrow> (False, d)
      | Some es \<Rightarrow> if k = [] \<or> map_of es k = Some None then (False, d)
                  else (True, ref_set p (put_entry k (Some v) es) d))"

definition ref_delete :: "path \<Rightarrow> string \<Rightarrow> ref_db \<Rightarrow> bool \<times> ref_db" where
  "ref_delete p k d =
     (case ref_items p d of
        None \<Rightarrow> (False, d)
      | Some es \<Rightarrow> if map_of es k = Some None then (False, d)
                  else (True, ref_set p (filter (\<lambda>e. fst e \<noteq> k) es) d))"

definition ref_create :: "path \<Rightarrow> string \<Rightarrow> ref_db \<Rightarrow> bool \<times> ref_db" where
  "ref_create p n d =
     (case (ref_items p d, ref_items (p @ [n]) d) of
        (Some es, None) \<Rightarrow>
          if n = [] \<or> map_of es n \<noteq> None then (False, d)
          else (True, ref_set (p @ [n]) [] (ref_set p (put_entry n None es) d))
      | _ \<Rightarrow> (False, d))"

definition ref_next_seq :: "path \<Rightarrow> ref_db \<Rightarrow> nat \<times> ref_db" where
  "ref_next_seq p d =
     (Suc (ref_seq p d), case d p of None \<Rightarrow> d | Some b \<Rightarrow> d(p := Some (fst b, Suc (snd b))))"

definition ref_ops :: "ref_db db_ops" where
  "ref_ops = \<lparr>db_items = ref_items, db_put = ref_put, db_delete = ref_delete, db_create = ref_create,
     db_seq = ref_seq, db_next_seq = ref_next_seq\<rparr>"

lemma in_order_sorted: "key_sorted (in_order es)"
  unfolding in_order_def
  by (induction es rule: rev_induct) (auto simp: put_entry_sorted, simp add: key_sorted_def)

lemma in_order_id: "key_sorted es \<Longrightarrow> in_order es = es"
  unfolding in_order_def
proof (induction es rule: rev_induct)
  case Nil
  then show ?case by simp
next
  case (snoc e es)
  obtain k v where e: "e = (k, v)" by (cases e)
  have "key_sorted es" "\<forall>j\<in>fst ` set es. j < k"
    using snoc.prems e by (auto simp: key_sorted_def sorted_wrt_append)
  with snoc.IH e show ?case by (simp add: put_entry_last)
qed

lemma ref_items_sorted: "ref_items p d = Some es \<Longrightarrow> key_sorted es"
  by (auto simp: ref_items_def in_order_sorted)

lemma ref_items_set: "key_sorted es \<Longrightarrow> ref_items q (ref_set p es d) = (if q = p then Some es else ref_items q d)"
  by (simp add: ref_items_def ref_set_def in_order_id)

lemma ref_seq_set: "ref_seq q (ref_set p es d) = ref_seq q d"
  by (simp add: ref_seq_def ref_set_def)

lemma key_sorted_Nil: "key_sorted []"
  by (simp add: key_sorted_def)

lemma ref_laws: "bolt_laws ref_ops"
proof -
  have "law_sorted ref_ops" by (auto simp: law_sorted_def ref_ops_def ref_items_sorted)
  moreover have "law_put ref_ops"
    by (auto simp: law_put_def ref_ops_def ref_put_def Let_def same_items_def ref_items_set ref_seq_set
        put_entry_sorted ref_items_sorted split: option.splits)
  moreover have "law_delete ref_ops"
    by (auto simp: law_delete_def ref_ops_def ref_delete_def Let_def same_items_def ref_items_set ref_seq_set
        key_sorted_filter ref_items_sorted split: option.splits)
  moreover have "law_create ref_ops"
    by (auto simp: law_create_def ref_ops_def ref_create_def Let_def same_items_def ref_items_set ref_seq_set
        put_entry_sorted key_sorted_Nil ref_items_sorted split: option.splits)
  moreover have "law_next_seq ref_ops"
    by (auto simp: law_next_seq_def ref_ops_def ref_next_seq_def Let_def same_items_def ref_items_def
        ref_seq_def split: option.splits)
  ultimately show ?thesis by (simp add: bolt_laws_def)
qed

subsection \<open>Transactions\<close>

text \<open>\<open>Update\<close> commits when the function returns no error and rolls back otherwise.\<close>

datatype store_error = NotFound | IndexMissing | AlreadyExists | Required | BoltError | MarshalError

datatype ('a, 'd) tx_result = TxPanic | TxError store_error | TxOk 'a 'd

definition update_tx :: "('d \<Rightarrow> ('a, 'd) tx_result) \<Rightarrow> 'd \<Rightarrow> ('a, 'd) tx_result \<times> 'd" where
  "update_tx f d = (case f d of TxOk a d' \<Rightarrow> (TxOk a d', d') | r \<Rightarrow> (r, d))"

definition tx_bind :: "('a, 'd) tx_result \<Rightarrow> ('a \<Rightarrow> 'd \<Rightarrow> ('b, 'd) tx_result) \<Rightarrow> ('b, 'd) tx_result" where
  "tx_bind r f = (case r of TxPanic \<Rightarrow> TxPanic | TxError e \<Rightarrow> TxError e | TxOk a d \<Rightarrow> f a d)"

definition of_bolt :: "bool \<times> 'd \<Rightarrow> (unit, 'd) tx_result" where
  "of_bolt r = (if fst r then TxOk () (snd r) else TxError BoltError)"

end
