(* ===== verification/IndexKeys.thy ===== *)
theory IndexKeys
  imports ResultItem
begin

text \<open>
  Keys of records and the values they give (\<open>storage/indexing/query.go\<close>,
  \<open>storage/indexing/indexing.go\<close>, \<open>storage/indexing/cursorOptions.go\<close>, and the entity keys of
  \<open>indexer/entities.go\<close>). The code reads items by reflection; \<open>reflected\<close> is what reflection
  shows of a pointer to a struct: its fields by name, its methods by name with the value a call without
  arguments returns, and the map in its field \<open>ModelData\<close> when it has one. \<open>None\<close> as the result of
  an operation is a panic.
\<close>

subsection \<open>Reflection\<close>

record reflected =
  fieldByName :: "string \<Rightarrow> go_value option"
  methodByName :: "string \<Rightarrow> go_value option"
  dataField :: "(string \<times> go_value) list option"

definition scrape_fields :: "scrape_item \<Rightarrow> (string \<times> go_value) list" where
  "scrape_fields i =
     [(''ID'', VNum GoUInt32 (uint (itemID i))), (''UUIDValue'', VStr (uuidValue i)),
      (''CreatedAt'', VTime (createdAt i)), (''UpdatedAt'', VTime (updatedAt i)),
      (''DeletedAt'', VOther 0), (''Model'', VOther 1), (''ModelData'', VOther 2),
      (''ScrapeLocalData'', VOther 3), (''LocalID'', VStr (localID i)), (''Site'', VStr (itSite i)),
      (''Link'', VStr (itLink i)), (''SourceLink'', VStr (itSourceLink i)),
      (''PublishDate'', VNum GoInt64 (publishDate i)), (''isNew'', VHidden), (''isUpdate'', VHidden),
      (''Indexer'', VOther 4)]"

text \<open>A method that takes arguments cannot be called without them: \<open>VHidden\<close>, a panic.\<close>

definition scrape_methods :: "scrape_item \<Rightarrow> (string \<times> go_value) list" where
  "scrape_methods i =
     [(''UUID'', VStr (uuidValue i)), (''GetID'', VNum GoUInt32 (uint (itemID i))),
      (''IsNew'', VBool (isNew i)), (''IsUpdate'', VBool (isUpdate i)),
      (''String'', VStr (scrape_string i)), (''AsScrapeItem'', VOther 5)] @
     map (\<lambda>m. (m, VHidden)) [''SetSite'', ''SetIndexer'', ''SetLocalID'', ''SetPublishDate'', ''SetUUID'',
       ''SetState'', ''SetID'', ''SetField'', ''GetField'', ''GetFieldWithDefault'', ''Equals'']"

definition reflect_scrape :: "scrape_item \<Rightarrow> reflected" where
  "reflect_scrape i =
     \<lparr>fieldByName = map_of (scrape_fields i), methodByName = map_of (scrape_methods i),
      dataField = Some (data_of i)\<rparr>"

subsection \<open>Keys\<close>

record key =
  keyFields :: "string list"
  fieldsCache :: "string set option"

definition key_isEmpty :: "key \<Rightarrow> bool" where
  "key_isEmpty k \<longleftrightarrow> keyFields k = []"

definition add_field :: "string \<Rightarrow> string list \<times> string set \<Rightarrow> string list \<times> string set" where
  "add_field s = (\<lambda>(fs, c). if s \<in> c then (fs, c) else (fs @ [s], insert s c))"

definition newKey :: "string list \<Rightarrow> key" where
  "newKey names = (let (fs, c) = fold add_field names ([], {}) in \<lparr>keyFields = fs, fieldsCache = Some c\<rparr>)"

definition addKeys :: "key \<Rightarrow> key \<Rightarrow> key" where
  "addKeys newKeys k =
     (let (fs, c) = fold add_field (keyFields newKeys)
                      (keyFields k, case fieldsCache k of None \<Rightarrow> {} | Some c \<Rightarrow> c)
      in \<lparr>keyFields = fs, fieldsCache = Some c\<rparr>)"

text \<open>Adding to a key with a nil cache writes to a nil map: a panic.\<close>

definition key_add :: "string \<Rightarrow> key \<Rightarrow> key option" where
  "key_add s k =
     (case fieldsCache k of
        None \<Rightarrow> None
      | Some c \<Rightarrow> Some (if s \<in> c then k
                        else k\<lparr>keyFields := keyFields k @ [s], fieldsCache := Some (insert s c)\<rparr>))"

record entityBlock =
  entityName :: string
  indexKey :: "string list"

fun entity_key_loop :: "string list \<Rightarrow> key \<Rightarrow> key option" where
  "entity_key_loop [] k = Some k"
| "entity_key_loop (s # ss) k = (case key_add s k of None \<Rightarrow> None | Some k' \<Rightarrow> entity_key_loop ss k')"

definition entity_getKey :: "entityBlock \<Rightarrow> key option" where
  "entity_getKey b = entity_key_loop (indexKey b) (newKey [])"

definition model_prefix :: string where
  "model_prefix = ''ModelData.''"

definition parsed_name :: "string \<Rightarrow> string" where
  "parsed_name f = (if has_prefix f model_prefix then drop 10 f else f)"

subsection \<open>Values of keys\<close>

text \<open>UTF-8 of a code point, for \<open>string(rune)\<close>.\<close>

definition utf8_encode :: "int \<Rightarrow> string" where
  "utf8_encode r =
     (let c = (if r < 0 \<or> r > 0x10FFFF \<or> (0xD800 \<le> r \<and> r \<le> 0xDFFF) then 0xFFFD else nat r)
      in if c < 0x80 then [char_of c]
         else if c < 0x800 then [char_of (0xC0 + c div 64), char_of (0x80 + c mod 64)]
         else if c < 0x10000 then
           [char_of (0xE0 + c div 4096), char_of (0x80 + c div 64 mod 64), char_of (0x80 + c mod 64)]
         else [char_of (0xF0 + c div 262144), char_of (0x80 + c div 4096 mod 64),
               char_of (0x80 + c div 64 mod 64), char_of (0x80 + c mod 64)])"

fun serializeKeyValue :: "go_value \<Rightarrow> string option" where
  "serializeKeyValue (VStr s) = Some s"
| "serializeKeyValue (VNum k n) =
     (if k \<in> {GoInt, GoInt64, GoInt16, GoUInt, GoUInt16, GoUInt64} then Some (itoa n)
      else if k = GoInt32 then Some (utf8_encode n) else None)"
| "serializeKeyValue (VFloat32 t) = Some t"
| "serializeKeyValue (VFloat64 t) = Some t"
| "serializeKeyValue (VTime unix) = Some (itoa unix)"
| "serializeKeyValue (VBool b) = Some (if b then ''true'' else ''false'')"
| "serializeKeyValue _ = None"

text \<open>\<open>val == nil || val.(string) == ""\<close>: the assertion panics on another type.\<close>

fun value_present :: "go_value \<Rightarrow> bool option" where
  "value_present VNil = Some False"
| "value_present (VStr s) = Some (s \<noteq> [])"
| "value_present _ = None"

fun keyHasValue_loop :: "string list \<Rightarrow> reflected \<Rightarrow> bool option" where
  "keyHasValue_loop [] item = Some True"
| "keyHasValue_loop (f # fs) item =
     (case fieldByName item (parsed_name f) of
        Some v \<Rightarrow>
          (case value_present v of
             Some True \<Rightarrow> keyHasValue_loop fs item | Some False \<Rightarrow> Some False | None \<Rightarrow> None)
      | None \<Rightarrow>
          (case dataField item of
             None \<Rightarrow> Some False
           | Some m \<Rightarrow>
               (case map_of m (parsed_name f) of
                  None \<Rightarrow> Some False
                | Some v \<Rightarrow>
                    (case value_present v of
                       Some True \<Rightarrow> keyHasValue_loop fs item | Some False \<Rightarrow> Some False | None \<Rightarrow> None))))"

definition keyHasValue :: "key \<Rightarrow> reflected \<Rightarrow> bool option" where
  "keyHasValue k item = keyHasValue_loop (keyFields k) item"

text \<open>A query is a map that keeps the order of insertion.\<close>

type_synonym key_query = "(string \<times> go_value) list"

definition query_put :: "string \<Rightarrow> go_value \<Rightarrow> key_query \<Rightarrow> key_query" where
  "query_put k v q = AList.update k v q"

fun key_query_loop :: "string list \<Rightarrow> reflected \<Rightarrow> key_query \<Rightarrow> key_query option" where
  "key_query_loop [] item q = Some q"
| "key_query_loop (f # fs) item q =
     (case fieldByName item (parsed_name f) of
        Some VHidden \<Rightarrow> None
      | Some v \<Rightarrow> key_query_loop fs item (query_put f v q)
      | None \<Rightarrow>
          (case dataField item of
             None \<Rightarrow> key_query_loop fs item q
           | Some m \<Rightarrow>
               (case map_of m (parsed_name f) of
                  Some v \<Rightarrow> key_query_loop fs item (query_put f v q)
                | None \<Rightarrow> key_query_loop fs item q)))"

definition getKeyQueryFromItem :: "key \<Rightarrow> reflected \<Rightarrow> key_query option" where
  "getKeyQueryFromItem k item = key_query_loop (keyFields k) item []"

text \<open>\<open>ix\<close> is never increased, so every key but that of a one-field query is followed by an underscore.\<close>

definition getIndexNameFromQuery :: "key_query \<Rightarrow> string" where
  "getIndexNameFromQuery q =
     concat (map (\<lambda>(k, v). k @ (if (0::int) < int (length q) - 1 then ''_'' else [])) q)"

definition nul_join :: "string list \<Rightarrow> string" where
  "nul_join parts = join [CHR 0x00] parts"

fun index_part :: "reflected \<Rightarrow> (string \<times> go_value) list \<Rightarrow> string \<Rightarrow> string option" where
  "index_part item m f =
     (case fieldByName item f of
        Some v \<Rightarrow> serializeKeyValue v
      | None \<Rightarrow>
          (case methodByName item (parsed_name f) of
             Some v \<Rightarrow> serializeKeyValue v
           | None \<Rightarrow>
               (case map_of m (parsed_name f) of
                  Some v \<Rightarrow> serializeKeyValue v | None \<Rightarrow> Some [])))"

fun collect_parts :: "('a \<Rightarrow> string option) \<Rightarrow> 'a list \<Rightarrow> string list option" where
  "collect_parts f [] = Some []"
| "collect_parts f (x # xs) =
     (case f x of None \<Rightarrow> None | Some p \<Rightarrow> map_option (Cons p) (collect_parts f xs))"

definition getIndexValueFromItem :: "key option \<Rightarrow> reflected \<Rightarrow> string option" where
  "getIndexValueFromItem keyParts item =
     (case keyParts of
        None \<Rightarrow> Some []
      | Some k \<Rightarrow>
          (case dataField item of
             None \<Rightarrow> None
           | Some m \<Rightarrow> map_option nul_join (collect_parts (index_part item m) (keyFields k))))"

definition getIndexValueFromQuery :: "key_query \<Rightarrow> string option" where
  "getIndexValueFromQuery q = map_option nul_join (collect_parts (\<lambda>(k, v). serializeKeyValue v) q)"

subsection \<open>Cursor options\<close>

record cursor_options =
  cLimit :: int
  cSkip :: int
  cReverse :: bool

definition newCursorOptions :: cursor_options where
  "newCursorOptions = \<lparr>cLimit = - 1, cSkip = 0, cReverse = False\<rparr>"

definition singleItemCursor :: cursor_options where
  "singleItemCursor = \<lparr>cLimit = 1, cSkip = 0, cReverse = False\<rparr>"

text \<open>\<open>First\<close> of an index, given what \<open>All\<close> answers; indexing an empty non-nil slice panics.\<close>

definition index_first :: "(string \<Rightarrow> cursor_options \<Rightarrow> string list option) \<Rightarrow> string \<Rightarrow> string option option" where
  "index_first all_of k =
     (case all_of k singleItemCursor of
        None \<Rightarrow> Some None | Some [] \<Rightarrow> None | Some (x # _) \<Rightarrow> Some (Some x))"

subsection \<open>Keys are sets of fields\<close>

lemma add_field_pair: "add_field s (fs, c) = (if s \<in> c then (fs, c) else (fs @ [s], insert s c))"
  by (simp add: add_field_def)

lemma add_field_fold:
  assumes "set fs = c" "distinct fs"
  shows "set (fst (fold add_field names (fs, c))) = snd (fold add_field names (fs, c))
    \<and> distinct (fst (fold add_field names (fs, c)))
    \<and> snd (fold add_field names (fs, c)) = c \<union> set names"
  using assms
proof (induction names arbitrary: fs c)
  case Nil
  then show ?case by simp
next
  case (Cons s names)
  show ?case
  proof (cases "s \<in> c")
    case True
    then have "c \<union> set (s # names) = c \<union> set names" by auto
    with Cons.IH [OF Cons.prems] True show ?thesis by (simp only: fold_simps add_field_pair if_True)
  next
    case False
    with Cons.IH [of "fs @ [s]" "insert s c"] Cons.prems show ?thesis by (simp add: add_field_pair)
  qed
qed

lemma newKey_fields: "set (keyFields (newKey names)) = set names" "distinct (keyFields (newKey names))"
  using add_field_fold [of "[]" "{}" names] by (auto simp: newKey_def case_prod_unfold Let_def)

subsection \<open>The value of a key, read twice\<close>

text \<open>
  A storage computes the value of an item's key in two ways: through the query built from the item, and
  directly. They agree when no name is ambiguous: a field of the key that carries the prefix is
  neither a field nor a method of the struct, and one that does not and is no field is no method.
\<close>

definition unambiguous :: "reflected \<Rightarrow> string \<Rightarrow> bool" where
  "unambiguous item f \<longleftrightarrow>
     (if has_prefix f model_prefix then fieldByName item f = None \<and> fieldByName item (parsed_name f) = None
        \<and> methodByName item (parsed_name f) = None
      else fieldByName item f = None \<longrightarrow> methodByName item f = None)"

definition key_string :: "reflected \<Rightarrow> string \<Rightarrow> string" where
  "key_string item f =
     (case (case fieldByName item (parsed_name f) of
              Some v \<Rightarrow> v
            | None \<Rightarrow> (case dataField item of None \<Rightarrow> VNil | Some m \<Rightarrow> the (map_of m (parsed_name f))))
      of VStr s \<Rightarrow> s | _ \<Rightarrow> [])"

lemma value_present_True: "value_present v = Some True \<longleftrightarrow> (\<exists>s. v = VStr s \<and> s \<noteq> [])"
  by (cases v) auto

definition field_found :: "reflected \<Rightarrow> string \<Rightarrow> bool" where
  "field_found item f \<longleftrightarrow>
     (fieldByName item (parsed_name f) = Some (VStr (key_string item f)) \<or>
      (fieldByName item (parsed_name f) = None \<and>
       (\<exists>m. dataField item = Some m \<and> map_of m (parsed_name f) = Some (VStr (key_string item f)))))
     \<and> key_string item f \<noteq> []"

lemma keyHasValue_Cons:
  assumes "keyHasValue_loop (g # fs) item = Some True"
  shows "keyHasValue_loop fs item = Some True \<and> field_found item g"
proof (cases "fieldByName item (parsed_name g)")
  case None
  with assms obtain m v where m: "dataField item = Some m" "map_of m (parsed_name g) = Some v"
    by (auto split: option.splits)
  with None assms have "value_present v = Some True" "keyHasValue_loop fs item = Some True"
    by (auto split: option.splits bool.splits)
  with None m show ?thesis by (auto simp: field_found_def key_string_def value_present_True)
next
  case (Some v)
  with assms have "value_present v = Some True" "keyHasValue_loop fs item = Some True"
    by (auto split: option.splits bool.splits)
  with Some show ?thesis by (auto simp: field_found_def key_string_def value_present_True)
qed

lemma keyHasValue_field:
  "keyHasValue_loop fs item = Some True \<Longrightarrow> f \<in> set fs \<Longrightarrow> field_found item f"
proof (induction fs)
  case (Cons g fs)
  then show ?case using keyHasValue_Cons [OF Cons.prems(1)] by auto
qed simp

lemma key_query_loop_strings:
  assumes "keyHasValue_loop fs item = Some True" "distinct (map fst q @ fs)"
  shows "key_query_loop fs item q = Some (q @ map (\<lambda>f. (f, VStr (key_string item f))) fs)"
  using assms
proof (induction fs arbitrary: q)
  case Nil
  then show ?case by simp
next
  case (Cons f fs)
  have h: "keyHasValue_loop fs item = Some True"
    using keyHasValue_Cons [OF Cons.prems(1)] by simp
  have u: "query_put f v q = q @ [(f, v)]" for v
    using Cons.prems(2) by (auto simp: query_put_def intro!: update_append_new)
  have "key_query_loop (f # fs) item q = key_query_loop fs item (q @ [(f, VStr (key_string item f))])"
    using keyHasValue_field [OF Cons.prems(1), of f] by (auto simp: u field_found_def)
  also have "\<dots> = Some ((q @ [(f, VStr (key_string item f))]) @ map (\<lambda>f. (f, VStr (key_string item f))) fs)"
    using Cons.prems(2) by (intro Cons.IH h) auto
  finally show ?case by simp
qed

lemma collect_parts_Some: "(\<And>x. x \<in> set xs \<Longrightarrow> f x = Some (g x)) \<Longrightarrow> collect_parts f xs = Some (map g xs)"
  by (induction xs) auto

lemma collect_parts_map: "collect_parts f (map h xs) = collect_parts (\<lambda>x. f (h x)) xs"
  by (induction xs) (auto split: option.splits)

lemma key_value_read_twice:
  assumes "keyHasValue k item = Some True" "distinct (keyFields k)" "\<forall>f\<in>set (keyFields k). unambiguous item f"
    "dataField item \<noteq> None"
  shows "getKeyQueryFromItem k item = Some (map (\<lambda>f. (f, VStr (key_string item f))) (keyFields k))"
    and "getIndexValueFromItem (Some k) item = Some (nul_join (map (key_string item) (keyFields k)))"
    and "getIndexValueFromQuery (map (\<lambda>f. (f, VStr (key_string item f))) (keyFields k)) =
      Some (nul_join (map (key_string item) (keyFields k)))"
proof -
  show "getKeyQueryFromItem k item = Some (map (\<lambda>f. (f, VStr (key_string item f))) (keyFields k))"
    using assms(1,2) by (simp add: getKeyQueryFromItem_def keyHasValue_def key_query_loop_strings)
  obtain m where m: "dataField item = Some m" using assms(4) by blast
  have "index_part item m f = Some (key_string item f)" if "f \<in> set (keyFields k)" for f
  proof -
    have u: "unambiguous item f" using assms(3) that by blast
    have "(fieldByName item (parsed_name f) = Some (VStr (key_string item f)) \<or>
        (fieldByName item (parsed_name f) = None \<and> map_of m (parsed_name f) = Some (VStr (key_string item f))))"
      using keyHasValue_field [OF assms(1) [unfolded keyHasValue_def] that] m by (auto simp: field_found_def)
    with u show ?thesis
      by (cases "has_prefix f model_prefix") (auto simp: unambiguous_def parsed_name_def)
  qed
  then have "collect_parts (index_part item m) (keyFields k) = Some (map (key_string item) (keyFields k))"
    by (rule collect_parts_Some)
  then show "getIndexValueFromItem (Some k) item = Some (nul_join (map (key_string item) (keyFields k)))"
    using m by (simp add: getIndexValueFromItem_def)
  show "getIndexValueFromQuery (map (\<lambda>f. (f, VStr (key_string item f))) (keyFields k)) =
      Some (nul_join (map (key_string item) (keyFields k)))"
    by (simp add: getIndexValueFromQuery_def collect_parts_map collect_parts_Some [of _ _ "key_string item"])
qed

lemma nul_join_inject:
  assumes "nul_join xs = nul_join ys" "xs \<noteq> []" "ys \<noteq> []"
    "\<forall>x\<in>set xs \<union> set ys. CHR 0x00 \<notin> set x"
  shows "xs = ys"
proof -
  have "go_split (nul_join xs) [CHR 0x00] = xs" "go_split (nul_join ys) [CHR 0x00] = ys"
    unfolding nul_join_def using assms(2-4) by (auto intro: go_split_join)
  then show ?thesis using assms(1) by metis
qed

lemma index_name_single: "getIndexNameFromQuery [(f, v)] = f"
  by (simp add: getIndexNameFromQuery_def)

lemma index_name_composite:
  "1 < length q \<Longrightarrow> getIndexNameFromQuery q = join ''_'' (map fst q) @ ''_''"
proof -
  assume "1 < length q"
  then have "getIndexNameFromQuery q = concat (map (\<lambda>k. k @ ''_'') (map fst q))" "map fst q \<noteq> []"
    by (auto simp: getIndexNameFromQuery_def case_prod_unfold comp_def)
  moreover have "ks \<noteq> [] \<Longrightarrow> concat (map (\<lambda>k. k @ ''_'') ks) = join ''_'' ks @ ''_''" for ks
    by (induction "''_''" ks rule: join.induct) auto
  ultimately show ?thesis by (simp only: not_False_eq_True)
qed

end
