(* ===== verification/BoltIndex.thy ===== *)
theory BoltIndex
  imports BoltDb IndexKeys
begin

text \<open>
  The indexes of the bolt storage: the cursors of \<open>storage/bolt/cursors.go\<close>, the unique index of
  \<open>storage/bolt/uniqueIndex.go\<close> and the list index of \<open>storage/bolt/listIndex.go\<close>. An index is the
  path of its bucket. A cursor of bolt is a position in the entries of a bucket; past the last
  entry it answers nil and stays on it. The loops over a cursor take fuel: the number of entries plus
  one is enough, since every step moves the position the same way.
\<close>

type_synonym entry = "string \<times> string option"

subsection \<open>bolt.Cursor\<close>

record cursor =
  cEntries :: entries
  cPos :: int

definition cursor_of :: "entries \<Rightarrow> cursor" where
  "cursor_of es = \<lparr>cEntries = es, cPos = 0\<rparr>"

definition entry_at :: "cursor \<Rightarrow> int \<Rightarrow> entry option" where
  "entry_at c i = (if 0 \<le> i \<and> i < int (length (cEntries c)) then Some (cEntries c ! nat i) else None)"

definition bc_first :: "cursor \<Rightarrow> entry option \<times> cursor" where
  "bc_first c = (entry_at c 0, c\<lparr>cPos := 0\<rparr>)"

definition bc_last :: "cursor \<Rightarrow> entry option \<times> cursor" where
  "bc_last c = (let i = int (length (cEntries c)) - 1 in (entry_at c i, c\<lparr>cPos := i\<rparr>))"

definition bc_next :: "cursor \<Rightarrow> entry option \<times> cursor" where
  "bc_next c =
     (case entry_at c (cPos c + 1) of
        None \<Rightarrow> (None, c) | Some e \<Rightarrow> (Some e, c\<lparr>cPos := cPos c + 1\<rparr>))"

definition bc_prev :: "cursor \<Rightarrow> entry option \<times> cursor" where
  "bc_prev c = (entry_at c (cPos c - 1), c\<lparr>cPos := cPos c - 1\<rparr>)"

definition bc_seek :: "string \<Rightarrow> cursor \<Rightarrow> entry option \<times> cursor" where
  "bc_seek k c =
     (let i = int (length (takeWhile (\<lambda>e. fst e < k) (cEntries c))) in (entry_at c i, c\<lparr>cPos := i\<rparr>))"

subsection \<open>The cursors of the package\<close>

definition bytes_compare :: "string \<Rightarrow> string \<Rightarrow> int" where
  "bytes_compare a b = (if a < b then - 1 else if a = b then 0 else 1)"

text \<open>The comparator of a range may panic (\<open>None\<close>).\<close>

datatype index_cursor =
  ReversibleCursor bool
| RangeCursor bool string string "string \<Rightarrow> string \<Rightarrow> int option"
| PrefixCursor bool string

fun prefix_last :: "nat \<Rightarrow> string \<Rightarrow> entry option \<Rightarrow> entry option \<Rightarrow> cursor \<Rightarrow> entry option \<times> cursor" where
  "prefix_last 0 p e kc c = (e, c)"
| "prefix_last (Suc n) p e kc c =
     (case kc of
        None \<Rightarrow> (e, c)
      | Some (k, v) \<Rightarrow>
          if has_prefix k p then let (kc', c') = bc_next c in prefix_last n p kc kc' c'
          else bc_prev c)"

fun ic_first :: "index_cursor \<Rightarrow> cursor \<Rightarrow> entry option \<times> cursor" where
  "ic_first (ReversibleCursor reverse) c = (if reverse then bc_last c else bc_first c)"
| "ic_first (RangeCursor reverse lo hi cmp) c =
     (if \<not> reverse then bc_seek lo c
      else case bc_seek hi c of
             (Some (k, v), c') \<Rightarrow> if \<not> has_prefix k hi then bc_prev c' else (Some (k, v), c')
           | (None, c') \<Rightarrow> (None, c'))"
| "ic_first (PrefixCursor reverse p) c =
     (case bc_seek p c of
        (None, c') \<Rightarrow> (None, c')
      | (Some e, c') \<Rightarrow>
          if \<not> reverse then (Some e, c') else prefix_last (Suc (length (cEntries c))) p (Some e) (Some e) c')"

fun ic_reverse :: "index_cursor \<Rightarrow> bool" where
  "ic_reverse (ReversibleCursor reverse) = reverse"
| "ic_reverse (RangeCursor reverse _ _ _) = reverse"
| "ic_reverse (PrefixCursor reverse _) = reverse"

definition ic_next :: "index_cursor \<Rightarrow> cursor \<Rightarrow> entry option \<times> cursor" where
  "ic_next ic c = (if ic_reverse ic then bc_prev c else bc_next c)"

fun ic_canContinue :: "index_cursor \<Rightarrow> string \<Rightarrow> bool option" where
  "ic_canContinue (ReversibleCursor _) k = Some True"
| "ic_canContinue (RangeCursor reverse lo hi cmp) k =
     (if reverse then map_option (\<lambda>c. 0 \<le> c) (cmp k lo) else map_option (\<lambda>c. c \<le> 0) (cmp k hi))"
| "ic_canContinue (PrefixCursor _ p) k = Some (has_prefix k p)"

text \<open>The cursor of the latest results skips the entries its filters hold on.\<close>

fun filtered_step :: "nat \<Rightarrow> (entry \<Rightarrow> bool) \<Rightarrow> entry option \<times> cursor \<Rightarrow> entry option \<times> cursor" where
  "filtered_step 0 skip r = r"
| "filtered_step (Suc n) skip (None, c) = (None, c)"
| "filtered_step (Suc n) skip (Some e, c) =
     (if skip e then filtered_step n skip (bc_next c) else (Some e, c))"

subsection \<open>The loop over a cursor\<close>

text \<open>
  \<open>ignore\<close> tells the entries the loop passes over before it counts (none for the unique index).
  \<open>opts\<close> is nil or gives the skip and the limit; no options is a limit of -1.
\<close>

fun scan_loop ::
    "nat \<Rightarrow> index_cursor \<Rightarrow> (entry \<Rightarrow> bool) \<Rightarrow> entry option \<Rightarrow> cursor \<Rightarrow> int \<Rightarrow> int \<Rightarrow> string option list option" where
  "scan_loop 0 ic ignore e c skip limit = Some []"
| "scan_loop (Suc n) ic ignore e c skip limit =
     (case e of
        None \<Rightarrow> Some []
      | Some (k, v) \<Rightarrow>
          (case ic_canContinue ic k of
             None \<Rightarrow> None
           | Some False \<Rightarrow> Some []
           | Some True \<Rightarrow>
               let (e', c') = ic_next ic c
               in if ignore (k, v) then scan_loop n ic ignore e' c' skip limit
                  else if skip > 0 then scan_loop n ic ignore e' c' (skip - 1) limit
                  else if limit = 0 then Some []
                  else map_option (Cons v)
                         (scan_loop n ic ignore e' c' skip (if limit > 0 then limit - 1 else limit))))"

definition opt_skip :: "cursor_options option \<Rightarrow> int" where
  "opt_skip ops = (case ops of None \<Rightarrow> 0 | Some opts \<Rightarrow> cSkip opts)"

definition opt_limit :: "cursor_options option \<Rightarrow> int" where
  "opt_limit ops = (case ops of None \<Rightarrow> - 1 | Some opts \<Rightarrow> cLimit opts)"

definition opt_reverse :: "cursor_options option \<Rightarrow> bool" where
  "opt_reverse ops = (case ops of None \<Rightarrow> False | Some opts \<Rightarrow> cReverse opts)"

definition scan_with ::
    "index_cursor \<Rightarrow> (entry \<Rightarrow> bool) \<Rightarrow> entries \<Rightarrow> cursor_options option \<Rightarrow> string option list option" where
  "scan_with ic ignore es ops =
     (let (e, c) = ic_first ic (cursor_of es)
      in scan_loop (Suc (length es)) ic ignore e c (opt_skip ops) (opt_limit ops))"

definition scanCursor :: "index_cursor \<Rightarrow> entries \<Rightarrow> cursor_options option \<Rightarrow> string option list option" where
  "scanCursor ic es ops = scan_with ic (\<lambda>e. False) es ops"

subsection \<open>The unique index\<close>

definition newUniqueIndex ::
    "'d db_ops \<Rightarrow> bool \<Rightarrow> path option \<Rightarrow> string \<Rightarrow> 'd \<Rightarrow> (path, 'd) tx_result" where
  "newUniqueIndex B writable parent name d =
     (case parent of
        None \<Rightarrow> TxError Required
      | Some p \<Rightarrow>
          if bucket_exists B (p @ [name]) d then TxOk (p @ [name]) d
          else if \<not> writable then TxError IndexMissing
          else tx_bind (of_bolt (db_create B p name d)) (\<lambda>_ d'. TxOk (p @ [name]) d'))"

definition ui_add ::
    "'d db_ops \<Rightarrow> path \<Rightarrow> string option \<Rightarrow> string option \<Rightarrow> 'd \<Rightarrow> (unit, 'd) tx_result" where
  "ui_add B ix indexValue i d =
     (case (indexValue, i) of
        (None, _) \<Rightarrow> TxError Required
      | (_, None) \<Rightarrow> TxError Required
      | (Some v, Some n) \<Rightarrow>
          (case bucket_get B ix v d of
             Some existing \<Rightarrow> if existing = n then TxOk () d else TxError AlreadyExists
           | None \<Rightarrow> of_bolt (db_put B ix v n d)))"

definition ui_remove :: "'d db_ops \<Rightarrow> path \<Rightarrow> string \<Rightarrow> 'd \<Rightarrow> (unit, 'd) tx_result" where
  "ui_remove B ix v d = of_bolt (db_delete B ix v d)"

definition ui_removeByID :: "'d db_ops \<Rightarrow> path \<Rightarrow> string \<Rightarrow> 'd \<Rightarrow> (unit, 'd) tx_result" where
  "ui_removeByID B ix i d =
     (case List.find (\<lambda>e. (case snd e of None \<Rightarrow> [] | Some w \<Rightarrow> w) = i) (bucket_items B ix d) of
        None \<Rightarrow> TxOk () d | Some e \<Rightarrow> ui_remove B ix (fst e) d)"

definition ui_get :: "'d db_ops \<Rightarrow> path \<Rightarrow> string \<Rightarrow> 'd \<Rightarrow> string option" where
  "ui_get B ix v d = bucket_get B ix v d"

definition ui_all :: "'d db_ops \<Rightarrow> path \<Rightarrow> 'd \<Rightarrow> string \<Rightarrow> cursor_options \<Rightarrow> string list option" where
  "ui_all B ix d v ops = map_option (\<lambda>i. [i]) (bucket_get B ix v d)"

definition ui_allRecords ::
    "'d db_ops \<Rightarrow> path \<Rightarrow> cursor_options option \<Rightarrow> 'd \<Rightarrow> string option list option" where
  "ui_allRecords B ix ops d = scanCursor (ReversibleCursor (opt_reverse ops)) (bucket_items B ix d) ops"

definition ui_range ::
    "'d db_ops \<Rightarrow> path \<Rightarrow> string \<Rightarrow> string \<Rightarrow> cursor_options option \<Rightarrow> 'd \<Rightarrow> string option list option" where
  "ui_range B ix lo hi ops d =
     scanCursor (RangeCursor (opt_reverse ops) lo hi (\<lambda>a b. Some (bytes_compare a b))) (bucket_items B ix d) ops"

definition ui_allWithPrefix ::
    "'d db_ops \<Rightarrow> path \<Rightarrow> string \<Rightarrow> cursor_options option \<Rightarrow> 'd \<Rightarrow> string option list option" where
  "ui_allWithPrefix B ix p ops d = scanCursor (PrefixCursor (opt_reverse ops) p) (bucket_items B ix d) ops"

text \<open>The answer is the wrong way round: true when there is a first entry.\<close>

definition ui_isEmpty :: "'d db_ops \<Rightarrow> path \<Rightarrow> 'd \<Rightarrow> bool" where
  "ui_isEmpty B ix d \<longleftrightarrow>
     fst (ic_first (ReversibleCursor False) (cursor_of (bucket_items B ix d))) \<noteq> None"

text \<open>The IDs the action is called with, in order.\<close>

definition ui_goOverCursor ::
    "'d db_ops \<Rightarrow> path \<Rightarrow> cursor_options option \<Rightarrow> 'd \<Rightarrow> string option list option" where
  "ui_goOverCursor B ix opts d =
     scan_with (ReversibleCursor (opt_reverse opts)) (\<lambda>e. False) (bucket_items B ix d) opts"

subsection \<open>The list index\<close>

record list_index =
  liBucket :: path
  liIDs :: path

definition idsIndex :: string where
  "idsIndex = ''__ids''"

text \<open>The condition is the wrong way round: an existing bucket is created again, a missing one is used.\<close>

definition newListIndex :: "'d db_ops \<Rightarrow> bool \<Rightarrow> path \<Rightarrow> string \<Rightarrow> 'd \<Rightarrow> (list_index, 'd) tx_result" where
  "newListIndex B writable parent name d =
     (if bucket_exists B (parent @ [name]) d then
        if \<not> writable then TxError IndexMissing
        else tx_bind (of_bolt (db_create B parent name d))
               (\<lambda>_ d'. tx_bind (newUniqueIndex B writable (Some (parent @ [name])) idsIndex d')
                 (\<lambda>ids d''. TxOk \<lparr>liBucket = parent @ [name], liIDs = ids\<rparr> d''))
      else tx_bind (newUniqueIndex B writable None idsIndex d)
             (\<lambda>ids d''. TxOk \<lparr>liBucket = parent @ [name], liIDs = ids\<rparr> d''))"

text \<open>For an empty value the second underscore is written past the end: a panic.\<close>

definition generatePrefix :: "string \<Rightarrow> string option" where
  "generatePrefix indexValue = (if indexValue = [] then None else Some (indexValue @ ''__''))"

definition li_drop_old :: "'d db_ops \<Rightarrow> list_index \<Rightarrow> string \<Rightarrow> 'd \<Rightarrow> (unit, 'd) tx_result" where
  "li_drop_old B ix i d =
     (case ui_get B (liIDs ix) i d of
        None \<Rightarrow> TxOk () d
      | Some idKey \<Rightarrow>
          tx_bind (of_bolt (db_delete B (liBucket ix) idKey d)) (\<lambda>_ d'. ui_remove B (liIDs ix) i d'))"

definition li_add ::
    "'d db_ops \<Rightarrow> list_index \<Rightarrow> string option \<Rightarrow> string option \<Rightarrow> 'd \<Rightarrow> (unit, 'd) tx_result" where
  "li_add B ix val i d =
     (case (val, i) of
        (Some v, Some n) \<Rightarrow>
          tx_bind (li_drop_old B ix n d)
            (\<lambda>_ d'. case generatePrefix v of
               None \<Rightarrow> TxPanic
             | Some p \<Rightarrow> tx_bind (ui_add B (liIDs ix) (Some n) (Some (p @ n)) d')
                           (\<lambda>_ d''. of_bolt (db_put B (liBucket ix) (p @ n) n d'')))
      | _ \<Rightarrow> TxError Required)"

fun delete_keys :: "'d db_ops \<Rightarrow> path \<Rightarrow> string list \<Rightarrow> 'd \<Rightarrow> (unit, 'd) tx_result" where
  "delete_keys B p [] d = TxOk () d"
| "delete_keys B p (k # ks) d = tx_bind (of_bolt (db_delete B p k d)) (\<lambda>_ d'. delete_keys B p ks d')"

definition prefixed_entries :: "string \<Rightarrow> entries \<Rightarrow> entries" where
  "prefixed_entries p es = takeWhile (\<lambda>e. has_prefix (fst e) p) (dropWhile (\<lambda>e. fst e < p) es)"

definition li_remove :: "'d db_ops \<Rightarrow> list_index \<Rightarrow> string \<Rightarrow> 'd \<Rightarrow> (unit, 'd) tx_result" where
  "li_remove B ix v d =
     (case generatePrefix v of
        None \<Rightarrow> TxPanic
      | Some p \<Rightarrow>
          tx_bind (delete_keys B (liBucket ix) (map fst (prefixed_entries p (bucket_items B (liBucket ix) d))) d)
            (\<lambda>_ d'. ui_removeByID B (liIDs ix) v d'))"

definition li_removeByID :: "'d db_ops \<Rightarrow> list_index \<Rightarrow> string \<Rightarrow> 'd \<Rightarrow> (unit, 'd) tx_result" where
  "li_removeByID B ix i d = li_drop_old B ix i d"

definition li_get :: "'d db_ops \<Rightarrow> list_index \<Rightarrow> string \<Rightarrow> 'd \<Rightarrow> string option option" where
  "li_get B ix v d =
     (case generatePrefix v of
        None \<Rightarrow> None
      | Some p \<Rightarrow>
          (case fst (bc_seek p (cursor_of (bucket_items B (liBucket ix) d))) of
             Some (k, i) \<Rightarrow> Some (if has_prefix k p then i else None)
           | None \<Rightarrow> Some None))"

definition li_ignore :: "entry \<Rightarrow> bool" where
  "li_ignore e \<longleftrightarrow> snd e = None \<or> fst e = idsIndex"

definition li_all ::
    "'d db_ops \<Rightarrow> list_index \<Rightarrow> string \<Rightarrow> cursor_options option \<Rightarrow> 'd \<Rightarrow> string option list option" where
  "li_all B ix v opts d =
     (case generatePrefix v of
        None \<Rightarrow> None
      | Some p \<Rightarrow> scan_with (PrefixCursor (opt_reverse opts) p) (\<lambda>e. False) (bucket_items B (liBucket ix) d) opts)"

definition li_allRecords ::
    "'d db_ops \<Rightarrow> list_index \<Rightarrow> cursor_options option \<Rightarrow> 'd \<Rightarrow> string option list option" where
  "li_allRecords B ix opts d =
     scan_with (ReversibleCursor (opt_reverse opts)) li_ignore (bucket_items B (liBucket ix) d) opts"

definition li_goOverCursor ::
    "'d db_ops \<Rightarrow> list_index \<Rightarrow> cursor_options option \<Rightarrow> 'd \<Rightarrow> string option list option" where
  "li_goOverCursor B ix opts d = li_allRecords B ix opts d"

text \<open>The position of the last \<open>__\<close>; a key without one panics.\<close>

definition strip_id :: "string \<Rightarrow> string option" where
  "strip_id k = map_option (\<lambda>i. take (length k - i - 2) k) (index_of ''__'' (rev k))"

definition li_compare :: "string \<Rightarrow> string \<Rightarrow> int option" where
  "li_compare k limit = map_option (\<lambda>v. bytes_compare v limit) (strip_id k)"

definition li_range ::
    "'d db_ops \<Rightarrow> list_index \<Rightarrow> string \<Rightarrow> string \<Rightarrow> cursor_options option \<Rightarrow> 'd \<Rightarrow> string option list option" where
  "li_range B ix lo hi opts d =
     scan_with (RangeCursor (opt_reverse opts) lo hi li_compare) li_ignore (bucket_items B (liBucket ix) d) opts"

definition li_prefix ::
    "'d db_ops \<Rightarrow> list_index \<Rightarrow> string \<Rightarrow> cursor_options option \<Rightarrow> 'd \<Rightarrow> string option list option" where
  "li_prefix B ix p opts d =
     scan_with (PrefixCursor (opt_reverse opts) p) li_ignore (bucket_items B (liBucket ix) d) opts"

subsection \<open>What a scan returns\<close>

text \<open>The entries a cursor answers from an entry on.\<close>

fun walk :: "(cursor \<Rightarrow> entry option \<times> cursor) \<Rightarrow> entry option \<Rightarrow> cursor \<Rightarrow> entries \<Rightarrow> bool" where
  "walk nxt e c [] \<longleftrightarrow> e = None"
| "walk nxt e c (x # xs) \<longleftrightarrow> e = Some x \<and> walk nxt (fst (nxt c)) (snd (nxt c)) xs"

definition limit_to :: "int \<Rightarrow> 'a list \<Rightarrow> 'a list" where
  "limit_to l xs = (if l < 0 then xs else take (nat l) xs)"

definition within :: "index_cursor \<Rightarrow> entries \<Rightarrow> entries" where
  "within ic xs = takeWhile (\<lambda>e. ic_canContinue ic (fst e) = Some True) xs"

lemma scan_loop_walk:
  assumes "walk (ic_next ic) e c xs" "length xs < n" "\<forall>x\<in>set xs. ic_canContinue ic (fst x) \<noteq> None"
  shows "scan_loop n ic ignore e c s l =
    Some (map snd (limit_to l (drop (nat s) (filter (\<lambda>e. \<not> ignore e) (within ic xs)))))"
  using assms
proof (induction xs arbitrary: n e c s l)
  case Nil
  then obtain m where "n = Suc m" by (cases n) auto
  with Nil show ?case by (simp add: within_def limit_to_def)
next
  case (Cons x xs)
  then obtain m where n: "n = Suc m" by (cases n) auto
  obtain k v where x: "x = (k, v)" by (cases x)
  have w: "walk (ic_next ic) (fst (ic_next ic c)) (snd (ic_next ic c)) xs" and e: "e = Some (k, v)"
    using Cons.prems(1) x by simp_all
  have IH: "scan_loop m ic ignore (fst (ic_next ic c)) (snd (ic_next ic c)) s l =
    Some (map snd (limit_to l (drop (nat s) (filter (\<lambda>e. \<not> ignore e) (within ic xs)))))" for s l
    using Cons.IH [OF w] Cons.prems n by auto
  show ?case
  proof (cases "ic_canContinue ic k = Some True")
    case False
    then have "ic_canContinue ic k = Some False" using Cons.prems(3) x by auto
    then show ?thesis by (simp add: n e x within_def limit_to_def)
  next
    case cont: True
    have wi: "within ic (x # xs) = x # within ic xs" using cont x by (simp add: within_def)
    show ?thesis
    proof (cases "ignore (k, v)")
      case True
      then show ?thesis using cont IH by (simp add: n e x wi [unfolded x] case_prod_unfold Let_def)
    next
      case ig: False
      show ?thesis
      proof (cases "s > 0")
        case True
        then have "nat s = Suc (nat (s - 1))" by simp
        then show ?thesis using True cont ig IH by (simp add: n e x wi [unfolded x] case_prod_unfold Let_def)
      next
        case s0: False
        show ?thesis
        proof (cases "l = 0")
          case True
          then show ?thesis using s0 cont ig by (simp add: n e x limit_to_def case_prod_unfold Let_def)
        next
          case l0: False
          have "limit_to l (x # ys) = x # limit_to (if l > 0 then l - 1 else l) ys" for ys
            using l0 by (auto simp: limit_to_def nat_diff_distrib take_Cons' split: if_splits)
          then show ?thesis using s0 l0 cont ig IH
            by (simp add: n e x wi [unfolded x] case_prod_unfold Let_def)
        qed
      qed
    qed
  qed
qed

lemma entry_at_Some: "0 \<le> i \<Longrightarrow> i < int (length (cEntries c)) \<Longrightarrow> entry_at c i = Some (cEntries c ! nat i)"
  by (simp add: entry_at_def)

lemma walk_forward:
  "i \<le> length es \<Longrightarrow>
   walk bc_next (entry_at \<lparr>cEntries = es, cPos = int i\<rparr> (int i)) \<lparr>cEntries = es, cPos = int i\<rparr> (drop i es)"
proof (induction "drop i es" arbitrary: i)
  case Nil
  then show ?case by (simp add: entry_at_def)
next
  case (Cons x xs)
  then have i: "i < length es" by (metis drop_eq_Nil list.distinct(1) not_le)
  then have d: "drop i es = es ! i # drop (Suc i) es" by (simp add: Cons_nth_drop_Suc)
  let ?c = "\<lparr>cEntries = es, cPos = int i\<rparr>"
  show ?case
  proof (cases "Suc i < length es")
    case True
    have "walk bc_next (entry_at \<lparr>cEntries = es, cPos = int (Suc i)\<rparr> (int (Suc i)))
        \<lparr>cEntries = es, cPos = int (Suc i)\<rparr> (drop (Suc i) es)"
      using Cons d True by (intro Cons.hyps(1)) auto
    moreover have "bc_next ?c = (entry_at \<lparr>cEntries = es, cPos = int (Suc i)\<rparr> (int (Suc i)),
        \<lparr>cEntries = es, cPos = int (Suc i)\<rparr>)"
      using True by (simp add: bc_next_def entry_at_def ac_simps)
    ultimately show ?thesis using i unfolding d by (simp add: entry_at_def)
  next
    case False
    then have "bc_next ?c = (None, ?c)" "drop (Suc i) es = []" by (simp_all add: bc_next_def entry_at_def)
    then show ?thesis using i unfolding d by (simp add: entry_at_def)
  qed
qed

lemma walk_backward:
  "i \<le> length es \<Longrightarrow>
   walk bc_prev (entry_at \<lparr>cEntries = es, cPos = int i - 1\<rparr> (int i - 1)) \<lparr>cEntries = es, cPos = int i - 1\<rparr>
     (rev (take i es))"
proof (induction i)
  case 0
  then show ?case by (simp add: entry_at_def)
next
  case (Suc i)
  then have t: "rev (take (Suc i) es) = es ! i # rev (take i es)" by (simp add: take_Suc_conv_app_nth)
  have "bc_prev \<lparr>cEntries = es, cPos = int i\<rparr> =
      (entry_at \<lparr>cEntries = es, cPos = int i - 1\<rparr> (int i - 1), \<lparr>cEntries = es, cPos = int i - 1\<rparr>)"
    by (simp add: bc_prev_def entry_at_def)
  with Suc show ?case unfolding t by (simp add: entry_at_def)
qed

text \<open>The entries a cursor of the package visits, in order.\<close>

lemma interval_area:
  assumes "key_sorted es" "\<And>k. k < lo \<Longrightarrow> \<not> P k" "\<And>k k'. lo \<le> k \<Longrightarrow> k < k' \<Longrightarrow> P k' \<Longrightarrow> P k"
  shows "takeWhile (\<lambda>e. P (fst e)) (dropWhile (\<lambda>e. fst e < lo) es) = filter (\<lambda>e. P (fst e)) es"
  using assms(1)
proof (induction es)
  case Nil
  then show ?case by simp
next
  case (Cons e es)
  obtain k v where e: "e = (k, v)" by (cases e)
  have s: "key_sorted es" "\<forall>j\<in>fst ` set es. k < j" using Cons.prems e by (auto simp: key_sorted_Cons)
  show ?case
  proof (cases "k < lo")
    case True
    then show ?thesis using Cons.IH [OF s(1)] assms(2) e by simp
  next
    case False
    then have "\<forall>j\<in>fst ` set es. \<not> j < lo" using s(2) by force
    then have d: "dropWhile (\<lambda>e. fst e < lo) es = es" by (cases es) auto
    show ?thesis
    proof (cases "P k")
      case True
      then show ?thesis using Cons.IH [OF s(1)] False d e by simp
    next
      case P: False
      then have "\<forall>j\<in>fst ` set es. \<not> P j" using s(2) assms(3) [of k] False by (auto simp: not_less)
      then have "filter (\<lambda>e. P (fst e)) es = []" by (auto simp: filter_empty_conv)
      then show ?thesis using P False e by simp
    qed
  qed
qed

lemma has_prefix_Nil [simp]: "has_prefix s []"
  by (simp add: has_prefix_def)

lemma has_prefix_Cons: "has_prefix (c # s) (d # p) \<longleftrightarrow> c = d \<and> has_prefix s p"
  by (auto simp: has_prefix_def)

lemma has_prefix_Nil_Cons: "\<not> has_prefix [] (d # p)"
  by (simp add: has_prefix_def)

lemma has_prefix_ge: "has_prefix k p \<Longrightarrow> \<not> k < p"
proof (induction p arbitrary: k)
  case Nil
  then show ?case by simp
next
  case (Cons d p)
  then show ?case by (cases k) (auto simp: has_prefix_Cons has_prefix_Nil_Cons)
qed

lemma has_prefix_between: "p \<le> k \<Longrightarrow> k < k' \<Longrightarrow> has_prefix k' p \<Longrightarrow> has_prefix k p"
proof (induction p arbitrary: k k')
  case Nil
  then show ?case by simp
next
  case (Cons d p)
  then obtain c s c' s' where k: "k = c # s" "k' = c' # s'"
    by (cases k; cases k') (auto simp: has_prefix_Nil_Cons)
  with Cons show ?case by (auto simp: has_prefix_Cons)
qed

lemma prefix_area:
  "key_sorted es \<Longrightarrow>
   takeWhile (\<lambda>e. has_prefix (fst e) p) (dropWhile (\<lambda>e. fst e < p) es) = filter (\<lambda>e. has_prefix (fst e) p) es"
  using interval_area [of es p "\<lambda>k. has_prefix k p"] has_prefix_ge has_prefix_between by blast

lemma seek_walk:
  assumes "bc_seek p (cursor_of es) = (e, c)"
  shows "walk bc_next e c (dropWhile (\<lambda>x. fst x < p) es)"
proof -
  let ?i = "length (takeWhile (\<lambda>x. fst x < p) es)"
  have "?i \<le> length es" by (rule length_takeWhile_le)
  moreover have "c = \<lparr>cEntries = es, cPos = int ?i\<rparr>" "e = entry_at \<lparr>cEntries = es, cPos = int ?i\<rparr> (int ?i)"
    using assms by (auto simp: bc_seek_def cursor_of_def entry_at_def Let_def)
  ultimately show ?thesis using walk_forward [of ?i es] by (simp add: dropWhile_eq_drop)
qed

lemma entries_from_seek:
  "drop (length (takeWhile P es)) es = dropWhile P es"
  by (simp add: dropWhile_eq_drop)

lemma prefix_last_position:
  assumes "m \<le> length es" "length (takeWhile (\<lambda>x. has_prefix (fst x) p) (drop m es)) < n"
    "m < length es \<Longrightarrow> c = \<lparr>cEntries = es, cPos = int m\<rparr>"
    "m = length es \<Longrightarrow> c = \<lparr>cEntries = es, cPos = int m - 1\<rparr> \<and> e = entry_at c (int m - 1)"
  shows "\<exists>c'. c' = \<lparr>cEntries = es, cPos = int (m + length (takeWhile (\<lambda>x. has_prefix (fst x) p) (drop m es))) - 1\<rparr>
    \<and> prefix_last n p e (entry_at \<lparr>cEntries = es, cPos = int m\<rparr> (int m)) c = (entry_at c' (cPos c'), c')"
  using assms
proof (induction n arbitrary: m e c)
  case 0
  then show ?case by simp
next
  case (Suc n)
  show ?case
  proof (cases "m < length es")
    case False
    then show ?thesis using Suc.prems by (simp add: entry_at_def)
  next
    case True
    then have d: "drop m es = es ! m # drop (Suc m) es" by (simp add: Cons_nth_drop_Suc)
    obtain k v where x: "es ! m = (k, v)" by (cases "es ! m")
    have c: "c = \<lparr>cEntries = es, cPos = int m\<rparr>" using Suc.prems True by simp
    show ?thesis
    proof (cases "has_prefix k p")
      case False
      then show ?thesis using True c x unfolding d by (simp add: entry_at_def bc_prev_def)
    next
      case pre: True
      let ?e = "Some (k, v)" and ?kc = "fst (bc_next c)" and ?c = "snd (bc_next c)"
      have kc: "?kc = entry_at \<lparr>cEntries = es, cPos = int (Suc m)\<rparr> (int (Suc m))"
        by (simp add: c bc_next_def entry_at_def ac_simps)
      have "\<exists>c'. c' = \<lparr>cEntries = es, cPos = int (Suc m + length (takeWhile (\<lambda>x. has_prefix (fst x) p) (drop (Suc m) es))) - 1\<rparr>
          \<and> prefix_last n p ?e (entry_at \<lparr>cEntries = es, cPos = int (Suc m)\<rparr> (int (Suc m))) ?c = (entry_at c' (cPos c'), c')"
      proof (rule Suc.IH)
        show "Suc m \<le> length es" using True by simp
        show "length (takeWhile (\<lambda>x. has_prefix (fst x) p) (drop (Suc m) es)) < n"
          using Suc.prems(2) pre x unfolding d by simp
        show "?c = \<lparr>cEntries = es, cPos = int (Suc m)\<rparr>" if "Suc m < length es"
          using that by (simp add: c bc_next_def entry_at_def ac_simps)
        show "?c = \<lparr>cEntries = es, cPos = int (Suc m) - 1\<rparr> \<and> ?e = entry_at ?c (int (Suc m) - 1)"
          if "Suc m = length es"
        proof -
          have l: "length es = Suc m" using that by simp
          show ?thesis using x by (simp add: c bc_next_def entry_at_def l)
        qed
      qed
      then show ?thesis using True c x pre unfolding d kc [symmetric]
        by (simp add: entry_at_def case_prod_unfold Let_def)
    qed
  qed
qed

lemma take_two_parts: "xs = a @ b @ c \<Longrightarrow> take (length a + length b) xs = a @ b"
  by simp

lemma prefix_first_reverse:
  assumes "ic_first (PrefixCursor True p) (cursor_of es) = (e, c)"
  shows "\<exists>xs. walk bc_prev e c (rev (takeWhile (\<lambda>x. has_prefix (fst x) p) (dropWhile (\<lambda>x. fst x < p) es)) @ xs)
    \<and> (xs = [] \<or> fst (hd xs) < p)
    \<and> length (rev (takeWhile (\<lambda>x. has_prefix (fst x) p) (dropWhile (\<lambda>x. fst x < p) es)) @ xs) \<le> length es"
proof -
  let ?i = "length (takeWhile (\<lambda>x. fst x < p) es)"
  let ?area = "takeWhile (\<lambda>x. has_prefix (fst x) p) (dropWhile (\<lambda>x. fst x < p) es)"
  let ?c = "\<lparr>cEntries = es, cPos = int ?i\<rparr>"
  have il: "?i \<le> length es" by (rule length_takeWhile_le)
  have d: "drop ?i es = dropWhile (\<lambda>x. fst x < p) es" by (simp add: dropWhile_eq_drop)
  have seek: "bc_seek p (cursor_of es) = (entry_at ?c (int ?i), ?c)"
    by (simp add: bc_seek_def cursor_of_def entry_at_def Let_def)
  show ?thesis
  proof (cases "?i < length es")
    case False
    then have n: "drop ?i es = []" by simp
    have "entry_at ?c (int ?i) = None" using False by (simp add: entry_at_def)
    then have "e = None" using assms seek by simp
    moreover have "?area = []" unfolding d [symmetric] n by simp
    ultimately show ?thesis by (intro exI [of _ "[]"]) simp
  next
    case True
    let ?x = "entry_at ?c (int ?i)"
    obtain x where x: "?x = Some x" using True by (simp add: entry_at_def)
    have l: "length (takeWhile (\<lambda>x. has_prefix (fst x) p) (drop ?i es)) < Suc (length es)"
      by (rule le_less_trans [OF length_takeWhile_le]) simp
    have "prefix_last (Suc (length es)) p (Some x) ?x ?c = (e, c)"
      using assms seek x by (simp add: cursor_of_def)
    then have c: "c = \<lparr>cEntries = es, cPos = int (?i + length ?area) - 1\<rparr>" and e: "e = entry_at c (cPos c)"
      using prefix_last_position [OF il l, of ?c "Some x"] True by (auto simp: d)
    have le: "?i + length ?area \<le> length es"
      using length_takeWhile_le [of "\<lambda>x. has_prefix (fst x) p" "drop ?i es"] il unfolding d [symmetric] by simp
    have "take (?i + length ?area) es = takeWhile (\<lambda>x. fst x < p) es @ ?area"
      by (rule take_two_parts [where c = "dropWhile (\<lambda>x. has_prefix (fst x) p) (dropWhile (\<lambda>x. fst x < p) es)"]) simp
    then have "walk bc_prev e c (rev ?area @ rev (takeWhile (\<lambda>x. fst x < p) es))"
      using walk_backward [OF le] c e by simp
    moreover have "rev (takeWhile (\<lambda>x. fst x < p) es) = [] \<or> fst (hd (rev (takeWhile (\<lambda>x. fst x < p) es))) < p"
      by (cases "takeWhile (\<lambda>x. fst x < p) es" rule: rev_cases) (auto dest: set_takeWhileD, metis in_set_conv_decomp fst_conv set_takeWhileD)
    moreover have "length (rev ?area @ rev (takeWhile (\<lambda>x. fst x < p) es)) \<le> length es"
      using le by simp
    ultimately show ?thesis by blast
  qed
qed

subsection \<open>Scans of an index\<close>

definition in_direction :: "bool \<Rightarrow> 'a list \<Rightarrow> 'a list" where
  "in_direction reverse xs = (if reverse then rev xs else xs)"

lemma scan_with_walk:
  assumes "ic_first ic (cursor_of es) = (e, c)" "walk (ic_next ic) e c xs" "length xs \<le> length es"
    "\<forall>x\<in>set xs. ic_canContinue ic (fst x) \<noteq> None"
  shows "scan_with ic ignore es ops =
    Some (map snd (limit_to (opt_limit ops) (drop (nat (opt_skip ops)) (filter (\<lambda>e. \<not> ignore e) (within ic xs)))))"
  using scan_loop_walk [OF assms(2) _ assms(4), of "Suc (length es)"] assms(1,3)
  by (simp add: scan_with_def)

lemma ic_next_walk: "ic_next ic = (if ic_reverse ic then bc_prev else bc_next)"
  by (auto simp: ic_next_def fun_eq_iff)

lemma entry_at_eq:
  "entry_at \<lparr>cEntries = es, cPos = a\<rparr> i = (if 0 \<le> i \<and> i < int (length es) then Some (es ! nat i) else None)"
  by (simp add: entry_at_def)

lemma takeWhile_all: "takeWhile (\<lambda>e. True) xs = xs"
  by (induction xs) auto

lemma scan_all:
  "scan_with (ReversibleCursor r) ignore es ops =
    Some (map snd (limit_to (opt_limit ops) (drop (nat (opt_skip ops)) (filter (\<lambda>e. \<not> ignore e) (in_direction r es)))))"
proof (cases r)
  case True
  have "walk bc_prev (fst (bc_last (cursor_of es))) (snd (bc_last (cursor_of es))) (rev es)"
    using walk_backward [of "length es" es] by (simp add: bc_last_def cursor_of_def entry_at_eq Let_def)
  then show ?thesis
    using True by (subst scan_with_walk [of _ _ "fst (bc_last (cursor_of es))" "snd (bc_last (cursor_of es))" "rev es"])
      (simp_all add: ic_next_walk within_def in_direction_def takeWhile_all)
next
  case False
  have "walk bc_next (fst (bc_first (cursor_of es))) (snd (bc_first (cursor_of es))) es"
    using walk_forward [of 0 es] by (simp add: bc_first_def cursor_of_def entry_at_eq)
  then show ?thesis
    using False by (subst scan_with_walk [of _ _ "fst (bc_first (cursor_of es))" "snd (bc_first (cursor_of es))" es])
      (simp_all add: ic_next_walk within_def in_direction_def takeWhile_all)
qed

lemma scan_prefix:
  assumes "key_sorted es"
  shows "scan_with (PrefixCursor r p) ignore es ops =
    Some (map snd (limit_to (opt_limit ops) (drop (nat (opt_skip ops))
      (filter (\<lambda>e. \<not> ignore e) (in_direction r (filter (\<lambda>e. has_prefix (fst e) p) es))))))"
proof -
  let ?area = "takeWhile (\<lambda>x. has_prefix (fst x) p) (dropWhile (\<lambda>x. fst x < p) es)"
  obtain e c where f: "ic_first (PrefixCursor r p) (cursor_of es) = (e, c)" by fastforce
  show ?thesis
  proof (cases r)
    case True
    with f obtain xs where w: "walk bc_prev e c (rev ?area @ xs)" and x: "xs = [] \<or> fst (hd xs) < p"
      and l: "length (rev ?area @ xs) \<le> length es"
      using prefix_first_reverse [of p es e c] by auto
    have "takeWhile (\<lambda>e. has_prefix (fst e) p) xs = []"
      using x has_prefix_ge [of "fst (hd xs)" p] by (cases xs) auto
    moreover have "\<forall>x\<in>set (rev ?area). has_prefix (fst x) p" by (auto dest: set_takeWhileD)
    ultimately have "takeWhile (\<lambda>e. has_prefix (fst e) p) (rev ?area @ xs) = rev ?area"
      by (subst takeWhile_append2) auto
    then have "within (PrefixCursor r p) (rev ?area @ xs) = rev ?area" by (simp add: within_def)
    moreover have "walk (ic_next (PrefixCursor r p)) e c (rev ?area @ xs)"
      using w True by (simp add: ic_next_walk)
    ultimately show ?thesis
      using scan_with_walk [OF f, of "rev ?area @ xs"] l True
      unfolding prefix_area [OF assms, symmetric] in_direction_def by simp
  next
    case False
    have "ic_first (PrefixCursor False p) (cursor_of es) = bc_seek p (cursor_of es)"
      by (simp split: prod.splits option.splits)
    then have "walk bc_next e c (dropWhile (\<lambda>x. fst x < p) es)"
      using f False by (intro seek_walk) simp
    then have "walk (ic_next (PrefixCursor r p)) e c (dropWhile (\<lambda>x. fst x < p) es)"
      using False by (simp add: ic_next_walk)
    moreover have "length (dropWhile (\<lambda>x. fst x < p) es) \<le> length es" by (rule length_dropWhile_le)
    moreover have "within (PrefixCursor r p) (dropWhile (\<lambda>x. fst x < p) es) = ?area" by (simp add: within_def)
    ultimately show ?thesis
      using scan_with_walk [OF f, of "dropWhile (\<lambda>x. fst x < p) es"] False
      unfolding prefix_area [OF assms, symmetric] in_direction_def by simp
  qed
qed

lemma bytes_compare_iff: "bytes_compare a b \<le> 0 \<longleftrightarrow> a \<le> b" "0 \<le> bytes_compare a b \<longleftrightarrow> b \<le> a"
  by (auto simp: bytes_compare_def not_less)

lemma sorted_after_seek: "key_sorted es \<Longrightarrow> x \<in> set (dropWhile (\<lambda>e. fst e < lo) es) \<Longrightarrow> lo \<le> fst x"
proof (induction es)
  case (Cons e es)
  then show ?case by (cases e) (force simp: key_sorted_Cons not_less split: if_splits)
qed simp

lemma scan_range_forward:
  assumes "key_sorted es"
  shows "scan_with (RangeCursor False lo hi (\<lambda>a b. Some (bytes_compare a b))) ignore es ops =
    Some (map snd (limit_to (opt_limit ops) (drop (nat (opt_skip ops))
      (filter (\<lambda>e. \<not> ignore e) (filter (\<lambda>e. lo \<le> fst e \<and> fst e \<le> hi) es)))))"
proof -
  let ?ic = "RangeCursor False lo hi (\<lambda>a b. Some (bytes_compare a b))"
  obtain e c where f: "bc_seek lo (cursor_of es) = (e, c)" by fastforce
  have "walk (ic_next ?ic) e c (dropWhile (\<lambda>x. fst x < lo) es)"
    using seek_walk [OF f] by (simp add: ic_next_walk)
  moreover have "length (dropWhile (\<lambda>x. fst x < lo) es) \<le> length es" by (rule length_dropWhile_le)
  moreover have "within ?ic (dropWhile (\<lambda>x. fst x < lo) es) = filter (\<lambda>e. lo \<le> fst e \<and> fst e \<le> hi) es"
  proof -
    have "within ?ic (dropWhile (\<lambda>x. fst x < lo) es) =
        takeWhile (\<lambda>e. lo \<le> fst e \<and> fst e \<le> hi) (dropWhile (\<lambda>x. fst x < lo) es)"
      unfolding within_def using sorted_after_seek [OF assms]
      by (intro takeWhile_cong refl) (auto simp: bytes_compare_iff)
    also have "\<dots> = filter (\<lambda>e. lo \<le> fst e \<and> fst e \<le> hi) es"
      by (rule interval_area [OF assms, of lo "\<lambda>k. lo \<le> k \<and> k \<le> hi"]) auto
    finally show ?thesis .
  qed
  ultimately show ?thesis
    using scan_with_walk [of ?ic es e c "dropWhile (\<lambda>x. fst x < lo) es" ignore ops] f by simp
qed

lemma scan_range_reverse_past_end:
  assumes "\<forall>x\<in>set es. fst x < hi"
  shows "scan_with (RangeCursor True lo hi cmp) ignore es ops = Some []"
proof -
  have t: "takeWhile (\<lambda>e. fst e < hi) es = es" using assms by (simp add: takeWhile_eq_all_conv)
  have "fst (bc_seek hi (cursor_of es)) = None"
    by (simp add: bc_seek_def cursor_of_def entry_at_eq Let_def t del: takeWhile_eq_all_conv)
  then show ?thesis by (cases "bc_seek hi (cursor_of es)") (simp add: scan_with_def)
qed

subsection \<open>The unique index over the laws of bolt\<close>

lemma bucket_items_sorted: "law_sorted B \<Longrightarrow> key_sorted (bucket_items B p d)"
  by (auto simp: law_sorted_def bucket_items_def key_sorted_Nil split: option.splits)

lemma put_get:
  assumes "bolt_laws B" "db_put B p k v d = (True, d')"
  shows "bucket_get B p k d' = Some v" "j \<noteq> k \<Longrightarrow> bucket_get B p j d' = bucket_get B p j d"
    "same_items B {p} d d'" "bucket_exists B q d' = bucket_exists B q d"
proof -
  have "(\<exists>es. db_items B p d = Some es \<and> db_items B p d' = Some (put_entry k (Some v) es))
      \<and> same_items B {p} d d'"
    using put_law [OF assms(1), where p = p and k = k and v = v and d = d] assms(2) by auto
  then obtain es where es: "db_items B p d = Some es" "db_items B p d' = Some (put_entry k (Some v) es)"
    and o: "same_items B {p} d d'" by blast
  have "key_sorted es" using assms(1) es(1) by (auto simp: bolt_laws_def law_sorted_def)
  note m = map_of_put_entry [OF this]
  show "bucket_get B p k d' = Some v" by (simp add: bucket_get_def bucket_items_def es m)
  show "j \<noteq> k \<Longrightarrow> bucket_get B p j d' = bucket_get B p j d"
    by (simp add: bucket_get_def bucket_items_def es m)
  show "same_items B {p} d d'" by (rule o)
  show "bucket_exists B q d' = bucket_exists B q d"
    using o es by (cases "q = p") (auto simp: bucket_exists_def same_items_def)
qed

lemma put_fails: "bolt_laws B \<Longrightarrow> db_put B p k v d = (False, d') \<Longrightarrow> d' = d"
  using put_law [where B = B and p = p and k = k and v = v and d = d] by auto

lemma other_bucket_get: "same_items B ps d d' \<Longrightarrow> q \<notin> ps \<Longrightarrow> bucket_get B q k d' = bucket_get B q k d"
  by (simp add: bucket_get_def bucket_items_def same_items_def)

lemma ui_add_cases:
  "ui_add B ix (Some v) (Some n) d =
     (case bucket_get B ix v d of
        Some m \<Rightarrow> if m = n then TxOk () d else TxError AlreadyExists
      | None \<Rightarrow> of_bolt (db_put B ix v n d))"
  by (simp add: ui_add_def)

lemma ui_add_ok:
  assumes "bolt_laws B" "ui_add B ix (Some v) (Some n) d = TxOk u d'"
  shows "ui_get B ix v d' = Some n \<and> (\<forall>w. w \<noteq> v \<longrightarrow> ui_get B ix w d' = ui_get B ix w d)
    \<and> same_items B {ix} d d' \<and> ui_get B ix v d \<in> {None, Some n}"
proof (cases "bucket_get B ix v d")
  case None
  then obtain b where "db_put B ix v n d = (True, d')"
    using assms(2) by (cases "db_put B ix v n d") (auto simp: ui_add_cases of_bolt_def split: if_splits)
  with None show ?thesis using put_get [OF assms(1)] by (auto simp: ui_get_def)
next
  case (Some m)
  then show ?thesis using assms(2) by (auto simp: ui_add_cases ui_get_def same_items_def split: if_splits)
qed

subsection \<open>Properties\<close>

text \<open>C18: safety. Over any database that keeps bolt's documented laws, adding to a unique index either
makes the value point to the ID and changes nothing else in the database, or fails and leaves everything as it was; a
value that already points to another ID is refused, so the ID of a value is never overwritten.\<close>

theorem unique_index_add:
  assumes "bolt_laws B"
  shows "(case ui_add B ix (Some v) (Some n) d of
       TxOk _ d' \<Rightarrow> ui_get B ix v d' = Some n \<and> (\<forall>w. w \<noteq> v \<longrightarrow> ui_get B ix w d' = ui_get B ix w d)
         \<and> same_items B {ix} d d' \<and> ui_get B ix v d \<in> {None, Some n}
     | TxError e \<Rightarrow> (e = AlreadyExists \<longleftrightarrow> ui_get B ix v d \<notin> {None, Some n})
     | TxPanic \<Rightarrow> False)"
proof (cases "ui_add B ix (Some v) (Some n) d")
  case (TxOk u d')
  then show ?thesis using ui_add_ok [OF assms TxOk] by simp
next
  case (TxError e)
  then show ?thesis
    by (auto simp: ui_add_cases ui_get_def of_bolt_def split: option.splits if_splits)
next
  case TxPanic
  then show ?thesis by (auto simp: ui_add_cases of_bolt_def split: option.splits if_splits)
qed

definition sample_db :: ref_db where
  "sample_db = (\<lambda>p. if p = [] then Some ([(''ix'', None)], 0)
     else if p = [''ix''] then Some ([(''a'', Some ''1''), (''ab'', Some ''2''), (''b'', Some ''3'')], 0)
     else None)"

theorem unique_index_add_witness:
  "ui_add ref_ops [''ix''] (Some ''ab'') (Some ''9'') sample_db = TxError AlreadyExists
   \<and> ui_get ref_ops [''ix''] ''ab'' sample_db \<notin> {None, Some ''9''}"
proof -
  have a: "ui_add ref_ops [''ix''] (Some ''ab'') (Some ''9'') sample_db = TxError AlreadyExists"
    by (simp add: ui_add_cases bucket_get_def bucket_items_def ref_ops_def ref_items_def sample_db_def in_order_def)
  then show ?thesis
    using unique_index_add [OF ref_laws, where ix = "[''ix'']" and v = "''ab''" and n = "''9''" and d = sample_db]
    by simp
qed

text \<open>The scans of a unique index return exactly what they name, in byte order of the values
or in the opposite order, after the skip and up to the limit: all IDs, the IDs of the values with
a prefix (in both directions), and, forward, the IDs of the values between two bounds.\<close>

theorem unique_index_scans:
  assumes "bolt_laws B"
  shows "ui_allRecords B ix ops d =
      Some (map snd (limit_to (opt_limit ops) (drop (nat (opt_skip ops))
        (in_direction (opt_reverse ops) (bucket_items B ix d)))))
    \<and> ui_allWithPrefix B ix p ops d =
      Some (map snd (limit_to (opt_limit ops) (drop (nat (opt_skip ops))
        (in_direction (opt_reverse ops) (filter (\<lambda>e. has_prefix (fst e) p) (bucket_items B ix d))))))
    \<and> (\<not> opt_reverse ops \<longrightarrow> ui_range B ix lo hi ops d =
      Some (map snd (limit_to (opt_limit ops) (drop (nat (opt_skip ops))
        (filter (\<lambda>e. lo \<le> fst e \<and> fst e \<le> hi) (bucket_items B ix d))))))"
    (is "?all \<and> ?prefix \<and> ?range")
proof (intro conjI)
  have s: "key_sorted (bucket_items B ix d)" using assms by (auto simp: bolt_laws_def intro: bucket_items_sorted)
  show ?all by (simp add: ui_allRecords_def scanCursor_def scan_all)
  show ?prefix by (simp add: ui_allWithPrefix_def scanCursor_def scan_prefix [OF s])
  show ?range by (simp add: ui_range_def scanCursor_def scan_range_forward [OF s])
qed

theorem unique_index_scans_witness:
  "ui_allWithPrefix ref_ops [''ix''] ''a'' (Some \<lparr>cLimit = 1, cSkip = 0, cReverse = True\<rparr>) sample_db = Some [Some ''2'']
   \<and> ui_range ref_ops [''ix''] ''ab'' ''z'' None sample_db = Some [Some ''2'', Some ''3'']"
proof
  show "ui_allWithPrefix ref_ops [''ix''] ''a'' (Some \<lparr>cLimit = 1, cSkip = 0, cReverse = True\<rparr>) sample_db = Some [Some ''2'']"
    by (subst unique_index_scans [OF ref_laws, THEN conjunct2, THEN conjunct1]) code_simp
  have "\<not> opt_reverse None" by (simp add: opt_reverse_def)
  then show "ui_range ref_ops [''ix''] ''ab'' ''z'' None sample_db = Some [Some ''2'', Some ''3'']"
    by (subst unique_index_scans [OF ref_laws, THEN conjunct2, THEN conjunct2, THEN mp]) (assumption, code_simp)
qed

text \<open>A reverse range whose upper bound is above every value of the index returns nothing,
whatever lies between the bounds; and the test for emptiness answers the opposite.\<close>

theorem reverse_range_past_end_is_empty:
  assumes "\<forall>e\<in>set (bucket_items B ix d). fst e < hi" "opt_reverse ops"
  shows "ui_range B ix lo hi ops d = Some [] \<and> (ui_isEmpty B ix d \<longleftrightarrow> bucket_items B ix d \<noteq> [])"
proof
  show "ui_range B ix lo hi ops d = Some []"
    unfolding ui_range_def scanCursor_def using assms by (simp add: scan_range_reverse_past_end)
  show "ui_isEmpty B ix d \<longleftrightarrow> bucket_items B ix d \<noteq> []"
    by (simp add: ui_isEmpty_def bc_first_def cursor_of_def entry_at_eq)
qed

theorem reverse_range_past_end_is_empty_witness:
  "ui_range ref_ops [''ix''] ''a'' ''z'' (Some \<lparr>cLimit = - 1, cSkip = 0, cReverse = True\<rparr>) sample_db = Some []
   \<and> ui_range ref_ops [''ix''] ''a'' ''z'' None sample_db = Some [Some ''1'', Some ''2'', Some ''3'']"
proof
  show "ui_range ref_ops [''ix''] ''a'' ''z'' (Some \<lparr>cLimit = - 1, cSkip = 0, cReverse = True\<rparr>) sample_db = Some []"
    by (rule reverse_range_past_end_is_empty [THEN conjunct1])
       (auto simp: bucket_items_def ref_ops_def ref_items_def sample_db_def in_order_def opt_reverse_def)
  show "ui_range ref_ops [''ix''] ''a'' ''z'' None sample_db = Some [Some ''1'', Some ''2'', Some ''3'']"
    by code_simp
qed

text \<open>A list index cannot be opened, neither over an existing bucket (it is created
again) nor over a missing one (its sub-bucket is asked of a nil bucket).\<close>

theorem list_index_never_opens:
  assumes "bolt_laws B"
  shows "\<exists>e. newListIndex B writable parent name d = TxError e"
proof (cases "bucket_exists B (parent @ [name]) d")
  case False
  then show ?thesis by (simp add: newListIndex_def newUniqueIndex_def tx_bind_def)
next
  case True
  have "fst (db_create B parent name d) = False"
    using create_law [OF assms, where p = parent and n = name and d = d] True
    by (cases "db_create B parent name d") (auto simp: bucket_exists_def split: if_splits)
  with True show ?thesis by (simp add: newListIndex_def of_bolt_def tx_bind_def)
qed

theorem list_index_never_opens_witness:
  "\<exists>e. newListIndex ref_ops True [] ''ix'' sample_db = TxError e"
  by (rule list_index_never_opens [OF ref_laws])

end
