(* ===== verification/BoltStorage.thy ===== *)
theory BoltStorage
  imports BoltIndex Categories
begin

text \<open>
  The store of \<open>storage/bolt\<close>: the metadata of its indexes (\<open>metadata.go\<close>), the indexes by name
  and the reads through them (\<open>index.go\<close>), the operations on records (\<open>boltStorageBacking.go\<close>),
  the ring of the latest results (\<open>latestResults.go\<close>) and the figures of \<open>stats.go\<close>.

  A step of a transaction works on the database and on the memory that a rollback does not undo: the
  metadata, and the items of the caller, which an operation writes its ID and UUID to. The database
  (\<open>db_ops\<close>) and the codec of the storage are parameters.
\<close>

record index_metadata =
  imName :: string
  imUnique :: bool
  imLocation :: string

type_synonym metadata = "(string \<times> index_metadata) list"

record codec =
  marshal :: "scrape_item \<Rightarrow> string option"
  unmarshalAt :: "string option \<Rightarrow> scrape_item \<Rightarrow> scrape_item option"
  metadataBytes :: "metadata \<Rightarrow> string"
  parseMetadata :: "string \<Rightarrow> metadata option"

subsection \<open>Steps of a transaction\<close>

type_synonym ('a, 'i, 'd) step = "metadata \<times> 'i \<Rightarrow> 'd \<Rightarrow> ('a, 'd) tx_result \<times> (metadata \<times> 'i)"

definition tx_lift :: "('d \<Rightarrow> ('a, 'd) tx_result) \<Rightarrow> ('a, 'i, 'd) step" where
  "tx_lift f m d = (f d, m)"

definition tx_then :: "('a, 'i, 'd) step \<Rightarrow> ('a \<Rightarrow> ('b, 'i, 'd) step) \<Rightarrow> ('b, 'i, 'd) step" where
  "tx_then s f m d =
     (case s m d of
        (TxOk a d', m') \<Rightarrow> f a m' d'
      | (TxError e, m') \<Rightarrow> (TxError e, m')
      | (TxPanic, m') \<Rightarrow> (TxPanic, m'))"

definition tx_return :: "'a \<Rightarrow> ('a, 'i, 'd) step" where
  "tx_return a m d = (TxOk a d, m)"

datatype 'a op_result = OpPanic | OpError store_error | OpOk 'a

record 'd storage =
  stDb :: 'd
  rootBucket :: "string list"
  stMeta :: metadata

definition dbUpdate :: "('a, 'i, 'd) step \<Rightarrow> 'i \<Rightarrow> 'd storage \<Rightarrow> 'a op_result \<times> 'i \<times> 'd storage" where
  "dbUpdate f i s =
     (case f (stMeta s, i) (stDb s) of
        (TxOk a d, (m, i')) \<Rightarrow> (OpOk a, i', s\<lparr>stDb := d, stMeta := m\<rparr>)
      | (TxError e, (m, i')) \<Rightarrow> (OpError e, i', s\<lparr>stMeta := m\<rparr>)
      | (TxPanic, (m, i')) \<Rightarrow> (OpPanic, i', s\<lparr>stMeta := m\<rparr>))"

definition dbView :: "('a, 'i, 'd) step \<Rightarrow> 'i \<Rightarrow> 'd storage \<Rightarrow> 'a op_result \<times> 'i \<times> 'd storage" where
  "dbView f i s =
     (case f (stMeta s, i) (stDb s) of
        (TxOk a _, (m, i')) \<Rightarrow> (OpOk a, i', s\<lparr>stMeta := m\<rparr>)
      | (TxError e, (m, i')) \<Rightarrow> (OpError e, i', s\<lparr>stMeta := m\<rparr>)
      | (TxPanic, (m, i')) \<Rightarrow> (OpPanic, i', s\<lparr>stMeta := m\<rparr>))"

subsection \<open>Metadata\<close>

definition addIndex :: "string \<Rightarrow> string \<Rightarrow> bool \<Rightarrow> metadata \<Rightarrow> bool \<times> metadata" where
  "addIndex name location unique m =
     (let new = \<lparr>imName = name, imUnique = unique, imLocation = location\<rparr>
      in case map_of m name of
           Some ex \<Rightarrow> if imLocation ex = location \<and> imUnique ex = unique then (False, m)
                      else (True, AList.update name new m)
         | None \<Rightarrow> (True, AList.update name new m))"

definition metaBucketName :: string where "metaBucketName = ''__meta''"
definition internalBucketName :: string where "internalBucketName = ''__internal''"
definition namespaceResultsBucketName :: string where "namespaceResultsBucketName = ''results''"
definition categoriesBucketName :: string where "categoriesBucketName = ''__categories''"

text \<open>The error of the write is dropped; a read-only transaction writes nothing.\<close>

definition saveMetadata :: "'d db_ops \<Rightarrow> codec \<Rightarrow> bool \<Rightarrow> path \<Rightarrow> metadata \<Rightarrow> 'd \<Rightarrow> 'd" where
  "saveMetadata B C writable bucket m d =
     (if writable then snd (db_put B bucket metaBucketName (metadataBytes C m) d) else d)"

text \<open>Metadata that cannot be parsed ends the process.\<close>

definition loadMetadata :: "'d db_ops \<Rightarrow> codec \<Rightarrow> path \<Rightarrow> (unit, 'i, 'd) step" where
  "loadMetadata B C bucket m d =
     (case bucket_get B bucket metaBucketName d of
        None \<Rightarrow> (TxOk () d, ([], snd m))
      | Some bytes \<Rightarrow>
          (case parseMetadata C bytes of
             None \<Rightarrow> (TxPanic, m) | Some meta \<Rightarrow> (TxOk () d, (meta, snd m))))"

definition getIndexes :: "'d storage \<Rightarrow> metadata" where
  "getIndexes s = stMeta s"

definition hasIndex :: "index_metadata \<Rightarrow> 'd storage \<Rightarrow> bool" where
  "hasIndex im s \<longleftrightarrow> map_of (stMeta s) (imName im) \<noteq> None"

definition hasIndexWithName :: "string \<Rightarrow> 'd storage \<Rightarrow> bool" where
  "hasIndexWithName name s \<longleftrightarrow> map_of (stMeta s) name \<noteq> None"

subsection \<open>Buckets\<close>

fun assert_loop :: "'d db_ops \<Rightarrow> path \<Rightarrow> string list \<Rightarrow> 'd \<Rightarrow> (path, 'd) tx_result" where
  "assert_loop B p [] d = TxOk p d"
| "assert_loop B p (n # ns) d =
     (case create_if_missing B p n d of
        (True, d') \<Rightarrow> assert_loop B (p @ [n]) ns d'
      | (False, _) \<Rightarrow> TxError BoltError)"

definition assertBucket :: "'d db_ops \<Rightarrow> bool \<Rightarrow> string list \<Rightarrow> 'd \<Rightarrow> (path, 'd) tx_result" where
  "assertBucket B writable names d =
     (if \<not> writable \<or> names = [] then TxError Required else assert_loop B [] names d)"

definition assertNamespaceBucket ::
    "'d db_ops \<Rightarrow> bool \<Rightarrow> string list \<Rightarrow> string \<Rightarrow> 'd \<Rightarrow> (path, 'd) tx_result" where
  "assertNamespaceBucket B writable root name d =
     (if \<not> writable \<or> name = [] then TxError Required else assertBucket B writable (root @ [name]) d)"

text \<open>
  The loop tests the receiver instead of the bucket, so a name that is missing does not end it: the
  next name is looked up in the root of the database.
\<close>

definition bucket_step :: "'d db_ops \<Rightarrow> 'd \<Rightarrow> string \<Rightarrow> path option \<Rightarrow> path option" where
  "bucket_step B d name bucket =
     (let p = (case bucket of None \<Rightarrow> [name] | Some q \<Rightarrow> q @ [name])
      in if bucket_exists B p d then Some p else None)"

definition getRootBucket :: "'d db_ops \<Rightarrow> string list \<Rightarrow> 'd \<Rightarrow> path option" where
  "getRootBucket B names d = fold (bucket_step B d) names None"

definition getBucket :: "'d db_ops \<Rightarrow> string list \<Rightarrow> string list \<Rightarrow> 'd \<Rightarrow> path option" where
  "getBucket B root names d = getRootBucket B (root @ names) d"

definition setupMetadata :: "'d db_ops \<Rightarrow> codec \<Rightarrow> string list \<Rightarrow> (unit, 'i, 'd) step" where
  "setupMetadata B C root =
     tx_then (tx_lift (assertBucket B True [internalBucketName])) (\<lambda>_.
       if root = [] then tx_return ()
       else tx_then (tx_lift (assertNamespaceBucket B True root namespaceResultsBucketName))
              (loadMetadata B C))"

definition setNamespace :: "'d db_ops \<Rightarrow> codec \<Rightarrow> string \<Rightarrow> 'd storage \<Rightarrow> unit op_result \<times> 'd storage" where
  "setNamespace B C namespace s =
     (case dbUpdate (setupMetadata B C [namespace]) () (s\<lparr>rootBucket := [namespace]\<rparr>) of
        (r, _, s') \<Rightarrow> (r, s'))"

text \<open>\<open>order\<close> is the order in which the categories are ranged over; the flag is global to the process.\<close>

definition setupCategories :: "'d db_ops \<Rightarrow> category list \<Rightarrow> bool \<Rightarrow> 'd \<Rightarrow> (unit, 'd) tx_result \<times> bool" where
  "setupCategories B order initialized d =
     (case create_if_missing B [] categoriesBucketName d of
        (False, _) \<Rightarrow> (TxError BoltError, initialized)
      | (True, d') \<Rightarrow>
          if initialized then (TxOk () d', True)
          else (case fold (\<lambda>cat r. tx_bind r (\<lambda>_ d''.
                  of_bolt (create_if_missing B [categoriesBucketName] (catName cat) d''))) order (TxOk () d') of
                  TxOk () d'' \<Rightarrow> (TxOk () d'', True)
                | r \<Rightarrow> (r, initialized)))"

text \<open>Opening the file is the argument \<open>opened\<close>; the result is the storage without a namespace.\<close>

definition newBoltDbStorage ::
    "'d db_ops \<Rightarrow> codec \<Rightarrow> category list \<Rightarrow> bool \<Rightarrow> string \<Rightarrow> bool \<Rightarrow> 'd option \<Rightarrow> 'd storage op_result \<times> bool" where
  "newBoltDbStorage B C order initialized dbPath isPtr opened =
     (if dbPath = [] \<or> \<not> isPtr then (OpError Required, initialized)
      else case opened of
             None \<Rightarrow> (OpError BoltError, initialized)
           | Some d \<Rightarrow>
               (case setupCategories B order initialized d of
                  (TxOk () d', init) \<Rightarrow>
                    (case dbUpdate (setupMetadata B C []) () \<lparr>stDb = d', rootBucket = [], stMeta = []\<rparr> of
                       (OpOk _, _, s) \<Rightarrow> (OpOk s, init)
                     | (OpError e, _, _) \<Rightarrow> (OpError e, init)
                     | (OpPanic, _, _) \<Rightarrow> (OpPanic, init))
                | (TxError e, init) \<Rightarrow> (OpError e, init)
                | (TxPanic, init) \<Rightarrow> (OpPanic, init)))"

subsection \<open>Indexes by name\<close>

datatype any_index = UniqueIx path | ListIx list_index

fun idx_add :: "'d db_ops \<Rightarrow> any_index \<Rightarrow> string option \<Rightarrow> string option \<Rightarrow> 'd \<Rightarrow> (unit, 'd) tx_result" where
  "idx_add B (UniqueIx ix) v i d = ui_add B ix v i d"
| "idx_add B (ListIx ix) v i d = li_add B ix v i d"

text \<open>\<open>Get\<close> and \<open>All\<close> of a list index may panic: \<open>None\<close>.\<close>

fun idx_get :: "'d db_ops \<Rightarrow> any_index \<Rightarrow> string \<Rightarrow> 'd \<Rightarrow> string option option" where
  "idx_get B (UniqueIx ix) v d = Some (ui_get B ix v d)"
| "idx_get B (ListIx ix) v d = li_get B ix v d"

fun idx_all :: "'d db_ops \<Rightarrow> any_index \<Rightarrow> string \<Rightarrow> cursor_options \<Rightarrow> 'd \<Rightarrow> string list option" where
  "idx_all B (UniqueIx ix) v ops d = ui_all B ix d v ops"
| "idx_all B (ListIx ix) v ops d =
     map_option (List.map_filter id) (li_all B ix v (Some ops) d)"

datatype index_kind = KindUnique | KindID

definition indexPrefix :: string where "indexPrefix = ''__index_''"

definition bucketHasIndex :: "'d db_ops \<Rightarrow> path \<Rightarrow> string \<Rightarrow> 'd \<Rightarrow> bool" where
  "bucketHasIndex B bucket name d \<longleftrightarrow> bucket_exists B (bucket @ [indexPrefix @ name]) d"

definition open_index ::
    "'d db_ops \<Rightarrow> bool \<Rightarrow> path option \<Rightarrow> index_kind \<Rightarrow> string \<Rightarrow> 'd \<Rightarrow> (any_index, 'd) tx_result" where
  "open_index B writable bucket kind indexName d =
     (case kind of
        KindUnique \<Rightarrow> tx_bind (newUniqueIndex B writable bucket indexName d) (\<lambda>ix d'. TxOk (UniqueIx ix) d')
      | KindID \<Rightarrow>
          (case bucket of
             None \<Rightarrow> TxPanic
           | Some p \<Rightarrow> tx_bind (newListIndex B writable p indexName d) (\<lambda>ix d'. TxOk (ListIx ix) d')))"

definition getIndex ::
    "'d db_ops \<Rightarrow> codec \<Rightarrow> bool \<Rightarrow> path option \<Rightarrow> index_kind \<Rightarrow> string \<Rightarrow> (any_index, 'i, 'd) step" where
  "getIndex B C writable bucket kind name =
     tx_then (tx_lift (open_index B writable bucket kind (indexPrefix @ name))) (\<lambda>ix (meta, i) d.
       case addIndex name (indexPrefix @ name) (kind = KindUnique) meta of
         (False, _) \<Rightarrow> (TxOk ix d, (meta, i))
       | (True, meta') \<Rightarrow>
           (TxOk ix (case bucket of None \<Rightarrow> d | Some p \<Rightarrow> saveMetadata B C writable p meta' d), (meta', i)))"

definition getIndexFromQuery ::
    "'d db_ops \<Rightarrow> codec \<Rightarrow> bool \<Rightarrow> path option \<Rightarrow> key_query \<Rightarrow> (any_index, 'i, 'd) step" where
  "getIndexFromQuery B C writable bucket q = getIndex B C writable bucket KindUnique (getIndexNameFromQuery q)"

definition getUniqueIndexFromKeys ::
    "'d db_ops \<Rightarrow> codec \<Rightarrow> bool \<Rightarrow> path option \<Rightarrow> key \<Rightarrow> (any_index, 'i, 'd) step" where
  "getUniqueIndexFromKeys B C writable bucket k =
     getIndex B C writable bucket KindUnique (join ''_'' (keyFields k))"

definition getDefaultPK :: key where
  "getDefaultPK = newKey [''UUID'']"

definition getByIndex ::
    "'d db_ops \<Rightarrow> path \<Rightarrow> any_index \<Rightarrow> string \<Rightarrow> 'd \<Rightarrow> (string \<times> string option, 'd) tx_result" where
  "getByIndex B bucket ix v d =
     (case index_first (\<lambda>k ops. idx_all B ix k ops d) v of
        None \<Rightarrow> TxPanic
      | Some None \<Rightarrow> TxError NotFound
      | Some (Some i) \<Rightarrow> TxOk (i, bucket_get B bucket i d) d)"

definition getByDefaultPKIndex ::
    "'d db_ops \<Rightarrow> codec \<Rightarrow> bool \<Rightarrow> path \<Rightarrow> string \<Rightarrow> (string option, 'i, 'd) step" where
  "getByDefaultPKIndex B C writable bucket i =
     tx_then (getUniqueIndexFromKeys B C writable (Some bucket) getDefaultPK) (\<lambda>ix m d.
       case idx_get B ix i d of
         None \<Rightarrow> (TxPanic, m)
       | Some None \<Rightarrow> (TxOk None d, m)
       | Some (Some ids) \<Rightarrow> (TxOk (bucket_get B bucket ids d) d, m))"

definition decode_into :: "codec \<Rightarrow> scrape_item \<Rightarrow> string option \<Rightarrow> (scrape_item, 'i, 'd) step" where
  "decode_into C result raw m d =
     (case unmarshalAt C raw result of None \<Rightarrow> (TxError MarshalError, m) | Some r \<Rightarrow> (TxOk r d, m))"

definition getRecordByIndexOrDefault ::
    "'d db_ops \<Rightarrow> codec \<Rightarrow> bool \<Rightarrow> path \<Rightarrow> any_index \<Rightarrow> string \<Rightarrow> scrape_item \<Rightarrow> (scrape_item, 'i, 'd) step" where
  "getRecordByIndexOrDefault B C writable bucket ix v result =
     tx_then (tx_lift (getByIndex B bucket ix v)) (\<lambda>(i, raw).
       case raw of
         Some r \<Rightarrow> decode_into C result (Some r)
       | None \<Rightarrow> tx_then (getByDefaultPKIndex B C writable bucket i) (decode_into C result))"

definition getFromIndexedQuery ::
    "'d db_ops \<Rightarrow> codec \<Rightarrow> bool \<Rightarrow> string list \<Rightarrow> string \<Rightarrow> key_query \<Rightarrow> scrape_item \<Rightarrow> (scrape_item, 'i, 'd) step" where
  "getFromIndexedQuery B C writable root bucketName q result m d =
     (case getIndexValueFromQuery q of
        None \<Rightarrow> (TxPanic, m)
      | Some v \<Rightarrow>
          (case getBucket B root [bucketName] d of
             None \<Rightarrow> (TxError NotFound, m)
           | Some bucket \<Rightarrow>
               tx_then (getIndexFromQuery B C writable (Some bucket) q)
                 (\<lambda>ix. getRecordByIndexOrDefault B C writable bucket ix v result) m d))"

definition indexQuery ::
    "'d db_ops \<Rightarrow> codec \<Rightarrow> string \<Rightarrow> key_query \<Rightarrow> 'd storage \<Rightarrow> unit op_result \<times> 'd storage" where
  "indexQuery B C bucketName q s =
     (case dbUpdate (\<lambda>m d. tx_then (getIndexFromQuery B C True (getBucket B (rootBucket s) [bucketName] d) q)
                             (\<lambda>_. tx_return ()) m d) () s of
        (r, _, s') \<Rightarrow> (r, s'))"

definition getPKValueFromRecord :: "scrape_item \<Rightarrow> string option" where
  "getPKValueFromRecord i = (if uuidValue i = [] then None else Some (uuidValue i))"

subsection \<open>The latest results\<close>

definition latestResultsBucketName :: string where "latestResultsBucketName = ''results.latest''"
definition latestResultsIndexKey :: string where "latestResultsIndexKey = ''__index''"
definition latestResultsBucketSize :: int where "latestResultsBucketSize = 20"

definition next_latest :: "string option \<Rightarrow> string" where
  "next_latest latestKey =
     (case latestKey of
        None \<Rightarrow> ''0''
      | Some k \<Rightarrow>
          let indexInt = fst (atoi k)
          in itoa ((if indexInt > latestResultsBucketSize then - 1 else indexInt) + 1))"

definition pushToLatestItems :: "'d db_ops \<Rightarrow> string option \<Rightarrow> 'd \<Rightarrow> (unit, 'd) tx_result" where
  "pushToLatestItems B item d =
     (case item of
        None \<Rightarrow> TxError Required
      | Some v \<Rightarrow>
          tx_bind (assertBucket B True [latestResultsBucketName] d) (\<lambda>bucket d1.
            let nextKey = next_latest (bucket_get B bucket latestResultsIndexKey d1)
            in tx_bind (of_bolt (db_put B bucket nextKey v d1)) (\<lambda>_ d2.
                 of_bolt (db_put B bucket latestResultsIndexKey nextKey d2))))"

fun latest_loop :: "nat \<Rightarrow> codec \<Rightarrow> int \<Rightarrow> entry option \<times> cursor \<Rightarrow> scrape_item list \<Rightarrow> scrape_item list" where
  "latest_loop 0 C cnt r output = output"
| "latest_loop (Suc n) C cnt (e, c) output =
     (case e of
        Some (_, Some value) \<Rightarrow>
          (case unmarshalAt C (Some value) empty_scrape_item of
             None \<Rightarrow> output
           | Some newItem \<Rightarrow>
               let output' = output @ [newItem]
               in if int (length output') = cnt then output'
                  else latest_loop n C cnt
                         (filtered_step (Suc (length (cEntries c))) (\<lambda>x. fst x = latestResultsIndexKey) (bc_next c))
                         output')
      | _ \<Rightarrow> output)"

definition getLatest :: "'d db_ops \<Rightarrow> codec \<Rightarrow> int \<Rightarrow> 'd storage \<Rightarrow> scrape_item list" where
  "getLatest B C cnt s =
     (case getRootBucket B [latestResultsBucketName] (stDb s) of
        None \<Rightarrow> []
      | Some bucket \<Rightarrow>
          let es = bucket_items B bucket (stDb s)
          in latest_loop (Suc (length es)) C cnt
               (filtered_step (Suc (length es)) (\<lambda>x. fst x = latestResultsIndexKey) (bc_first (cursor_of es))) [])"

subsection \<open>Operations on records\<close>

definition storage_find ::
    "'d db_ops \<Rightarrow> codec \<Rightarrow> key_query option \<Rightarrow> scrape_item \<Rightarrow> 'd storage \<Rightarrow> scrape_item op_result \<times> 'd storage" where
  "storage_find B C query result s =
     (case query of
        None \<Rightarrow> (OpError Required, s)
      | Some q \<Rightarrow>
          let look = (\<lambda>s. case dbView (getFromIndexedQuery B C False (rootBucket s) namespaceResultsBucketName q result) () s of
                            (r, _, s') \<Rightarrow> (r, s'))
          in case look s of
               (OpError IndexMissing, s1) \<Rightarrow>
                 (case indexQuery B C namespaceResultsBucketName q s1 of
                    (OpOk _, s2) \<Rightarrow> look s2
                  | (OpError e, s2) \<Rightarrow> (OpError e, s2)
                  | (OpPanic, s2) \<Rightarrow> (OpPanic, s2))
             | r \<Rightarrow> r)"

definition storage_update ::
    "'d db_ops \<Rightarrow> codec \<Rightarrow> key_query option \<Rightarrow> scrape_item \<Rightarrow> 'd storage \<Rightarrow> unit op_result \<times> 'd storage" where
  "storage_update B C query item s =
     (case query of
        None \<Rightarrow> (OpError Required, s)
      | Some q \<Rightarrow>
          (case dbUpdate
             (tx_then (tx_lift (assertNamespaceBucket B True (rootBucket s) namespaceResultsBucketName)) (\<lambda>bucket.
              tx_then (getIndexFromQuery B C True (Some bucket) q) (\<lambda>ix m d.
                case getIndexValueFromQuery q of
                  None \<Rightarrow> (TxPanic, m)
                | Some v \<Rightarrow>
                    (case (idx_all B ix v singleItemCursor d, marshal C item) of
                       (_, None) \<Rightarrow> (TxError MarshalError, m)
                     | (Some (i # _), Some bytes) \<Rightarrow> (of_bolt (db_put B bucket i bytes d), m)
                     | _ \<Rightarrow> (TxPanic, m))))) () s of
             (r, _, s') \<Rightarrow> (r, s')))"

text \<open>\<open>toBytes\<close> of a 32-bit ID: its four bytes, the highest first.\<close>

definition id_bytes :: "uint32 \<Rightarrow> string" where
  "id_bytes n = map (\<lambda>s. char_of (unat (drop_bit s n))) [24, 16, 8, 0]"

text \<open>\<open>put_item\<close> writes the item back to the memory of the caller.\<close>

definition createWithAutoIncrementingID ::
    "'d db_ops \<Rightarrow> codec \<Rightarrow> path \<Rightarrow> (scrape_item \<Rightarrow> 'i \<Rightarrow> 'i) \<Rightarrow> scrape_item \<Rightarrow> any_index \<Rightarrow> string
       \<Rightarrow> (string \<times> string, 'i, 'd) step" where
  "createWithAutoIncrementingID B C bucket put_item item primaryIndex indexValue m d =
     (let (nextID, d1) = db_next_seq B bucket d;
          item' = setID (word_of_nat nextID) item;
          m' = (fst m, put_item item' (snd m));
          idBytes = id_bytes (itemID item')
      in (tx_bind (idx_add B primaryIndex (Some indexValue) (Some idBytes) d1) (\<lambda>_ d2.
            case marshal C item' of
              None \<Rightarrow> TxError MarshalError
            | Some bytes \<Rightarrow>
                tx_bind (of_bolt (db_put B bucket idBytes bytes d2)) (\<lambda>_ d3. TxOk (idBytes, bytes) d3)), m'))"

definition unique_index_of_keys ::
    "'d db_ops \<Rightarrow> codec \<Rightarrow> path \<Rightarrow> key option \<Rightarrow> string \<Rightarrow> (any_index option, 'i, 'd) step" where
  "unique_index_of_keys B C bucket keys v =
     (case keys of
        None \<Rightarrow> tx_return None
      | Some k \<Rightarrow>
          if key_isEmpty k then tx_return None
          else tx_then (getUniqueIndexFromKeys B C True (Some bucket) k) (\<lambda>ix m d.
                 case idx_get B ix v d of
                   None \<Rightarrow> (TxPanic, m)
                 | Some None \<Rightarrow> (TxOk (Some ix) d, m)
                 | Some (Some _) \<Rightarrow> (TxError AlreadyExists, m)))"

definition addUniqueIndexRecord ::
    "'d db_ops \<Rightarrow> codec \<Rightarrow> path \<Rightarrow> key option \<Rightarrow> string \<Rightarrow> string \<Rightarrow> (unit, 'i, 'd) step" where
  "addUniqueIndexRecord B C bucket keys v idBytes =
     tx_then (unique_index_of_keys B C bucket keys v) (\<lambda>ix.
       case ix of None \<Rightarrow> tx_return () | Some x \<Rightarrow> tx_lift (idx_add B x (Some v) (Some idBytes)))"

definition createWithID ::
    "'d db_ops \<Rightarrow> codec \<Rightarrow> key option \<Rightarrow> scrape_item \<Rightarrow> key option \<Rightarrow> 'd storage
       \<Rightarrow> unit op_result \<times> scrape_item \<times> 'd storage" where
  "createWithID B C keyParts item uniqueKeys s =
     (case (getIndexValueFromItem keyParts (reflect_scrape item), getIndexValueFromItem uniqueKeys (reflect_scrape item)) of
        (Some indexValue, Some u) \<Rightarrow>
          let uniqueValue = (if u = [] then [CHR 0x00, CHR '';'', CHR 0x00] else u)
          in dbUpdate
            (tx_then (tx_lift (assertNamespaceBucket B True (rootBucket s) namespaceResultsBucketName)) (\<lambda>bucket m d.
               case keyParts of
                 None \<Rightarrow> (TxPanic, m)
               | Some k \<Rightarrow>
                   tx_then (getUniqueIndexFromKeys B C True (Some bucket) k) (\<lambda>primaryIndex.
                   tx_then (createWithAutoIncrementingID B C bucket (\<lambda>i _. i) item primaryIndex indexValue) (\<lambda>(idBytes, bytes).
                   tx_then (addUniqueIndexRecord B C bucket uniqueKeys uniqueValue idBytes) (\<lambda>_.
                     tx_lift (pushToLatestItems B (Some bytes))))) m d))
            item s
      | _ \<Rightarrow> (OpPanic, item, s))"

text \<open>\<open>uuid\<close> is the random UUID drawn for the record.\<close>

definition storage_create ::
    "'d db_ops \<Rightarrow> codec \<Rightarrow> string \<Rightarrow> scrape_item \<Rightarrow> key option \<Rightarrow> 'd storage
       \<Rightarrow> unit op_result \<times> scrape_item \<times> 'd storage" where
  "storage_create B C uuid item additionalPK s =
     (case createWithID B C (Some getDefaultPK) (setUUID uuid item) None s of
        (OpOk _, item', s1) \<Rightarrow>
          (case additionalPK of
             None \<Rightarrow> (OpOk (), item', s1)
           | Some k \<Rightarrow>
               if key_isEmpty k then (OpOk (), item', s1)
               else (case getIndexValueFromItem (Some k) (reflect_scrape item') of
                       None \<Rightarrow> (OpPanic, item', s1)
                     | Some v \<Rightarrow>
                         dbUpdate
                           (tx_then (tx_lift (assertNamespaceBucket B True (rootBucket s1) namespaceResultsBucketName)) (\<lambda>bucket.
                            tx_then (getUniqueIndexFromKeys B C True (Some bucket) k) (\<lambda>ix.
                              tx_lift (idx_add B ix (Some v) (Some (uuidValue item'))))))
                           item' s1))
      | r \<Rightarrow> r)"

text \<open>The items are numbered; item \<open>n\<close> is written back to place \<open>n\<close>.\<close>

fun addAll_loop ::
    "'d db_ops \<Rightarrow> codec \<Rightarrow> path \<Rightarrow> any_index \<Rightarrow> (nat \<Rightarrow> string) \<Rightarrow> nat \<Rightarrow> scrape_item list
       \<Rightarrow> (unit, scrape_item list, 'd) step" where
  "addAll_loop B C bucket ix uuids n [] m d = (TxOk () d, m)"
| "addAll_loop B C bucket ix uuids n (item # items) m d =
     (let item' = setUUID (uuids n) item;
          m1 = (fst m, (snd m)[n := item'])
      in case getIndexValueFromItem (Some getDefaultPK) (reflect_scrape item') of
           None \<Rightarrow> (TxPanic, m1)
         | Some v \<Rightarrow>
             (case createWithAutoIncrementingID B C bucket (\<lambda>i xs. xs[n := i]) item' ix v m1 d of
                (TxOk _ d', m') \<Rightarrow> addAll_loop B C bucket ix uuids (Suc n) items m' d'
              | (TxError e, m') \<Rightarrow> (TxError e, m')
              | (TxPanic, m') \<Rightarrow> (TxPanic, m')))"

definition storage_addAll ::
    "'d db_ops \<Rightarrow> codec \<Rightarrow> (nat \<Rightarrow> string) \<Rightarrow> scrape_item list \<Rightarrow> 'd storage
       \<Rightarrow> unit op_result \<times> scrape_item list \<times> 'd storage" where
  "storage_addAll B C uuids items s =
     dbUpdate
       (tx_then (tx_lift (assertNamespaceBucket B True (rootBucket s) namespaceResultsBucketName)) (\<lambda>bucket.
        tx_then (getUniqueIndexFromKeys B C True (Some bucket) getDefaultPK) (\<lambda>ix.
          addAll_loop B C bucket ix uuids 0 items)))
       items s"

text \<open>
  The records the callback of \<open>ForEach\<close> is called with, in order. The loop ends at the first entry
  without a value, a nested bucket; a missing bucket panics.
\<close>

fun forEach_loop :: "nat \<Rightarrow> codec \<Rightarrow> entry option \<times> cursor \<Rightarrow> scrape_item list" where
  "forEach_loop 0 C r = []"
| "forEach_loop (Suc n) C (e, c) =
     (case e of
        Some (_, Some val) \<Rightarrow>
          (case unmarshalAt C (Some val) empty_scrape_item of
             None \<Rightarrow> [] | Some r \<Rightarrow> r # forEach_loop n C (ic_next (ReversibleCursor False) c))
      | _ \<Rightarrow> [])"

definition storage_forEach :: "'d db_ops \<Rightarrow> codec \<Rightarrow> 'd storage \<Rightarrow> scrape_item list option" where
  "storage_forEach B C s =
     map_option (\<lambda>bucket.
         let es = bucket_items B bucket (stDb s)
         in forEach_loop (Suc (length es)) C (ic_first (ReversibleCursor False) (cursor_of es)))
       (getBucket B (rootBucket s) [namespaceResultsBucketName] (stDb s))"

fun unmarshal_all :: "codec \<Rightarrow> entries \<Rightarrow> bool \<times> scrape_item list" where
  "unmarshal_all C [] = (True, [])"
| "unmarshal_all C ((k, v) # es) =
     (case unmarshalAt C v empty_scrape_item of
        None \<Rightarrow> (False, [])
      | Some i \<Rightarrow> (let (ok, items) = unmarshal_all C es in (ok, i # items)))"

text \<open>Whether the error is nil, and the items; \<open>None\<close> is the panic on the missing bucket of categories.\<close>

definition getSearchResults ::
    "'d db_ops \<Rightarrow> codec \<Rightarrow> int \<Rightarrow> 'd storage \<Rightarrow> (bool \<times> scrape_item list) option" where
  "getSearchResults B C categoryID s =
     (let catName' = (case map_of allCategories categoryID of None \<Rightarrow> ''uncategorized'' | Some c \<Rightarrow> catName c);
          p = [categoriesBucketName, catName']
      in if \<not> bucket_exists B [categoriesBucketName] (stDb s) then None
         else if \<not> bucket_exists B p (stDb s) then Some (True, [])
         else Some (unmarshal_all C (bucket_items B p (stDb s))))"

subsection \<open>Figures\<close>

definition getNamespaces :: "'d db_ops \<Rightarrow> 'd \<Rightarrow> string list" where
  "getNamespaces B d =
     filter (\<lambda>n. n \<noteq> internalBucketName \<and> n \<noteq> categoriesBucketName \<and> n \<noteq> latestResultsBucketName)
       (map fst (bucket_items B [] d))"

text \<open>\<open>keyN\<close> is the number of keys the package counts for a bucket.\<close>

definition getNamespaceSize :: "'d db_ops \<Rightarrow> (path \<Rightarrow> 'd \<Rightarrow> int) \<Rightarrow> string \<Rightarrow> 'd \<Rightarrow> int" where
  "getNamespaceSize B keyN name d =
     (case getRootBucket B [name, namespaceResultsBucketName] d of None \<Rightarrow> 0 | Some p \<Rightarrow> keyN p d)"

definition storage_size :: "'d db_ops \<Rightarrow> (path \<Rightarrow> 'd \<Rightarrow> int) \<Rightarrow> 'd storage \<Rightarrow> int option" where
  "storage_size B keyN s =
     (case rootBucket s of [] \<Rightarrow> None | ns # _ \<Rightarrow> Some (getNamespaceSize B keyN ns (stDb s)))"

record namespace_stats =
  nsName :: string
  recordCount :: int

definition getStats :: "'d db_ops \<Rightarrow> (path \<Rightarrow> 'd \<Rightarrow> int) \<Rightarrow> 'd \<Rightarrow> namespace_stats list" where
  "getStats B keyN d =
     map (\<lambda>ns. \<lparr>nsName = ns, recordCount = getNamespaceSize B keyN ns d\<rparr>) (getNamespaces B d)"

definition getNamespace :: "string \<Rightarrow> namespace_stats list \<Rightarrow> namespace_stats option" where
  "getNamespace name st = List.find (\<lambda>n. name = nsName n) st"

end
