(* ===== verification/StorageFacts.thy ===== *)
theory StorageFacts
  imports BoltStorage
begin

text \<open>
  What the operations of the store change, and that a record created under a key of one field is the
  one \<open>Find\<close> gives for it. \<open>frame B S d d'\<close> says that only the entries of \<open>S\<close> may differ between two
  databases and that no bucket is lost; the frames of the steps compose.
\<close>

definition frame :: "'d db_ops \<Rightarrow> (path \<times> string) set \<Rightarrow> 'd \<Rightarrow> 'd \<Rightarrow> bool" where
  "frame B S d d' \<longleftrightarrow>
     (\<forall>q k. (q, k) \<notin> S \<longrightarrow> bucket_get B q k d' = bucket_get B q k d)
     \<and> (\<forall>q. bucket_exists B q d \<longrightarrow> bucket_exists B q d')"

lemma frame_refl [simp]: "frame B S d d"
  by (simp add: frame_def)

lemma frame_trans: "frame B S d d' \<Longrightarrow> frame B T d' d'' \<Longrightarrow> frame B (S \<union> T) d d''"
  by (simp add: frame_def)

lemma frame_mono: "frame B S d d' \<Longrightarrow> S \<subseteq> T \<Longrightarrow> frame B T d d'"
  by (auto simp: frame_def)

lemma frame_get: "frame B S d d' \<Longrightarrow> (q, k) \<notin> S \<Longrightarrow> bucket_get B q k d' = bucket_get B q k d"
  by (simp add: frame_def)

lemma frame_exists: "frame B S d d' \<Longrightarrow> bucket_exists B q d \<Longrightarrow> bucket_exists B q d'"
  by (simp add: frame_def)

lemma put_frame:
  assumes "bolt_laws B" "db_put B p k v d = (ok, d')"
  shows "frame B {(p, k)} d d'"
proof (cases ok)
  case True
  then have p: "db_put B p k v d = (True, d')" using assms(2) by simp
  show ?thesis
    unfolding frame_def
    using put_get(2) [OF assms(1) p] put_get(3) [OF assms(1) p] put_get(4) [OF assms(1) p]
    by (metis Pair_inject insert_iff other_bucket_get singletonD)
next
  case False
  then have "db_put B p k v d = (False, d')" using assms(2) by simp
  then have "d' = d" by (rule put_fails [OF assms(1)])
  then show ?thesis by simp
qed

lemma put_ok_get: "bolt_laws B \<Longrightarrow> db_put B p k v d = (True, d') \<Longrightarrow> bucket_get B p k d' = Some v"
  by (rule put_get(1))

lemma create_frame:
  assumes "bolt_laws B" "db_create B p n d = (True, d')"
  shows "frame B {} d d'" "bucket_exists B (p @ [n]) d'" "bucket_exists B p d'"
proof -
  obtain es where es: "db_items B p d = Some es" "db_items B (p @ [n]) d = None" "map_of es n = None"
      "db_items B p d' = Some (put_entry n None es)" "db_items B (p @ [n]) d' = Some []"
    and o: "same_items B {p, p @ [n]} d d'"
    using create_law [OF assms(1), where p = p and n = n and d = d] assms(2) by auto
  have s: "key_sorted es" using assms(1) es(1) by (auto simp: bolt_laws_def law_sorted_def)
  have "bucket_get B q k d' = bucket_get B q k d" for q k
  proof -
    consider "q = p" | "q = p @ [n]" | "q \<notin> {p, p @ [n]}" by blast
    then show ?thesis
    proof cases
      case 1
      then show ?thesis using es by (simp add: bucket_get_def bucket_items_def map_of_put_entry [OF s])
    next
      case 2
      then show ?thesis using es by (simp add: bucket_get_def bucket_items_def)
    next
      case 3
      then show ?thesis by (rule other_bucket_get [OF o])
    qed
  qed
  moreover have "bucket_exists B q d \<longrightarrow> bucket_exists B q d'" for q
    using o es by (cases "q \<in> {p, p @ [n]}") (auto simp: bucket_exists_def same_items_def)
  ultimately show "frame B {} d d'" by (simp add: frame_def)
  show "bucket_exists B (p @ [n]) d'" "bucket_exists B p d'" using es by (simp_all add: bucket_exists_def)
qed

lemma create_if_missing_frame:
  assumes "bolt_laws B" "create_if_missing B p n d = (True, d')"
  shows "frame B {} d d' \<and> bucket_exists B (p @ [n]) d'"
  using assms create_frame by (auto simp: create_if_missing_def split: if_splits)

lemma assert_loop_frame:
  assumes "bolt_laws B"
  shows "assert_loop B p ns d = TxOk r d' \<Longrightarrow>
    r = p @ ns \<and> frame B {} d d' \<and> (\<forall>i. 0 < i \<and> i \<le> length ns \<longrightarrow> bucket_exists B (p @ take i ns) d')"
proof (induction ns arbitrary: p d)
  case Nil
  then show ?case by simp
next
  case (Cons n ns)
  obtain d1 where c: "create_if_missing B p n d = (True, d1)" and l: "assert_loop B (p @ [n]) ns d1 = TxOk r d'"
    using Cons.prems by (auto split: prod.splits bool.splits)
  note f = create_if_missing_frame [OF assms c]
  have IH: "r = (p @ [n]) @ ns \<and> frame B {} d1 d' \<and>
      (\<forall>i. 0 < i \<and> i \<le> length ns \<longrightarrow> bucket_exists B ((p @ [n]) @ take i ns) d')"
    using Cons.IH [OF l] .
  have "bucket_exists B (p @ take i (n # ns)) d'" if "0 < i" "i \<le> length (n # ns)" for i
  proof (cases i)
    case (Suc j)
    then show ?thesis
      using IH f that frame_exists [of B "{}" d1 d' "p @ [n]"] by (cases "j = 0") auto
  qed (use that in simp)
  then show ?case using IH f frame_trans [of B "{}" d d1 "{}" d'] by simp
qed

lemma assert_namespace_frame:
  assumes "bolt_laws B" "assertNamespaceBucket B w root name d = TxOk r d'"
  shows "r = root @ [name]" "frame B {} d d'"
    "\<forall>i. 0 < i \<and> i \<le> Suc (length root) \<longrightarrow> bucket_exists B (take i (root @ [name])) d'"
  using assms assert_loop_frame [OF assms(1), of "[]" "root @ [name]" d r d']
  by (auto simp: assertNamespaceBucket_def assertBucket_def split: if_splits)

text \<open>Looking a bucket up gives it once every name on the way exists.\<close>

lemma getRootBucket_exists:
  assumes "names \<noteq> []" "\<And>i. 0 < i \<Longrightarrow> i \<le> length names \<Longrightarrow> bucket_exists B (take i names) d"
  shows "getRootBucket B names d = Some names"
  using assms
proof (induction names rule: rev_induct)
  case Nil
  then show ?case by simp
next
  case (snoc n ns)
  have e: "bucket_exists B (ns @ [n]) d" using snoc.prems(2) [of "Suc (length ns)"] by simp
  show ?case
  proof (cases "ns = []")
    case True
    then show ?thesis using e by (simp add: getRootBucket_def bucket_step_def)
  next
    case False
    have "getRootBucket B ns d = Some ns"
    proof (rule snoc.IH [OF False])
      fix i assume "0 < i" "i \<le> length ns"
      then show "bucket_exists B (take i ns) d" using snoc.prems(2) [of i] by simp
    qed
    then show ?thesis using e by (simp add: getRootBucket_def bucket_step_def)
  qed
qed

subsection \<open>Steps\<close>

lemma tx_then_ok:
  "tx_then s f m d = (TxOk b d', m') \<longleftrightarrow>
     (\<exists>a d1 m1. s m d = (TxOk a d1, m1) \<and> f a m1 d1 = (TxOk b d', m'))"
  by (auto simp: tx_then_def split: tx_result.splits prod.splits)

lemma tx_lift_ok: "tx_lift f m d = (TxOk a d', m') \<longleftrightarrow> f d = TxOk a d' \<and> m' = m"
  by (auto simp: tx_lift_def)

lemma tx_bind_ok: "tx_bind r f = TxOk b d' \<longleftrightarrow> (\<exists>a d1. r = TxOk a d1 \<and> f a d1 = TxOk b d')"
  by (auto simp: tx_bind_def split: tx_result.splits)

lemma of_bolt_ok: "of_bolt r = TxOk u d' \<longleftrightarrow> r = (True, d')"
  by (cases r) (auto simp: of_bolt_def)

lemma update_ok:
  "dbUpdate f i s = (OpOk a, i', s') \<longleftrightarrow>
     (\<exists>d m. f (stMeta s, i) (stDb s) = (TxOk a d, (m, i')) \<and> s' = s\<lparr>stDb := d, stMeta := m\<rparr>)"
  by (auto simp: dbUpdate_def split: tx_result.splits prod.splits)

lemma newUniqueIndex_ok:
  assumes "bolt_laws B" "newUniqueIndex B w (Some p) n d = TxOk ix d'"
  shows "ix = p @ [n]" "frame B {} d d'" "bucket_exists B ix d'"
  using assms create_frame [OF assms(1), of p n d d']
  by (auto simp: newUniqueIndex_def tx_bind_ok of_bolt_ok split: if_splits)

lemma saveMetadata_frame: "bolt_laws B \<Longrightarrow> frame B {(p, metaBucketName)} d (saveMetadata B C w p m d)"
  using put_frame [where B = B and p = p and k = metaBucketName and d = d]
  by (cases "db_put B p metaBucketName (metadataBytes C m) d") (simp add: saveMetadata_def)

lemma getIndex_ok:
  assumes "bolt_laws B" "getIndex B C w (Some p) KindUnique name m d = (TxOk ix d', m')"
  shows "ix = UniqueIx (p @ [indexPrefix @ name])" "frame B {(p, metaBucketName)} d d'"
    "bucket_exists B (p @ [indexPrefix @ name]) d'" "snd m' = snd m"
proof -
  obtain meta i where mm: "m = (meta, i)" by (cases m)
  obtain b meta' where ad: "addIndex name (indexPrefix @ name) True meta = (b, meta')" by fastforce
  obtain ix1 d1 where o: "newUniqueIndex B w (Some p) (indexPrefix @ name) d = TxOk ix1 d1"
    and r: "ix = UniqueIx ix1"
    and s: "d' = d1 \<or> d' = saveMetadata B C w p (fst m') d1" and m: "snd m' = snd m"
    using assms(2) unfolding mm
    by (cases b) (auto simp: getIndex_def tx_then_ok tx_lift_ok open_index_def tx_bind_ok ad)
  note n = newUniqueIndex_ok [OF assms(1) o]
  have f: "frame B {(p, metaBucketName)} d1 d'" using s saveMetadata_frame [OF assms(1)] by auto
  show "ix = UniqueIx (p @ [indexPrefix @ name])" using r n(1) by simp
  show "frame B {(p, metaBucketName)} d d'" using frame_trans [OF n(2) f] by simp
  show "bucket_exists B (p @ [indexPrefix @ name]) d'" using n(1,3) frame_exists [OF f] by simp
  show "snd m' = snd m" by (rule m)
qed

lemma next_seq_frame:
  assumes "bolt_laws B" "bucket_exists B p d" "db_next_seq B p d = (n, d')"
  shows "frame B {} d d'"
proof -
  have "db_items B p d' = db_items B p d" "same_items B {p} d d'"
    using next_seq_law [OF assms(1), of p d] assms(2,3) by (auto simp: bucket_exists_def)
  then have "db_items B q d' = db_items B q d" for q by (cases "q = p") (auto simp: same_items_def)
  then show ?thesis by (simp add: frame_def bucket_get_def bucket_items_def bucket_exists_def)
qed

lemma ui_add_frame:
  assumes "bolt_laws B" "ui_add B ix (Some v) (Some n) d = TxOk u d'"
  shows "frame B {(ix, v)} d d'" "bucket_get B ix v d' = Some n" "bucket_get B ix v d \<in> {None, Some n}"
proof -
  have c: "(bucket_get B ix v d = Some n \<and> d' = d) \<or> db_put B ix v n d = (True, d') \<and> bucket_get B ix v d = None"
    using assms(2) by (auto simp: ui_add_cases of_bolt_ok split: option.splits if_splits)
  then show "frame B {(ix, v)} d d'" using put_frame [OF assms(1)] by auto
  show "bucket_get B ix v d' = Some n" using c put_ok_get [OF assms(1)] by auto
  show "bucket_get B ix v d \<in> {None, Some n}" using c by auto
qed

lemma push_frame:
  assumes "bolt_laws B" "pushToLatestItems B (Some v) d = TxOk u d'"
  shows "frame B ({[latestResultsBucketName]} \<times> UNIV) d d'"
proof -
  let ?L = "[latestResultsBucketName]"
  obtain b d1 d2 k where a: "assertBucket B True ?L d = TxOk b d1"
    and p: "db_put B b k v d1 = (True, d2)" "db_put B b latestResultsIndexKey k d2 = (True, d')"
    using assms(2) by (auto simp: pushToLatestItems_def tx_bind_ok of_bolt_ok Let_def)
  have al: "assert_loop B [] ?L d = TxOk b d1" using a by (simp add: assertBucket_def)
  have b: "b = ?L" and f: "frame B {} d d1" using assert_loop_frame [OF assms(1) al] by simp_all
  have "frame B ({(?L, k)} \<union> {(?L, latestResultsIndexKey)}) d1 d'"
    using frame_trans [OF put_frame [OF assms(1) p(1)] put_frame [OF assms(1) p(2)]] b by simp
  then show ?thesis using frame_trans [OF f] by (blast intro: frame_mono)
qed

lemma id_bytes_length: "length (id_bytes n) = 4"
  by (simp add: id_bytes_def)

lemma id_bytes_neq_meta: "id_bytes n \<noteq> metaBucketName"
proof
  assume "id_bytes n = metaBucketName"
  then have "length (id_bytes n) = length metaBucketName" by simp
  then show False by (simp add: id_bytes_length metaBucketName_def)
qed

subsection \<open>A record and its index\<close>

text \<open>What a successful \<open>createWithAutoIncrementingID\<close> leaves behind.\<close>

lemma create_auto_ok:
  assumes L: "bolt_laws B"
    and e: "bucket_exists B p d"
    and c: "createWithAutoIncrementingID B C p put item (UniqueIx ix) v m d = (TxOk (b, bytes) d', m')"
    and "ix \<noteq> p"
  shows "\<exists>n. b = id_bytes n \<and> marshal C (setID n item) = Some bytes \<and> snd m' = put (setID n item) (snd m) \<and> fst m' = fst m"
    "bucket_get B ix v d' = Some b" "bucket_get B p b d' = Some bytes"
    "frame B {(ix, v), (p, b)} d d'"
proof -
  obtain nx d1 where n: "db_next_seq B p d = (nx, d1)" by fastforce
  define i where "i = setID (word_of_nat nx) item"
  let ?rest = "\<lambda>d2. case marshal C i of
      None \<Rightarrow> TxError MarshalError
    | Some bytes \<Rightarrow> tx_bind (of_bolt (db_put B (p) (id_bytes (itemID i)) bytes d2)) (\<lambda>_ d3. TxOk (id_bytes (itemID i), bytes) d3)"
  have t: "tx_bind (ui_add B ix (Some v) (Some (id_bytes (itemID i))) d1) (\<lambda>_ d2. ?rest d2) = TxOk (b, bytes) d'"
    and m: "m' = (fst m, put i (snd m))"
    using c unfolding createWithAutoIncrementingID_def i_def by (simp_all add: n Let_def)
  obtain d2 where a': "ui_add B ix (Some v) (Some (id_bytes (itemID i))) d1 = TxOk () d2"
    and r: "?rest d2 = TxOk (b, bytes) d'"
    using t unfolding tx_bind_ok by (metis (lifting) old.unit.exhaust)
  have b: "b = id_bytes (itemID i)" and y: "marshal C i = Some bytes" and p: "db_put B p b bytes d2 = (True, d')"
    using r by (cases "marshal C i"; simp add: tx_bind_ok of_bolt_ok; blast?)+
  note a = a' [folded b]
  have f0: "frame B {} d d1" by (rule next_seq_frame [OF L e n])
  note f1 = ui_add_frame [OF L a] and f2 = put_frame [OF L p]
  show "\<exists>n. b = id_bytes n \<and> marshal C (setID n item) = Some bytes \<and> snd m' = put (setID n item) (snd m) \<and> fst m' = fst m"
    using b y m by (auto simp: i_def setID_def)
  show "bucket_get B ix v d' = Some b" using frame_get [OF f2, of ix v] f1(2) \<open>ix \<noteq> p\<close> by simp
  show "bucket_get B p b d' = Some bytes" by (rule put_ok_get [OF L p])
  have "frame B ({} \<union> ({(ix, v)} \<union> {(p, b)})) d d'"
    by (rule frame_trans [OF f0 frame_trans [OF f1(1) f2]])
  then show "frame B {(ix, v), (p, b)} d d'" by (rule frame_mono) auto
qed

text \<open>Adding to the unique index of the other keys leaves a bound value of the index bound.\<close>

lemma addUniqueIndexRecord_ok:
  assumes L: "bolt_laws B"
    and a: "addUniqueIndexRecord B C p uk u b m d = (TxOk r d', m')"
    and g: "bucket_get B ix v d = Some b'"
  shows "bucket_get B ix v d' = Some b' \<or> ix = p \<and> v = metaBucketName"
    "ix = p \<Longrightarrow> v \<noteq> metaBucketName \<Longrightarrow> bucket_get B ix v d' = Some b'"
    "frame B ({(p, metaBucketName)} \<union> {q. fst q \<noteq> p \<and> (\<exists>n. fst q = p @ [indexPrefix @ n])}) d d'"
    "snd m' = snd m"
proof -
  consider (none) "d' = d" "snd m' = snd m"
    | (some) k x d1 m1 where "getUniqueIndexFromKeys B C True (Some p) k m d = (TxOk x d1, m1)"
        "idx_get B x u d1 = Some None" "idx_add B x (Some u) (Some b) d1 = TxOk r d'" "m' = m1"
  proof (cases "case uk of None \<Rightarrow> True | Some k \<Rightarrow> key_isEmpty k")
    case True
    then have "unique_index_of_keys B C p uk u m d = (TxOk None d, m)"
      by (auto simp: unique_index_of_keys_def tx_return_def split: option.splits)
    then show ?thesis using a none by (simp add: addUniqueIndexRecord_def tx_then_ok tx_return_def)
  next
    case False
    then obtain k where k: "uk = Some k" "\<not> key_isEmpty k" by (auto split: option.splits)
    obtain x d1 m1 y where s: "unique_index_of_keys B C p uk u m d = (TxOk y d1, m1)"
      "(case y of None \<Rightarrow> tx_return () | Some x \<Rightarrow> tx_lift (idx_add B x (Some u) (Some b))) m1 d1 = (TxOk r d', m')"
      using a by (auto simp: addUniqueIndexRecord_def tx_then_ok)
    obtain x d0 m0 where g: "getUniqueIndexFromKeys B C True (Some p) k m d = (TxOk x d0, m0)"
      and h: "(case idx_get B x u d0 of None \<Rightarrow> (TxPanic, m0) | Some None \<Rightarrow> (TxOk (Some x) d0, m0)
         | Some (Some _) \<Rightarrow> (TxError AlreadyExists, m0)) = (TxOk y d1, m1)"
      using s(1) k by (auto simp: unique_index_of_keys_def tx_then_ok)
    have "idx_get B x u d0 = Some None" "y = Some x" "d1 = d0" "m1 = m0"
      using h by (auto split: option.splits)
    then show ?thesis using s(2) some [OF g] by (simp add: tx_lift_ok)
  qed
  then have "frame B ({(p, metaBucketName)} \<union> {q. fst q \<noteq> p \<and> (\<exists>n. fst q = p @ [indexPrefix @ n])}) d d' \<and>
      snd m' = snd m \<and> ((ix, v) \<noteq> (p, metaBucketName) \<longrightarrow> bucket_get B ix v d' = Some b')"
  proof cases
    case none
    then show ?thesis using g by simp
  next
    case some
    note k = getIndex_ok [OF L some(1) [unfolded getUniqueIndexFromKeys_def]]
    let ?x = "p @ [indexPrefix @ join ''_'' (keyFields k)]"
    have u: "ui_add B ?x (Some u) (Some b) d1 = TxOk r d'" "bucket_get B ?x u d1 = None"
      using some(2,3) k(1) by (simp_all add: ui_get_def)
    note f = ui_add_frame [OF L u(1)]
    have "(ix, v) \<noteq> (?x, u) \<or> (ix, v) = (p, metaBucketName)"
    proof (rule ccontr)
      assume "\<not> ((ix, v) \<noteq> (?x, u) \<or> (ix, v) = (p, metaBucketName))"
      then have "bucket_get B ix v d1 = None" "(ix, v) \<noteq> (p, metaBucketName)" using u(2) by auto
      then show False using frame_get [OF k(2), of ix v] g by simp
    qed
    then have "(ix, v) \<noteq> (p, metaBucketName) \<Longrightarrow> bucket_get B ix v d' = Some b'"
      using frame_get [OF f(1), of ix v] frame_get [OF k(2), of ix v] g by auto
    moreover have "frame B ({(p, metaBucketName)} \<union> {(?x, u)}) d d'" by (rule frame_trans [OF k(2) f(1)])
    ultimately show ?thesis using k(4) some(4) by (auto intro: frame_mono)
  qed
  then show "bucket_get B ix v d' = Some b' \<or> ix = p \<and> v = metaBucketName"
    "ix = p \<Longrightarrow> v \<noteq> metaBucketName \<Longrightarrow> bucket_get B ix v d' = Some b'"
    "frame B ({(p, metaBucketName)} \<union> {q. fst q \<noteq> p \<and> (\<exists>n. fst q = p @ [indexPrefix @ n])}) d d'"
    "snd m' = snd m"
    by auto
qed

definition results_path :: "'d storage \<Rightarrow> path" where
  "results_path s = rootBucket s @ [namespaceResultsBucketName]"

definition index_path :: "'d storage \<Rightarrow> string \<Rightarrow> path" where
  "index_path s name = results_path s @ [indexPrefix @ name]"

text \<open>\<open>stored_at\<close>: the index \<open>name\<close> leads the value \<open>v\<close> to the key \<open>b\<close> of a record and that to its bytes;
\<open>stored_under\<close>: and the key is an ID.\<close>

definition stored_at :: "'d db_ops \<Rightarrow> string \<Rightarrow> string \<Rightarrow> string \<Rightarrow> string \<Rightarrow> 'd storage \<Rightarrow> bool" where
  "stored_at B name v b bytes s \<longleftrightarrow>
     getBucket B (rootBucket s) [namespaceResultsBucketName] (stDb s) = Some (results_path s)
     \<and> bucket_exists B (index_path s name) (stDb s)
     \<and> bucket_get B (index_path s name) v (stDb s) = Some b
     \<and> bucket_get B (results_path s) b (stDb s) = Some bytes"

definition stored_under :: "'d db_ops \<Rightarrow> string \<Rightarrow> string \<Rightarrow> string \<Rightarrow> 'd storage \<Rightarrow> bool" where
  "stored_under B name v bytes s \<longleftrightarrow> (\<exists>b. length b = 4 \<and> stored_at B name v b bytes s)"

lemma createWithID_ok:
  assumes L: "bolt_laws B"
    and c: "createWithID B C (Some k) item uk s = (OpOk (), item', s')"
    and v: "getIndexValueFromItem (Some k) (reflect_scrape item) = Some v"
  shows "\<exists>bytes. item' = setID (itemID item') item \<and> marshal C item' = Some bytes
    \<and> rootBucket s' = rootBucket s \<and> stored_under B (join ''_'' (keyFields k)) v bytes s'
    \<and> (\<forall>q. length q \<noteq> 4 \<and> q \<noteq> metaBucketName \<longrightarrow>
          bucket_get B (results_path s) q (stDb s') = bucket_get B (results_path s) q (stDb s))
    \<and> (uk = None \<longrightarrow> (\<forall>n w. n \<noteq> join ''_'' (keyFields k) \<longrightarrow>
          bucket_get B (index_path s n) w (stDb s') = bucket_get B (index_path s n) w (stDb s)))"
proof -
  let ?p = "results_path s" and ?n = "join ''_'' (keyFields k)"
  let ?ix = "index_path s ?n"
  obtain u where u: "getIndexValueFromItem uk (reflect_scrape item) = Some u"
    using c v by (auto simp: createWithID_def split: option.splits)
  define uv where "uv = (if u = [] then [CHR 0x00, CHR '';'', CHR 0x00] else u)"
  obtain r d1 pi d2 m2 b bytes d3 m3 d4 m4 d5 m5 where
    s1: "assertNamespaceBucket B True (rootBucket s) namespaceResultsBucketName (stDb s) = TxOk r d1" and
    s2: "getIndex B C True (Some r) KindUnique ?n (stMeta s, item) d1 = (TxOk pi d2, m2)" and
    s3: "createWithAutoIncrementingID B C r (\<lambda>i _. i) item pi v m2 d2 = (TxOk (b, bytes) d3, m3)" and
    s4: "addUniqueIndexRecord B C r uk uv b m3 d3 = (TxOk () d4, m4)" and
    s5: "pushToLatestItems B (Some bytes) d4 = TxOk () d5" and
    s6: "m4 = (m5, item')" "s' = s\<lparr>stDb := d5, stMeta := m5\<rparr>"
    using c unfolding createWithID_def v u uv_def
    by (auto simp: Let_def update_ok tx_then_ok tx_lift_ok getUniqueIndexFromKeys_def split: prod.splits)
  note f1 = assert_namespace_frame [OF L s1]
  have r: "r = ?p" using f1(1) by (simp add: results_path_def)
  note f2 = getIndex_ok [OF L s2 [unfolded r]]
  have ix: "pi = UniqueIx ?ix" using f2(1) by (simp add: index_path_def)
  have pe: "bucket_exists B (take i ?p) d" if "0 < i" "i \<le> Suc (length (rootBucket s))"
      "frame B S d1 d" for i S d
    using f1(3) that frame_exists by (metis results_path_def)
  have e2: "bucket_exists B ?p d2"
    using pe [OF _ _ f2(2), of "Suc (length (rootBucket s))"] by (simp add: results_path_def)
  have ne: "?ix \<noteq> ?p" by (simp add: index_path_def)
  note f3 = create_auto_ok [OF L e2 s3 [unfolded r ix] ne]
  obtain n where n: "b = id_bytes n" "marshal C (setID n item) = Some bytes" "snd m3 = setID n item"
    using f3(1) by auto
  note f4 = addUniqueIndexRecord_ok [OF L s4 [unfolded r]]
  have i4: "bucket_get B ?ix v d4 = Some b" using f4(1) [OF f3(2)] ne by simp
  have p4: "bucket_get B ?p b d4 = Some bytes" using f4(2) [OF f3(3)] id_bytes_neq_meta n(1) by simp
  note f5 = push_frame [OF L s5]
  have l: "[latestResultsBucketName] \<noteq> ?ix" "[latestResultsBucketName] \<noteq> ?p"
    by (auto simp: index_path_def results_path_def latestResultsBucketName_def namespaceResultsBucketName_def)
  have i5: "bucket_get B ?ix v d5 = Some b" and p5: "bucket_get B ?p b d5 = Some bytes"
    using i4 p4 frame_get [OF f5] l by auto
  have "bucket_exists B ?ix d3" using f2(3) frame_exists [OF f3(4)] by (simp add: index_path_def)
  then have e5: "bucket_exists B ?ix d5"
    using frame_exists [OF f4(3) [OF f3(2)]] frame_exists [OF f5] by blast
  have fr: "frame B ({(?p, metaBucketName)} \<union> ({(?ix, v), (?p, b)} \<union>
      (({(?p, metaBucketName)} \<union> {q. fst q \<noteq> ?p \<and> (\<exists>n. fst q = ?p @ [indexPrefix @ n])}) \<union> {[latestResultsBucketName]} \<times> UNIV))) d1 d5"
    by (rule frame_trans [OF f2(2) frame_trans [OF f3(4) frame_trans [OF f4(3) [OF f3(2)] f5]]])
  have "getBucket B (rootBucket s) [namespaceResultsBucketName] d5 = Some ?p"
    unfolding getBucket_def results_path_def [symmetric]
    by (rule getRootBucket_exists) (use pe [OF _ _ fr] in \<open>auto simp: results_path_def\<close>)
  then have "stored_under B ?n v bytes s'"
    using e5 i5 p5 s6(2) n(1) by (auto simp: stored_under_def stored_at_def index_path_def results_path_def id_bytes_length)
  moreover have "item' = setID n item" using f4(4) [OF f3(2)] n(3) s6(1) by simp
  moreover have "bucket_get B ?p q d5 = bucket_get B ?p q (stDb s)" if q: "length q \<noteq> 4" "q \<noteq> metaBucketName" for q
  proof -
    have "q \<noteq> b" using q(1) n(1) id_bytes_length by auto
    then have "bucket_get B ?p q d5 = bucket_get B ?p q d1"
      by (intro frame_get [OF fr]) (use q(2) ne l in auto)
    then show ?thesis using frame_get [OF f1(2), of ?p q] by simp
  qed
  moreover have "bucket_get B (index_path s x) w d5 = bucket_get B (index_path s x) w (stDb s)"
    if "uk = None" "x \<noteq> ?n" for x w
  proof -
    have d4: "d4 = d3" using s4 that(1) by (simp add: addUniqueIndexRecord_def unique_index_of_keys_def tx_then_ok tx_return_def)
    then have g: "frame B ({(?p, metaBucketName)} \<union> ({(?ix, v), (?p, b)} \<union> {[latestResultsBucketName]} \<times> UNIV)) d1 d5"
      using frame_trans [OF f2(2) frame_trans [OF f3(4) f5 [unfolded d4]]] by simp
    have "index_path s x \<noteq> ?ix" "index_path s x \<noteq> ?p" "index_path s x \<noteq> [latestResultsBucketName]"
      using that(2) by (auto simp: index_path_def results_path_def)
    then have "bucket_get B (index_path s x) w d5 = bucket_get B (index_path s x) w d1"
      by (intro frame_get [OF g]) auto
    then show ?thesis using frame_get [OF f1(2), of "index_path s x" w] by simp
  qed
  ultimately show ?thesis using n(2) s6(2) by (intro exI [of _ bytes]) (simp add: setID_def)
qed

text \<open>What \<open>Find\<close> gives for a query of one field.\<close>

lemma view_getIndex:
  assumes "bucket_exists B (p @ [indexPrefix @ name]) d"
  shows "\<exists>m'. getIndex B C False (Some p) KindUnique name m d = (TxOk (UniqueIx (p @ [indexPrefix @ name])) d, m')"
  using assms
  by (cases m, cases "addIndex name (indexPrefix @ name) True (fst m)", rename_tac meta i b meta', case_tac b)
     (auto simp: getIndex_def tx_then_def tx_lift_def open_index_def newUniqueIndex_def tx_bind_def saveMetadata_def)

lemma find_stored:
  assumes "stored_at B f v b bytes s" "getIndexValueFromQuery [(f, w)] = Some v"
  shows "fst (storage_find B C (Some [(f, w)]) result s) =
    (case unmarshalAt C (Some bytes) result of None \<Rightarrow> OpError MarshalError | Some r \<Rightarrow> OpOk r)"
proof -
  let ?p = "results_path s"
  have g: "getBucket B (rootBucket s) [namespaceResultsBucketName] (stDb s) = Some ?p"
    and e: "bucket_exists B (?p @ [indexPrefix @ f]) (stDb s)"
    and i: "bucket_get B (?p @ [indexPrefix @ f]) v (stDb s) = Some b"
    and r: "bucket_get B ?p b (stDb s) = Some bytes"
    using assms(1) by (auto simp: stored_under_def stored_at_def index_path_def)
  obtain m' where x: "getIndex B C False (Some ?p) KindUnique f (stMeta s, ()) (stDb s) =
      (TxOk (UniqueIx (?p @ [indexPrefix @ f])) (stDb s), m')"
    using view_getIndex [OF e] by blast
  have "getFromIndexedQuery B C False (rootBucket s) namespaceResultsBucketName [(f, w)] result (stMeta s, ()) (stDb s) =
      ((case unmarshalAt C (Some bytes) result of None \<Rightarrow> TxError MarshalError | Some r \<Rightarrow> TxOk r (stDb s)), m')"
    by (simp add: getFromIndexedQuery_def assms(2) g tx_then_def getIndexFromQuery_def index_name_single x
        getRecordByIndexOrDefault_def tx_lift_def getByIndex_def index_first_def ui_all_def i r decode_into_def
        split: option.splits)
  then show ?thesis
    by (cases m') (auto simp: storage_find_def Let_def dbView_def split: option.splits)
qed

lemma find_via_uuid:
  assumes f: "getIndexValueFromQuery [(f, w)] = Some v"
    and g: "getBucket B (rootBucket s) [namespaceResultsBucketName] (stDb s) = Some (results_path s)"
    and e: "bucket_exists B (index_path s f) (stDb s)"
    and i: "bucket_get B (index_path s f) v (stDb s) = Some uuid"
    and n: "bucket_get B (results_path s) uuid (stDb s) = None"
    and u: "stored_under B ''UUID'' uuid bytes s"
  shows "fst (storage_find B C (Some [(f, w)]) result s) =
    (case unmarshalAt C (Some bytes) result of None \<Rightarrow> OpError MarshalError | Some r \<Rightarrow> OpOk r)"
proof -
  let ?p = "results_path s"
  obtain b where e': "bucket_exists B (?p @ [indexPrefix @ ''UUID'']) (stDb s)"
    and i': "bucket_get B (?p @ [indexPrefix @ ''UUID'']) uuid (stDb s) = Some b"
    and r: "bucket_get B ?p b (stDb s) = Some bytes"
    using u by (auto simp: stored_under_def stored_at_def index_path_def)
  obtain m1 where x: "getIndex B C False (Some ?p) KindUnique f (stMeta s, ()) (stDb s) =
      (TxOk (UniqueIx (?p @ [indexPrefix @ f])) (stDb s), m1)"
    using view_getIndex [OF e [unfolded index_path_def]] by blast
  obtain m2 where y: "getIndex B C False (Some ?p) KindUnique ''UUID'' m1 (stDb s) =
      (TxOk (UniqueIx (?p @ [indexPrefix @ ''UUID''])) (stDb s), m2)"
    using view_getIndex [OF e'] by blast
  have k: "join ''_'' (keyFields getDefaultPK) = ''UUID''"
    by (simp add: getDefaultPK_def newKey_def add_field_def)
  have "getFromIndexedQuery B C False (rootBucket s) namespaceResultsBucketName [(f, w)] result (stMeta s, ()) (stDb s) =
      ((case unmarshalAt C (Some bytes) result of None \<Rightarrow> TxError MarshalError | Some r \<Rightarrow> TxOk r (stDb s)), m2)"
    using i n i' by (simp add: getFromIndexedQuery_def f g tx_then_def getIndexFromQuery_def index_name_single x y k
        getRecordByIndexOrDefault_def getByDefaultPKIndex_def getUniqueIndexFromKeys_def tx_lift_def getByIndex_def
        index_first_def ui_all_def ui_get_def r decode_into_def index_path_def split: option.splits)
  then show ?thesis
    by (cases m2) (auto simp: storage_find_def Let_def dbView_def split: option.splits)
qed

lemma stored_under_frame:
  assumes "stored_under B name v bytes s" "frame B S (stDb s) d" "S \<inter> ({results_path s} \<times> {k. length k = 4}) = {}"
    "(index_path s name, v) \<notin> S"
    "getBucket B (rootBucket s) [namespaceResultsBucketName] d = Some (results_path s)"
  shows "stored_under B name v bytes (s\<lparr>stDb := d, stMeta := m\<rparr>)"
proof -
  obtain b where b: "bucket_get B (index_path s name) v (stDb s) = Some b" "bucket_get B (results_path s) b (stDb s) = Some bytes"
    "length b = 4" and e: "bucket_exists B (index_path s name) (stDb s)"
    using assms(1) by (auto simp: stored_under_def stored_at_def)
  have "(results_path s, b) \<notin> S" using assms(3) b(3) by blast
  then have "bucket_get B (index_path s name) v d = Some b" "bucket_get B (results_path s) b d = Some bytes"
    using frame_get [OF assms(2)] assms(4) b by auto
  then show ?thesis
    using frame_exists [OF assms(2) e] assms(5) b(3) by (simp add: stored_under_def stored_at_def index_path_def results_path_def)
qed

lemma pk_value: "getIndexValueFromItem (Some getDefaultPK) (reflect_scrape (setUUID u item)) = Some u"
  by (simp add: getIndexValueFromItem_def getDefaultPK_def newKey_def add_field_def reflect_scrape_def
      scrape_fields_def scrape_methods_def setUUID_def parsed_name_def model_prefix_def has_prefix_def nul_join_def)

lemma storage_create_ok:
  assumes L: "bolt_laws B"
    and c: "storage_create B C uuid item (Some k) s = (OpOk (), item', s')"
    and k: "join ''_'' (keyFields k) \<noteq> ''UUID''" "\<not> key_isEmpty k"
    and v: "getIndexValueFromItem (Some k) (reflect_scrape item') = Some v"
    and u: "length uuid \<noteq> 4" "uuid \<noteq> metaBucketName" "bucket_get B (results_path s) uuid (stDb s) = None"
  shows "\<exists>bytes. item' = setID (itemID item') (setUUID uuid item) \<and> marshal C item' = Some bytes
    \<and> stored_under B ''UUID'' uuid bytes s' \<and> rootBucket s' = rootBucket s
    \<and> bucket_exists B (index_path s' (join ''_'' (keyFields k))) (stDb s')
    \<and> bucket_get B (index_path s' (join ''_'' (keyFields k))) v (stDb s') = Some uuid
    \<and> bucket_get B (results_path s') uuid (stDb s') = None
    \<and> (\<forall>n w. n \<notin> {''UUID'', join ''_'' (keyFields k)} \<longrightarrow>
          bucket_get B (index_path s n) w (stDb s') = bucket_get B (index_path s n) w (stDb s))"
proof -
  let ?n = "join ''_'' (keyFields k)"
  obtain i1 s1 where w: "createWithID B C (Some getDefaultPK) (setUUID uuid item) None s = (OpOk (), i1, s1)"
    using c by (auto simp: storage_create_def split: prod.splits op_result.splits)
  obtain bytes where b: "i1 = setID (itemID i1) (setUUID uuid item)" "marshal C i1 = Some bytes" "rootBucket s1 = rootBucket s"
      "stored_under B (join ''_'' (keyFields getDefaultPK)) uuid bytes s1"
      "\<forall>q. length q \<noteq> 4 \<and> q \<noteq> metaBucketName \<longrightarrow>
          bucket_get B (results_path s) q (stDb s1) = bucket_get B (results_path s) q (stDb s)"
      "\<forall>n w. n \<noteq> join ''_'' (keyFields getDefaultPK) \<longrightarrow>
          bucket_get B (index_path s n) w (stDb s1) = bucket_get B (index_path s n) w (stDb s)"
    using createWithID_ok [OF L w pk_value] by blast
  have pk: "join ''_'' (keyFields getDefaultPK) = ''UUID''"
    by (simp add: getDefaultPK_def newKey_def add_field_def)
  have p: "results_path s1 = results_path s" "index_path s1 n = results_path s @ [indexPrefix @ n]" for n
    by (simp_all add: results_path_def b(3) index_path_def)
  obtain v1 where v1: "getIndexValueFromItem (Some k) (reflect_scrape i1) = Some v1"
    using c w k(2) by (auto simp: storage_create_def split: option.splits)
  obtain r d1 x d2 m2 d3 m3 where
    s1: "assertNamespaceBucket B True (rootBucket s1) namespaceResultsBucketName (stDb s1) = TxOk r d1" and
    s2: "getIndex B C True (Some r) KindUnique ?n (stMeta s1, i1) d1 = (TxOk x d2, m2)" and
    s3: "idx_add B x (Some v1) (Some (uuidValue i1)) d2 = TxOk () d3" and
    s4: "m2 = (m3, item')" "s' = s1\<lparr>stDb := d3, stMeta := m3\<rparr>"
    using c w k(2) v1 unfolding storage_create_def
    by (auto simp: update_ok tx_then_ok tx_lift_ok getUniqueIndexFromKeys_def)
  note f1 = assert_namespace_frame [OF L s1]
  have r: "r = results_path s" using f1(1) by (simp add: results_path_def b(3))
  note f2 = getIndex_ok [OF L s2 [unfolded r]]
  have i1: "item' = i1" using f2(4) s4(1) by simp
  have uu: "uuidValue i1 = uuid" using b(1) by (metis scrape_item.select_convs(2) scrape_item.simps(2) setID_def setUUID_def scrape_item.surjective scrape_item.update_convs(1) scrape_item.update_convs(2))
  have vv: "v1 = v" using v v1 i1 by simp
  let ?ix = "results_path s @ [indexPrefix @ ?n]"
  note f3 = ui_add_frame [OF L s3 [unfolded f2(1) idx_add.simps uu vv]]
  have fr: "frame B ({} \<union> ({(results_path s, metaBucketName)} \<union> {(?ix, v)})) (stDb s1) d3"
    by (rule frame_trans [OF f1(2) frame_trans [OF f2(2) f3(1)]])
  have pe: "bucket_exists B (take i (results_path s)) d3" if "0 < i" "i \<le> Suc (length (rootBucket s))" for i
    using f1(3) that frame_exists [OF frame_trans [OF f2(2) f3(1)]] b(3) by (simp add: results_path_def)
  have gb: "getBucket B (rootBucket s1) [namespaceResultsBucketName] d3 = Some (results_path s1)"
    unfolding getBucket_def results_path_def [symmetric] p(1)
    by (rule getRootBucket_exists) (use pe in \<open>auto simp: results_path_def\<close>)
  have "stored_under B ''UUID'' uuid bytes (s1\<lparr>stDb := d3, stMeta := m3\<rparr>)"
  proof (rule stored_under_frame [OF b(4) [unfolded pk] fr _ _ gb])
    show "({} \<union> ({(results_path s, metaBucketName)} \<union> {(?ix, v)})) \<inter> {results_path s1} \<times> {k. length k = 4} = {}"
      by (auto simp: p metaBucketName_def)
    show "(index_path s1 ''UUID'', uuid) \<notin> {} \<union> ({(results_path s, metaBucketName)} \<union> {(?ix, v)})"
      using k(1) by (auto simp: p)
  qed
  moreover have "bucket_get B (results_path s) uuid d3 = None"
    using frame_get [OF fr, of "results_path s" uuid] b(5) u by simp
  moreover have "bucket_exists B ?ix d3" using frame_exists [OF f3(1) f2(3)] .
  moreover have "bucket_get B (index_path s n) w d3 = bucket_get B (index_path s n) w (stDb s)"
    if "n \<notin> {''UUID'', ?n}" for n w
    using frame_get [OF fr, of "index_path s n" w] b(6) that by (auto simp: pk index_path_def)
  ultimately show ?thesis
    using b(1-4) i1 s4(2) f3(2) by (intro exI [of _ bytes]) (simp add: index_path_def results_path_def)
qed

subsection \<open>Properties\<close>

text \<open>C19: roundtrip. Whenever \<open>Create\<close> accepts an item with a further key of one field, \<open>Find\<close> with that
field and the item's value decodes exactly the bytes the item, with its new UUID and ID, was serialised
to: the index leads to the UUID, the primary index from the UUID to the ID, and the ID to the record.\<close>

theorem create_then_find:
  assumes "bolt_laws B"
    and "storage_create B C uuid item (Some (newKey [f])) s = (OpOk (), item', s')" "f \<noteq> ''UUID''"
    and "getIndexValueFromItem (Some (newKey [f])) (reflect_scrape item') = Some v" "getIndexValueFromQuery [(f, w)] = Some v"
    and "length uuid = 36" "bucket_get B (results_path s) uuid (stDb s) = None"
  shows "\<exists>bytes. marshal C item' = Some bytes \<and> item' = setID (itemID item') (setUUID uuid item)
    \<and> fst (storage_find B C (Some [(f, w)]) result s') =
        (case unmarshalAt C (Some bytes) result of None \<Rightarrow> OpError MarshalError | Some r \<Rightarrow> OpOk r)"
proof -
  have j: "join ''_'' (keyFields (newKey [f])) = f" "\<not> key_isEmpty (newKey [f])"
    by (simp_all add: newKey_def add_field_def key_isEmpty_def)
  have n: "uuid \<noteq> metaBucketName" "length uuid \<noteq> 4" using assms(6) by (auto simp: metaBucketName_def)
  obtain bytes where b: "item' = setID (itemID item') (setUUID uuid item)" "marshal C item' = Some bytes"
      "stored_under B ''UUID'' uuid bytes s'" "bucket_exists B (index_path s' f) (stDb s')"
      "bucket_get B (index_path s' f) v (stDb s') = Some uuid" "bucket_get B (results_path s') uuid (stDb s') = None"
    using storage_create_ok [OF assms(1,2) _ j(2) assms(4) n(2,1) assms(7)] j(1) assms(3) by auto
  have g: "getBucket B (rootBucket s') [namespaceResultsBucketName] (stDb s') = Some (results_path s')"
    using b(3) by (auto simp: stored_under_def stored_at_def)
  show ?thesis
    using b find_via_uuid [OF assms(5) g b(4-6,3)] by auto
qed

text \<open>A codec that writes the UUID of an item, for the witnesses.\<close>

definition uuid_codec :: codec where
  "uuid_codec = \<lparr>marshal = (\<lambda>i. Some (uuidValue i)),
     unmarshalAt = (\<lambda>raw i. map_option (\<lambda>u. setUUID u i) raw),
     metadataBytes = (\<lambda>m. ''meta''), parseMetadata = (\<lambda>b. Some [])\<rparr>"

definition sample_uuid :: string where
  "sample_uuid = ''123e4567-e89b-12d3-a456-426614174000''"

definition sample_store :: "ref_db storage" where
  "sample_store = \<lparr>stDb = ref_empty, rootBucket = [''ns''], stMeta = []\<rparr>"

theorem create_then_find_witness:
  "fst (storage_find ref_ops uuid_codec (Some [(''LocalID'', VStr ''7'')]) empty_scrape_item
     (snd (snd (storage_create ref_ops uuid_codec sample_uuid (setLocalID ''7'' empty_scrape_item)
        (Some (newKey [''LocalID''])) sample_store)))) = OpOk (setUUID sample_uuid empty_scrape_item)"
proof -
  let ?r = "storage_create ref_ops uuid_codec sample_uuid (setLocalID ''7'' empty_scrape_item)
    (Some (newKey [''LocalID''])) sample_store"
  have "fst ?r = OpOk ()" by code_simp
  then have r: "?r = (OpOk (), fst (snd ?r), snd (snd ?r))" by (metis prod.collapse)
  have v: "getIndexValueFromItem (Some (newKey [''LocalID''])) (reflect_scrape (fst (snd ?r))) = Some ''7''" by code_simp
  have q: "getIndexValueFromQuery [(''LocalID'', VStr ''7'')] = Some ''7''" by code_simp
  have b: "bucket_get ref_ops (results_path sample_store) sample_uuid (stDb sample_store) = None" by code_simp
  have u: "length sample_uuid = 36" "''LocalID'' \<noteq> ''UUID''" by code_simp+
  have "uuidValue (fst (snd ?r)) = sample_uuid" by code_simp
  then show ?thesis
    using create_then_find [OF ref_laws r u(2) v q u(1) b, of empty_scrape_item]
    by (auto simp: uuid_codec_def)
qed

text \<open>A query whose index holds no value finds nothing.\<close>

lemma look_empty:
  assumes "getIndexValueFromQuery q = Some v"
    and "\<And>p. getBucket B (rootBucket s) [namespaceResultsBucketName] (stDb s) = Some p \<Longrightarrow>
        bucket_get B (p @ [indexPrefix @ getIndexNameFromQuery q]) v (stDb s) = None"
  shows "\<exists>m. getFromIndexedQuery B C False (rootBucket s) namespaceResultsBucketName q result (stMeta s, ()) (stDb s) = (TxError NotFound, m)
     \<or> (getFromIndexedQuery B C False (rootBucket s) namespaceResultsBucketName q result (stMeta s, ()) (stDb s) = (TxError IndexMissing, m)
        \<and> (\<exists>p. getBucket B (rootBucket s) [namespaceResultsBucketName] (stDb s) = Some p
          \<and> \<not> bucket_exists B (p @ [indexPrefix @ getIndexNameFromQuery q]) (stDb s)))"
proof (cases "getBucket B (rootBucket s) [namespaceResultsBucketName] (stDb s)")
  case None
  then show ?thesis using assms(1) by (simp add: getFromIndexedQuery_def)
next
  case (Some p)
  let ?ix = "p @ [indexPrefix @ getIndexNameFromQuery q]"
  show ?thesis
  proof (cases "bucket_exists B ?ix (stDb s)")
    case True
    obtain m' where x: "getIndex B C False (Some p) KindUnique (getIndexNameFromQuery q) (stMeta s, ()) (stDb s) =
        (TxOk (UniqueIx ?ix) (stDb s), m')"
      using view_getIndex [OF True] by blast
    show ?thesis
      using assms(2) [OF Some] by (cases m') (simp add: getFromIndexedQuery_def assms(1) Some tx_then_def getIndexFromQuery_def x
          getRecordByIndexOrDefault_def tx_lift_def getByIndex_def index_first_def ui_all_def)
  next
    case False
    then show ?thesis
      by (simp add: getFromIndexedQuery_def assms(1) Some tx_then_def getIndexFromQuery_def getIndex_def tx_lift_def
          open_index_def newUniqueIndex_def tx_bind_def)
  qed
qed

lemma find_empty_index:
  assumes L: "bolt_laws B" and v: "getIndexValueFromQuery q = Some v"
    and g: "getBucket B (rootBucket s) [namespaceResultsBucketName] (stDb s) = Some p"
    and i: "bucket_get B (p @ [indexPrefix @ getIndexNameFromQuery q]) v (stDb s) = None"
    and stable: "\<And>d. frame B {(p, metaBucketName)} (stDb s) d \<Longrightarrow>
        getBucket B (rootBucket s) [namespaceResultsBucketName] d = Some p"
  shows "\<exists>e\<in>{NotFound, BoltError}. fst (storage_find B C (Some q) result s) = OpError e"
proof -
  let ?look = "\<lambda>s. getFromIndexedQuery B C False (rootBucket s) namespaceResultsBucketName q result (stMeta s, ()) (stDb s)"
  obtain m where l: "?look s = (TxError NotFound, m) \<or> ?look s = (TxError IndexMissing, m)"
    using look_empty [OF v, of B s C result] i g by auto
  then show ?thesis
  proof
    assume "?look s = (TxError NotFound, m)"
    then show ?thesis by (cases m) (simp add: storage_find_def Let_def dbView_def)
  next
    assume missing: "?look s = (TxError IndexMissing, m)"
    define s1 where "s1 = s\<lparr>stMeta := fst m\<rparr>"
    have s1: "rootBucket s1 = rootBucket s" "stDb s1 = stDb s" by (simp_all add: s1_def)
    let ?g = "getIndex B C True (Some p) KindUnique (getIndexNameFromQuery q) (stMeta s1, ()) (stDb s)"
    have look1: "dbView (getFromIndexedQuery B C False (rootBucket s) namespaceResultsBucketName q result) () s =
        (OpError IndexMissing, (), s1)"
      using missing by (cases m) (simp add: dbView_def s1_def)
    obtain r m1 where ix: "?g = (r, m1)" by (cases ?g) blast
    show ?thesis
    proof (cases r)
      case (TxOk x d)
      then have x: "?g = (TxOk x d, m1)" using ix by simp
      note f = getIndex_ok [OF L x]
      define s2 where "s2 = s1\<lparr>stDb := d, stMeta := fst m1\<rparr>"
      have s2: "rootBucket s2 = rootBucket s" "stDb s2 = d" by (simp_all add: s2_def s1)
      have q2: "indexQuery B C namespaceResultsBucketName q s1 = (OpOk (), s2)"
        using x by (cases m1) (simp add: indexQuery_def dbUpdate_def s1 g getIndexFromQuery_def tx_then_def tx_return_def s2_def)
      have n: "bucket_get B (p @ [indexPrefix @ getIndexNameFromQuery q]) v d = None"
        using frame_get [OF f(2), of "p @ [indexPrefix @ getIndexNameFromQuery q]" v] i by simp
      have gb: "getBucket B (rootBucket s2) [namespaceResultsBucketName] (stDb s2) = Some p"
        using stable [OF f(2)] by (simp add: s2)
      obtain m2 where "?look s2 = (TxError NotFound, m2)"
        using look_empty [OF v, of B s2 C result] n gb f(3) by (auto simp: s2)
      then have "dbView (getFromIndexedQuery B C False (rootBucket s2) namespaceResultsBucketName q result) () s2 =
          (OpError NotFound, (), s2\<lparr>stMeta := fst m2\<rparr>)"
        by (cases m2) (simp add: dbView_def)
      then show ?thesis by (simp add: storage_find_def Let_def look1 q2)
    next
      case (TxError e)
      then have "?g = (TxError e, m1)" using ix by simp
      moreover from this have "e = BoltError"
        by (auto simp: getIndex_def tx_then_def tx_lift_def open_index_def newUniqueIndex_def tx_bind_def of_bolt_def
            split: if_splits prod.splits bool.splits)
      ultimately have "fst (indexQuery B C namespaceResultsBucketName q s1) = OpError BoltError"
        by (cases m1) (simp add: indexQuery_def dbUpdate_def s1 g getIndexFromQuery_def tx_then_def)
      then show ?thesis
        by (cases "indexQuery B C namespaceResultsBucketName q s1") (simp add: storage_find_def Let_def look1)
    next
      case TxPanic
      then have "False" using ix
        by (auto simp: getIndex_def tx_then_def tx_lift_def open_index_def newUniqueIndex_def tx_bind_def of_bolt_def
            split: if_splits prod.splits bool.splits)
      then show ?thesis ..
    qed
  qed
qed

lemma getRootBucket_path:
  "getRootBucket B names d = Some names \<Longrightarrow> 0 < i \<Longrightarrow> i \<le> length names \<Longrightarrow> bucket_exists B (take i names) d"
proof (induction names arbitrary: i rule: rev_induct)
  case Nil
  then show ?case by simp
next
  case (snoc n ns)
  have e: "bucket_exists B (ns @ [n]) d" and g: "ns = [] \<or> getRootBucket B ns d = Some ns"
    using snoc.prems(1) by (auto simp: getRootBucket_def bucket_step_def Let_def split: option.splits if_splits)
  show ?case using snoc.IH [of i] snoc.prems(2,3) e g by (cases "i = Suc (length ns)") auto
qed

lemma stored_bucket_stable:
  assumes "getBucket B (rootBucket s) [namespaceResultsBucketName] (stDb s) = Some (results_path s)" "frame B S (stDb s) d"
  shows "getBucket B (rootBucket s) [namespaceResultsBucketName] d = Some (results_path s)"
  using getRootBucket_path [of B "results_path s" "stDb s"] assms frame_exists [OF assms(2)]
    getRootBucket_exists [of "results_path s" B d]
  by (simp add: getBucket_def results_path_def)

text \<open>C20: error. A record created under a key of several fields is not found by a query of these
fields and of its values: the query looks in an index of another name, which \<open>Create\<close> never fills.\<close>

theorem composite_key_never_found:
  assumes "bolt_laws B"
    and "storage_create B C uuid item (Some k) s = (OpOk (), item', s')"
    and "1 < length q" "map fst q = keyFields k" "join ''_'' (keyFields k) \<noteq> ''UUID''"
    and "getIndexValueFromItem (Some k) (reflect_scrape item') = Some v" "getIndexValueFromQuery q = Some v'"
    and "length uuid = 36" "bucket_get B (results_path s) uuid (stDb s) = None"
    and "\<forall>w. bucket_get B (index_path s (getIndexNameFromQuery q)) w (stDb s) = None"
  shows "\<exists>e\<in>{NotFound, BoltError}. fst (storage_find B C (Some q) result s') = OpError e"
proof -
  let ?n = "getIndexNameFromQuery q"
  have n: "?n = join ''_'' (keyFields k) @ ''_''" using index_name_composite [OF assms(3)] assms(4) by simp
  have "last ?n = CHR ''_''" by (simp add: n)
  then have ne: "?n \<noteq> ''UUID''" "?n \<noteq> join ''_'' (keyFields k)" using n by auto
  have k: "\<not> key_isEmpty k" using assms(3,4) by (auto simp: key_isEmpty_def)
  have u: "uuid \<noteq> metaBucketName" "length uuid \<noteq> 4" using assms(8) by (auto simp: metaBucketName_def)
  obtain bytes where b: "stored_under B ''UUID'' uuid bytes s'" "rootBucket s' = rootBucket s"
      "\<forall>n w. n \<notin> {''UUID'', join ''_'' (keyFields k)} \<longrightarrow>
          bucket_get B (index_path s n) w (stDb s') = bucket_get B (index_path s n) w (stDb s)"
    using storage_create_ok [OF assms(1,2,5) k assms(6) u(2,1) assms(9)] by blast
  have g: "getBucket B (rootBucket s') [namespaceResultsBucketName] (stDb s') = Some (results_path s')"
    using b(1) by (auto simp: stored_under_def stored_at_def)
  have i: "bucket_get B (results_path s' @ [indexPrefix @ ?n]) v' (stDb s') = None"
    using b(2,3) ne assms(10) by (simp add: index_path_def results_path_def)
  show ?thesis
    by (rule find_empty_index [OF assms(1,7) g i stored_bucket_stable [OF g]])
qed

theorem composite_key_never_found_witness:
  "\<exists>e\<in>{NotFound, BoltError}. fst (storage_find ref_ops uuid_codec (Some [(''LocalID'', VStr ''7''), (''Site'', VStr ''x'')])
     empty_scrape_item (snd (snd (storage_create ref_ops uuid_codec sample_uuid (setSite ''x'' (setLocalID ''7'' empty_scrape_item))
        (Some (newKey [''LocalID'', ''Site''])) sample_store)))) = OpError e"
proof -
  let ?r = "storage_create ref_ops uuid_codec sample_uuid (setSite ''x'' (setLocalID ''7'' empty_scrape_item))
    (Some (newKey [''LocalID'', ''Site''])) sample_store"
  let ?q = "[(''LocalID'', VStr ''7''), (''Site'', VStr ''x'')]"
  have "fst ?r = OpOk ()" by code_simp
  then have r: "?r = (OpOk (), fst (snd ?r), snd (snd ?r))" by (metis prod.collapse)
  have q: "1 < length ?q" "map fst ?q = keyFields (newKey [''LocalID'', ''Site''])"
    "join ''_'' (keyFields (newKey [''LocalID'', ''Site''])) \<noteq> ''UUID''" by code_simp+
  have v: "getIndexValueFromItem (Some (newKey [''LocalID'', ''Site''])) (reflect_scrape (fst (snd ?r))) =
      Some (''7'' @ [CHR 0x00] @ ''x'')" by code_simp
  have w: "getIndexValueFromQuery ?q = Some (''7'' @ [CHR 0x00] @ ''x'')" by code_simp
  have u: "length sample_uuid = 36" "bucket_get ref_ops (results_path sample_store) sample_uuid (stDb sample_store) = None"
    by code_simp+
  have "\<forall>w. bucket_get ref_ops (index_path sample_store (getIndexNameFromQuery ?q)) w (stDb sample_store) = None"
    by (simp add: bucket_get_def bucket_items_def ref_ops_def ref_items_def sample_store_def ref_empty_def index_path_def)
  from composite_key_never_found [OF ref_laws r q v w u this] show ?thesis .
qed

subsection \<open>The ring of the latest results\<close>

fun push_all :: "'d db_ops \<Rightarrow> string list \<Rightarrow> 'd \<Rightarrow> (unit, 'd) tx_result" where
  "push_all B [] d = TxOk () d"
| "push_all B (v # vs) d = tx_bind (pushToLatestItems B (Some v) d) (\<lambda>_ d'. push_all B vs d')"

text \<open>What is kept under key \<open>i\<close> after the values \<open>vs\<close>: of the last 22, the one pushed at a time equal to \<open>i\<close> modulo 22.\<close>

definition ring_slot :: "'a list \<Rightarrow> nat \<Rightarrow> 'a option" where
  "ring_slot vs i =
     (if i < min 22 (length vs) then Some (vs ! (length vs - 1 - (length vs - 1 + 22 - i) mod 22)) else None)"

lemma ring_slot_snoc:
  assumes "i < 22"
  shows "ring_slot (vs @ [v]) i = (if i = length vs mod 22 then Some v else ring_slot vs i)"
proof -
  let ?n = "length vs"
  show ?thesis
  proof (cases "i = ?n mod 22")
    case True
    then have "(?n + 22 - i) mod 22 = 0"
      by (metis Nat.diff_add_assoc2 mod_add_self2 mod_less_eq_dividend minus_mod_eq_mult_div mod_mult_self1_is_0)
    moreover have "i \<le> ?n" using True by simp
    ultimately show ?thesis using True assms by (simp add: ring_slot_def)
  next
    case ne: False
    show ?thesis
    proof (cases "i < ?n")
      case False
      then show ?thesis using ne assms by (auto simp: ring_slot_def)
    next
      case True
      have s: "?n + 22 - i = Suc (?n - 1 + 22 - i)" using True by simp
      have "(?n + 22 - i) mod 22 \<noteq> 0"
      proof
        assume "(?n + 22 - i) mod 22 = 0"
        then have "(?n - i) mod 22 = 0" using True by (metis Nat.add_diff_assoc2 less_imp_le mod_add_self2)
        then obtain c where "?n - i = 22 * c" by auto
        then have "?n = i + 22 * c" using True by simp
        then have "?n mod 22 = i" using assms by simp
        then show False using ne by simp
      qed
      then have m: "(?n + 22 - i) mod 22 = Suc ((?n - 1 + 22 - i) mod 22)"
        unfolding s mod_Suc by (auto split: if_splits)
      have "?n - (?n + 22 - i) mod 22 < ?n" using m True by simp
      then show ?thesis using m True ne assms by (auto simp: ring_slot_def nth_append)
    qed
  qed
qed

lemma small_range: "i < 22 \<Longrightarrow> int64_range (int i)"
  by (simp add: int64_range_def)

lemma atoi_itoa_small: "atoi (itoa (int n mod 22)) = (int n mod 22, None)"
proof -
  have "int64_range (int (n mod 22))" by (rule small_range) simp
  then show ?thesis using atoi_itoa by (simp add: zmod_int)
qed

definition ring_state :: "'d db_ops \<Rightarrow> string list \<Rightarrow> 'd \<Rightarrow> bool" where
  "ring_state B vs d \<longleftrightarrow>
     bucket_get B [latestResultsBucketName] latestResultsIndexKey d =
       (if vs = [] then None else Some (itoa (int ((length vs - 1) mod 22))))
     \<and> (\<forall>i<22. bucket_get B [latestResultsBucketName] (itoa (int i)) d = ring_slot vs i)"

lemma next_latest_ring:
  "next_latest (if n = 0 then None else Some (itoa (int ((n - 1) mod 22)))) = itoa (int (n mod 22))"
proof (cases n)
  case 0
  moreover have "itoa 0 = ''0''" by code_simp
  ultimately show ?thesis by (simp add: next_latest_def)
next
  case (Suc m)
  have "(if int (m mod 22) > 20 then - 1 else int (m mod 22)) + 1 = int (Suc m mod 22)"
    by (auto simp: mod_Suc)
  then show ?thesis
    using Suc atoi_itoa_small [of m] by (auto simp: next_latest_def latestResultsBucketSize_def zmod_int Let_def split: if_splits)
qed

lemma push_ring:
  assumes L: "bolt_laws B" and s: "ring_state B vs d" and p: "pushToLatestItems B (Some v) d = TxOk u d'"
  shows "ring_state B (vs @ [v]) d'"
proof -
  let ?L = "[latestResultsBucketName]" and ?k = "itoa (int (length vs mod 22))"
  obtain b d1 d2 where a: "assertBucket B True ?L d = TxOk b d1"
    and p1: "db_put B b (next_latest (bucket_get B b latestResultsIndexKey d1)) v d1 = (True, d2)"
    and p2: "db_put B b latestResultsIndexKey (next_latest (bucket_get B b latestResultsIndexKey d1)) d2 = (True, d')"
    using p by (auto simp: pushToLatestItems_def tx_bind_ok of_bolt_ok Let_def)
  have al: "assert_loop B [] ?L d = TxOk b d1" using a by (simp add: assertBucket_def)
  have b: "b = ?L" and f: "frame B {} d d1" using assert_loop_frame [OF L al] by simp_all
  have g: "bucket_get B ?L k d1 = bucket_get B ?L k d" for k using frame_get [OF f] by simp
  have k: "next_latest (bucket_get B b latestResultsIndexKey d1) = ?k"
    using s next_latest_ring [of "length vs"] by (simp add: ring_state_def b g)
  note p1 = p1 [unfolded k, unfolded b] and p2 = p2 [unfolded k, unfolded b]
  have ne: "itoa i \<noteq> latestResultsIndexKey" for i
  proof
    assume "itoa i = latestResultsIndexKey"
    then have "CHR ''x'' \<in> set (itoa i)" by (simp add: latestResultsIndexKey_def)
    then show False using itoa_chars by (fastforce simp: is_digit_def)
  qed
  have "bucket_get B ?L (itoa (int i)) d' = ring_slot (vs @ [v]) i" if "i < 22" for i
  proof -
    have "bucket_get B ?L (itoa (int i)) d' = bucket_get B ?L (itoa (int i)) d2"
      by (rule put_get(2) [OF L p2 ne])
    also have "\<dots> = (if i = length vs mod 22 then Some v else bucket_get B ?L (itoa (int i)) d1)"
    proof (cases "i = length vs mod 22")
      case True
      then show ?thesis using put_ok_get [OF L p1] by simp
    next
      case False
      have "itoa (int i) \<noteq> ?k"
        using itoa_inject [OF small_range [OF that] small_range [of "length vs mod 22"]] False by auto
      then show ?thesis using put_get(2) [OF L p1] False by simp
    qed
    finally show ?thesis using s that by (simp add: ring_slot_snoc g ring_state_def)
  qed
  moreover have "bucket_get B ?L latestResultsIndexKey d' = Some ?k" by (rule put_ok_get [OF L p2])
  ultimately show ?thesis by (simp add: ring_state_def)
qed

lemma push_all_ring:
  "bolt_laws B \<Longrightarrow> ring_state B ws d \<Longrightarrow> push_all B vs d = TxOk u d' \<Longrightarrow> ring_state B (ws @ vs) d'"
proof (induction vs arbitrary: ws d)
  case (Cons v vs)
  obtain d1 where p: "pushToLatestItems B (Some v) d = TxOk () d1" and q: "push_all B vs d1 = TxOk u d'"
    using Cons.prems(3) by (auto simp: tx_bind_ok)
  show ?case using Cons.IH [OF Cons.prems(1) push_ring [OF Cons.prems(1,2) p] q] by simp
qed simp

text \<open>C21: bounds. After any number of successful pushes to a fresh bucket of latest results it holds, under
the keys 0 to 21, exactly the last 22 values (not 20), each under its time modulo 22.\<close>

theorem latest_ring:
  assumes "bolt_laws B" "\<forall>k. bucket_get B [latestResultsBucketName] k d = None" "push_all B vs d = TxOk u d'"
  shows "\<forall>i<22. bucket_get B [latestResultsBucketName] (itoa (int i)) d' =
    (if i < min 22 (length vs) then Some (vs ! (length vs - 1 - (length vs - 1 + 22 - i) mod 22)) else None)"
proof -
  have "ring_state B [] d" using assms(2) by (simp add: ring_state_def ring_slot_def)
  then have "ring_state B vs d'" using push_all_ring [OF assms(1) _ assms(3), of "[]"] by simp
  then show ?thesis by (simp add: ring_state_def ring_slot_def)
qed

theorem latest_ring_witness:
  "bucket_get ref_ops [latestResultsBucketName] ''0''
     (case push_all ref_ops [''a''] ref_empty of TxOk _ d \<Rightarrow> d | _ \<Rightarrow> ref_empty) = Some ''a''"
proof -
  let ?vs = "[''a'']"
  define r where "r = push_all ref_ops ?vs ref_empty"
  have "(case r of TxOk _ _ \<Rightarrow> True | _ \<Rightarrow> False)" unfolding r_def by code_simp
  then obtain d where d: "push_all ref_ops ?vs ref_empty = TxOk () d" unfolding r_def by (auto split: tx_result.splits)
  have e: "\<forall>k. bucket_get ref_ops [latestResultsBucketName] k ref_empty = None"
    by (simp add: bucket_get_def bucket_items_def ref_ops_def ref_items_def ref_empty_def)
  have "bucket_get ref_ops [latestResultsBucketName] (itoa (int 0)) d = Some ''a''"
    using latest_ring [OF ref_laws e d, rule_format, of 0] by simp
  moreover have "itoa (int 0) = ''0''" by code_simp
  ultimately show ?thesis unfolding d by simp
qed

end
