(* ===== verification/KeyedStorage.thy ===== *)
theory KeyedStorage
  imports StorageFacts
begin

text \<open>
  The storage the searches write to: \<open>storage/keyedStorage.go\<close> over any backing (the interface
  \<open>ItemStorageBacking\<close> of \<open>storage/interfaces.go\<close>), and the builder of \<open>storage/builder.go\<close>. The laws a
  backing promises are the locale \<open>item_backing\<close>; the store of bolt keeps them (\<open>bolt_store\<close>).
\<close>

record 's backing =
  bkFind :: "key_query \<Rightarrow> scrape_item \<Rightarrow> 's \<Rightarrow> scrape_item op_result \<times> 's"
  bkUpdate :: "key_query \<Rightarrow> scrape_item \<Rightarrow> 's \<Rightarrow> unit op_result \<times> 's"
  bkCreateWithID :: "key \<Rightarrow> scrape_item \<Rightarrow> key \<Rightarrow> 's \<Rightarrow> unit op_result \<times> scrape_item \<times> 's"
  bkCreate :: "string \<Rightarrow> scrape_item \<Rightarrow> key \<Rightarrow> 's \<Rightarrow> unit op_result \<times> scrape_item \<times> 's"

record keyed =
  primaryKey :: key
  indexKeys :: key

definition empty_key :: key where
  "empty_key = \<lparr>keyFields = [], fieldsCache = None\<rparr>"

definition newWithKey :: "key \<Rightarrow> keyed \<Rightarrow> keyed" where
  "newWithKey k st = \<lparr>primaryKey = k, indexKeys = empty_key\<rparr>"

definition getDefaultKey :: key where
  "getDefaultKey = newKey [''UUID'']"

definition keyed_find :: "'s backing \<Rightarrow> key_query \<Rightarrow> scrape_item \<Rightarrow> 's \<Rightarrow> scrape_item op_result \<times> 's" where
  "keyed_find bk q output s =
     (case bkFind bk q output s of
        (OpOk r, s') \<Rightarrow> (OpOk r, s') | (OpError _, s') \<Rightarrow> (OpError NotFound, s') | (OpPanic, s') \<Rightarrow> (OpPanic, s'))"

definition setKey :: "key \<Rightarrow> keyed \<Rightarrow> keyed option" where
  "setKey index st = (if key_isEmpty index then None else Some (st\<lparr>primaryKey := index\<rparr>))"

definition addUniqueIndex :: "key \<Rightarrow> keyed \<Rightarrow> keyed" where
  "addUniqueIndex k st = st\<lparr>indexKeys := addKeys (indexKeys st) k\<rparr>"

text \<open>\<open>uuid\<close> is the UUID \<open>Create\<close> would draw.\<close>

definition add_new ::
    "'s backing \<Rightarrow> string \<Rightarrow> key \<Rightarrow> bool \<Rightarrow> keyed \<Rightarrow> scrape_item \<Rightarrow> 's \<Rightarrow> unit op_result \<times> scrape_item \<times> 's" where
  "add_new bk uuid key hasValue st item s =
     (case (if hasValue then bkCreateWithID bk key item (indexKeys st) s
            else bkCreate bk uuid item (indexKeys st) s) of
        (OpOk _, item', s') \<Rightarrow> (OpOk (), setState True False item', s')
      | r \<Rightarrow> r)"

definition add_found ::
    "'s backing \<Rightarrow> key_query \<Rightarrow> scrape_item \<Rightarrow> scrape_item \<Rightarrow> 's \<Rightarrow> unit op_result \<times> scrape_item \<times> 's" where
  "add_found bk query existing item s =
     (case scrape_equals existing (PtrScrape item) of
        None \<Rightarrow> (OpPanic, item, s)
      | Some True \<Rightarrow> (OpOk (), setState False False item, s)
      | Some False \<Rightarrow>
          (case bkUpdate bk query item s of
             (OpOk _, s') \<Rightarrow> (OpOk (), setState False True item, s')
           | (OpError e, s') \<Rightarrow> (OpError e, item, s')
           | (OpPanic, s') \<Rightarrow> (OpPanic, item, s')))"

definition keyed_add ::
    "'s backing \<Rightarrow> string \<Rightarrow> keyed \<Rightarrow> scrape_item \<Rightarrow> 's \<Rightarrow> unit op_result \<times> scrape_item \<times> 's" where
  "keyed_add bk uuid st item s =
     (let key = (if key_isEmpty (primaryKey st) then getDefaultKey else primaryKey st)
      in case keyHasValue key (reflect_scrape item) of
           None \<Rightarrow> (OpPanic, item, s)
         | Some False \<Rightarrow> add_new bk uuid key False st item s
         | Some True \<Rightarrow>
             (case getKeyQueryFromItem key (reflect_scrape item) of
                None \<Rightarrow> (OpPanic, item, s)
              | Some q \<Rightarrow>
                  (case bkFind bk q empty_scrape_item s of
                     (OpOk r, s') \<Rightarrow> add_found bk q r item s'
                   | (OpError _, s') \<Rightarrow> add_new bk uuid key True st item s'
                   | (OpPanic, s') \<Rightarrow> (OpPanic, item, s'))))"

subsection \<open>The builder\<close>

record 's builder =
  backingType :: string
  pkFields :: "key option"
  endpoint :: string
  namespace :: string
  backedBy :: "'s option"
  hasRecordType :: bool

text \<open>\<open>cfg\<close> is the endpoint of the configuration, if there is one.\<close>

definition withDefaultBacking :: "string option \<Rightarrow> 's builder \<Rightarrow> 's builder" where
  "withDefaultBacking cfg b =
     (let b' = b\<lparr>backingType := ''boltdb''\<rparr> in case cfg of None \<Rightarrow> b' | Some e \<Rightarrow> b'\<lparr>endpoint := e\<rparr>)"

definition newBuilder :: "string option \<Rightarrow> 's builder" where
  "newBuilder cfg = withDefaultBacking cfg
     \<lparr>backingType = [], pkFields = None, endpoint = [], namespace = [], backedBy = None, hasRecordType = False\<rparr>"

definition withBacking :: "string \<Rightarrow> 's builder \<Rightarrow> 's builder" where
  "withBacking t b = b\<lparr>backingType := t\<rparr>"

definition withRecord :: "bool \<Rightarrow> 's builder \<Rightarrow> 's builder" where
  "withRecord r b = b\<lparr>hasRecordType := r\<rparr>"

definition setBacking :: "'s \<Rightarrow> 's builder \<Rightarrow> 's builder" where
  "setBacking s b = b\<lparr>backedBy := Some s\<rparr>"

definition withPK :: "key option \<Rightarrow> 's builder \<Rightarrow> 's builder" where
  "withPK k b = b\<lparr>pkFields := k\<rparr>"

definition withEndpoint :: "string \<Rightarrow> 's builder \<Rightarrow> 's builder" where
  "withEndpoint e b = b\<lparr>endpoint := e\<rparr>"

definition withNamespace :: "string \<Rightarrow> 's builder \<Rightarrow> 's builder option" where
  "withNamespace ns b = (if ns = [] then None else Some (b\<lparr>namespace := ns\<rparr>))"

text \<open>\<open>resolver\<close> is the table of backings by type; \<open>None\<close> is a panic, of the builder or of the backing.\<close>

definition build ::
    "(string \<Rightarrow> ('s builder \<Rightarrow> 's option) option) \<Rightarrow> 's builder \<Rightarrow> (keyed \<times> 's) option" where
  "build resolver b =
     (if \<not> hasRecordType b then None
      else map_option (\<lambda>s. (\<lparr>primaryKey = (case pkFields b of None \<Rightarrow> empty_key | Some k \<Rightarrow> k), indexKeys = empty_key\<rparr>, s))
        (case backedBy b of
           Some s \<Rightarrow> Some s
         | None \<Rightarrow> (case resolver (backingType b) of None \<Rightarrow> None | Some f \<Rightarrow> f b)))"

text \<open>The entry of the table for bolt: \<open>opened\<close> is what \<open>NewBoltDbStorage\<close> answers.\<close>

definition resolve_boltdb :: "'d db_ops \<Rightarrow> codec \<Rightarrow> 'd storage op_result \<Rightarrow> 'd storage builder \<Rightarrow> 'd storage option" where
  "resolve_boltdb B C opened b =
     (case opened of
        OpOk s \<Rightarrow>
          if namespace b = [] then Some s
          else (case setNamespace B C (namespace b) s of (OpOk _, s') \<Rightarrow> Some s' | _ \<Rightarrow> None)
      | _ \<Rightarrow> None)"

subsection \<open>The laws of a backing\<close>

text \<open>The key of one field \<open>f\<close> that the item has a value for.\<close>

definition keyed_by :: "key \<Rightarrow> string \<Rightarrow> scrape_item \<Rightarrow> bool" where
  "keyed_by k f item \<longleftrightarrow> keyFields k = [f] \<and> keyHasValue k (reflect_scrape item) = Some True
     \<and> unambiguous (reflect_scrape item) f"

abbreviation key_query_of :: "string \<Rightarrow> scrape_item \<Rightarrow> key_query" where
  "key_query_of f item \<equiv> [(f, VStr (key_string (reflect_scrape item) f))]"

lemma key_nonempty: "keyed_by k f item \<Longrightarrow> \<not> key_isEmpty k"
  by (simp add: keyed_by_def key_isEmpty_def)

lemma key_read:
  "keyed_by k f item \<Longrightarrow> getKeyQueryFromItem k (reflect_scrape item) = Some (key_query_of f item)"
  using key_value_read_twice(1) [of k "reflect_scrape item"]
  by (simp add: keyed_by_def reflect_scrape_def)

lemma add_cases:
  assumes "keyed_by (primaryKey st) f item"
  shows "keyed_add bk uuid st item s =
     (case bkFind bk (key_query_of f item) empty_scrape_item s of
        (OpOk r, s') \<Rightarrow> add_found bk (key_query_of f item) r item s'
      | (OpError _, s') \<Rightarrow> add_new bk uuid (primaryKey st) True st item s'
      | (OpPanic, s') \<Rightarrow> (OpPanic, item, s'))"
  using assms key_nonempty [OF assms] key_read [OF assms] by (simp add: keyed_add_def keyed_by_def)

lemma equal_data:
  assumes "modelData a = modelData b" "comparable b"
  shows "scrape_equals a (PtrScrape b) = Some True"
proof -
  have "comparable a" using assms by (simp add: comparable_def data_of_def)
  then show ?thesis using scrape_equals_iff [of a b] assms by (simp add: comparable_def model_lookup_def fun_eq_iff)
qed

lemma key_value:
  assumes "keyed_by k f item"
  shows "join ''_'' (keyFields k) = f"
    "getIndexValueFromItem (Some k) (reflect_scrape item) = Some (key_string (reflect_scrape item) f)"
    "getIndexValueFromQuery (key_query_of f item) = Some (key_string (reflect_scrape item) f)"
  using assms key_value_read_twice(2,3) [of k "reflect_scrape item"]
  by (simp_all add: keyed_by_def reflect_scrape_def nul_join_def)

locale item_backing =
  fixes bk :: "'s backing" and keeps :: "scrape_item \<Rightarrow> bool"
  assumes create_find: "keyed_by k f item \<Longrightarrow> keeps item \<Longrightarrow> bkCreateWithID bk k item uk s = (OpOk (), item', s') \<Longrightarrow>
      \<exists>r. fst (bkFind bk (key_query_of f item) empty_scrape_item s') = OpOk r \<and> modelData r = modelData item"
    and create_item: "bkCreateWithID bk k item uk s = (OpOk (), item', s') \<Longrightarrow> keyed_by k f item \<Longrightarrow> \<exists>n. item' = setID n item"
    and update_find: "keyed_by k f item \<Longrightarrow> keeps item \<Longrightarrow>
      bkFind bk (key_query_of f item) empty_scrape_item s0 = (OpOk r0, s) \<Longrightarrow>
      bkUpdate bk (key_query_of f item) item s = (OpOk (), s') \<Longrightarrow>
      \<exists>r. fst (bkFind bk (key_query_of f item) empty_scrape_item s') = OpOk r \<and> modelData r = modelData item"
    and find_again: "bkFind bk q result s = (OpOk r, s') \<Longrightarrow> fst (bkFind bk q result s') = OpOk r"
    and keeps_comparable: "keeps item \<Longrightarrow> comparable item"
begin

text \<open>After any accepted \<open>Add\<close> the record under the item's key has the item's fields.\<close>

lemma add_then_find:
  assumes k: "keyed_by (primaryKey st) f item" and t: "keeps item"
    and a: "keyed_add bk uuid st item s = (OpOk (), item', s')"
    and c: "\<And>r s1. bkFind bk (key_query_of f item) empty_scrape_item s = (OpOk r, s1) \<Longrightarrow> comparable r"
  shows "\<exists>r. fst (bkFind bk (key_query_of f item) empty_scrape_item s') = OpOk r \<and> model_lookup r = model_lookup item"
proof -
  have "\<exists>r. fst (bkFind bk (key_query_of f item) empty_scrape_item s') = OpOk r
      \<and> (modelData r = modelData item \<or> scrape_equals r (PtrScrape item) = Some True \<and> comparable r)"
  proof (cases "bkFind bk (key_query_of f item) empty_scrape_item s")
    case (Pair res s1)
    show ?thesis
    proof (cases res)
      case OpPanic
      then show ?thesis using a Pair by (simp add: add_cases [OF k])
    next
      case (OpError e)
      then obtain i where "bkCreateWithID bk (primaryKey st) item (indexKeys st) s1 = (OpOk (), i, s')"
        using a Pair by (auto simp: add_cases [OF k] add_new_def split: prod.splits op_result.splits)
      then show ?thesis using create_find [OF k t] by blast
    next
      case (OpOk r)
      show ?thesis
      proof (cases "scrape_equals r (PtrScrape item) = Some True")
        case True
        then have "s' = s1" using a Pair OpOk by (simp add: add_cases [OF k] add_found_def)
        then show ?thesis using find_again [of "key_query_of f item"] Pair OpOk c True by blast
      next
        case False
        then have "bkUpdate bk (key_query_of f item) item s1 = (OpOk (), s')"
          using a Pair OpOk by (auto simp: add_cases [OF k] add_found_def split: prod.splits op_result.splits option.splits bool.splits)
        then show ?thesis using update_find [OF k t] Pair OpOk by blast
      qed
    qed
  qed
  then obtain r where r: "fst (bkFind bk (key_query_of f item) empty_scrape_item s') = OpOk r"
    "modelData r = modelData item \<or> scrape_equals r (PtrScrape item) = Some True \<and> comparable r" by blast
  have "distinct (map fst (data_of item))" using keeps_comparable [OF t] by (simp add: comparable_def)
  then have "model_lookup r = model_lookup item"
    using r(2) scrape_equals_iff [of r item] by (auto simp: model_lookup_def)
  then show ?thesis using r(1) by blast
qed

text \<open>A second \<open>Add\<close> of an item that was new finds it and changes nothing.\<close>

lemma add_twice:
  assumes k: "keyed_by (primaryKey st) f item" and t: "keeps item"
    and a: "keyed_add bk uuid st item s = (OpOk (), item', s')" and n: "isNew item'"
  shows "\<exists>s''. keyed_add bk uuid' st item s' = (OpOk (), setState False False item, s'')
    \<and> (\<exists>r. bkFind bk (key_query_of f item) empty_scrape_item s' = (OpOk r, s''))"
proof -
  obtain res s1 where f: "bkFind bk (key_query_of f item) empty_scrape_item s = (res, s1)" by (cases "bkFind bk (key_query_of f item) empty_scrape_item s")
  have "\<exists>e. res = OpError e"
    using a n f by (cases res) (auto simp: add_cases [OF k] add_found_def setState_def split: option.splits bool.splits prod.splits op_result.splits)
  then obtain i where c: "bkCreateWithID bk (primaryKey st) item (indexKeys st) s1 = (OpOk (), i, s')"
    using a f by (auto simp: add_cases [OF k] add_new_def split: prod.splits op_result.splits)
  from create_find [OF k t c] obtain r where r: "fst (bkFind bk (key_query_of f item) empty_scrape_item s') = OpOk r"
      "modelData r = modelData item" by blast
  then obtain s'' where "bkFind bk (key_query_of f item) empty_scrape_item s' = (OpOk r, s'')" by (metis prod.collapse)
  moreover have "scrape_equals r (PtrScrape item) = Some True" by (rule equal_data [OF r(2) keeps_comparable [OF t]])
  ultimately show ?thesis by (auto simp: add_cases [OF k] add_found_def)
qed

end

subsection \<open>The store of bolt as a backing\<close>

definition bolt_backing :: "'d db_ops \<Rightarrow> codec \<Rightarrow> 'd storage backing" where
  "bolt_backing B C =
     \<lparr>bkFind = (\<lambda>q. storage_find B C (Some q)), bkUpdate = (\<lambda>q. storage_update B C (Some q)),
      bkCreateWithID = (\<lambda>k item uk. createWithID B C (Some k) item (Some uk)),
      bkCreate = (\<lambda>uuid item k. storage_create B C uuid item (Some k))\<rparr>"

text \<open>What the JSON codec keeps: the fields of an item whose values are ASCII text (numbers come back
as floats, text that is no UTF-8 is replaced).\<close>

definition ascii :: "string \<Rightarrow> bool" where
  "ascii s \<longleftrightarrow> (\<forall>c\<in>set s. of_char c < (128::nat))"

definition textual :: "scrape_item \<Rightarrow> bool" where
  "textual i \<longleftrightarrow> distinct (map fst (data_of i))
     \<and> (\<forall>(k, v)\<in>set (data_of i). ascii k \<and> (\<exists>s. v = VStr s \<and> ascii s))"

definition keeps_text :: "codec \<Rightarrow> bool" where
  "keeps_text C \<longleftrightarrow> (\<forall>i bytes. textual i \<longrightarrow> marshal C i = Some bytes \<longrightarrow>
     (\<exists>r. unmarshalAt C (Some bytes) empty_scrape_item = Some r \<and> modelData r = modelData i))"

lemma textual_comparable: "textual i \<Longrightarrow> comparable i"
  by (fastforce simp: textual_def comparable_def go_equal_def)

text \<open>The result of a view does not depend on the metadata.\<close>

lemma tx_then_fst:
  assumes "fst (s m d) = fst (s m' d)" "\<And>a d1 n n'. fst (f a n d1) = fst (f a n' d1)"
  shows "fst (tx_then s f m d) = fst (tx_then s f m' d)"
  using assms(1) by (cases "s m d"; cases "s m' d") (auto simp: tx_then_def assms(2) split: tx_result.splits)

lemma view_index_open: "fst (getIndex B C False p kind name m d) = open_index B False p kind (indexPrefix @ name) d"
  by (cases m; cases "addIndex name (indexPrefix @ name) (kind = KindUnique) (fst m)"; rename_tac b x; case_tac b)
     (auto simp: getIndex_def tx_then_def tx_lift_def saveMetadata_def split: tx_result.splits option.splits)

lemma view_index_fst: "fst (getIndex B C False p kind name m d) = fst (getIndex B C False p kind name m' d)"
  by (simp only: view_index_open)

lemma decode_fst: "fst (decode_into C r raw m d) = fst (decode_into C r raw m' d)"
  by (simp add: decode_into_def split: option.split)

lemma look_fst:
  fixes m m' :: "metadata \<times> 'i"
  shows "fst (getFromIndexedQuery B C False root name q r m d) = fst (getFromIndexedQuery B C False root name q r m' d)"
proof -
  have pk: "fst (getByDefaultPKIndex B C False p i m d) = fst (getByDefaultPKIndex B C False p i m' d)"
    for p i d and m m' :: "metadata \<times> 'i"
    unfolding getByDefaultPKIndex_def getUniqueIndexFromKeys_def
    by (rule tx_then_fst, rule view_index_fst) (auto split: option.split)
  have rec: "fst (getRecordByIndexOrDefault B C False p ix v r m d) = fst (getRecordByIndexOrDefault B C False p ix v r m' d)"
    for p ix v d and m m' :: "metadata \<times> 'i"
    unfolding getRecordByIndexOrDefault_def
  proof (rule tx_then_fst)
    show "fst (tx_lift (getByIndex B p ix v) m d) = fst (tx_lift (getByIndex B p ix v) m' d)" by (simp add: tx_lift_def)
  next
    fix a d1 and n n' :: "metadata \<times> 'i"
    show "fst ((case a of (i, raw) \<Rightarrow> case raw of Some x \<Rightarrow> decode_into C r (Some x)
        | None \<Rightarrow> tx_then (getByDefaultPKIndex B C False p i) (decode_into C r)) n d1)
      = fst ((case a of (i, raw) \<Rightarrow> case raw of Some x \<Rightarrow> decode_into C r (Some x)
        | None \<Rightarrow> tx_then (getByDefaultPKIndex B C False p i) (decode_into C r)) n' d1)"
      by (cases a; cases "snd a") (simp_all add: decode_fst tx_then_fst [where s = "getByDefaultPKIndex B C False p i" for i, OF pk decode_fst])
  qed
  show ?thesis
    unfolding getFromIndexedQuery_def getIndexFromQuery_def
    by (auto split: option.split intro!: tx_then_fst view_index_fst rec)
qed

definition view_look :: "'d db_ops \<Rightarrow> codec \<Rightarrow> key_query \<Rightarrow> scrape_item \<Rightarrow> 'd storage \<Rightarrow> scrape_item op_result \<times> 'd storage" where
  "view_look B C q r s =
     (case dbView (getFromIndexedQuery B C False (rootBucket s) namespaceResultsBucketName q r) () s of (x, _, s') \<Rightarrow> (x, s'))"

lemma view_look_again:
  assumes "view_look B C q r s = (x, s')" "stDb t = stDb s'" "rootBucket t = rootBucket s'"
  shows "fst (view_look B C q r t) = x"
proof -
  have "fst (view_look B C q r s) =
      (case fst (getFromIndexedQuery B C False (rootBucket s) namespaceResultsBucketName q r (m, ()) (stDb s)) of
         TxOk a _ \<Rightarrow> OpOk a | TxError e \<Rightarrow> OpError e | TxPanic \<Rightarrow> OpPanic)" for s m
    using look_fst [of B C "rootBucket s" namespaceResultsBucketName q r "(stMeta s, ())" "stDb s" "(m, ())"]
    by (auto simp: view_look_def dbView_def split: prod.splits tx_result.splits)
  moreover have "stDb s' = stDb s" "rootBucket s' = rootBucket s"
    using assms(1) by (auto simp: view_look_def dbView_def split: prod.splits tx_result.splits)
  ultimately show ?thesis using assms by (metis fst_conv)
qed

lemma storage_find_look:
  "storage_find B C (Some q) r s =
     (case view_look B C q r s of
        (OpError IndexMissing, s1) \<Rightarrow>
          (case indexQuery B C namespaceResultsBucketName q s1 of
             (OpOk _, s2) \<Rightarrow> view_look B C q r s2
           | (OpError e, s2) \<Rightarrow> (OpError e, s2)
           | (OpPanic, s2) \<Rightarrow> (OpPanic, s2))
      | x \<Rightarrow> x)"
  by (simp only: storage_find_def view_look_def Let_def option.case)

lemma storage_find_again:
  assumes "storage_find B C (Some q) r s = (OpOk x, s')"
  shows "fst (storage_find B C (Some q) r s') = OpOk x"
proof -
  have "\<exists>t. view_look B C q r t = (OpOk x, s')"
    using assms by (auto simp: storage_find_look split: prod.splits op_result.splits store_error.splits)
  then have "fst (view_look B C q r s') = OpOk x" using view_look_again by blast
  then show ?thesis by (cases "view_look B C q r s'") (simp add: storage_find_look)
qed

lemma storage_update_stored:
  assumes L: "bolt_laws B" and q: "getIndexValueFromQuery [(f, w)] = Some v"
    and u: "storage_update B C (Some [(f, w)]) item s = (OpOk (), s')"
  shows "\<exists>b bytes. marshal C item = Some bytes \<and> stored_at B f v b bytes s'"
proof -
  let ?p = "results_path s" and ?ix = "index_path s f"
  obtain r d1 x d2 m2 d3 m3 where
    s1: "assertNamespaceBucket B True (rootBucket s) namespaceResultsBucketName (stDb s) = TxOk r d1" and
    s2: "getIndex B C True (Some r) KindUnique f (stMeta s, ()) d1 = (TxOk x d2, m2)" and
    c: "(case (idx_all B x v singleItemCursor d2, marshal C item) of
           (_, None) \<Rightarrow> (TxError MarshalError, m2)
         | (Some (i # _), Some bytes) \<Rightarrow> (of_bolt (db_put B r i bytes d2), m2)
         | _ \<Rightarrow> (TxPanic, m2)) = (TxOk () d3, m3)" and
    s6: "s' = s\<lparr>stDb := d3, stMeta := fst m3\<rparr>"
    using u unfolding storage_update_def
    by (auto simp: update_ok tx_then_ok tx_lift_ok getIndexFromQuery_def index_name_single q split: prod.splits)
  obtain bytes where s4: "marshal C item = Some bytes" using c by (cases "marshal C item") (auto split: option.splits list.splits)
  obtain i rest where s3: "idx_all B x v singleItemCursor d2 = Some (i # rest)"
    using c s4 by (cases "idx_all B x v singleItemCursor d2"; cases "the (idx_all B x v singleItemCursor d2)") auto
  have s5: "db_put B r i bytes d2 = (True, d3)" using c s3 s4 by (simp add: of_bolt_ok)
  note f1 = assert_namespace_frame [OF L s1]
  have r: "r = ?p" using f1(1) by (simp add: results_path_def)
  note f2 = getIndex_ok [OF L s2 [unfolded r]]
  have x: "x = UniqueIx ?ix" using f2(1) by (simp add: index_path_def)
  have i: "bucket_get B ?ix v d2 = Some i" using s3 by (auto simp: x ui_all_def)
  note f3 = put_frame [OF L s5]
  have ne: "?ix \<noteq> ?p" by (simp add: index_path_def)
  have g: "bucket_get B ?ix v d3 = Some i" "bucket_get B ?p i d3 = Some bytes" "bucket_exists B ?ix d3"
    using frame_get [OF f3, of ?ix v] i ne r put_ok_get [OF L s5] frame_exists [OF f3 f2(3)] by (simp_all add: index_path_def)
  have "getBucket B (rootBucket s) [namespaceResultsBucketName] d3 = Some ?p"
    unfolding getBucket_def results_path_def [symmetric]
    by (rule getRootBucket_exists)
       (use f1(3) frame_exists [OF frame_trans [OF f2(2) f3]] in \<open>auto simp: results_path_def\<close>)
  then show ?thesis
    using g s4 s6 by (intro exI [of _ i] exI [of _ bytes]) (simp add: stored_at_def index_path_def results_path_def)
qed

locale bolt_store =
  fixes B :: "'d db_ops" and C :: codec
  assumes laws: "bolt_laws B" and codec: "keeps_text C"
begin

lemma decoded:
  assumes "stored_at B f v b bytes s" "getIndexValueFromQuery [(f, w)] = Some v"
    and "marshal C i = Some bytes" "textual i"
  shows "\<exists>r. fst (storage_find B C (Some [(f, w)]) empty_scrape_item s) = OpOk r \<and> modelData r = modelData i"
  using find_stored [OF assms(1,2), of C empty_scrape_item] codec assms(3,4) by (fastforce simp: keeps_text_def)

lemma setID_data: "modelData (setID n i) = modelData i" "textual (setID n i) = textual i"
  by (simp_all add: setID_def textual_def data_of_def)

lemma is_backing: "item_backing (bolt_backing B C) textual"
proof
  show "\<exists>r. fst (bkFind (bolt_backing B C) (key_query_of f item) empty_scrape_item s') = OpOk r \<and> modelData r = modelData item"
    if k: "keyed_by k f item" and t: "textual item"
      and c: "bkCreateWithID (bolt_backing B C) k item uk s = (OpOk (), item', s')" for k f item uk s item' s'
  proof -
    obtain bytes where y: "item' = setID (itemID item') item" "marshal C item' = Some bytes"
      "stored_under B f (key_string (reflect_scrape item) f) bytes s'"
      using createWithID_ok [OF laws c [unfolded bolt_backing_def, simplified] key_value(2) [OF k]] key_value(1) [OF k] by auto
    then obtain b where "stored_at B f (key_string (reflect_scrape item) f) b bytes s'" by (auto simp: stored_under_def)
    moreover have "textual item'" "modelData item' = modelData item" using y(1) t setID_data by metis+
    ultimately show ?thesis using decoded [OF _ key_value(3) [OF k] y(2)] by (simp add: bolt_backing_def)
  qed
  show "\<exists>n. item' = setID n item"
    if c: "bkCreateWithID (bolt_backing B C) k item uk s = (OpOk (), item', s')" and k: "keyed_by k f item" for k item uk s item' s' f
    using createWithID_ok [OF laws c [unfolded bolt_backing_def, simplified] key_value(2) [OF k]] by auto
  show "\<exists>r. fst (bkFind (bolt_backing B C) (key_query_of f item) empty_scrape_item s') = OpOk r \<and> modelData r = modelData item"
    if k: "keyed_by k f item" and t: "textual item"
      and u: "bkUpdate (bolt_backing B C) (key_query_of f item) item s = (OpOk (), s')" for k f item s s'
  proof -
    obtain b bytes where y: "marshal C item = Some bytes" "stored_at B f (key_string (reflect_scrape item) f) b bytes s'"
      using storage_update_stored [OF laws key_value(3) [OF k] u [unfolded bolt_backing_def, simplified]] by blast
    show ?thesis using decoded [OF y(2) key_value(3) [OF k] y(1) t] by (simp add: bolt_backing_def)
  qed
  show "bkFind (bolt_backing B C) q result s = (OpOk r, s') \<Longrightarrow> fst (bkFind (bolt_backing B C) q result s') = OpOk r" for q result s r s'
    using storage_find_again by (simp add: bolt_backing_def)
  show "textual item \<Longrightarrow> comparable item" for item by (rule textual_comparable)
qed

end

sublocale bolt_store \<subseteq> item_backing "bolt_backing B C" textual
  by (rule is_backing)

subsection \<open>A codec of text\<close>

definition put_text :: "string \<Rightarrow> string" where
  "put_text s = replicate (length s) CHR ''x'' @ CHR '','' # s"

definition get_text :: "string \<Rightarrow> string \<times> string" where
  "get_text b = (let n = length (takeWhile (\<lambda>c. c = CHR ''x'') b); rest = drop (Suc n) b in (take n rest, drop n rest))"

fun put_pairs :: "(string \<times> go_value) list \<Rightarrow> string" where
  "put_pairs [] = []"
| "put_pairs ((k, v) # kvs) = put_text k @ put_text (case v of VStr s \<Rightarrow> s | _ \<Rightarrow> []) @ put_pairs kvs"

fun get_pairs :: "nat \<Rightarrow> string \<Rightarrow> (string \<times> go_value) list" where
  "get_pairs 0 b = []"
| "get_pairs (Suc n) b =
     (if b = [] then []
      else let (k, b1) = get_text b; (v, b2) = get_text b1 in (k, VStr v) # get_pairs n b2)"

definition text_codec :: codec where
  "text_codec =
     \<lparr>marshal = (\<lambda>i. case modelData i of None \<Rightarrow> Some [] | Some m \<Rightarrow> Some (CHR ''{'' # put_pairs m)),
      unmarshalAt = (\<lambda>raw r. case raw of None \<Rightarrow> None | Some [] \<Rightarrow> Some (r\<lparr>modelData := None\<rparr>)
        | Some (_ # b) \<Rightarrow> Some (r\<lparr>modelData := Some (get_pairs (length b) b)\<rparr>)),
      metadataBytes = (\<lambda>m. ''meta''), parseMetadata = (\<lambda>b. Some [])\<rparr>"

lemma get_put_text: "get_text (put_text s @ b) = (s, b)"
proof -
  have "takeWhile (\<lambda>c. c = CHR ''x'') (replicate n CHR ''x'' @ CHR '','' # t) = replicate n CHR ''x''" for n t
    by (induction n) simp_all
  then show ?thesis by (simp add: get_text_def put_text_def)
qed

lemma put_pairs_length: "length kvs \<le> length (put_pairs kvs)"
  by (induction kvs rule: put_pairs.induct) (simp_all add: put_text_def)

lemma get_put_pairs:
  "\<forall>(k, v)\<in>set kvs. \<exists>s. v = VStr s \<Longrightarrow> length kvs \<le> n \<Longrightarrow> get_pairs n (put_pairs kvs) = kvs"
proof (induction kvs arbitrary: n)
  case Nil
  then show ?case by (cases n) simp_all
next
  case (Cons e kvs)
  obtain k s where e: "e = (k, VStr s)" using Cons.prems(1) by (cases e) auto
  obtain m where n: "n = Suc m" using Cons.prems(2) by (cases n) auto
  have ne: "put_text k @ b \<noteq> []" for b by (simp add: put_text_def)
  show ?case
    using Cons.IH [of m] Cons.prems e n ne by (simp add: get_put_text)
qed

lemma text_codec_keeps: "keeps_text text_codec"
proof -
  have "get_pairs (length (put_pairs m)) (put_pairs m) = m" if "textual i" "modelData i = Some m" for i m
    by (rule get_put_pairs) (use that put_pairs_length in \<open>fastforce simp: textual_def data_of_def\<close>)+
  then show ?thesis by (auto simp: keeps_text_def text_codec_def split: option.splits)
qed

interpretation ref_store: bolt_store ref_ops text_codec
  by unfold_locales (rule ref_laws, rule text_codec_keeps)

subsection \<open>Properties\<close>

text \<open>After any \<open>Add\<close> that the storage over bolt accepts under a key of one field, whether it
created, updated or recognised the record, \<open>Find\<close> by that field gives a record with exactly the item's fields.\<close>

theorem keyed_add_then_find:
  assumes "bolt_laws B" "keeps_text C" "keyed_by (primaryKey st) f item" "textual item"
    and "keyed_add (bolt_backing B C) uuid st item s = (OpOk (), item', s')"
    and "\<forall>r s1. storage_find B C (Some (key_query_of f item)) empty_scrape_item s = (OpOk r, s1) \<longrightarrow> comparable r"
  shows "\<exists>r. fst (keyed_find (bolt_backing B C) (key_query_of f item) empty_scrape_item s') = OpOk r
    \<and> model_lookup r = model_lookup item"
proof -
  have b: "bolt_store B C" by (rule bolt_store.intro [OF assms(1,2)])
  obtain r where "fst (bkFind (bolt_backing B C) (key_query_of f item) empty_scrape_item s') = OpOk r"
    "model_lookup r = model_lookup item"
    using item_backing.add_then_find [OF bolt_store.is_backing [OF b] assms(3-5)] assms(6) by (auto simp: bolt_backing_def)
  then show ?thesis
    by (cases "bkFind (bolt_backing B C) (key_query_of f item) empty_scrape_item s'") (simp add: keyed_find_def)
qed

definition sample_keyed :: keyed where
  "sample_keyed = \<lparr>primaryKey = newKey [''ModelData.a''], indexKeys = empty_key\<rparr>"

definition sample_record :: scrape_item where
  "sample_record = sample_item [(''a'', VStr ''x''), (''b'', VStr ''y'')]"

definition sample_added :: "ref_db storage" where
  "sample_added = snd (snd (keyed_add (bolt_backing ref_ops text_codec) [] sample_keyed sample_record sample_store))"

lemma sample_facts:
  "keyed_by (primaryKey sample_keyed) ''ModelData.a'' sample_record" "textual sample_record"
  "fst (keyed_add (bolt_backing ref_ops text_codec) [] sample_keyed sample_record sample_store) = OpOk ()"
  "isNew (fst (snd (keyed_add (bolt_backing ref_ops text_codec) [] sample_keyed sample_record sample_store)))"
  "fst (storage_find ref_ops text_codec (Some (key_query_of ''ModelData.a'' sample_record)) empty_scrape_item sample_store)
     = OpError NotFound"
proof -
  show "keyed_by (primaryKey sample_keyed) ''ModelData.a'' sample_record" by code_simp
  have "\<forall>c\<in>set ''abxy''. of_char c < (128::nat)" by simp
  then show "textual sample_record"
    by (auto simp: textual_def sample_record_def sample_item_def data_of_def ascii_def)
  show "fst (keyed_add (bolt_backing ref_ops text_codec) [] sample_keyed sample_record sample_store) = OpOk ()" by code_simp
  show "isNew (fst (snd (keyed_add (bolt_backing ref_ops text_codec) [] sample_keyed sample_record sample_store)))" by code_simp
  show "fst (storage_find ref_ops text_codec (Some (key_query_of ''ModelData.a'' sample_record)) empty_scrape_item sample_store)
     = OpError NotFound" by code_simp
qed

lemma sample_add:
  "keyed_add (bolt_backing ref_ops text_codec) [] sample_keyed sample_record sample_store =
     (OpOk (), fst (snd (keyed_add (bolt_backing ref_ops text_codec) [] sample_keyed sample_record sample_store)), sample_added)"
  unfolding sample_added_def by (rule prod_eqI) (simp_all add: sample_facts(3))

theorem keyed_add_then_find_witness:
  "\<exists>r. fst (keyed_find (bolt_backing ref_ops text_codec) (key_query_of ''ModelData.a'' sample_record) empty_scrape_item sample_added)
     = OpOk r \<and> model_lookup r = model_lookup sample_record"
  by (rule keyed_add_then_find [OF ref_laws text_codec_keeps sample_facts(1,2) sample_add])
     (use sample_facts(5) in auto)

text \<open>safety. Adding the same item again after it was new neither creates nor updates: the item
is reported as neither new nor an update, and the store is as after looking the record up.\<close>

theorem keyed_add_twice:
  assumes "bolt_laws B" "keeps_text C" "keyed_by (primaryKey st) f item" "textual item"
    and "keyed_add (bolt_backing B C) uuid st item s = (OpOk (), item', s')" "isNew item'"
  shows "\<exists>s'' r. keyed_add (bolt_backing B C) uuid' st item s' = (OpOk (), setState False False item, s'')
    \<and> storage_find B C (Some (key_query_of f item)) empty_scrape_item s' = (OpOk r, s'')"
proof -
  have b: "bolt_store B C" by (rule bolt_store.intro [OF assms(1,2)])
  show ?thesis using item_backing.add_twice [OF bolt_store.is_backing [OF b] assms(3-6)] by (auto simp: bolt_backing_def)
qed

theorem keyed_add_twice_witness:
  "fst (keyed_add (bolt_backing ref_ops text_codec) [] sample_keyed sample_record sample_added) = OpOk ()
   \<and> fst (snd (keyed_add (bolt_backing ref_ops text_codec) [] sample_keyed sample_record sample_added)) =
       setState False False sample_record"
  using keyed_add_twice [OF ref_laws text_codec_keeps sample_facts(1,2) sample_add sample_facts(4), of "[]"] by auto

end
