(* ===== verification/Workpool.thy ===== *)
theory Workpool
  imports SearchIterator ResultItem
begin

text \<open>
  The concurrent search of \<open>indexer/workpool.go\<close>: a feeder goes over the iterators of the indexes and
  puts jobs on a bounded channel, workers take them, search, and put the results on another bounded
  channel. One rule of the step relation is one action of a goroutine between two points where another
  one can interfere. \<open>Facade.Search\<close> hands out the channel of results only when the feeder has
  ended, so nobody receives before that.

  What the search of an index answers is the environment's choice (\<open>answers\<close>); the items are those
  after \<open>saveDiscoveredItems\<close>, which tells them whether they are new. An index is its position; the
  order in which the map of iterators is ranged over is any permutation.
\<close>

record worker_job =
  jobFields :: "(string \<times> string) list"
  jobPage :: uint64
  jobID :: string
  jobIndex :: nat

definition newWorkerJob :: "nat \<Rightarrow> (string \<times> string) list \<Rightarrow> uint64 \<Rightarrow> worker_job" where
  "newWorkerJob i fs page = \<lparr>jobFields = fs, jobPage = page, jobID = [], jobIndex = i\<rparr>"

definition job_string :: "worker_job \<Rightarrow> string" where
  "job_string j = join '',''
     ((''page: '' @ itoa (uint (jobPage j))) # map (\<lambda>(n, v). ''{'' @ n @ '': '' @ v @ ''}'') (jobFields j))"

definition job_setID :: "string \<Rightarrow> worker_job \<Rightarrow> worker_job" where
  "job_setID i j = j\<lparr>jobID := i\<rparr>"

text \<open>Where a worker is in the body of its loop.\<close>

datatype worker =
  Waiting | Got worker_job | Searching worker_job
| Sending "scrape_item list" worker_job | Sent worker_job | Gone

text \<open>Where the feeder is: before the test of the loop, in the range over the iterators, at the send.\<close>

datatype feeder = FeedLoop | FeedRange "nat list" | FeedSend worker_job "nat list" | FeedDone

record pool =
  iterators :: "iterator list"
  poolQuery :: query
  workChannel :: "worker_job list"
  resultsChannel :: "scrape_item list list"
  workers :: "worker list"
  feeder :: feeder
  searchedJobs :: "worker_job list"
  savedItems :: "scrape_item list"
  received :: "scrape_item list list"

text \<open>Both channels have room for as many elements as there are workers.\<close>

definition workerCount :: "pool \<Rightarrow> nat" where
  "workerCount s = length (workers s)"

fun complete_loop :: "query \<Rightarrow> uint64 \<Rightarrow> bool \<Rightarrow> iterator list \<Rightarrow> bool" where
  "complete_loop q found completedAll [] = completedAll"
| "complete_loop q found completedAll (it # its) =
     (let found' = found + discoveredItems it
      in if hasEnoughResults q found' then True
         else complete_loop q found' (if completedAll \<and> \<not> iter_isComplete it then False else completedAll) its)"

definition pool_isComplete :: "pool \<Rightarrow> bool" where
  "pool_isComplete s = (if iterators s = [] then True else complete_loop (poolQuery s) 0 True (iterators s))"

text \<open>\<open>None\<close>: making an iterator for the query panics.\<close>

definition createWorkerPool :: "nat \<Rightarrow> query \<Rightarrow> nat \<Rightarrow> pool option" where
  "createWorkerPool indexes q n =
     map_option (\<lambda>its.
       \<lparr>iterators = its, poolQuery = q, workChannel = [], resultsChannel = [],
        workers = replicate n Waiting, feeder = FeedLoop, searchedJobs = [],
        savedItems = [], received = []\<rparr>)
     (if indexes = 0 then Some [] else map_option (replicate indexes) (newIterator q))"

definition job_complete :: "pool \<Rightarrow> worker_job \<Rightarrow> bool" where
  "job_complete s j = iter_isComplete (iterators s ! jobIndex j)"

definition goto :: "nat \<Rightarrow> worker \<Rightarrow> pool \<Rightarrow> pool" where
  "goto n w s = s\<lparr>workers := (workers s)[n := w]\<rparr>"

definition update_iterator :: "nat \<Rightarrow> (iterator \<Rightarrow> iterator) \<Rightarrow> pool \<Rightarrow> pool" where
  "update_iterator i f s = s\<lparr>iterators := (iterators s)[i := f (iterators s ! i)]\<rparr>"

subsection \<open>The feeder\<close>

inductive feed_step :: "pool \<Rightarrow> pool \<Rightarrow> bool" where
  feed_close: "feeder s = FeedLoop \<Longrightarrow> pool_isComplete s \<Longrightarrow> feed_step s (s\<lparr>feeder := FeedDone\<rparr>)"
| feed_range: "feeder s = FeedLoop \<Longrightarrow> \<not> pool_isComplete s \<Longrightarrow> mset order = mset [0..<length (iterators s)] \<Longrightarrow>
     feed_step s (s\<lparr>feeder := FeedRange order\<rparr>)"
| feed_again: "feeder s = FeedRange [] \<Longrightarrow> feed_step s (s\<lparr>feeder := FeedLoop\<rparr>)"
| feed_skip: "feeder s = FeedRange (i # is) \<Longrightarrow> iter_isComplete (iterators s ! i) \<or> pool_isComplete s \<Longrightarrow>
     feed_step s (s\<lparr>feeder := FeedRange is\<rparr>)"
| feed_next: "feeder s = FeedRange (i # is) \<Longrightarrow> \<not> iter_isComplete (iterators s ! i) \<Longrightarrow> \<not> pool_isComplete s \<Longrightarrow>
     iter_next (iterators s ! i) = ((fs, page), it') \<Longrightarrow>
     feed_step s (s\<lparr>iterators := (iterators s)[i := it'], feeder := FeedSend (newWorkerJob i fs page) is\<rparr>)"
| feed_send: "feeder s = FeedSend j is \<Longrightarrow> length (workChannel s) < workerCount s \<Longrightarrow>
     feed_step s (s\<lparr>workChannel := workChannel s @ [j], feeder := FeedRange is\<rparr>)"

subsection \<open>The workers\<close>

inductive work_step ::
    "(worker_job \<Rightarrow> string + scrape_item list option \<Rightarrow> bool) \<Rightarrow> nat \<Rightarrow> pool \<Rightarrow> pool \<Rightarrow> bool"
  for answers :: "worker_job \<Rightarrow> string + scrape_item list option \<Rightarrow> bool" and n :: nat where
  work_take: "workers s ! n = Waiting \<Longrightarrow> workChannel s = j # js \<Longrightarrow>
     work_step answers n s (goto n (Got j) (s\<lparr>workChannel := js\<rparr>))"
| work_ended: "workers s ! n = Waiting \<Longrightarrow> workChannel s = [] \<Longrightarrow> feeder s = FeedDone \<Longrightarrow>
     work_step answers n s (goto n Gone s)"
| work_break: "workers s ! n = Got j \<Longrightarrow> pool_isComplete s \<or> job_complete s j \<Longrightarrow>
     work_step answers n s (goto n Gone s)"
| work_search: "workers s ! n = Got j \<Longrightarrow> \<not> pool_isComplete s \<Longrightarrow> \<not> job_complete s j \<Longrightarrow>
     work_step answers n s (goto n (Searching j) (s\<lparr>searchedJobs := searchedJobs s @ [j]\<rparr>))"
| work_failed: "workers s ! n = Searching j \<Longrightarrow> answers j (Inl e) \<Longrightarrow>
     work_step answers n s (goto n Waiting s)"
| work_nothing: "workers s ! n = Searching j \<Longrightarrow> answers j (Inr None) \<Longrightarrow>
     work_step answers n s (goto n (Sent j) (update_iterator (jobIndex j) (updateIteratorState []) s))"
| work_found: "workers s ! n = Searching j \<Longrightarrow> answers j (Inr (Some items)) \<Longrightarrow>
     work_step answers n s (goto n (Sending items j)
       (update_iterator (jobIndex j) (updateIteratorState (map isNew items))
         (s\<lparr>savedItems := savedItems s @ items\<rparr>)))"
| work_send: "workers s ! n = Sending items j \<Longrightarrow> length (resultsChannel s) < workerCount s \<Longrightarrow>
     work_step answers n s (goto n (Sent j) (s\<lparr>resultsChannel := resultsChannel s @ [items]\<rparr>))"
| work_stop: "workers s ! n = Sent j \<Longrightarrow> job_complete s j \<Longrightarrow> work_step answers n s (goto n Gone s)"
| work_on: "workers s ! n = Sent j \<Longrightarrow> \<not> job_complete s j \<Longrightarrow> work_step answers n s (goto n Waiting s)"

subsection \<open>The whole search\<close>

text \<open>\<open>receive\<close> is the caller of \<open>Facade.Search\<close>, which has the channel once the feeder has ended.\<close>

inductive pool_step ::
    "(worker_job \<Rightarrow> string + scrape_item list option \<Rightarrow> bool) \<Rightarrow> pool \<Rightarrow> pool \<Rightarrow> bool"
  for answers :: "worker_job \<Rightarrow> string + scrape_item list option \<Rightarrow> bool" where
  feed: "feed_step s t \<Longrightarrow> pool_step answers s t"
| work: "n < length (workers s) \<Longrightarrow> work_step answers n s t \<Longrightarrow> pool_step answers s t"
| receive: "feeder s = FeedDone \<Longrightarrow> resultsChannel s = r # rs \<Longrightarrow>
     pool_step answers s (s\<lparr>resultsChannel := rs, received := received s @ [r]\<rparr>)"

inductive pool_run ::
    "(worker_job \<Rightarrow> string + scrape_item list option \<Rightarrow> bool) \<Rightarrow> pool \<Rightarrow> pool \<Rightarrow> bool"
  for answers :: "worker_job \<Rightarrow> string + scrape_item list option \<Rightarrow> bool" where
  start: "pool_run answers s s"
| step: "pool_run answers s t \<Longrightarrow> pool_step answers t u \<Longrightarrow> pool_run answers s u"

end
