(* ===== verification/WorkpoolFacts.thy ===== *)
theory WorkpoolFacts
  imports Workpool
begin

text \<open>
  What the pool does with a query of a fixed number of pages, whatever the schedule: no page is
  searched twice and the last page is never searched; and with more pages than the channels and the
  workers can hold, \<open>Facade.Search\<close> never returns.
\<close>

subsection \<open>Iterators over pages\<close>

definition paged :: "query \<Rightarrow> iterator \<Rightarrow> bool" where
  "paged q it \<longleftrightarrow> fieldState it = [] \<and> startingPage it = qPage q
     \<and> pageCount it = numberOfPagesToFetch q \<and> itStopOnStale it = stopOnStale q"

text \<open>How many pages an iterator has given out.\<close>

definition given :: "iterator \<Rightarrow> nat" where
  "given it = unat (currentPage it - startingPage it)"

definition pages :: "query \<Rightarrow> nat" where
  "pages q = unat (numberOfPagesToFetch q)"

lemma complete_paged:
  assumes "paged q it" "0 < pages q"
  shows "iter_isComplete it \<longleftrightarrow> pages q \<le> given it \<or> (stopOnStale q \<and> reachedStale it)"
proof -
  have n: "numberOfPagesToFetch q \<noteq> 0" using assms(2) by (auto simp: pages_def)
  have "hasExceededPages it \<longleftrightarrow> pages q \<le> given it"
    using assms n by (auto simp: hasExceededPages_def Let_def paged_def given_def pages_def word_le_nat_alt unat_eq_zero)
  then show ?thesis
    using assms n by (auto simp: iter_isComplete_def Let_def paged_def hasNextFieldState_def)
qed

lemma next_paged:
  assumes "paged q it" "given it < pages q" "iter_next it = ((fs, page), it')"
  shows "fs = []" "unat (page - qPage q) = given it" "paged q it'" "given it' = Suc (given it)"
    "discoveredItems it' = discoveredItems it"
proof -
  have e: "it' = it\<lparr>fieldState := [], currentPage := currentPage it + 1\<rparr>" "fs = []" "page = currentPage it"
    using assms(1,3) by (auto simp: iter_next_def paged_def)
  show "fs = []" by (rule e(2))
  show "unat (page - qPage q) = given it" using assms(1) e(3) by (simp add: given_def paged_def)
  show "paged q it'" using assms(1) e(1) by (simp add: paged_def)
  let ?d = "currentPage it - startingPage it"
  have s: "currentPage it' - startingPage it' = ?d + 1" using e(1) by simp
  have "pages q < 2 ^ 64" unfolding pages_def using unsigned_less [of "numberOfPagesToFetch q"] by simp
  then have "unat ?d + 1 < 2 ^ 64" using assms(2) by (simp add: given_def)
  then have "unat (?d + 1) = Suc (unat ?d)" by (simp add: unat_word_ariths(1))
  then show "given it' = Suc (given it)" using s by (simp add: given_def)
  show "discoveredItems it' = discoveredItems it" using e(1) by simp
qed

lemma update_paged:
  "paged q (updateIteratorState b it) \<longleftrightarrow> paged q it" "given (updateIteratorState b it) = given it"
  by (simp_all add: updateIteratorState_def paged_def given_def Let_def)

lemma newIterator_paged:
  assumes "qFields q = []" "newIterator q = Some it"
  shows "paged q it" "given it = 0"
  using assms by (auto simp: newIterator_def paged_def given_def)

subsection \<open>Sums over the workers\<close>

lemma sum_list_replace:
  fixes f :: "'a \<Rightarrow> 'b::comm_monoid_add"
  assumes "n < length xs"
  shows "sum_list (map f (xs[n := x])) + f (xs ! n) = sum_list (map f xs) + f x"
  using assms
proof (induction xs arbitrary: n)
  case (Cons y ys)
  then show ?case by (cases n) (simp_all add: ac_simps)
qed simp

fun job_got :: "worker \<Rightarrow> worker_job multiset" where
  "job_got (Got j) = {#j#}"
| "job_got _ = {#}"

fun held :: "worker \<Rightarrow> nat" where
  "held (Got j) = 1"
| "held (Searching j) = 1"
| "held (Sending items j) = 1"
| "held _ = 0"

fun feed_job :: "feeder \<Rightarrow> worker_job multiset" where
  "feed_job (FeedSend j is) = {#j#}"
| "feed_job _ = {#}"

fun feed_rest :: "feeder \<Rightarrow> nat list" where
  "feed_rest (FeedRange is) = is"
| "feed_rest (FeedSend j is) = is"
| "feed_rest _ = []"

text \<open>The jobs searched so far, and those that still may be.\<close>

definition jobs_of :: "pool \<Rightarrow> worker_job multiset" where
  "jobs_of s = mset (searchedJobs s) + mset (workChannel s) + sum_list (map job_got (workers s)) + feed_job (feeder s)"

lemma goto_fields [simp]:
  "iterators (goto n w s) = iterators s" "poolQuery (goto n w s) = poolQuery s"
  "workChannel (goto n w s) = workChannel s" "resultsChannel (goto n w s) = resultsChannel s"
  "workers (goto n w s) = (workers s)[n := w]" "feeder (goto n w s) = feeder s"
  "searchedJobs (goto n w s) = searchedJobs s" "received (goto n w s) = received s"
  by (simp_all add: goto_def)

lemma update_iterator_fields [simp]:
  "iterators (update_iterator i f s) = (iterators s)[i := f (iterators s ! i)]"
  "poolQuery (update_iterator i f s) = poolQuery s"
  "workChannel (update_iterator i f s) = workChannel s" "resultsChannel (update_iterator i f s) = resultsChannel s"
  "workers (update_iterator i f s) = workers s" "feeder (update_iterator i f s) = feeder s"
  "searchedJobs (update_iterator i f s) = searchedJobs s" "received (update_iterator i f s) = received s"
  by (simp_all add: update_iterator_def)

definition job_offset :: "query \<Rightarrow> worker_job \<Rightarrow> nat" where
  "job_offset q j = unat (jobPage j - qPage q)"

definition job_place :: "query \<Rightarrow> worker_job \<Rightarrow> nat \<times> nat" where
  "job_place q j = (jobIndex j, job_offset q j)"

subsection \<open>No page twice, the last page never\<close>

definition once :: "'a multiset \<Rightarrow> bool" where
  "once M \<longleftrightarrow> (\<forall>x. count M x \<le> 1)"

lemma once_empty [simp]: "once {#}"
  by (simp add: once_def)

lemma once_add: "once M \<Longrightarrow> x \<notin># M \<Longrightarrow> once (add_mset x M)"
  by (simp add: once_def not_in_iff)

lemma once_image_mono: "A \<subseteq># B \<Longrightarrow> once (image_mset f B) \<Longrightarrow> once (image_mset f A)"
  unfolding once_def by (meson image_mset_subseteq_mono mset_subset_eq_count order_trans)

lemma once_distinct: "once (mset xs) \<Longrightarrow> distinct xs"
proof (induction xs)
  case (Cons x xs)
  have "count (mset xs) x = 0" using Cons.prems unfolding once_def by (metis One_nat_def Suc_le_mono count_add_mset le_zero_eq mset.simps(2))
  moreover have "once (mset xs)"
    using Cons.prems once_image_mono [of "mset xs" "mset (x # xs)" id] by simp
  ultimately show ?case using Cons.IH by (simp add: count_mset_0_iff)
qed simp

definition paging :: "query \<Rightarrow> pool \<Rightarrow> bool" where
  "paging q s \<longleftrightarrow>
     (\<forall>it\<in>set (iterators s). paged q it \<and> given it \<le> pages q)
     \<and> set (feed_rest (feeder s)) \<subseteq> {..<length (iterators s)}
     \<and> (\<forall>j\<in>#jobs_of s. jobIndex j < length (iterators s) \<and> job_offset q j < given (iterators s ! jobIndex j))
     \<and> (\<forall>j\<in>set (searchedJobs s). job_offset q j + 1 < pages q)
     \<and> once (image_mset (job_place q) (jobs_of s))"

lemma paging_shrinks:
  assumes "paging q s" "jobs_of t \<subseteq># jobs_of s" "length (iterators t) = length (iterators s)"
    and "\<And>i. i < length (iterators s) \<Longrightarrow> given (iterators t ! i) = given (iterators s ! i)"
    and "\<And>i. i < length (iterators s) \<Longrightarrow> paged q (iterators t ! i)"
    and "set (feed_rest (feeder t)) \<subseteq> {..<length (iterators s)}"
    and "\<And>j. j \<in> set (searchedJobs t) \<Longrightarrow> job_offset q j + 1 < pages q"
  shows "paging q t"
proof -
  have "paged q it \<and> given it \<le> pages q" if "it \<in> set (iterators t)" for it
    using that assms(1,3-5) unfolding paging_def by (metis in_set_conv_nth)
  moreover have "jobIndex j < length (iterators t) \<and> job_offset q j < given (iterators t ! jobIndex j)" if "j \<in># jobs_of t" for j
    using that assms(1-4) unfolding paging_def by (metis mset_subset_eqD)
  ultimately show ?thesis
    using assms(1,3,6,7) once_image_mono [OF assms(2), of "job_place q"] by (simp add: paging_def)
qed

lemma feed_paging:
  assumes "feed_step s t" "paging q s" "0 < pages q"
  shows "paging q t"
  using assms(1)
proof cases
  case feed_close
  then show ?thesis using assms(2) by (intro paging_shrinks [OF assms(2)]) (auto simp: jobs_of_def paging_def)
next
  case (feed_range order)
  then have "set order = {..<length (iterators s)}" using mset_eq_setD by fastforce
  then show ?thesis using feed_range assms(2) by (intro paging_shrinks [OF assms(2)]) (auto simp: jobs_of_def paging_def)
next
  case feed_again
  then show ?thesis using assms(2) by (intro paging_shrinks [OF assms(2)]) (auto simp: jobs_of_def paging_def)
next
  case (feed_skip i "is")
  then show ?thesis using assms(2) by (intro paging_shrinks [OF assms(2)]) (auto simp: jobs_of_def paging_def)
next
  case (feed_send j "is")
  then show ?thesis using assms(2) by (intro paging_shrinks [OF assms(2)]) (auto simp: jobs_of_def paging_def)
next
  case (feed_next i "is" fs page it')
  let ?it = "iterators s ! i" and ?j = "newWorkerJob i fs page"
  have i: "i < length (iterators s)" using assms(2) feed_next(2) by (auto simp: paging_def)
  then have p: "paged q ?it" "given ?it \<le> pages q" using assms(2) by (auto simp: paging_def)
  then have "given ?it < pages q" using feed_next(3) complete_paged [OF p(1) assms(3)] by auto
  note n = next_paged [OF p(1) this feed_next(5)]
  have o: "job_place q ?j = (i, given ?it)" "jobIndex ?j = i" "job_offset q ?j = given ?it"
    using n(2) by (simp_all add: job_place_def job_offset_def newWorkerJob_def)
  have jt: "jobs_of t = add_mset ?j (jobs_of s)" using feed_next(1,2) by (simp add: jobs_of_def)
  have it: "iterators t = (iterators s)[i := it']" using feed_next(1) by simp
  have new: "(i, given ?it) \<notin># image_mset (job_place q) (jobs_of s)"
  proof
    assume "(i, given ?it) \<in># image_mset (job_place q) (jobs_of s)"
    then obtain j where "j \<in># jobs_of s" "jobIndex j = i" "job_offset q j = given ?it" by (auto simp: job_place_def)
    then show False using assms(2) by (auto simp: paging_def)
  qed
  have "once (image_mset (job_place q) (jobs_of t))"
    using assms(2) once_add [OF _ new] unfolding jt by (simp add: paging_def o(1))
  moreover have "\<forall>x\<in>set (iterators t). paged q x \<and> given x \<le> pages q"
    using assms(2) n(3,4) \<open>given ?it < pages q\<close> set_update_subset_insert [of "iterators s" i it'] unfolding it
    by (auto simp: paging_def)
  moreover have "jobIndex j < length (iterators t) \<and> job_offset q j < given (iterators t ! jobIndex j)" if "j \<in># jobs_of t" for j
  proof (cases "j = ?j")
    case True
    then show ?thesis using i o n(4) by (simp add: it)
  next
    case False
    then have "j \<in># jobs_of s" using that jt by simp
    then show ?thesis using assms(2) n(4) by (cases "jobIndex j = i") (auto simp: paging_def it less_SucI)
  qed
  moreover have "set (feed_rest (feeder t)) \<subseteq> {..<length (iterators t)}" "searchedJobs t = searchedJobs s"
    using assms(2) feed_next(1,2) by (auto simp: paging_def)
  ultimately show ?thesis using assms(2) by (simp add: paging_def)
qed

lemma jobs_replace:
  "n < length ws \<Longrightarrow> sum_list (map job_got (ws[n := x])) + job_got (ws ! n) = sum_list (map job_got ws) + job_got x"
  by (rule sum_list_replace)

lemma nth_got_subset: "n < length ws \<Longrightarrow> job_got (ws ! n) \<subseteq># sum_list (map job_got ws)"
  by (induction ws arbitrary: n) (auto simp: nth_Cons split: nat.splits intro: subset_mset.add_increasing2 subset_mset.add_increasing)

lemma work_paging:
  assumes "work_step answers n s t" "n < length (workers s)" "paging q s" "0 < pages q"
  shows "paging q t"
proof -
  have e: "given (((iterators s)[i := updateIteratorState b (iterators s ! i)]) ! k) = given (iterators s ! k)
      \<and> paged q (((iterators s)[i := updateIteratorState b (iterators s ! i)]) ! k)"
    if "k < length (iterators s)" for i k b
    using that assms(3) by (cases "k = i") (auto simp: update_paged paging_def)
  have f: "set (feed_rest (feeder s)) \<subseteq> {..<length (iterators s)}" "paged q (iterators s ! k)"
    if "k < length (iterators s)" for k using assms(3) that by (auto simp: paging_def)
  have g: "set (feed_rest (feeder s)) \<subseteq> {..<length (iterators s)}" using assms(3) by (auto simp: paging_def)
  have h: "j \<in> set (searchedJobs s) \<Longrightarrow> job_offset q j + 1 < pages q" for j using assms(3) by (auto simp: paging_def)
  note r = jobs_replace [OF assms(2)]
  note shrink = paging_shrinks [OF assms(3)]
  show ?thesis
    using assms(1)
  proof cases
    case (work_take j js)
    then have "jobs_of t = jobs_of s" using r [of "Got j"] by (simp add: jobs_of_def ac_simps)
    then show ?thesis by (intro shrink) (use work_take f g h in auto)
  next
    case work_ended
    then have "jobs_of t = jobs_of s" using r [of Gone] by (simp add: jobs_of_def)
    then show ?thesis by (intro shrink) (use work_ended f g h in auto)
  next
    case (work_break j)
    then have "jobs_of s = add_mset j (jobs_of t)" using r [of Gone] by (simp add: jobs_of_def)
    then show ?thesis by (intro shrink) (use work_break f g h in auto)
  next
    case (work_search j)
    then have eq: "jobs_of t = jobs_of s" using r [of "Searching j"] by (simp add: jobs_of_def)
    have "j \<in># jobs_of s" using nth_got_subset [OF assms(2)] work_search(2) by (auto simp: jobs_of_def dest: mset_subset_eqD)
    then have "jobIndex j < length (iterators s)" "job_offset q j < given (iterators s ! jobIndex j)"
      using assms(3) by (auto simp: paging_def)
    moreover from this have "given (iterators s ! jobIndex j) < pages q"
      using work_search(4) complete_paged [OF f(2) assms(4), of "jobIndex j"] by (auto simp: job_complete_def)
    ultimately have "job_offset q j + 1 < pages q" by simp
    with eq show ?thesis by (intro shrink) (use work_search f g h in auto)
  next
    case (work_failed j e)
    then have "jobs_of t = jobs_of s" using r [of Waiting] by (simp add: jobs_of_def)
    then show ?thesis by (intro shrink) (use work_failed f g h in auto)
  next
    case (work_nothing j)
    then have "jobs_of t = jobs_of s" using r [of "Sent j"] by (simp add: jobs_of_def)
    then show ?thesis by (intro shrink) (use work_nothing e g h in auto)
  next
    case (work_found j items)
    then have "jobs_of t = jobs_of s" using r [of "Sending items j"] by (simp add: jobs_of_def)
    then show ?thesis by (intro shrink) (use work_found e g h in auto)
  next
    case (work_send items j)
    then have "jobs_of t = jobs_of s" using r [of "Sent j"] by (simp add: jobs_of_def)
    then show ?thesis by (intro shrink) (use work_send f g h in auto)
  next
    case (work_stop j)
    then have "jobs_of t = jobs_of s" using r [of Gone] by (simp add: jobs_of_def)
    then show ?thesis by (intro shrink) (use work_stop f g h in auto)
  next
    case (work_on j)
    then have "jobs_of t = jobs_of s" using r [of Waiting] by (simp add: jobs_of_def)
    then show ?thesis by (intro shrink) (use work_on f g h in auto)
  qed
qed

lemma pool_paging:
  assumes "pool_step answers s t" "paging q s" "0 < pages q"
  shows "paging q t"
  using assms(1)
proof cases
  case feed
  then show ?thesis using feed_paging assms by blast
next
  case (work n)
  then show ?thesis using work_paging assms by blast
next
  case (receive r rs)
  then show ?thesis using assms(2) by (simp add: paging_def jobs_of_def)
qed

lemma run_paging: "pool_run answers s t \<Longrightarrow> paging q s \<Longrightarrow> 0 < pages q \<Longrightarrow> paging q t"
  by (induction rule: pool_run.induct) (blast intro: pool_paging)+

lemma create_paging:
  assumes "createWorkerPool m q n = Some s" "qFields q = []"
  shows "paging q s"
proof -
  have w: "sum_list (replicate n {#}) = {#}" by (induction n) simp_all
  show ?thesis
    using assms newIterator_paged [OF assms(2)]
    by (auto simp: createWorkerPool_def paging_def jobs_of_def w split: if_splits)
qed

lemma feed_length: "feed_step s t \<Longrightarrow> length (iterators t) = length (iterators s)"
  by (induction rule: feed_step.induct) simp_all

lemma work_length: "work_step answers n s t \<Longrightarrow> length (iterators t) = length (iterators s)"
  by (induction rule: work_step.induct) simp_all

lemma run_length: "pool_run answers s t \<Longrightarrow> length (iterators t) = length (iterators s)"
proof (induction rule: pool_run.induct)
  case (step s t u)
  from step(2) have "length (iterators u) = length (iterators t)"
    by cases (auto dest: feed_length work_length)
  with step.IH show ?case by simp
qed simp

lemma create_fields:
  assumes "createWorkerPool m q n = Some s"
  shows "length (iterators s) = m" "length (workers s) = n" "poolQuery s = q"
    "workChannel s = []" "feeder s = FeedLoop"
  using assms by (auto simp: createWorkerPool_def split: if_splits)

subsection \<open>More pages than there is room for\<close>

fun jobs_in :: "worker \<Rightarrow> worker_job set" where
  "jobs_in (Got j) = {j}"
| "jobs_in (Searching j) = {j}"
| "jobs_in (Sending items j) = {j}"
| "jobs_in (Sent j) = {j}"
| "jobs_in _ = {}"

definition filling :: "query \<Rightarrow> nat \<Rightarrow> nat \<Rightarrow> pool \<Rightarrow> bool" where
  "filling q m w s \<longleftrightarrow>
     length (iterators s) = m \<and> length (workers s) = w \<and> poolQuery s = q
     \<and> (\<forall>it\<in>set (iterators s). paged q it)
     \<and> feeder s \<noteq> FeedDone \<and> Gone \<notin> set (workers s)
     \<and> length (workChannel s) \<le> w \<and> length (resultsChannel s) \<le> w
     \<and> sum_list (map given (iterators s)) =
         length (workChannel s) + size (feed_job (feeder s)) + sum_list (map held (workers s)) + length (resultsChannel s)
     \<and> set (feed_rest (feeder s)) \<subseteq> {..<m}
     \<and> (\<forall>j\<in>set (workChannel s) \<union> set_mset (feed_job (feeder s)) \<union> \<Union>(jobs_in ` set (workers s)). jobIndex j < m)"

lemma sum_held: "sum_list (map held ws) \<le> length ws"
proof (induction ws)
  case (Cons x ws)
  have "held x \<le> 1" by (cases x) simp_all
  then show ?case using Cons by simp
qed simp

lemma size_feed_job: "size (feed_job f) \<le> 1"
  by (cases f) simp_all

lemma filling_bound:
  assumes "filling q m w s" "3 * w + 1 < pages q" "it \<in> set (iterators s)"
  shows "given it < pages q"
proof -
  have "given it \<le> sum_list (map given (iterators s))" using assms(3) by (simp add: member_le_sum_list)
  also have "\<dots> \<le> w + 1 + w + w"
    using assms(1) sum_held [of "workers s"] size_feed_job [of "feeder s"] unfolding filling_def by linarith
  finally show ?thesis using assms(2) by simp
qed

lemma complete_loop_unlimited:
  "qLimit q = 0 \<Longrightarrow> complete_loop q n b its \<longleftrightarrow> b \<and> (\<forall>it\<in>set its. iter_isComplete it)"
  by (induction q n b its rule: complete_loop.induct) (auto simp: Let_def hasEnoughResults_def)

lemma filling_incomplete:
  assumes "filling q m w s" "3 * w + 1 < pages q" "\<not> stopOnStale q" "qLimit q = 0" "0 < m"
  shows "i < m \<Longrightarrow> \<not> iter_isComplete (iterators s ! i)" "\<not> pool_isComplete s"
proof -
  have c: "\<not> iter_isComplete it" if "it \<in> set (iterators s)" for it
    using filling_bound [OF assms(1,2) that] complete_paged [of q it] assms(1,3) that by (auto simp: filling_def)
  show "i < m \<Longrightarrow> \<not> iter_isComplete (iterators s ! i)" using c assms(1) by (simp add: filling_def)
  have "iterators s \<noteq> []" using assms(1,5) by (auto simp: filling_def)
  then show "\<not> pool_isComplete s"
    using c assms(1,4) by (cases "iterators s") (auto simp: pool_isComplete_def filling_def complete_loop_unlimited simp del: complete_loop.simps)
qed

lemma held_replace:
  "n < length ws \<Longrightarrow> sum_list (map held (ws[n := x])) + held (ws ! n) = sum_list (map held ws) + held x"
  by (rule sum_list_replace)

lemma given_update: "map given (its[i := updateIteratorState b (its ! i)]) = map given its"
  by (cases "i < length its")
     (auto intro!: nth_equalityI simp: nth_list_update update_paged list_update_beyond)

lemma feed_filling:
  assumes "feed_step s t" "filling q m w s" "3 * w + 1 < pages q" "\<not> stopOnStale q" "qLimit q = 0" "0 < m"
  shows "filling q m w t"
proof -
  note inc = filling_incomplete [OF assms(2-6)]
  show ?thesis
    using assms(1)
  proof cases
    case feed_close
    then show ?thesis using inc(2) by simp
  next
    case (feed_range order)
    then have "set order = {..<length (iterators s)}" using mset_eq_setD by fastforce
    then show ?thesis using feed_range assms(2) by (auto simp: filling_def)
  next
    case feed_again
    then show ?thesis using assms(2) by (auto simp: filling_def)
  next
    case (feed_skip i "is")
    then show ?thesis using assms(2) by (auto simp: filling_def)
  next
    case (feed_send j "is")
    then show ?thesis using assms(2) by (auto simp: filling_def workerCount_def)
  next
    case (feed_next i "is" fs page it')
    have i: "i < length (iterators s)" using assms(2) feed_next(2) by (auto simp: filling_def)
    then have p: "paged q (iterators s ! i)" using assms(2) by (auto simp: filling_def)
    have "given (iterators s ! i) < pages q" by (rule filling_bound [OF assms(2,3)]) (simp add: i)
    note n = next_paged [OF p this feed_next(5)]
    have "sum_list (map given ((iterators s)[i := it'])) = Suc (sum_list (map given (iterators s)))"
      using sum_list_replace [OF i, of given it'] n(4) by simp
    moreover have "\<forall>x\<in>set ((iterators s)[i := it']). paged q x"
      using assms(2) n(3) set_update_subset_insert [of "iterators s" i it'] by (auto simp: filling_def)
    ultimately show ?thesis using assms(2) feed_next(1,2) i by (auto simp: filling_def newWorkerJob_def)
  qed
qed

lemma move_filling:
  assumes "filling q m w s" "n < w" "x \<noteq> Gone" "jobs_in x \<subseteq> jobs_in (workers s ! n) \<union> set (workChannel s)"
    and "map given (iterators t) = map given (iterators s)" "\<forall>it\<in>set (iterators t). paged q it"
    and "poolQuery t = poolQuery s" "workers t = (workers s)[n := x]" "feeder t = feeder s"
    and "set (workChannel t) \<subseteq> set (workChannel s)"
    and "length (workChannel t) \<le> w" "length (resultsChannel t) \<le> w"
    and "length (workChannel t) + held x + length (resultsChannel t)
        = length (workChannel s) + held (workers s ! n) + length (resultsChannel s)"
  shows "filling q m w t"
proof -
  have n: "n < length (workers s)" using assms(1,2) by (simp add: filling_def)
  have l: "length (iterators t) = length (iterators s)" using assms(5) by (metis length_map)
  have idx: "jobIndex j < m" if "j \<in> jobs_in y" "y \<in> set (workers s)" for j y
    using assms(1) that by (auto simp: filling_def)
  have chan: "jobIndex j < m" if "j \<in> set (workChannel s)" for j using assms(1) that by (simp add: filling_def)
  have "jobIndex j < m" if j: "j \<in> jobs_in y" "y \<in> set (workers t)" for j y
  proof (cases "y = x")
    case True
    then have "j \<in> jobs_in (workers s ! n) \<or> j \<in> set (workChannel s)" using assms(4) j(1) by blast
    then show ?thesis using idx [OF _ nth_mem [OF n]] chan by blast
  next
    case False
    then have "y \<in> set (workers s)"
      using j(2) set_update_subset_insert [of "workers s" n x] unfolding assms(8) by blast
    then show ?thesis using idx j(1) by blast
  qed
  then have "\<forall>j\<in>\<Union>(jobs_in ` set (workers t)). jobIndex j < m" by blast
  moreover have "Gone \<notin> set (workers t)"
    using assms(1,3) set_update_subset_insert [of "workers s" n x] unfolding assms(8) filling_def by blast
  moreover have "sum_list (map given (iterators t)) =
      length (workChannel t) + size (feed_job (feeder t)) + sum_list (map held (workers t)) + length (resultsChannel t)"
  proof -
    have "sum_list (map given (iterators s)) =
        length (workChannel s) + size (feed_job (feeder s)) + sum_list (map held (workers s)) + length (resultsChannel s)"
      using assms(1) by (simp add: filling_def)
    then show ?thesis using held_replace [OF n, of x] assms(13) unfolding assms(5,8,9) by linarith
  qed
  moreover have "\<forall>j\<in>set (workChannel t) \<union> set_mset (feed_job (feeder t)). jobIndex j < m"
    using assms(1,10) unfolding assms(9) filling_def by blast
  moreover have "length (workers t) = w" "length (iterators t) = m" "poolQuery t = q" "feeder t \<noteq> FeedDone"
    "set (feed_rest (feeder t)) \<subseteq> {..<m}"
    using assms(1,7-9) l by (simp_all add: filling_def)
  ultimately show ?thesis using assms(6,11,12) unfolding filling_def by blast
qed

lemma work_filling:
  assumes "work_step answers n s t" "n < length (workers s)" "filling q m w s" "3 * w + 1 < pages q"
    and "\<not> stopOnStale q" "qLimit q = 0" "0 < m" "\<And>j r. answers j r \<Longrightarrow> \<exists>items. r = Inr (Some items)"
  shows "filling q m w t"
proof -
  note inc = filling_incomplete [OF assms(3-7)]
  have n: "n < w" using assms(2,3) by (simp add: filling_def)
  have b: "length (workChannel s) \<le> w" "length (resultsChannel s) \<le> w" "\<forall>it\<in>set (iterators s). paged q it"
    "workerCount s = w"
    using assms(3) by (auto simp: filling_def workerCount_def)
  have idx: "j \<in> jobs_in (workers s ! n) \<Longrightarrow> \<not> job_complete s j" for j
  proof -
    assume "j \<in> jobs_in (workers s ! n)"
    then have "j \<in> \<Union>(jobs_in ` set (workers s))" using assms(2) by (meson UN_I nth_mem)
    then have "jobIndex j < m" using assms(3) by (simp add: filling_def)
    then show "\<not> job_complete s j" using inc(1) by (simp add: job_complete_def)
  qed
  note move = move_filling [OF assms(3) n]
  show ?thesis
    using assms(1)
  proof cases
    case (work_take j js)
    then show ?thesis using b by (intro move [of "Got j"]) auto
  next
    case work_ended
    then show ?thesis using assms(3) by (simp add: filling_def)
  next
    case (work_break j)
    then show ?thesis using inc(2) idx by simp
  next
    case (work_search j)
    then show ?thesis using b by (intro move [of "Searching j"]) auto
  next
    case (work_failed j e)
    then show ?thesis using assms(8) by blast
  next
    case (work_nothing j)
    then show ?thesis using assms(8) by blast
  next
    case (work_found j items)
    have "\<forall>x\<in>set ((iterators s)[jobIndex j := updateIteratorState (map isNew items) (iterators s ! jobIndex j)]). paged q x"
    proof (cases "jobIndex j < length (iterators s)")
      case True
      then show ?thesis
        using b(3) set_update_subset_insert [of "iterators s"] by (fastforce simp: update_paged)
    next
      case False
      then show ?thesis using b(3) by (simp add: list_update_beyond)
    qed
    then show ?thesis using work_found b by (intro move [of "Sending items j"]) (auto simp: given_update)
  next
    case (work_send items j)
    then show ?thesis using b by (intro move [of "Sent j"]) auto
  next
    case (work_stop j)
    then show ?thesis using idx by simp
  next
    case (work_on j)
    then show ?thesis using b by (intro move [of Waiting]) auto
  qed
qed

lemma pool_filling:
  assumes "pool_step answers s t" "filling q m w s" "3 * w + 1 < pages q"
    and "\<not> stopOnStale q" "qLimit q = 0" "0 < m" "\<And>j r. answers j r \<Longrightarrow> \<exists>items. r = Inr (Some items)"
  shows "filling q m w t"
  using assms(1)
proof cases
  case feed
  then show ?thesis using feed_filling assms(2-6) by blast
next
  case (work n)
  then show ?thesis using work_filling [OF work(2,1) assms(2-6)] assms(7) by blast
next
  case (receive r rs)
  then show ?thesis using assms(2) by (simp add: filling_def)
qed

lemma create_filling:
  assumes "createWorkerPool m q w = Some s" "qFields q = []"
  shows "filling q m w s"
proof -
  show ?thesis
    using assms newIterator_paged [OF assms(2)]
    by (auto simp: createWorkerPool_def filling_def sum_list_replicate split: if_splits)
qed

subsection \<open>Room for every job\<close>

definition given_out :: "pool \<Rightarrow> nat" where
  "given_out s = sum_list (map given (iterators s))"

definition roomy :: "query \<Rightarrow> nat \<Rightarrow> nat \<Rightarrow> pool \<Rightarrow> bool" where
  "roomy q m w s \<longleftrightarrow> paging q s \<and> length (iterators s) = m \<and> length (workers s) = w
     \<and> length (workChannel s) + size (feed_job (feeder s)) \<le> given_out s"

lemma given_out_bound: "paging q s \<Longrightarrow> given_out s \<le> length (iterators s) * pages q"
proof -
  assume "paging q s"
  then have "\<forall>it\<in>set (iterators s). given it \<le> pages q" by (simp add: paging_def)
  then have "sum_list (map given its) \<le> length its * pages q" if "set its \<subseteq> set (iterators s)" for its
    using that by (induction its) auto
  then show ?thesis by (simp add: given_out_def)
qed

lemma feed_workers: "feed_step s t \<Longrightarrow> length (workers t) = length (workers s)"
  by (induction rule: feed_step.induct) simp_all

lemma feed_next_given:
  assumes "paging q s" "0 < pages q" "feeder s = FeedRange (i # is)" "\<not> iter_isComplete (iterators s ! i)"
    and "iter_next (iterators s ! i) = ((fs, page), it')"
  shows "sum_list (map given ((iterators s)[i := it'])) = Suc (given_out s)"
proof -
  have i: "i < length (iterators s)" using assms(1,3) by (auto simp: paging_def)
  then have p: "paged q (iterators s ! i)" using assms(1) by (auto simp: paging_def)
  have "given (iterators s ! i) < pages q" using assms(4) complete_paged [OF p assms(2)] by auto
  from next_paged(4) [OF p this assms(5)] show ?thesis
    using sum_list_replace [OF i, of given it'] by (simp add: given_out_def)
qed

lemma feed_roomy:
  assumes "feed_step s t" "roomy q m w s" "0 < pages q"
  shows "roomy q m w t"
proof -
  have "paging q t" using feed_paging assms by (auto simp: roomy_def)
  moreover have "length (workChannel t) + size (feed_job (feeder t)) \<le> given_out t"
    using assms(1)
  proof cases
    case (feed_next i "is" fs page it')
    have "sum_list (map given ((iterators s)[i := it'])) = Suc (given_out s)"
      by (rule feed_next_given) (use assms(2,3) feed_next in \<open>auto simp: roomy_def\<close>)
    then show ?thesis using assms(2) feed_next(1,2) by (simp add: roomy_def given_out_def)
  qed (use assms(2) in \<open>auto simp: roomy_def given_out_def\<close>)
  ultimately show ?thesis
    using assms(2) feed_length [OF assms(1)] feed_workers [OF assms(1)] by (simp add: roomy_def)
qed

lemma work_given:
  "work_step answers n s t \<Longrightarrow> given_out t = given_out s \<and> length (workers t) = length (workers s)
     \<and> length (workChannel t) \<le> length (workChannel s) \<and> feeder t = feeder s"
  by (induction rule: work_step.induct) (simp_all add: given_out_def given_update)

lemma pool_roomy:
  assumes "pool_step answers s t" "roomy q m w s" "0 < pages q"
  shows "roomy q m w t"
  using assms(1)
proof cases
  case feed
  then show ?thesis using feed_roomy assms by blast
next
  case (work n)
  have "paging q t" using work_paging [OF work(2,1) _ assms(3)] assms(2) by (simp add: roomy_def)
  then show ?thesis using assms(2) work_given [OF work(2)] work_length [OF work(2)] by (auto simp: roomy_def)
next
  case (receive r rs)
  then show ?thesis using assms(2) pool_paging [OF assms(1) _ assms(3)] by (simp add: roomy_def given_out_def)
qed

lemma run_roomy: "pool_run answers s t \<Longrightarrow> roomy q m w s \<Longrightarrow> 0 < pages q \<Longrightarrow> roomy q m w t"
  by (induction rule: pool_run.induct) (blast intro: pool_roomy)+

lemma roomy_send:
  assumes "roomy q m w s" "m * pages q \<le> w" "feeder s = FeedSend j is"
  shows "feed_step s (s\<lparr>workChannel := workChannel s @ [j], feeder := FeedRange is\<rparr>)"
proof (rule feed_send [OF assms(3)])
  have "Suc (length (workChannel s)) \<le> w"
    using assms given_out_bound [of q s] by (auto simp: roomy_def)
  then show "length (workChannel s) < workerCount s" using assms(1) by (simp add: roomy_def workerCount_def)
qed

text \<open>One pass over the iterators gives out a page, unless the pool is complete.\<close>

lemma feed_pass:
  assumes "m * pages q \<le> w" "0 < pages q"
  shows "roomy q m w s \<Longrightarrow> feeder s = FeedRange is \<Longrightarrow>
    \<exists>t. feed_step\<^sup>*\<^sup>* s t \<and> feeder t = FeedLoop \<and> roomy q m w t \<and> given_out s \<le> given_out t
      \<and> ((\<exists>i\<in>set is. \<not> iter_isComplete (iterators s ! i)) \<and> \<not> pool_isComplete s \<longrightarrow> given_out s < given_out t)"
proof (induction "is" arbitrary: s)
  case Nil
  let ?t = "s\<lparr>feeder := FeedLoop\<rparr>"
  have "feed_step s ?t" by (rule feed_again [OF Nil.prems(2)])
  moreover from feed_roomy [OF this Nil.prems(1) assms(2)] have "roomy q m w ?t" .
  ultimately show ?case by (intro exI [of _ ?t]) (auto simp: given_out_def)
next
  case (Cons i "is")
  show ?case
  proof (cases "iter_isComplete (iterators s ! i) \<or> pool_isComplete s")
    case True
    let ?u = "s\<lparr>feeder := FeedRange is\<rparr>"
    have u: "feed_step s ?u" by (rule feed_skip [OF Cons.prems(2) True])
    obtain t where t: "feed_step\<^sup>*\<^sup>* ?u t" "feeder t = FeedLoop" "roomy q m w t" "given_out ?u \<le> given_out t"
      "(\<exists>i\<in>set is. \<not> iter_isComplete (iterators ?u ! i)) \<and> \<not> pool_isComplete ?u \<longrightarrow> given_out ?u < given_out t"
      using Cons.IH [OF feed_roomy [OF u Cons.prems(1) assms(2)]] by auto
    have s: "given_out ?u = given_out s" "pool_isComplete ?u = pool_isComplete s"
      by (simp_all add: given_out_def pool_isComplete_def)
    from u t(1) have "feed_step\<^sup>*\<^sup>* s t" by (rule converse_rtranclp_into_rtranclp)
    then show ?thesis using t(2-5) True s by (intro exI [of _ t]) auto
  next
    case False
    obtain fs page it' where n: "iter_next (iterators s ! i) = ((fs, page), it')" by (metis prod.collapse)
    let ?u = "s\<lparr>iterators := (iterators s)[i := it'], feeder := FeedSend (newWorkerJob i fs page) is\<rparr>"
    let ?v = "?u\<lparr>workChannel := workChannel ?u @ [newWorkerJob i fs page], feeder := FeedRange is\<rparr>"
    have u: "feed_step s ?u" by (rule feed_next) (use Cons.prems(2) False n in auto)
    note ru = feed_roomy [OF u Cons.prems(1) assms(2)]
    have v: "feed_step ?u ?v" by (rule roomy_send [OF ru assms(1)]) simp
    note rv = feed_roomy [OF v ru assms(2)]
    have g: "given_out ?v = Suc (given_out s)"
      using feed_next_given [of q s i "is" fs page it'] Cons.prems False n assms(2)
      by (simp add: roomy_def given_out_def)
    obtain t where t: "feed_step\<^sup>*\<^sup>* ?v t" "feeder t = FeedLoop" "roomy q m w t" "given_out ?v \<le> given_out t"
      using Cons.IH [OF rv] by auto
    from u v t(1) have "feed_step\<^sup>*\<^sup>* s t" by (meson converse_rtranclp_into_rtranclp)
    then show ?thesis using t(2-4) g by (intro exI [of _ t]) auto
  qed
qed

lemma incomplete_iterator:
  "\<not> complete_loop q n True its \<Longrightarrow> \<exists>it\<in>set its. \<not> iter_isComplete it"
proof -
  have "\<forall>it\<in>set its. iter_isComplete it \<Longrightarrow> complete_loop q n True its"
    by (induction its arbitrary: n) (simp_all add: Let_def)
  then show "\<not> complete_loop q n True its \<Longrightarrow> \<exists>it\<in>set its. \<not> iter_isComplete it" by blast
qed

lemma feed_loop_ends:
  assumes "m * pages q \<le> w" "0 < pages q"
  shows "roomy q m w s \<Longrightarrow> feeder s = FeedLoop \<Longrightarrow> \<exists>t. feed_step\<^sup>*\<^sup>* s t \<and> feeder t = FeedDone"
proof (induction "m * pages q - given_out s" arbitrary: s rule: less_induct)
  case less
  show ?case
  proof (cases "pool_isComplete s")
    case True
    then have "feed_step\<^sup>*\<^sup>* s (s\<lparr>feeder := FeedDone\<rparr>)" using feed_close [OF less.prems(2)] by blast
    then show ?thesis by (intro exI [of _ "s\<lparr>feeder := FeedDone\<rparr>"]) simp
  next
    case False
    let ?u = "s\<lparr>feeder := FeedRange [0..<length (iterators s)]\<rparr>"
    have u: "feed_step s ?u" by (rule feed_range [OF less.prems(2) False]) simp
    obtain it where "it \<in> set (iterators s)" "\<not> iter_isComplete it"
      using False incomplete_iterator unfolding pool_isComplete_def by metis
    then have e: "\<exists>i\<in>set [0..<length (iterators s)]. \<not> iter_isComplete (iterators ?u ! i)"
      by (auto simp: in_set_conv_nth)
    have "pool_isComplete ?u = pool_isComplete s" by (simp add: pool_isComplete_def)
    then have c: "\<not> pool_isComplete ?u" "given_out ?u = given_out s" using False by (simp_all add: given_out_def)
    obtain t where t: "feed_step\<^sup>*\<^sup>* ?u t" "feeder t = FeedLoop" "roomy q m w t" "given_out s < given_out t"
      using feed_pass [OF assms feed_roomy [OF u less.prems(1) assms(2)]] e c by auto
    have "given_out t \<le> m * pages q" using given_out_bound [of q t] t(3) by (auto simp: roomy_def)
    then have "m * pages q - given_out t < m * pages q - given_out s" using t(4) by linarith
    from less.hyps [OF this t(3,2)] obtain x where "feed_step\<^sup>*\<^sup>* t x" "feeder x = FeedDone" by blast
    then show ?thesis using u t(1) by (meson converse_rtranclp_into_rtranclp rtranclp_trans)
  qed
qed

lemma create_roomy:
  assumes "createWorkerPool m q w = Some s" "qFields q = []"
  shows "roomy q m w s"
  using create_paging [OF assms] create_fields [OF assms(1)] by (simp add: roomy_def)

subsection \<open>Properties\<close>

text \<open>C22: safety. In every schedule of a search over a fixed number of pages no page of an index is
searched twice, and the last page is never searched: its job is made by the call of \<open>Next\<close> that completes
the iterator, and a worker drops the job of a complete iterator. With one page nothing is searched at all.\<close>

theorem last_page_never_searched:
  assumes "createWorkerPool m q w = Some s" "qFields q = []" "0 < pages q" "pool_run answers s t"
  shows "distinct (map (job_place q) (searchedJobs t))
    \<and> (\<forall>j\<in>set (searchedJobs t). jobIndex j < m \<and> job_offset q j + 1 < pages q)"
proof -
  have p: "paging q t" by (rule run_paging [OF assms(4) create_paging [OF assms(1,2)] assms(3)])
  have sub: "mset (searchedJobs t) \<subseteq># jobs_of t" by (simp add: jobs_of_def add.assoc)
  have "once (image_mset (job_place q) (jobs_of t))" using p by (simp only: paging_def)
  from once_image_mono [OF sub this] have "distinct (map (job_place q) (searchedJobs t))"
    by (intro once_distinct) simp
  moreover have "length (iterators t) = m" using run_length [OF assms(4)] create_fields [OF assms(1)] by simp
  ultimately show ?thesis using p by (auto simp: paging_def jobs_of_def)
qed

definition page_query :: "uint64 \<Rightarrow> query" where
  "page_query n = newQuery\<lparr>numberOfPagesToFetch := n\<rparr>"

text \<open>A run over two pages with one worker: the first page is searched.\<close>

theorem last_page_never_searched_witness:
  "\<exists>s t. createWorkerPool 1 (page_query 2) 1 = Some s \<and> pool_run (\<lambda>j r. True) s t
     \<and> map (job_place (page_query 2)) (searchedJobs t) = [(0, 0)] \<and> distinct (map (job_place (page_query 2)) (searchedJobs t))"
proof -
  let ?q = "page_query 2" and ?A = "\<lambda>j r. True"
  let ?it = "\<lparr>fieldState = [], startingPage = 0, currentPage = 0, itStopOnStale = False, pageCount = 2,
      discoveredItems = 0, reachedStale = False\<rparr>"
  let ?s = "\<lparr>iterators = [?it], poolQuery = ?q, workChannel = [], resultsChannel = [], workers = [Waiting],
      feeder = FeedLoop, searchedJobs = [], savedItems = [], received = []\<rparr>"
  let ?j = "newWorkerJob 0 [] 0"
  let ?s1 = "?s\<lparr>feeder := FeedRange [0]\<rparr>"
  let ?s2 = "?s1\<lparr>iterators := [?it\<lparr>currentPage := 1\<rparr>], feeder := FeedSend ?j []\<rparr>"
  let ?s3 = "?s2\<lparr>workChannel := [?j], feeder := FeedRange []\<rparr>"
  let ?s4 = "goto 0 (Got ?j) (?s3\<lparr>workChannel := []\<rparr>)"
  let ?s5 = "goto 0 (Searching ?j) (?s4\<lparr>searchedJobs := searchedJobs ?s4 @ [?j]\<rparr>)"
  have c: "createWorkerPool 1 ?q 1 = Some ?s"
    by (simp add: createWorkerPool_def newIterator_def page_query_def newQuery_def)
  note ev = pool_isComplete_def job_complete_def iter_isComplete_def hasExceededPages_def hasNextFieldState_def
    hasEnoughResults_def page_query_def newQuery_def workerCount_def iter_next_def newWorkerJob_def Let_def
    word_le_nat_alt
  have "feed_step ?s ?s1" by (rule feed_range) (simp_all add: ev)
  moreover have "feed_step ?s1 ?s2"
    using feed_next [of ?s1 0 "[]" "[]" 0 "?it\<lparr>currentPage := 1\<rparr>"] by (simp add: ev)
  moreover have "feed_step ?s2 ?s3" using feed_send [of ?s2 ?j "[]"] by (simp add: workerCount_def)
  moreover have "work_step ?A 0 ?s3 ?s4" using work_take [of ?s3 0 ?j "[]" ?A] by simp
  moreover have "work_step ?A 0 ?s4 ?s5"
    by (rule work_search [where j = ?j]) (simp_all add: ev goto_def)
  ultimately have r: "pool_run ?A ?s ?s5"
    by (intro pool_run.step [OF pool_run.step [OF pool_run.step [OF pool_run.step [OF pool_run.step [OF pool_run.start]]]]])
       (auto intro: pool_step.feed pool_step.work [of 0] simp: goto_def)
  have "qFields ?q = []" "0 < pages ?q" by (simp_all add: page_query_def newQuery_def pages_def)
  from last_page_never_searched [OF c this r] have d: "distinct (map (job_place ?q) (searchedJobs ?s5))" by (rule conjunct1)
  have e: "map (job_place ?q) (searchedJobs ?s5) = [(0, 0)]"
    by (simp add: goto_def job_place_def job_offset_def newWorkerJob_def page_query_def newQuery_def)
  show ?thesis
    by (rule exI [of _ ?s], rule exI [of _ ?s5], intro conjI, rule c, rule r, rule e, rule d)
qed

text \<open>C7: liveness. When every search finds a page of results and the query asks for more pages than three
times the workers and one more, the feeder never ends in any schedule: the workers are
blocked on the full channel of results, which \<open>Facade.Search\<close> has not yet handed out, and the feeder
on the full channel of jobs. The search never returns.\<close>

theorem search_blocks_forever:
  assumes "createWorkerPool m q w = Some s" "qFields q = []" "\<not> stopOnStale q" "qLimit q = 0" "0 < m"
    and "3 * w + 1 < pages q" "\<forall>j r. answers j r \<longrightarrow> (\<exists>items. r = Inr (Some items))" "pool_run answers s t"
  shows "feeder t \<noteq> FeedDone \<and> received t = []"
proof -
  have i: "filling q m w s \<and> received s = []"
    using create_filling [OF assms(1,2)] assms(1) by (auto simp: createWorkerPool_def split: if_splits)
  from assms(8) i have "filling q m w t \<and> received t = []"
  proof (induction rule: pool_run.induct)
    case (step s t u)
    have f: "filling q m w t" "received t = []" using step.IH step.prems by simp_all
    have "filling q m w u" using pool_filling [OF step(2) f(1) assms(6,3,4,5)] assms(7) by blast
    moreover have "feeder t \<noteq> FeedDone" using f(1) by (simp add: filling_def)
    with step(2) have "received u = received t"
      by cases (auto elim!: feed_step.cases work_step.cases)
    ultimately show ?case using f(2) by simp
  qed simp
  then show ?thesis by (simp add: filling_def)
qed

theorem search_blocks_forever_witness:
  "\<exists>s. createWorkerPool 1 (page_query 10) 1 = Some s \<and>
     (\<forall>t. pool_run (\<lambda>j r. r = Inr (Some [empty_scrape_item])) s t \<longrightarrow> feeder t \<noteq> FeedDone)"
proof -
  have "newIterator (page_query 10) \<noteq> None" by (simp add: newIterator_def page_query_def newQuery_def)
  then obtain s where s: "createWorkerPool 1 (page_query 10) 1 = Some s" by (auto simp: createWorkerPool_def)
  have q: "qFields (page_query 10) = []" "\<not> stopOnStale (page_query 10)" "qLimit (page_query 10) = 0"
    "3 * 1 + 1 < pages (page_query 10)"
    by (simp_all add: page_query_def newQuery_def pages_def)
  show ?thesis
    using search_blocks_forever [OF s q(1-3) _ q(4), of "\<lambda>j r. r = Inr (Some [empty_scrape_item])"] s by auto
qed

text \<open>C23: termination. When the channel of jobs has room for the pages of all indexes, the feeder ends from every
reachable state by its own steps, whatever the workers have done: the search returns.\<close>

theorem search_returns_with_room:
  assumes "createWorkerPool m q w = Some s" "qFields q = []" "0 < pages q" "m * pages q \<le> w" "pool_run answers s t"
  shows "\<exists>u. feed_step\<^sup>*\<^sup>* t u \<and> feeder u = FeedDone"
proof -
  note ends = feed_loop_ends [OF assms(4,3)] and pass = feed_pass [OF assms(4,3)]
  have r: "roomy q m w t" by (rule run_roomy [OF assms(5) create_roomy [OF assms(1,2)] assms(3)])
  have range: "\<exists>u. feed_step\<^sup>*\<^sup>* t u \<and> feeder u = FeedDone" if t: "roomy q m w t" "feeder t = FeedRange is" for t "is"
  proof -
    obtain v where v: "feed_step\<^sup>*\<^sup>* t v" "feeder v = FeedLoop" "roomy q m w v" using pass [OF t] by blast
    then show ?thesis using ends [OF v(3,2)] by (meson rtranclp_trans)
  qed
  show ?thesis
  proof (cases "feeder t")
    case FeedLoop
    then show ?thesis using ends [OF r] by blast
  next
    case (FeedRange "is")
    then show ?thesis using range r by blast
  next
    case (FeedSend j "is")
    note send = roomy_send [OF r assms(4) FeedSend]
    have "\<exists>u. feed_step\<^sup>*\<^sup>* (t\<lparr>workChannel := workChannel t @ [j], feeder := FeedRange is\<rparr>) u \<and> feeder u = FeedDone"
      by (rule range [OF feed_roomy [OF send r assms(3)]]) simp
    then show ?thesis using send by (meson converse_rtranclp_into_rtranclp)
  next
    case FeedDone
    then show ?thesis by blast
  qed
qed

theorem search_returns_with_room_witness:
  "\<exists>s u. createWorkerPool 2 (page_query 3) 8 = Some s \<and> feed_step\<^sup>*\<^sup>* s u \<and> feeder u = FeedDone"
proof -
  have "newIterator (page_query 3) \<noteq> None" by (simp add: newIterator_def page_query_def newQuery_def)
  then obtain s where s: "createWorkerPool 2 (page_query 3) 8 = Some s" by (auto simp: createWorkerPool_def)
  have q: "qFields (page_query 3) = []" "0 < pages (page_query 3)" "2 * pages (page_query 3) \<le> 8"
    by (simp_all add: page_query_def newQuery_def pages_def)
  show ?thesis using search_returns_with_room [OF s q pool_run.start [of "\<lambda>_ _. True"]] s by blast
qed

end
