(* ===== verification/Filters.thy ===== *)
theory Filters
  imports Query
begin

text \<open>
  The text filters of a definition (\<open>indexer/source/filters.go\<close>, the helpers of
  \<open>indexer/formatting/formatters.go\<close> and \<open>indexer/utils/parsing.go\<close> they call) and the chain of
  filters of a selector (\<open>SelectorBlock.FilterText\<close> of \<open>indexer/source/source.go\<close>).
  Regular expressions, dates, URLs, floats and text templates are those of the runtime: the
  \<open>filter_env\<close> has one function for each use, with \<open>None\<close> for the error. A type assertion or an
  index that panics is \<open>Panic\<close>.
\<close>

subsection \<open>Results and the environment\<close>

datatype ('e, 'a) res = Panic | Err 'e | Ok 'a

fun map_res :: "('a \<Rightarrow> 'b) \<Rightarrow> ('e, 'a) res \<Rightarrow> ('e, 'b) res" where
  "map_res f Panic = Panic"
| "map_res f (Err e) = Err e"
| "map_res f (Ok a) = Ok (f a)"

fun bind_res :: "('e, 'a) res \<Rightarrow> ('a \<Rightarrow> ('e, 'b) res) \<Rightarrow> ('e, 'b) res" where
  "bind_res Panic f = Panic"
| "bind_res (Err e) f = Err e"
| "bind_res (Ok a) f = f a"

definition of_panic :: "'a option \<Rightarrow> ('e, 'a) res" where
  "of_panic x = (case x of None \<Rightarrow> Panic | Some a \<Rightarrow> Ok a)"

definition of_error :: "'e \<Rightarrow> 'a option \<Rightarrow> ('e, 'a) res" where
  "of_error e x = (case x of None \<Rightarrow> Err e | Some a \<Rightarrow> Ok a)"

record filter_env =
  findSubmatch :: "string \<Rightarrow> string \<Rightarrow> string list option"
  rxReplaceAll :: "string \<Rightarrow> string \<Rightarrow> string \<Rightarrow> string option"
  parseLayout :: "string \<Rightarrow> string \<Rightarrow> string option"
  fuzzyTime :: "string \<Rightarrow> string option"
  urlQueryGet :: "string \<Rightarrow> string \<Rightarrow> string option"
  scaledFloat :: "string \<Rightarrow> nat \<Rightarrow> string"
  filterTemplate :: "string \<Rightarrow> (string \<times> string) list \<Rightarrow> string option"

subsection \<open>Formatting\<close>

definition normalizeSpace :: "string \<Rightarrow> string" where
  "normalizeSpace raw =
     replace_all (replace_all (replace_all raw [CHR 0x0A] []) [CHR 0x09] '' '') ''  '' '' ''"

definition stripToNumber :: "string \<Rightarrow> string" where
  "stripToNumber s = filter (\<lambda>c. c \<in> set ''0123456789.,'') s"

definition size_multiplier :: "string \<Rightarrow> nat" where
  "size_multiplier s =
     (if str_contains s ''gb'' then 1028 * 1028 * 1028
      else if str_contains s ''mb'' then 1028 * 1028
      else if str_contains s ''kb'' then 1028 else 1)"

definition size_digits :: "string \<Rightarrow> string" where
  "size_digits s =
     stripToNumber (fold (\<lambda>unit s. replace_all s unit []) ['' '', ''gb'', ''mb'', ''kb''] s)"

text \<open>The text of \<open>uint64(ParseFloat(digits, 32) * multiplier)\<close>.\<close>

definition sizeStrToBytes :: "filter_env \<Rightarrow> string \<Rightarrow> string" where
  "sizeStrToBytes E s =
     (let t = normalizeSpace (to_lower s) in scaledFloat E (size_digits t) (size_multiplier t))"

definition normalizeNumber :: "string \<Rightarrow> string" where
  "normalizeNumber s = (let n = replace_all s '','' [] in if n = [] then ''0'' else n)"

definition filterSplit :: "string \<Rightarrow> int \<Rightarrow> string \<Rightarrow> string option" where
  "filterSplit sep pos value =
     (let frags = go_split value sep;
          p = (if pos < 0 then int (length frags) + pos else pos)
      in if 0 \<le> p \<and> p < int (length frags) then Some (frags ! nat p) else None)"

text \<open>\<open>url.QueryUnescape\<close>.\<close>

definition hex_val :: "char \<Rightarrow> nat option" where
  "hex_val c =
     (let n = (of_char c :: nat)
      in if 48 \<le> n \<and> n \<le> 57 then Some (n - 48)
         else if 97 \<le> n \<and> n \<le> 102 then Some (n - 87)
         else if 65 \<le> n \<and> n \<le> 70 then Some (n - 55) else None)"

fun queryUnescape :: "string \<Rightarrow> string option" where
  "queryUnescape [] = Some []"
| "queryUnescape (c # cs) =
     (if c = CHR ''%'' then
        (case cs of
           a # b # rest \<Rightarrow>
             (case (hex_val a, hex_val b) of
                (Some x, Some y) \<Rightarrow> map_option ((#) (char_of (16 * x + y))) (queryUnescape rest)
              | _ \<Rightarrow> None)
         | _ \<Rightarrow> None)
      else map_option ((#) (if c = CHR ''+'' then CHR '' '' else c)) (queryUnescape cs))"

subsection \<open>The filters\<close>

datatype filter_arg =
  ANil | AStr string | AInt int | AList "filter_arg list"
| AMap "(filter_arg \<times> filter_arg) list" | AOther

datatype filter_error =
  NeedsString string | NeedsInt string | BadArgument | NoDatePattern | BadRegexp | NoRegexpMatch
| BadUrl | BadEscape | BadTime | UnknownFilter string

fun arg_string :: "filter_arg \<Rightarrow> string option" where
  "arg_string (AStr s) = Some s"
| "arg_string _ = None"

text \<open>\<open>args.([]interface{})[i]\<close>: a panic when the argument is no list or is too short.\<close>

fun arg_item :: "nat \<Rightarrow> filter_arg \<Rightarrow> filter_arg option" where
  "arg_item i (AList xs) = (if i < length xs then Some (xs ! i) else None)"
| "arg_item i _ = None"

definition string_arg :: "string \<Rightarrow> filter_arg \<Rightarrow> (string \<Rightarrow> (filter_error, 'a) res) \<Rightarrow> (filter_error, 'a) res" where
  "string_arg fType args f = bind_res (of_error (NeedsString fType) (arg_string args)) f"

definition filterRegexp :: "filter_env \<Rightarrow> string \<Rightarrow> string \<Rightarrow> (filter_error, string) res" where
  "filterRegexp E pattern value =
     (case findSubmatch E pattern value of
        None \<Rightarrow> Err BadRegexp
      | Some [] \<Rightarrow> Err NoRegexpMatch
      | Some [m] \<Rightarrow> Ok m
      | Some (m # groups) \<Rightarrow> Ok (join '' '' groups))"

fun parseDate :: "filter_env \<Rightarrow> string list \<Rightarrow> string \<Rightarrow> (filter_error, string) res" where
  "parseDate E [] value = Err NoDatePattern"
| "parseDate E (layout # layouts) value =
     (case parseLayout E layout value of Some t \<Rightarrow> Ok t | None \<Rightarrow> parseDate E layouts value)"

fun replace_pairs :: "(filter_arg \<times> filter_arg) list \<Rightarrow> string \<Rightarrow> string option" where
  "replace_pairs [] value = Some value"
| "replace_pairs ((AStr old, AStr new) # ps) value = replace_pairs ps (replace_all value old new)"
| "replace_pairs (_ # ps) value = None"

fun filterMapReplace :: "string \<Rightarrow> filter_arg \<Rightarrow> (filter_error, string) res" where
  "filterMapReplace value (AMap ps) = of_panic (replace_pairs ps value)"
| "filterMapReplace value _ = Panic"

definition filterReReplace :: "filter_env \<Rightarrow> string \<Rightarrow> filter_arg \<Rightarrow> (filter_error, string) res" where
  "filterReReplace E value args =
     (case (arg_item 0 args, arg_item 1 args) of
        (Some (AStr pattern), Some (AStr replacement)) \<Rightarrow>
          of_error BadRegexp (rxReplaceAll E pattern replacement value)
      | _ \<Rightarrow> Panic)"

text \<open>A filter of two positional arguments: both positions are read before anything is done.\<close>

definition split_filter :: "string \<Rightarrow> filter_arg \<Rightarrow> string \<Rightarrow> (filter_error, string) res" where
  "split_filter fType args value =
     bind_res (of_panic (arg_item 0 args)) (\<lambda>a. string_arg fType a (\<lambda>sep.
       bind_res (of_panic (arg_item 1 args)) (\<lambda>b.
         case b of AInt pos \<Rightarrow> of_panic (filterSplit sep pos value) | _ \<Rightarrow> Err (NeedsInt fType))))"

definition replace_filter :: "string \<Rightarrow> filter_arg \<Rightarrow> string \<Rightarrow> (filter_error, string) res" where
  "replace_filter fType args value =
     bind_res (of_panic (arg_item 0 args)) (\<lambda>a. string_arg fType a (\<lambda>old.
       bind_res (of_panic (arg_item 1 args)) (\<lambda>b. string_arg fType b (\<lambda>new.
         Ok (replace_all value old new)))))"

definition date_filter :: "filter_env \<Rightarrow> filter_arg \<Rightarrow> string \<Rightarrow> (filter_error, string) res" where
  "date_filter E args value =
     (case args of
        ANil \<Rightarrow> parseDate E [] value
      | AStr layout \<Rightarrow> parseDate E [layout] value
      | _ \<Rightarrow> Err BadArgument)"

definition applyFilter ::
    "filter_env \<Rightarrow> string \<Rightarrow> filter_arg \<Rightarrow> string \<Rightarrow> (filter_error, string) res" where
  "applyFilter E fType args value =
     (if fType = ''querystring'' then
        string_arg fType args (\<lambda>p. of_error BadUrl (urlQueryGet E p value))
      else if fType \<in> {''dateparse'', ''timeparse'', ''dateparseAlt''} then date_filter E args value
      else if fType = ''bool'' then
        Ok (if normalizeSpace value \<noteq> [] then ''true'' else ''false'')
      else if fType = ''regexp'' then string_arg fType args (\<lambda>p. filterRegexp E p value)
      else if fType = ''split'' then split_filter fType args value
      else if fType = ''replace'' then replace_filter fType args value
      else if fType = ''trim'' then string_arg fType args (\<lambda>cutset. Ok (go_trim value cutset))
      else if fType = ''whitespace'' then Ok (normalizeSpace value)
      else if fType = ''append'' then string_arg fType args (\<lambda>s. Ok (value @ s))
      else if fType = ''prepend'' then string_arg fType args (\<lambda>s. Ok (s @ value))
      else if fType = ''urldecode'' then of_error BadEscape (queryUnescape value)
      else if fType = ''urlarg'' then
        string_arg fType args (\<lambda>p. of_error BadUrl (urlQueryGet E p value))
      else if fType = ''size'' then Ok (sizeStrToBytes E value)
      else if fType = ''number'' then Ok (stripToNumber (normalizeSpace value))
      else if fType = ''mapreplace'' then filterMapReplace value args
      else if fType = ''re_replace'' then filterReReplace E value args
      else if fType \<in> {''timeago'', ''fuzzytime'', ''reltime''} then
        of_error BadTime (fuzzyTime E value)
      else Err (UnknownFilter fType))"

subsection \<open>The chain of filters of a selector\<close>

record filter_block =
  fltName :: string
  fltArgs :: filter_arg

record selector_block =
  selSelector :: string
  selPath :: string
  selPattern :: string
  selTextVal :: string
  selAttribute :: string
  selRemove :: string
  selFilters :: "filter_block list"
  selCase :: "(string \<times> string) list option"
  selFilterConfig :: "(string \<times> string) list"
  selAll :: bool

definition empty_selector :: selector_block where
  "empty_selector = \<lparr>selSelector = [], selPath = [], selPattern = [], selTextVal = [],
     selAttribute = [], selRemove = [], selFilters = [], selCase = None, selFilterConfig = [],
     selAll = False\<rparr>"

definition selector_isEmpty :: "selector_block \<Rightarrow> bool" where
  "selector_isEmpty s \<longleftrightarrow> selSelector s = [] \<and> selTextVal s = []"

text \<open>\<open>spaceRx\<close> is \<open>\s+\<close>; every match becomes one space.\<close>

definition rx_space :: string where
  "rx_space = [CHR 0x09, CHR 0x0A, CHR 0x0C, CHR 0x0D, CHR '' '']"

fun collapse_spaces :: "string \<Rightarrow> string" where
  "collapse_spaces [] = []"
| "collapse_spaces (c # cs) =
     (if c \<notin> set rx_space then c # collapse_spaces cs
      else if cs \<noteq> [] \<and> hd cs \<in> set rx_space then collapse_spaces cs
      else CHR '' '' # collapse_spaces cs)"

definition squeeze :: "string \<Rightarrow> string" where
  "squeeze s = collapse_spaces (trim_space s)"

text \<open>A filtered value that has a template in it is expanded; an error takes the old value back.\<close>

definition expand_template :: "filter_env \<Rightarrow> (string \<times> string) list \<Rightarrow> string \<Rightarrow> string \<Rightarrow> string" where
  "expand_template E cfg old new =
     (if str_contains new ''{{'' then
        (case filterTemplate E new cfg of None \<Rightarrow> old | Some t \<Rightarrow> t)
      else new)"

text \<open>The loop over the filters; \<open>None\<close> is a panic.\<close>

fun filter_loop ::
    "filter_env \<Rightarrow> (string \<times> string) list \<Rightarrow> bool \<Rightarrow> string \<Rightarrow> filter_block list \<Rightarrow> string \<Rightarrow> string option" where
  "filter_loop E cfg prevFailed prevFilter [] val = Some val"
| "filter_loop E cfg prevFailed prevFilter (f # fs) val =
     (if fltName f = ''dateparseAlt'' \<and> \<not> (prevFailed \<and> prevFilter = ''dateparse'')
      then filter_loop E cfg prevFailed prevFilter fs val
      else (case applyFilter E (fltName f) (fltArgs f) val of
              Panic \<Rightarrow> None
            | Err e \<Rightarrow> filter_loop E cfg True (fltName f) fs val
            | Ok newVal \<Rightarrow> filter_loop E cfg False prevFilter fs (expand_template E cfg val newVal)))"

definition filterText :: "filter_env \<Rightarrow> selector_block \<Rightarrow> string \<Rightarrow> string option" where
  "filterText E s val =
     map_option squeeze (filter_loop E (selFilterConfig s) False [] (selFilters s) val)"

subsection \<open>Squeezed text\<close>

text \<open>Text as \<open>squeeze\<close> leaves it: no white space at either end, a blank is the only white
space of \<open>\s\<close> in it, and no two blanks are adjacent.\<close>

fun single_blanks :: "string \<Rightarrow> bool" where
  "single_blanks (a # b # cs) \<longleftrightarrow> \<not> (a = CHR '' '' \<and> b = CHR '' '') \<and> single_blanks (b # cs)"
| "single_blanks _ \<longleftrightarrow> True"

definition squeezed :: "string \<Rightarrow> bool" where
  "squeezed s \<longleftrightarrow>
     (s \<noteq> [] \<longrightarrow> hd s \<notin> set white_space \<and> last s \<notin> set white_space) \<and>
     set s \<inter> set rx_space \<subseteq> {CHR '' ''} \<and> single_blanks s"

lemma rx_space_white: "set rx_space \<subseteq> set white_space"
  by (auto simp: rx_space_def white_space_def)

lemma blank_rx_space: "CHR '' '' \<in> set rx_space"
  by (simp add: rx_space_def)

lemma go_trim_ends:
  assumes "go_trim s cutset \<noteq> []"
  shows "hd (go_trim s cutset) \<notin> set cutset" "last (go_trim s cutset) \<notin> set cutset"
proof -
  let ?t = "dropWhile (\<lambda>c. c \<in> set cutset) s"
  let ?r = "dropWhile (\<lambda>c. c \<in> set cutset) (rev ?t)"
  have g: "go_trim s cutset = rev ?r" by (simp add: go_trim_def trim_right_def)
  with assms have ne: "?r \<noteq> []" by simp
  show "last (go_trim s cutset) \<notin> set cutset"
    unfolding g last_rev using hd_dropWhile [OF ne] by simp
  have "suffix ?r (rev ?t)" by (rule suffix_dropWhile)
  then obtain zs where "rev ?t = zs @ ?r" by (auto simp: suffix_def)
  then have t: "?t = rev ?r @ rev zs" by (metis rev_append rev_rev_ident)
  have "rev ?r \<noteq> []" using ne by simp
  then have "hd (rev ?r) = hd ?t" by (metis t hd_append2)
  moreover have "?t \<noteq> []" using ne by (metis dropWhile.simps(1) rev.simps(1))
  then have "hd ?t \<notin> set cutset" using hd_dropWhile [of "\<lambda>c. c \<in> set cutset" s] by simp
  ultimately show "hd (go_trim s cutset) \<notin> set cutset" unfolding g by simp
qed

lemma go_trim_id:
  assumes "s \<noteq> [] \<Longrightarrow> hd s \<notin> set cutset \<and> last s \<notin> set cutset"
  shows "go_trim s cutset = s"
proof (cases s rule: rev_cases)
  case Nil
  then show ?thesis by (simp add: go_trim_def trim_right_def)
next
  case (snoc xs x)
  with assms have "x \<notin> set cutset" "hd s \<notin> set cutset" by auto
  then have "dropWhile (\<lambda>c. c \<in> set cutset) s = s" using snoc by (cases xs) auto
  with \<open>x \<notin> set cutset\<close> snoc show ?thesis by (simp add: go_trim_def trim_right_def)
qed

lemma collapse_spaces_Nil [simp]: "collapse_spaces s = [] \<longleftrightarrow> s = []"
  by (induction s) auto

lemma collapse_spaces_set: "set (collapse_spaces s) \<inter> set rx_space \<subseteq> {CHR '' ''}"
  by (induction s) auto

lemma collapse_spaces_subset: "set (collapse_spaces s) \<subseteq> set s \<union> {CHR '' ''}"
  by (induction s) auto

lemma collapse_spaces_hd: "s \<noteq> [] \<Longrightarrow> hd s \<notin> set rx_space \<Longrightarrow> hd (collapse_spaces s) = hd s"
  by (cases s) auto

lemma collapse_spaces_last: "s \<noteq> [] \<Longrightarrow> last s \<notin> set rx_space \<Longrightarrow> last (collapse_spaces s) = last s"
  by (induction s) auto

lemma collapse_spaces_hd_blank:
  "s \<noteq> [] \<Longrightarrow> hd (collapse_spaces s) = CHR '' '' \<Longrightarrow> hd s \<in> set rx_space"
  using blank_rx_space by (cases s) (auto split: if_splits)

lemma single_blanks_Cons:
  "single_blanks (c # s) \<longleftrightarrow> \<not> (c = CHR '' '' \<and> s \<noteq> [] \<and> hd s = CHR '' '') \<and> single_blanks s"
  by (cases s) auto

lemma collapse_spaces_single: "single_blanks (collapse_spaces s)"
proof (induction s)
  case Nil
  then show ?case by simp
next
  case (Cons c s)
  have "hd (collapse_spaces s) \<noteq> CHR '' ''" if "s \<noteq> []" "hd s \<notin> set rx_space"
    using that collapse_spaces_hd_blank by blast
  moreover have "c \<noteq> CHR '' ''" if "c \<notin> set rx_space"
    using that blank_rx_space by blast
  ultimately show ?case using Cons by (simp add: single_blanks_Cons) blast
qed

lemma squeezed_squeeze: "squeezed (squeeze s)"
proof -
  let ?t = "trim_space s"
  have ends: "hd ?t \<notin> set white_space" "last ?t \<notin> set white_space" if "?t \<noteq> []"
    using go_trim_ends that unfolding trim_space_def by blast+
  have "hd (squeeze s) \<notin> set white_space \<and> last (squeeze s) \<notin> set white_space" if "squeeze s \<noteq> []"
    using that ends rx_space_white
    by (metis squeeze_def collapse_spaces_Nil collapse_spaces_hd collapse_spaces_last subsetD)
  then show ?thesis
    unfolding squeezed_def using collapse_spaces_set collapse_spaces_single
    by (auto simp: squeeze_def)
qed

lemma collapse_spaces_id:
  "set s \<inter> set rx_space \<subseteq> {CHR '' ''} \<Longrightarrow> single_blanks s \<Longrightarrow> collapse_spaces s = s"
proof (induction s)
  case Nil
  then show ?case by simp
next
  case (Cons c s)
  then have c: "c \<in> set rx_space \<Longrightarrow> c = CHR '' ''" by auto
  have s: "s \<noteq> [] \<Longrightarrow> hd s \<in> set rx_space \<Longrightarrow> hd s = CHR '' ''"
    using Cons.prems(1) by (cases s) auto
  have "collapse_spaces s = s" using Cons by (auto simp: single_blanks_Cons)
  moreover have "\<not> (s \<noteq> [] \<and> hd s \<in> set rx_space)" if "c \<in> set rx_space"
    using Cons.prems(2) c [OF that] s by (auto simp: single_blanks_Cons)
  ultimately show ?case using c by (cases "c \<in> set rx_space") auto
qed

lemma squeeze_id: "squeezed s \<Longrightarrow> squeeze s = s"
  unfolding squeeze_def trim_space_def squeezed_def by (simp add: go_trim_id collapse_spaces_id)

subsection \<open>Properties of the chain\<close>

lemma filterText_no_filters: "selFilters s = [] \<Longrightarrow> filterText E s v = Some (squeeze v)"
  by (simp add: filterText_def)

text \<open>What a selector extracts is squeezed: whatever its filters do, a value that is returned
  has no white space at its ends and no two blanks in a row, and extracting it again through a
  selector without filters gives it back.\<close>

theorem filterText_squeezed:
  assumes "filterText E s v = Some t" "selFilters s' = []"
  shows "squeezed t \<and> filterText E' s' t = Some t"
  using assms squeezed_squeeze squeeze_id by (auto simp: filterText_def)

definition sample_env :: filter_env where
  "sample_env = \<lparr>
     findSubmatch = (\<lambda>p v. if p = v then Some [v] else Some []),
     rxReplaceAll = (\<lambda>p r v. Some (replace_all v p r)),
     parseLayout = (\<lambda>layout v. if layout = v then Some (''at '' @ v) else None),
     fuzzyTime = (\<lambda>v. None), urlQueryGet = (\<lambda>p v. None),
     scaledFloat = (\<lambda>s n. s), filterTemplate = (\<lambda>t cfg. None)\<rparr>"

theorem filterText_squeezed_witness:
  "squeezed ''a b'' \<and> filterText sample_env empty_selector ''a b'' = Some ''a b''"
proof -
  let ?s = "empty_selector\<lparr>selFilters := [\<lparr>fltName = ''append'', fltArgs = AStr '' b ''\<rparr>]\<rparr>"
  have "filterText sample_env ?s ''a '' = Some ''a b''" by code_simp
  moreover have "selFilters empty_selector = []" by (simp add: empty_selector_def)
  ultimately show ?thesis by (rule filterText_squeezed)
qed

text \<open>Alternative layouts are skipped once one of them has failed or any has succeeded.\<close>

definition date_alternatives :: "string list \<Rightarrow> filter_block list" where
  "date_alternatives layouts = map (\<lambda>l. \<lparr>fltName = ''dateparseAlt'', fltArgs = AStr l\<rparr>) layouts"

lemma alternatives_skipped:
  "\<not> (failed \<and> prev = ''dateparse'') \<Longrightarrow>
   filter_loop E cfg failed prev (date_alternatives ls) v = Some v"
  by (induction ls) (auto simp: date_alternatives_def)

lemma applyFilter_date:
  "applyFilter E ''dateparse'' (AStr l) v = of_error NoDatePattern (parseLayout E l v)"
  "applyFilter E ''dateparseAlt'' (AStr l) v = of_error NoDatePattern (parseLayout E l v)"
  by (simp_all add: applyFilter_def date_filter_def of_error_def split: option.split)

text \<open>Of the alternative layouts of a date only the first is ever tried: when the layout and the
  first alternative fail, the value is left as it is, whatever the others are.\<close>

theorem only_first_alternative_tried:
  assumes "selFilters s = \<lparr>fltName = ''dateparse'', fltArgs = AStr l0\<rparr> # date_alternatives ls"
  shows "filterText E s v = Some (squeeze
    (case parseLayout E l0 v of
       Some t \<Rightarrow> expand_template E (selFilterConfig s) v t
     | None \<Rightarrow>
         (case ls of
            [] \<Rightarrow> v
          | l1 # _ \<Rightarrow>
              (case parseLayout E l1 v of
                 Some t \<Rightarrow> expand_template E (selFilterConfig s) v t
               | None \<Rightarrow> v))))"
proof (cases "parseLayout E l0 v")
  case (Some t)
  then show ?thesis
    by (simp add: filterText_def assms applyFilter_date of_error_def alternatives_skipped)
next
  case None
  show ?thesis
  proof (cases ls)
    case Nil
    with None show ?thesis
      by (simp add: filterText_def assms applyFilter_date of_error_def date_alternatives_def)
  next
    case (Cons l1 ls')
    then have "date_alternatives ls = \<lparr>fltName = ''dateparseAlt'', fltArgs = AStr l1\<rparr> # date_alternatives ls'"
      by (simp add: date_alternatives_def)
    with None Cons show ?thesis
      by (simp add: filterText_def assms applyFilter_date of_error_def alternatives_skipped
          split: option.split)
  qed
qed

theorem only_first_alternative_tried_witness:
  "filterText sample_env
     (empty_selector\<lparr>selFilters := \<lparr>fltName = ''dateparse'', fltArgs = AStr ''x''\<rparr> #
        date_alternatives [''y'', ''7'']\<rparr>) ''7'' = Some ''7''"
proof -
  have "squeeze ''7'' = ''7''" by code_simp
  then show ?thesis
    by (subst only_first_alternative_tried [where ?l0.0 = "''x''" and ls = "[''y'', ''7'']"])
      (simp_all add: sample_env_def)
qed

end
