(* ===== verification/Selectors.thy ===== *)
theory Selectors
  imports Filters ResultItem
begin

text \<open>
  The elements a page is made of (\<open>indexer/source/scrapeItems.go\<close>) and the selectors that read
  them (\<open>SelectorBlock\<close> of \<open>indexer/source/source.go\<close>). An element is a handle \<open>'e\<close> into a
  document \<open>'d\<close>, which \<open>Remove\<close> changes; the interface \<open>RawScrapeItem\<close> is the record
  \<open>scrape_ops\<close>. It is implemented twice: over the selections of goquery, a library that stays a
  parameter, and over decoded JSON, with the evaluation of a JSON path as the parameter.
\<close>

subsection \<open>The interface\<close>

record ('e, 'd) scrape_ops =
  elFindWithSelector :: "selector_block \<Rightarrow> 'e \<Rightarrow> 'd \<Rightarrow> 'e"
  elFind :: "string \<Rightarrow> 'e \<Rightarrow> 'd \<Rightarrow> 'e"
  elLength :: "'e \<Rightarrow> 'd \<Rightarrow> nat"
  elIs :: "string \<Rightarrow> 'e \<Rightarrow> 'd \<Rightarrow> bool"
  elHas :: "string \<Rightarrow> 'e \<Rightarrow> 'd \<Rightarrow> 'e option"
  elEach :: "'e \<Rightarrow> 'd \<Rightarrow> 'e list"
  elText :: "'e \<Rightarrow> 'd \<Rightarrow> string"
  elAttr :: "string \<Rightarrow> 'e \<Rightarrow> 'd \<Rightarrow> string option"
  elRemove :: "'e \<Rightarrow> 'd \<Rightarrow> 'd option"
  elPrevAllFiltered :: "string \<Rightarrow> 'e \<Rightarrow> 'd \<Rightarrow> 'e option"
  elFirst :: "'e \<Rightarrow> 'd \<Rightarrow> 'e option"

text \<open>\<open>elHas\<close> gives \<open>None\<close> for the nil interface; the other options are \<open>None\<close> for a panic, but
\<open>elAttr\<close>, where it is an attribute that is not there.\<close>

subsection \<open>Elements of HTML\<close>

record ('e, 'd) goquery =
  gqFind :: "string \<Rightarrow> 'e \<Rightarrow> 'd \<Rightarrow> 'e"
  gqLength :: "'e \<Rightarrow> 'd \<Rightarrow> nat"
  gqIs :: "string \<Rightarrow> 'e \<Rightarrow> 'd \<Rightarrow> bool"
  gqHas :: "string \<Rightarrow> 'e \<Rightarrow> 'd \<Rightarrow> 'e"
  gqEach :: "'e \<Rightarrow> 'd \<Rightarrow> 'e list"
  gqText :: "'e \<Rightarrow> 'd \<Rightarrow> string"
  gqAttr :: "string \<Rightarrow> 'e \<Rightarrow> 'd \<Rightarrow> string option"
  gqRemove :: "'e \<Rightarrow> 'd \<Rightarrow> 'd"
  gqPrevAllFiltered :: "string \<Rightarrow> 'e \<Rightarrow> 'd \<Rightarrow> 'e"
  gqFirst :: "'e \<Rightarrow> 'd \<Rightarrow> 'e"
  gqEq :: "nat \<Rightarrow> 'e \<Rightarrow> 'd \<Rightarrow> 'e"

definition dom_ops :: "('e, 'd) goquery \<Rightarrow> ('e, 'd) scrape_ops" where
  "dom_ops Q = \<lparr>
     elFindWithSelector = (\<lambda>block. gqFind Q (selSelector block)),
     elFind = gqFind Q,
     elLength = gqLength Q,
     elIs = gqIs Q,
     elHas = (\<lambda>sel e d. Some (gqHas Q sel e d)),
     elEach = gqEach Q,
     elText = gqText Q,
     elAttr = gqAttr Q,
     elRemove = (\<lambda>e d. Some (gqRemove Q e d)),
     elPrevAllFiltered = (\<lambda>sel e d. Some (gqPrevAllFiltered Q sel e d)),
     elFirst = (\<lambda>e d. Some (gqFirst Q e d))\<rparr>"

definition dom_items_length :: "('e, 'd) goquery \<Rightarrow> 'e option \<Rightarrow> 'd \<Rightarrow> nat" where
  "dom_items_length Q items d = (case items of None \<Rightarrow> 0 | Some e \<Rightarrow> gqLength Q e d)"

subsection \<open>Elements of JSON\<close>

text \<open>A number is the text \<open>%v\<close> prints for it.\<close>

datatype json =
  JNull | JBool bool | JNum string | JStr string | JArr "json list" | JObj "(string \<times> json) list"

text \<open>\<open>fmt.Sprint\<close>; a map is printed in the order of its keys.\<close>

fun json_text :: "json \<Rightarrow> string" where
  "json_text JNull = ''<nil>''"
| "json_text (JBool b) = (if b then ''true'' else ''false'')"
| "json_text (JNum s) = s"
| "json_text (JStr s) = s"
| "json_text (JArr js) = ''['' @ join '' '' (map json_text js) @ '']''"
| "json_text (JObj kjs) =
     ''map['' @ join '' '' (map (\<lambda>(k, t). k @ '':'' @ t)
        (sort_key fst (map (\<lambda>(k, j). (k, json_text j)) kjs))) @ '']''"

type_synonym json_path = "string \<Rightarrow> json \<Rightarrow> json option"

definition json_find :: "json_path \<Rightarrow> string \<Rightarrow> json \<Rightarrow> json" where
  "json_find P path j = (case P path j of None \<Rightarrow> JNull | Some m \<Rightarrow> m)"

fun json_length :: "json \<Rightarrow> nat" where
  "json_length (JArr js) = length js"
| "json_length _ = 1"

fun json_each :: "json \<Rightarrow> json list" where
  "json_each (JArr js) = js"
| "json_each j = [j]"

fun json_first :: "json \<Rightarrow> json option" where
  "json_first (JArr js) = (case js of [] \<Rightarrow> None | j # _ \<Rightarrow> Some j)"
| "json_first j = Some j"

definition json_has :: "json_path \<Rightarrow> string \<Rightarrow> json \<Rightarrow> json option" where
  "json_has P sel j =
     (case P sel j of None \<Rightarrow> None | Some JNull \<Rightarrow> None | Some m \<Rightarrow> Some m)"

definition json_ops :: "json_path \<Rightarrow> (json, unit) scrape_ops" where
  "json_ops P = \<lparr>
     elFindWithSelector = (\<lambda>block j _. json_find P (selPath block) j),
     elFind = (\<lambda>path j _. json_find P path j),
     elLength = (\<lambda>j _. json_length j),
     elIs = (\<lambda>_ _ _. False),
     elHas = (\<lambda>sel j _. json_has P sel j),
     elEach = (\<lambda>j _. json_each j),
     elText = (\<lambda>j _. json_text j),
     elAttr = (\<lambda>_ _ _. None),
     elRemove = (\<lambda>_ _. None),
     elPrevAllFiltered = (\<lambda>_ _ _. None),
     elFirst = (\<lambda>j _. json_first j)\<rparr>"

subsection \<open>Reading with a selector\<close>

datatype sel_error = NoMatch string | NoAttribute string | NoCase

text \<open>What an operation gives together with the document it leaves.\<close>

type_synonym ('a, 'd) sel_result = "(sel_error, 'a) res \<times> 'd"

definition filtered :: "filter_env \<Rightarrow> selector_block \<Rightarrow> string \<Rightarrow> (sel_error, string) res" where
  "filtered E s v = of_panic (filterText E s v)"

text \<open>\<open>None\<close>: \<open>Remove\<close> panics.\<close>

definition removed :: "('e, 'd) scrape_ops \<Rightarrow> selector_block \<Rightarrow> 'e \<Rightarrow> 'd \<Rightarrow> 'd option" where
  "removed D s el d =
     (if selRemove s \<noteq> [] then elRemove D (elFind D (selRemove s) el d) d else Some d)"

text \<open>The first case that holds, in the order in which the runtime ranges over the map; \<open>Length\<close> of
the nil interface panics.\<close>

fun case_loop ::
    "('e, 'd) scrape_ops \<Rightarrow> 'e \<Rightarrow> 'd \<Rightarrow> (string \<times> string) list \<Rightarrow> (sel_error, string) res" where
  "case_loop D el d [] = Err NoCase"
| "case_loop D el d ((pattern, value) # cs) =
     (if elIs D pattern el d then Ok value
      else (case elHas D pattern el d of
              None \<Rightarrow> Panic
            | Some h \<Rightarrow> if elLength D h d \<ge> 1 then Ok value else case_loop D el d cs))"

definition element_text ::
    "('e, 'd) scrape_ops \<Rightarrow> selector_block \<Rightarrow> 'e \<Rightarrow> 'd \<Rightarrow> (sel_error, string) res" where
  "element_text D s el d =
     (let output = squeeze (elText D el d)
      in if selAttribute s \<noteq> []
         then of_error (NoAttribute (selAttribute s)) (elAttr D (selAttribute s) el d)
         else Ok output)"

definition sel_text ::
    "filter_env \<Rightarrow> ('e, 'd) scrape_ops \<Rightarrow> selector_block \<Rightarrow> 'e \<Rightarrow> 'd \<Rightarrow> (string, 'd) sel_result" where
  "sel_text E D s el d =
     (if selTextVal s \<noteq> [] then (filtered E s (selTextVal s), d)
      else (case removed D s el d of
              None \<Rightarrow> (Panic, d)
            | Some d' \<Rightarrow>
                (case selCase s of
                   Some cs \<Rightarrow> (bind_res (case_loop D el d' cs) (filtered E s), d')
                 | None \<Rightarrow> (bind_res (element_text D s el d') (filtered E s), d'))))"

text \<open>\<open>TextRaw\<close> does not filter, except for the value of a case.\<close>

definition sel_textRaw ::
    "filter_env \<Rightarrow> ('e, 'd) scrape_ops \<Rightarrow> selector_block \<Rightarrow> 'e \<Rightarrow> 'd \<Rightarrow> (string, 'd) sel_result" where
  "sel_textRaw E D s el d =
     (if selTextVal s \<noteq> [] then (Ok (selTextVal s), d)
      else (case removed D s el d of
              None \<Rightarrow> (Panic, d)
            | Some d' \<Rightarrow>
                (case selCase s of
                   Some cs \<Rightarrow> (bind_res (case_loop D el d' cs) (filtered E s), d')
                 | None \<Rightarrow> (element_text D s el d', d'))))"

text \<open>The text of one element of several; a missing attribute gives the empty text.\<close>

definition each_text ::
    "filter_env \<Rightarrow> ('e, 'd) scrape_ops \<Rightarrow> selector_block \<Rightarrow> 'd \<Rightarrow> 'e \<Rightarrow> string option" where
  "each_text E D s d el =
     (case element_text D s el d of
        Ok output \<Rightarrow> filterText E s output | _ \<Rightarrow> Some [])"

definition sel_texts ::
    "filter_env \<Rightarrow> ('e, 'd) scrape_ops \<Rightarrow> selector_block \<Rightarrow> 'e \<Rightarrow> 'd \<Rightarrow> (string list, 'd) sel_result" where
  "sel_texts E D s el d =
     (if selTextVal s \<noteq> [] then (map_res (\<lambda>t. [t]) (filtered E s (selTextVal s)), d)
      else (case removed D s el d of
              None \<Rightarrow> (Panic, d)
            | Some d' \<Rightarrow>
                (case selCase s of
                   Some cs \<Rightarrow>
                     (map_res (\<lambda>t. [t]) (bind_res (case_loop D el d' cs) (filtered E s)), d')
                 | None \<Rightarrow> (of_panic (those (map (each_text E D s d') (elEach D el d'))), d'))))"

text \<open>Reading what was found: an empty find is an error, \<open>all\<close> reads every element.\<close>

definition read_found ::
    "filter_env \<Rightarrow> ('e, 'd) scrape_ops \<Rightarrow> selector_block \<Rightarrow> 'e \<Rightarrow> 'd \<Rightarrow> (go_value, 'd) sel_result" where
  "read_found E D s found d =
     (if elLength D found d = 0 then (Err (NoMatch (selSelector s)), d)
      else if selAll s then apfst (map_res VStrings) (sel_texts E D s found d)
      else apfst (map_res VStr) (sel_text E D s found d))"

definition matchBlock ::
    "filter_env \<Rightarrow> ('e, 'd) scrape_ops \<Rightarrow> selector_block \<Rightarrow> 'e \<Rightarrow> 'd \<Rightarrow> (go_value, 'd) sel_result" where
  "matchBlock E D s el d =
     (if selTextVal s \<noteq> [] then (Ok (VStr (selTextVal s)), d)
      else if selSelector s \<noteq> [] then read_found E D s (elFindWithSelector D s el d) d
      else if selPattern s \<noteq> [] then (Ok (VStr (selPattern s)), d)
      else if selPath s \<noteq> [] then read_found E D s (elFind D (selPath s) el d) d
      else apfst (map_res VStr) (sel_text E D s el d))"

definition matchRawText ::
    "filter_env \<Rightarrow> ('e, 'd) scrape_ops \<Rightarrow> selector_block \<Rightarrow> 'e \<Rightarrow> 'd \<Rightarrow> (string, 'd) sel_result" where
  "matchRawText E D s el d =
     (if selTextVal s \<noteq> [] then (Ok (selTextVal s), d)
      else if selSelector s \<noteq> [] then
        (let found = elFindWithSelector D s el d
         in if elLength D found d = 0 then (Err (NoMatch (selSelector s)), d)
            else sel_textRaw E D s found d)
      else if selPattern s \<noteq> [] then (Ok (selPattern s), d)
      else sel_textRaw E D s el d)"

definition selector_isMatching :: "('e, 'd) goquery \<Rightarrow> selector_block \<Rightarrow> 'e \<Rightarrow> 'd \<Rightarrow> bool" where
  "selector_isMatching Q s e d \<longleftrightarrow>
     \<not> selector_isEmpty s \<and> (gqLength Q (gqFind Q (selSelector s) e d) d > 0 \<or> selTextVal s \<noteq> [])"

subsection \<open>Filters that cannot panic\<close>

fun two_strings :: "filter_arg \<Rightarrow> bool" where
  "two_strings (AList (AStr _ # AStr _ # _)) = True"
| "two_strings _ = False"

fun string_pairs :: "filter_arg \<Rightarrow> bool" where
  "string_pairs (AMap ps) = list_all (\<lambda>(a, b). arg_string a \<noteq> None \<and> arg_string b \<noteq> None) ps"
| "string_pairs _ = False"

definition safe_filter :: "filter_block \<Rightarrow> bool" where
  "safe_filter f \<longleftrightarrow>
     fltName f \<noteq> ''split'' \<and>
     (fltName f \<in> {''replace'', ''re_replace''} \<longrightarrow> two_strings (fltArgs f)) \<and>
     (fltName f = ''mapreplace'' \<longrightarrow> string_pairs (fltArgs f))"

fun_cases two_strings_cases: "two_strings a"
fun_cases string_pairs_cases: "string_pairs a"

lemma of_error_not_Panic [simp]: "of_error e x \<noteq> Panic"
  by (simp add: of_error_def split: option.split)

lemma of_panic_Panic [simp]: "of_panic x = Panic \<longleftrightarrow> x = None"
  by (simp add: of_panic_def split: option.split)

lemma of_panic_Some [simp]: "of_panic (Some a) = Ok a"
  by (simp add: of_panic_def)

lemma map_res_Panic [simp]: "map_res f x = Panic \<longleftrightarrow> x = Panic"
  by (cases x) auto

lemma bind_res_Panic: "bind_res x f = Panic \<longleftrightarrow> x = Panic \<or> (\<exists>a. x = Ok a \<and> f a = Panic)"
  by (cases x) auto

lemma bind_res_not_Panic: "x \<noteq> Panic \<Longrightarrow> (\<And>a. x = Ok a \<Longrightarrow> f a \<noteq> Panic) \<Longrightarrow> bind_res x f \<noteq> Panic"
  by (simp add: bind_res_Panic)

lemma string_arg_not_Panic: "(\<And>s. f s \<noteq> Panic) \<Longrightarrow> string_arg t a f \<noteq> Panic"
  by (simp add: string_arg_def bind_res_not_Panic)

lemma filterRegexp_not_Panic: "filterRegexp E p v \<noteq> Panic"
  by (simp add: filterRegexp_def split: option.split list.split)

lemma parseDate_not_Panic: "parseDate E ls v \<noteq> Panic"
  by (induction ls) (auto split: option.split)

lemma date_filter_not_Panic: "date_filter E a v \<noteq> Panic"
  by (simp add: date_filter_def parseDate_not_Panic del: parseDate.simps split: filter_arg.split)

lemma replace_pairs_total:
  "list_all (\<lambda>(a, b). arg_string a \<noteq> None \<and> arg_string b \<noteq> None) ps \<Longrightarrow> replace_pairs ps v \<noteq> None"
  by (induction ps v rule: replace_pairs.induct) auto

lemma applyFilter_not_Panic:
  assumes "safe_filter f"
  shows "applyFilter E (fltName f) (fltArgs f) v \<noteq> Panic"
proof -
  have lists: "replace_filter t a v \<noteq> Panic" "filterReReplace E v a \<noteq> Panic" if "two_strings a" for t a
    using that
    by (auto elim!: two_strings_cases simp: replace_filter_def filterReReplace_def string_arg_def
        of_error_def split: option.splits)
  have maps: "filterMapReplace v a \<noteq> Panic" if "string_pairs a" for a
    using that by (auto elim!: string_pairs_cases simp: replace_pairs_total)
  show ?thesis
    using assms lists maps unfolding applyFilter_def safe_filter_def
    by (simp add: string_arg_not_Panic filterRegexp_not_Panic date_filter_not_Panic)
qed

lemma filter_loop_total:
  "list_all safe_filter fs \<Longrightarrow> filter_loop E cfg failed prev fs v \<noteq> None"
  using applyFilter_not_Panic
  by (induction fs arbitrary: failed prev v) (fastforce split: res.split)+

lemma filterText_total: "list_all safe_filter (selFilters s) \<Longrightarrow> filterText E s v \<noteq> None"
  by (simp add: filterText_def filter_loop_total)

subsection \<open>Elements that always answer\<close>

text \<open>The part of the contract of \<open>RawScrapeItem\<close> the selectors rely on: an element can be asked for
its matching descendants and can be removed.\<close>

locale element_source =
  fixes D :: "('e, 'd) scrape_ops"
  assumes has_answers: "elHas D sel e d \<noteq> None"
    and remove_answers: "elRemove D e d \<noteq> None"
begin

lemma removed_some: "removed D s e d \<noteq> None"
  by (auto simp: removed_def remove_answers simp del: not_None_eq)

lemma case_loop_not_Panic: "case_loop D e d cs \<noteq> Panic"
  by (induction cs) (auto simp: has_answers split: option.splits if_splits)

lemma element_text_not_Panic: "element_text D s e d \<noteq> Panic"
  by (simp add: element_text_def Let_def)

lemma sel_text_not_Panic:
  assumes "\<And>v. filterText E s v \<noteq> None"
  shows "fst (sel_text E D s e d) \<noteq> Panic"
  by (simp add: assms removed_some case_loop_not_Panic element_text_not_Panic
      sel_text_def filtered_def bind_res_Panic split: option.split)

lemma sel_texts_not_Panic:
  assumes "\<And>v. filterText E s v \<noteq> None"
  shows "fst (sel_texts E D s e d) \<noteq> Panic"
proof -
  have "each_text E D s d' e' \<noteq> None" for d' e'
    using assms by (simp add: each_text_def split: res.split)
  then have "those (map (each_text E D s d') es) \<noteq> None" for d' es
    by (induction es) (auto split: option.split)
  then show ?thesis
    by (simp add: assms removed_some case_loop_not_Panic sel_texts_def filtered_def bind_res_Panic
        split: option.split)
qed

lemma read_found_not_Panic:
  assumes "\<And>v. filterText E s v \<noteq> None"
  shows "fst (read_found E D s e d) \<noteq> Panic"
  using sel_text_not_Panic [OF assms] sel_texts_not_Panic [OF assms] by (simp add: read_found_def)

lemma match_not_Panic:
  assumes "\<And>v. filterText E s v \<noteq> None"
  shows "fst (matchBlock E D s e d) \<noteq> Panic"
  using read_found_not_Panic [OF assms] sel_text_not_Panic [OF assms] by (simp add: matchBlock_def)

end

interpretation dom: element_source "dom_ops Q" for Q :: "('e, 'd) goquery"
  by unfold_locales (simp_all add: dom_ops_def)

text \<open>Reading an element of an HTML page never panics when the arguments of the filters of its
  selector are well formed and it has no \<open>split\<close>, whatever the page and the answers of the library are.\<close>

theorem html_match_never_panics:
  assumes "list_all safe_filter (selFilters s)"
  shows "fst (matchBlock E (dom_ops Q) s el d) \<noteq> Panic"
  using assms by (intro dom.match_not_Panic filterText_total)

theorem html_match_never_panics_witness:
  "fst (matchBlock sample_env (dom_ops Q)
     (empty_selector\<lparr>selSelector := ''td'',
        selFilters := [\<lparr>fltName = ''replace'', fltArgs = AList [AStr ''x'', AStr ''y'']\<rparr>]\<rparr>) e d) \<noteq> Panic"
  by (rule html_match_never_panics) (simp add: safe_filter_def)

lemma squeeze_nil: "squeeze ''<nil>'' = ''<nil>''"
  by code_simp

text \<open>What a selector does on JSON when its path is not there: this is no failed match, the value
  reads as the text \<open><nil>\<close>, an attribute is missing, and a map of cases panics unless it is empty.\<close>

theorem json_missing_value:
  assumes "selTextVal s = []" "selSelector s \<noteq> []" "selRemove s = []" "\<not> selAll s"
    and "P (selPath s) j = None" "\<And>p. json_has P p JNull = None"
  shows "fst (matchBlock E (json_ops P) s j ()) =
    (case selCase s of
       None \<Rightarrow> (if selAttribute s \<noteq> [] then Err (NoAttribute (selAttribute s))
                else map_res VStr (filtered E s ''<nil>''))
     | Some [] \<Rightarrow> Err NoCase
     | Some _ \<Rightarrow> Panic)"
  using assms
  by (auto simp: matchBlock_def read_found_def json_ops_def json_find_def sel_text_def squeeze_nil
      removed_def element_text_def of_error_def split: option.split list.split)

theorem json_missing_value_witness:
  "fst (matchBlock sample_env (json_ops (\<lambda>p j. None))
     (empty_selector\<lparr>selSelector := ''x'', selPath := ''$.x''\<rparr>) (JObj [(''y'', JNum ''1'')]) ()) =
   Ok (VStr ''<nil>'')"
  by (subst json_missing_value)
    (simp_all add: empty_selector_def json_has_def filtered_def filterText_def squeeze_nil)

end
