(* ===== verification/RowExtraction.thy ===== *)
theory RowExtraction
  imports Selectors Workpool IndexKeys
begin

text \<open>
  From a row of a page to a result (\<open>indexer/rowsEnumeration.go\<close>, \<open>indexer/resultExtraction.go\<close>,
  \<open>indexer/torrentScheme.go\<close>, and \<open>processScrapedItems\<close> of \<open>indexer/runner.go\<close>): the fields of the
  definition are read from the row, their templates are evaluated, and the item is filled in.
  What the code asks of other packages is in \<open>extract_env\<close>; \<open>mapOrder\<close> is the order in which the
  runtime ranges over the map of field values of a row. \<open>None\<close> is a panic unless said otherwise.
\<close>

subsection \<open>Definitions of an index\<close>

record field_block =
  fbField :: string
  fbBlock :: selector_block

record rows_block =
  rowsSelector :: selector_block
  rowsAfter :: int
  rowsRemove :: string
  dateHeaders :: selector_block

record search_block =
  searchPath :: string
  searchMethod :: string
  pageSize :: int
  maxPages :: int
  searchInputs :: "(string \<times> string) list option"
  searchRows :: rows_block
  searchFields :: "field_block list"
  searchContext :: "field_block list"
  searchKey :: "string list"

definition isSinglePage :: "search_block \<Rightarrow> bool" where
  "isSinglePage sb \<longleftrightarrow> maxPages sb = 1 \<or> searchInputs sb = None"

record index_definition =
  defSite :: string
  defVersion :: string
  defScheme :: string
  defName :: string
  defEncoding :: string
  defLinks :: "string list"
  defCapabilities :: capabilities_block
  defRatio :: selector_block
  defRatioPath :: string
  defSearch :: search_block

record extract_env =
  filters :: filter_env
  resultTemplate :: "string \<Rightarrow> (string \<times> go_value) list \<Rightarrow> string option"
  resolveURL :: "string \<Rightarrow> string option"
  parseBytes :: "string \<Rightarrow> nat option"
  parseFloat :: "string \<Rightarrow> string option"
  floatSeconds :: "string \<Rightarrow> int option"
  fuzzyUnix :: "string \<Rightarrow> int option"
  resultFingerprint :: "string \<Rightarrow> string"
  parseRelease :: "string \<Rightarrow> (string \<Rightarrow> bool) option option"
  mapOrder :: "nat \<Rightarrow> string list \<Rightarrow> string list"
  printOther :: "go_value \<Rightarrow> string"

subsection \<open>Values of fields\<close>

text \<open>The guard of \<open>firstString\<close> is the wrong way round: the first element is asked for only when
there is none.\<close>

fun firstString :: "extract_env \<Rightarrow> go_value \<Rightarrow> string option" where
  "firstString X (VStr s) = Some s"
| "firstString X (VStrings ss) = (if ss = [] then None else Some [])"
| "firstString X VNil = Some ''<nil>''"
| "firstString X v = Some (printOther X v)"

definition expand_result :: "extract_env \<Rightarrow> (string \<times> go_value) list \<Rightarrow> string \<Rightarrow> string" where
  "expand_result X values s = (case resultTemplate X s values of None \<Rightarrow> s | Some t \<Rightarrow> t)"

text \<open>Formatting one text; \<open>None\<close> for the field is the second pass over the values.\<close>

definition format_text ::
    "extract_env \<Rightarrow> field_block option \<Rightarrow> (string \<times> go_value) list \<Rightarrow> string \<Rightarrow> string option" where
  "format_text X field values s =
     (if str_contains s ''{{'' \<or> (case field of None \<Rightarrow> False | Some f \<Rightarrow> selPattern (fbBlock f) \<noteq> []) then
        (case resultTemplate X s values of
           None \<Rightarrow> Some s
         | Some updated \<Rightarrow>
             (case field of
                None \<Rightarrow> Some updated
              | Some f \<Rightarrow>
                  map_option (\<lambda>t. if t = [] then updated else t) (filterText (filters X) (fbBlock f) updated)))
      else Some s)"

text \<open>A slice is formatted in place, so the template of a later element sees the earlier ones under
the key of the value.\<close>

fun format_slice ::
    "extract_env \<Rightarrow> field_block option \<Rightarrow> string \<Rightarrow> (string \<times> go_value) list \<Rightarrow> string list \<Rightarrow>
     string list \<Rightarrow> string list option" where
  "format_slice X field key values done [] = Some done"
| "format_slice X field key values done (s # ss) =
     (case format_text X field (AList.update key (VStrings (done @ s # ss)) values) s of
        None \<Rightarrow> None
      | Some t \<Rightarrow> format_slice X field key values (done @ [t]) ss)"

definition formatValues ::
    "extract_env \<Rightarrow> field_block option \<Rightarrow> string \<Rightarrow> go_value \<Rightarrow> (string \<times> go_value) list \<Rightarrow> go_value option" where
  "formatValues X field key value values =
     (case value of
        VNil \<Rightarrow>
          (case field of
             None \<Rightarrow> Some VNil
           | Some f \<Rightarrow>
               if selTextVal (fbBlock f) = [] then Some VNil
               else map_option VStr (format_text X field values (selTextVal (fbBlock f))))
      | VStrings ss \<Rightarrow> map_option VStrings (format_slice X field key values [] ss)
      | VStr s \<Rightarrow> map_option VStr (format_text X field values s)
      | _ \<Rightarrow> None)"

subsection \<open>Filling in an item\<close>

datatype result_item = ScrapeResult scrape_item | TorrentResult torrent_item

definition empty_torrent :: "scrape_item \<Rightarrow> torrent_item" where
  "empty_torrent item = \<lparr>scraped = item, title = [], originalTitle = [], shortTitle = [],
     description = [], comments = [], tLink = [], fingerprint = [], banner = [], isMagnet = False,
     tSourceLink = [], magnetLink = [], category = 0, tSize = 0, tFiles = 0, grabs = 0, seeders = 0,
     peers = 0, minimumRatio = ''0'', minimumSeedTime = 0, downloadVolumeFactor = ''0'',
     uploadVolumeFactor = ''0'', author = [], authorID = [], localCategoryID = [],
     localCategoryName = [], announce = [], publisher = [], publishedWith = []\<rparr>"

definition torrentScheme :: string where
  "torrentScheme = ''torrent''"

definition createNewResultItem :: "index_definition \<Rightarrow> result_item" where
  "createNewResultItem def =
     (let item = empty_scrape_item\<lparr>modelData := Some []\<rparr>
      in if defScheme def = [] then ScrapeResult item
         else if defScheme def = torrentScheme then TorrentResult (empty_torrent item)
         else ScrapeResult item)"

definition resolved :: "extract_env \<Rightarrow> go_value \<Rightarrow> (string option) option" where
  "resolved X v = map_option (resolveURL X) (firstString X v)"

text \<open>The flag that a field could be filled in is returned as the code does; nobody reads it but
\<open>populateTorrentItemField\<close>.\<close>

definition populateScrapeItemField ::
    "extract_env \<Rightarrow> string \<Rightarrow> go_value \<Rightarrow> scrape_item \<Rightarrow> (bool \<times> scrape_item) option" where
  "populateScrapeItemField X key val item =
     (if key = ''id'' then map_option (\<lambda>s. (True, setLocalID s item)) (firstString X val)
      else if key = ''download'' then
        map_option (\<lambda>r. case r of None \<Rightarrow> (False, item) | Some u \<Rightarrow> (True, item\<lparr>itSourceLink := u\<rparr>))
          (resolved X val)
      else if key = ''link'' then
        map_option (\<lambda>r. case r of None \<Rightarrow> (False, item) | Some u \<Rightarrow> (True, item\<lparr>itLink := u\<rparr>))
          (resolved X val)
      else map_option (Pair True) (setField key val item))"

text \<open>A field that takes the text as it is, and one that takes what a parser makes of it and is left
alone when that fails.\<close>

definition set_text ::
    "extract_env \<Rightarrow> go_value \<Rightarrow> (string \<Rightarrow> 't \<Rightarrow> 't) \<Rightarrow> 't \<Rightarrow> (bool \<times> 't) option" where
  "set_text X val f t = map_option (\<lambda>s. (True, f s t)) (firstString X val)"

definition set_parsed ::
    "extract_env \<Rightarrow> go_value \<Rightarrow> (string \<Rightarrow> 'v option) \<Rightarrow> ('v \<Rightarrow> 't \<Rightarrow> 't) \<Rightarrow> 't \<Rightarrow> (bool \<times> 't) option" where
  "set_parsed X val parse f t =
     map_option (\<lambda>s. case parse s of None \<Rightarrow> (False, t) | Some v \<Rightarrow> (True, f v t)) (firstString X val)"

definition parse_number :: "string \<Rightarrow> int option" where
  "parse_number s = (case atoi (normalizeNumber s) of (n, None) \<Rightarrow> Some n | _ \<Rightarrow> None)"

definition parse_float :: "extract_env \<Rightarrow> string \<Rightarrow> string option" where
  "parse_float X s = parseFloat X (normalizeNumber s)"

definition set_details :: "string \<Rightarrow> torrent_item \<Rightarrow> torrent_item" where
  "set_details u t = t\<lparr>description := u, comments := (if comments t = [] then u else comments t)\<rparr>"

definition set_title ::
    "extract_env \<Rightarrow> (string \<times> go_value) list \<Rightarrow> (string \<times> string) list \<Rightarrow> string \<Rightarrow>
     torrent_item \<Rightarrow> torrent_item" where
  "set_title X row nonFilteredRow s t =
     (let t' = t\<lparr>title := s\<rparr>
      in case map_of nonFilteredRow ''title'' of
           None \<Rightarrow> t'
         | Some v \<Rightarrow>
             t'\<lparr>originalTitle := (if str_contains v ''{{'' then expand_result X row v else v)\<rparr>)"

definition populateTorrentItemField ::
    "extract_env \<Rightarrow> string \<Rightarrow> go_value \<Rightarrow> (string \<times> go_value) list \<Rightarrow> (string \<times> string) list \<Rightarrow>
     torrent_item \<Rightarrow> (bool \<times> torrent_item) option" where
  "populateTorrentItemField X key val row nonFilteredRow item =
     (if key = ''author'' then set_text X val (\<lambda>s. author_update (\<lambda>_. s)) item
      else if key = ''details'' then set_parsed X val (resolveURL X) set_details item
      else if key = ''comments'' then set_parsed X val (resolveURL X) (\<lambda>u. comments_update (\<lambda>_. u)) item
      else if key = ''title'' then set_text X val (set_title X row nonFilteredRow) item
      else if key = ''shortTitle'' then set_text X val (\<lambda>s. shortTitle_update (\<lambda>_. s)) item
      else if key = ''description'' then set_text X val (\<lambda>s. description_update (\<lambda>_. s)) item
      else if key = ''category'' then set_text X val (\<lambda>s. localCategoryID_update (\<lambda>_. s)) item
      else if key = ''categoryName'' then set_text X val (\<lambda>s. localCategoryName_update (\<lambda>_. s)) item
      else if key = ''magnet'' then set_parsed X val (resolveURL X) (\<lambda>u. magnetLink_update (\<lambda>_. u)) item
      else if key = ''size'' then
        set_parsed X val (\<lambda>s. parseBytes X (replace_all s '','' []))
          (\<lambda>n. tSize_update (\<lambda>_. word_of_nat n)) item
      else if key = ''leechers'' then
        set_parsed X val parse_number (\<lambda>n. peers_update (\<lambda>p. wrap64 (p + n))) item
      else if key = ''seeders'' then
        set_parsed X val parse_number
          (\<lambda>n t. t\<lparr>seeders := n, peers := wrap64 (peers t + n)\<rparr>) item
      else if key = ''authorId'' then set_text X val (\<lambda>s. authorID_update (\<lambda>_. s)) item
      else if key = ''date'' then
        set_parsed X val (fuzzyUnix X) (\<lambda>n. scraped_update (setPublishDate n)) item
      else if key = ''files'' then set_parsed X val parse_number (\<lambda>n. tFiles_update (\<lambda>_. n)) item
      else if key = ''grabs'' then set_parsed X val parse_number (\<lambda>n. grabs_update (\<lambda>_. n)) item
      else if key = ''downloadvolumefactor'' then
        set_parsed X val (parse_float X) (\<lambda>f. downloadVolumeFactor_update (\<lambda>_. f)) item
      else if key = ''uploadvolumefactor'' then
        set_parsed X val (parse_float X) (\<lambda>f. uploadVolumeFactor_update (\<lambda>_. f)) item
      else if key = ''minimumratio'' then
        set_parsed X val (parse_float X) (\<lambda>f. minimumRatio_update (\<lambda>_. f)) item
      else if key = ''minimumseedtime'' then
        set_parsed X val (\<lambda>s. floatSeconds X (normalizeNumber s))
          (\<lambda>n. minimumSeedTime_update (\<lambda>_. wrap64 (n * 1000000000))) item
      else if key = ''banner'' then
        set_text X val (\<lambda>s. banner_update (\<lambda>_. case resolveURL X s of None \<Rightarrow> s | Some u \<Rightarrow> u)) item
      else map_option (\<lambda>(ok, i). (ok, item\<lparr>scraped := i\<rparr>))
        (populateScrapeItemField X key val (scraped item)))"

text \<open>The two kinds of items; \<open>resolveItemCategory\<close> answers whether the item belongs to the search,
which \<open>populateTorrentData\<close> does not look at.\<close>

definition itemMatchesLocalCategories :: "string list \<Rightarrow> torrent_item \<Rightarrow> bool" where
  "itemMatchesLocalCategories localCats t \<longleftrightarrow> localCategoryID t \<in> set localCats"

definition isSeriesAndNotMatching :: "extract_env \<Rightarrow> query \<Rightarrow> torrent_item \<Rightarrow> bool" where
  "isSeriesAndNotMatching X q t \<longleftrightarrow>
     qSeries q \<noteq> [] \<and>
     (case parseRelease X (title t) of
        None \<Rightarrow> True | Some None \<Rightarrow> False | Some (Some titleEquals) \<Rightarrow> \<not> titleEquals (qSeries q))"

definition resolveItemCategory ::
    "extract_env \<Rightarrow> categoryMap \<Rightarrow> query \<Rightarrow> string list \<Rightarrow> torrent_item \<Rightarrow> bool \<times> torrent_item" where
  "resolveItemCategory X m q localCats t =
     (if localCats \<noteq> [] \<and> \<not> itemMatchesLocalCategories localCats t then (False, t)
      else let t' = t\<lparr>category := resolveCategoryForTorrent m (localCategoryID t) (category t)\<rparr>
           in (\<not> isSeriesAndNotMatching X q t', t'))"

definition populateTorrentData ::
    "extract_env \<Rightarrow> categoryMap \<Rightarrow> query \<Rightarrow> string list \<Rightarrow> torrent_item \<Rightarrow> torrent_item" where
  "populateTorrentData X m q localCats t =
     snd (resolveItemCategory X m q localCats (t\<lparr>fingerprint := resultFingerprint X (title t)\<rparr>))"

subsection \<open>Reading a row\<close>

type_synonym field_values = "(string \<times> go_value) list"
type_synonym failing_fields = "(string \<times> field_block) list"

text \<open>The first pass: every field is read; the title is read a second time without its filters. A
field that cannot be read is noted and has no value.\<close>

fun read_fields ::
    "extract_env \<Rightarrow> ('e, 'd) scrape_ops \<Rightarrow> 'e \<Rightarrow> field_block list \<Rightarrow>
     field_values \<times> (string \<times> string) list \<times> failing_fields \<times> 'd \<Rightarrow>
     (field_values \<times> (string \<times> string) list \<times> failing_fields \<times> 'd) option" where
  "read_fields X D el [] st = Some st"
| "read_fields X D el (f # fs) (values, raw, failing, d) =
     (case matchBlock (filters X) D (fbBlock f) el d of
        (Panic, _) \<Rightarrow> None
      | (r, d1) \<Rightarrow>
          (case (if fbField f = ''title'' then matchRawText (filters X) D (fbBlock f) el d1
                 else (Err NoCase, d1)) of
             (Panic, _) \<Rightarrow> None
           | (rawText, d2) \<Rightarrow>
               read_fields X D el fs
                 (case r of Ok v \<Rightarrow> AList.update (fbField f) v values | _ \<Rightarrow> values,
                  case rawText of Ok t \<Rightarrow> AList.update (fbField f) t raw | _ \<Rightarrow> raw,
                  case r of Err _ \<Rightarrow> AList.update (fbField f) f failing | _ \<Rightarrow> failing,
                  d2)))"

text \<open>The second pass evaluates the templates in the order of the definition; a field without a value
gets the nil value here.\<close>

definition value_of :: "field_values \<Rightarrow> string \<Rightarrow> go_value" where
  "value_of values key = (case map_of values key of None \<Rightarrow> VNil | Some v \<Rightarrow> v)"

fun format_fields :: "extract_env \<Rightarrow> field_block list \<Rightarrow> field_values \<Rightarrow> field_values option" where
  "format_fields X [] values = Some values"
| "format_fields X (f # fs) values =
     (case formatValues X (Some f) (fbField f) (value_of values (fbField f)) values of
        None \<Rightarrow> None
      | Some v \<Rightarrow> format_fields X fs (AList.update (fbField f) v values))"

text \<open>The third pass formats each value once more, which changes slices only, and fills the item.\<close>

definition reformatted :: "extract_env \<Rightarrow> string \<Rightarrow> field_values \<Rightarrow> (go_value \<times> field_values) option" where
  "reformatted X key values =
     (let val = value_of values key
      in case formatValues X None key val values of
           None \<Rightarrow> None
         | Some v \<Rightarrow>
             (case val of VStrings _ \<Rightarrow> Some (v, AList.update key v values) | _ \<Rightarrow> Some (val, values)))"

definition populateField ::
    "extract_env \<Rightarrow> string \<Rightarrow> string \<Rightarrow> go_value \<Rightarrow> field_values \<Rightarrow> (string \<times> string) list \<Rightarrow>
     result_item \<Rightarrow> result_item option" where
  "populateField X scheme key val row nonFilteredRow item =
     (if scheme = torrentScheme then
        (case item of
           ScrapeResult _ \<Rightarrow> None
         | TorrentResult t \<Rightarrow>
             map_option (\<lambda>r. TorrentResult (snd r))
               (populateTorrentItemField X key val row nonFilteredRow t))
      else
        (case item of
           ScrapeResult i \<Rightarrow> map_option (\<lambda>r. ScrapeResult (snd r)) (populateScrapeItemField X key val i)
         | TorrentResult _ \<Rightarrow> None))"

fun populate_fields ::
    "extract_env \<Rightarrow> string \<Rightarrow> (string \<times> string) list \<Rightarrow> string list \<Rightarrow> field_values \<Rightarrow> result_item \<Rightarrow>
     result_item option" where
  "populate_fields X scheme raw [] values item = Some item"
| "populate_fields X scheme raw (key # ks) values item =
     (case reformatted X key values of
        None \<Rightarrow> None
      | Some (val, values') \<Rightarrow>
          (case populateField X scheme key val values' raw item of
             None \<Rightarrow> None
           | Some item' \<Rightarrow> populate_fields X scheme raw ks values' item'))"

fun item_update :: "(scrape_item \<Rightarrow> scrape_item) \<Rightarrow> result_item \<Rightarrow> result_item" where
  "item_update f (ScrapeResult i) = ScrapeResult (f i)"
| "item_update f (TorrentResult t) = TorrentResult (t\<lparr>scraped := f (scraped t)\<rparr>)"

subsection \<open>The date of a group of rows\<close>

datatype row_error = NoDateHeader | BadDate

definition hasDateHeader :: "index_definition \<Rightarrow> bool" where
  "hasDateHeader def \<longleftrightarrow> \<not> selector_isEmpty (dateHeaders (searchRows (defSearch def)))"

definition extractDateHeader ::
    "extract_env \<Rightarrow> ('e, 'd) scrape_ops \<Rightarrow> index_definition \<Rightarrow> 'e \<Rightarrow> 'd \<Rightarrow> (row_error, int) res \<times> 'd" where
  "extractDateHeader X D def el d =
     (let s = dateHeaders (searchRows (defSearch def))
      in case Option.bind (elPrevAllFiltered D (selSelector s) el d) (\<lambda>p. elFirst D p d) of
           None \<Rightarrow> (Panic, d)
         | Some prev \<Rightarrow>
             if elLength D prev d = 0 then (Err NoDateHeader, d)
             else (case elFirst D prev d of
                     None \<Rightarrow> (Panic, d)
                   | Some header \<Rightarrow>
                       (case sel_text (filters X) D s header d of
                          (Panic, d') \<Rightarrow> (Panic, d')
                        | (Err _, d') \<Rightarrow> (of_error BadDate (fuzzyUnix X []), d')
                        | (Ok dv, d') \<Rightarrow> (of_error BadDate (fuzzyUnix X dv), d'))))"

subsection \<open>A row and all rows\<close>

text \<open>\<open>new_item\<close> is the item before the third pass.\<close>

definition new_item :: "index_definition \<Rightarrow> result_item" where
  "new_item def =
     item_update (\<lambda>i. setIndexer (Some \<lparr>riID = [], riName = defName def\<rparr>) (setSite (defSite def) i))
       (createNewResultItem def)"

definition finish_item ::
    "extract_env \<Rightarrow> index_definition \<Rightarrow> query \<Rightarrow> string list \<Rightarrow> result_item \<Rightarrow> result_item" where
  "finish_item X def q localCats item =
     (case item of
        TorrentResult t \<Rightarrow>
          TorrentResult (populateTorrentData X (categoryMap (defCapabilities def)) q localCats t)
      | _ \<Rightarrow> item)"

definition extractItem ::
    "extract_env \<Rightarrow> ('e, 'd) scrape_ops \<Rightarrow> index_definition \<Rightarrow> query \<Rightarrow> string list \<Rightarrow> nat \<Rightarrow> 'e \<Rightarrow>
     failing_fields \<times> 'd \<Rightarrow> (row_error, result_item) res \<times> failing_fields \<times> 'd" where
  "extractItem X D def q localCats rowIdx el st =
     (let fields = searchFields (defSearch def)
      in case read_fields X D el fields ([], [], fst st, snd st) of
           None \<Rightarrow> (Panic, st)
         | Some (found, raw, failing, d) \<Rightarrow>
             (case format_fields X fields found of
                None \<Rightarrow> (Panic, failing, d)
              | Some values \<Rightarrow>
                  (case populate_fields X (defScheme def) raw (mapOrder X rowIdx (map fst values))
                     values (new_item def) of
                     None \<Rightarrow> (Panic, failing, d)
                   | Some item \<Rightarrow>
                       if hasDateHeader def then
                         (case extractDateHeader X D def el d of
                            (Panic, d') \<Rightarrow> (Panic, failing, d')
                          | (Err e, d') \<Rightarrow> (Err e, failing, d')
                          | (Ok date, d') \<Rightarrow>
                              (Ok (finish_item X def q localCats (item_update (setPublishDate date) item)),
                               failing, d'))
                       else (Ok (finish_item X def q localCats item), failing, d))))"

text \<open>The loop over the rows, \<open>i\<close> the index of the next one; a row that gives an error is left out.\<close>

fun process_loop ::
    "extract_env \<Rightarrow> ('e, 'd) scrape_ops \<Rightarrow> index_definition \<Rightarrow> query \<Rightarrow> string list \<Rightarrow> nat \<Rightarrow> 'e list \<Rightarrow>
     result_item list \<Rightarrow> failing_fields \<times> 'd \<Rightarrow> result_item list option \<times> failing_fields \<times> 'd" where
  "process_loop X D def q localCats i [] results st = (Some results, st)"
| "process_loop X D def q localCats i (row # rows) results st =
     (if hasEnoughResults q (word_of_nat (length results)) then (Some results, st)
      else (case extractItem X D def q localCats (i + 1) row st of
              (Panic, st') \<Rightarrow> (None, st')
            | (Err _, st') \<Rightarrow> process_loop X D def q localCats (i + 1) rows results st'
            | (Ok item, st') \<Rightarrow> process_loop X D def q localCats (i + 1) rows (results @ [item]) st'))"

definition processScrapedItems ::
    "extract_env \<Rightarrow> ('e, 'd) scrape_ops \<Rightarrow> index_definition \<Rightarrow> query \<Rightarrow> string list \<Rightarrow> 'e list \<Rightarrow>
     failing_fields \<times> 'd \<Rightarrow> result_item list option \<times> failing_fields \<times> 'd" where
  "processScrapedItems X D def q localCats rows st = process_loop X D def q localCats 0 rows [] st"

end
