(* ===== verification/RowFacts.thy ===== *)
theory RowFacts
  imports RowExtraction
begin

text \<open>
  What the extraction of results gives: the rows that are kept, the contents of a scraped item
  whatever the order of the map of its values is, and what becomes of a torrent that the search
  did not ask for.
\<close>

subsection \<open>The rows that are kept\<close>

text \<open>The reference: every row extracted in turn, whatever became of those before.\<close>

fun extract_rows ::
    "extract_env \<Rightarrow> ('e, 'd) scrape_ops \<Rightarrow> index_definition \<Rightarrow> query \<Rightarrow> string list \<Rightarrow> nat \<Rightarrow> 'e list \<Rightarrow>
     failing_fields \<times> 'd \<Rightarrow> (row_error, result_item) res list" where
  "extract_rows X D def q localCats i [] st = []"
| "extract_rows X D def q localCats i (row # rows) st =
     (let (r, st') = extractItem X D def q localCats (i + 1) row st
      in r # extract_rows X D def q localCats (i + 1) rows st')"

fun kept_items :: "('e, 'a) res list \<Rightarrow> 'a list" where
  "kept_items [] = []"
| "kept_items (Ok a # rs) = a # kept_items rs"
| "kept_items (_ # rs) = kept_items rs"

definition take_limit :: "query \<Rightarrow> 'a list \<Rightarrow> 'a list" where
  "take_limit q xs = (if qLimit q = 0 then xs else take (unat (qLimit q)) xs)"

lemma hasEnoughResults_unat:
  assumes "n \<le> unat (qLimit q)"
  shows "hasEnoughResults q (word_of_nat n) \<longleftrightarrow> qLimit q \<noteq> 0 \<and> n = unat (qLimit q)"
proof -
  have "unat (word_of_nat n :: uint64) = n"
    using assms unsigned_less [of "qLimit q", where ?'a = nat]
    by (simp add: unsigned_of_nat take_bit_nat_eq_self_iff)
  then show ?thesis
    using assms by (auto simp: hasEnoughResults_def word_le_nat_alt word_gt_0)
qed

lemma process_loop_take:
  assumes "process_loop X D def q cats i rows results st = (Some out, st')"
    and "qLimit q = 0 \<or> length results \<le> unat (qLimit q)"
  shows "out = take_limit q (results @ kept_items (extract_rows X D def q cats i rows st))"
  using assms
proof (induction X D def q cats i rows results st rule: process_loop.induct)
  case (1 X D def q cats i results st)
  then show ?case by (auto simp: take_limit_def)
next
  case (2 X D def q cats i row rows results st)
  show ?case
  proof (cases "hasEnoughResults q (word_of_nat (length results))")
    case True
    then have "qLimit q \<noteq> 0" by (auto simp: hasEnoughResults_def)
    with True 2(4) have "length results = unat (qLimit q)" by (simp add: hasEnoughResults_unat)
    with True 2(3) \<open>qLimit q \<noteq> 0\<close> show ?thesis by (simp add: take_limit_def)
  next
    case False
    obtain r st1 where r: "extractItem X D def q cats (i + 1) row st = (r, st1)" by (cases "extractItem X D def q cats (i + 1) row st")
    have room: "qLimit q = 0 \<or> length results < unat (qLimit q)"
      using 2(4) False hasEnoughResults_unat [of "length results" q] by (metis le_less order_refl)
    show ?thesis
    proof (cases r)
      case Panic
      with False r 2(3) show ?thesis by simp
    next
      case (Err e)
      with False r 2 show ?thesis by simp
    next
      case (Ok item)
      with False r 2 room show ?thesis by (simp add: Suc_le_eq)
    qed
  qed
qed

text \<open>A small index over JSON rows for the witnesses.\<close>

definition sample_path :: json_path where
  "sample_path path j = (case j of JObj kvs \<Rightarrow> map_of kvs path | _ \<Rightarrow> None)"

definition sample_extract :: extract_env where
  "sample_extract = \<lparr>filters = sample_env, resultTemplate = (\<lambda>s m. None),
     resolveURL = (\<lambda>s. Some (''u/'' @ s)), parseBytes = (\<lambda>s. None), parseFloat = (\<lambda>s. None),
     floatSeconds = (\<lambda>s. None), fuzzyUnix = (\<lambda>s. None), resultFingerprint = (\<lambda>s. s),
     parseRelease = (\<lambda>s. None), mapOrder = (\<lambda>n ks. rev ks), printOther = (\<lambda>v. [])\<rparr>"

definition sample_field :: "string \<Rightarrow> string \<Rightarrow> field_block" where
  "sample_field name path = \<lparr>fbField = name, fbBlock = empty_selector\<lparr>selPath := path\<rparr>\<rparr>"

definition sample_definition :: "string \<Rightarrow> field_block list \<Rightarrow> index_definition" where
  "sample_definition scheme fs = \<lparr>defSite = ''site'', defVersion = [], defScheme = scheme, defName = ''n'',
     defEncoding = [], defLinks = [], defCapabilities = \<lparr>categoryMap = [], searchModes = []\<rparr>,
     defRatio = empty_selector, defRatioPath = [],
     defSearch = \<lparr>searchPath = [], searchMethod = [], pageSize = 0, maxPages = 1, searchInputs = None,
       searchRows = \<lparr>rowsSelector = empty_selector, rowsAfter = 0, rowsRemove = [], dateHeaders = empty_selector\<rparr>,
       searchFields = fs, searchContext = [], searchKey = []\<rparr>\<rparr>"

text \<open>C24: The results of a page are the items of its first rows that can be extracted, in the order of
  the page and as many as the query asks for; a row that gives an error costs no result.\<close>

theorem results_are_first_good_rows:
  assumes "processScrapedItems X D def q cats rows st = (Some results, st')"
  shows "results = take_limit q (kept_items (extract_rows X D def q cats 0 rows st))
    \<and> (qLimit q \<noteq> 0 \<longrightarrow> length results \<le> unat (qLimit q))"
  using process_loop_take [OF assms [unfolded processScrapedItems_def]]
  by (simp add: take_limit_def)

theorem results_are_first_good_rows_witness:
  "\<exists>results. fst (processScrapedItems sample_extract (json_ops sample_path)
       (sample_definition [] [sample_field ''id'' ''k'']) (newQuery\<lparr>qLimit := 1\<rparr>) []
       [JObj [(''k'', JStr ''a'')], JObj [(''k'', JStr ''b'')]] ([], ())) = Some results
     \<and> map (\<lambda>r. case r of ScrapeResult i \<Rightarrow> localID i | _ \<Rightarrow> []) results = [''a'']
     \<and> length results \<le> 1"
proof -
  let ?q = "newQuery\<lparr>qLimit := 1\<rparr>"
  let ?run = "processScrapedItems sample_extract (json_ops sample_path)
       (sample_definition [] [sample_field ''id'' ''k'']) ?q []
       [JObj [(''k'', JStr ''a'')], JObj [(''k'', JStr ''b'')]] ([], ())"
  have run: "map_option (map (\<lambda>r. case r of ScrapeResult i \<Rightarrow> localID i | _ \<Rightarrow> [])) (fst ?run) = Some [''a'']"
    by code_simp
  then obtain results st' where r: "?run = (Some results, st')" by (cases ?run) auto
  from results_are_first_good_rows [OF r, THEN conjunct2] have "length results \<le> 1" by simp
  with run r show ?thesis by simp
qed

subsection \<open>The values of a row\<close>

lemma value_of_update: "value_of (AList.update k v m) k' = (if k' = k then v else value_of m k')"
  by (simp add: value_of_def update_conv')

lemma format_fields_other:
  "format_fields X fs m = Some m' \<Longrightarrow> k \<notin> fbField ` set fs \<Longrightarrow> value_of m' k = value_of m k"
  by (induction fs arbitrary: m) (auto simp: value_of_update split: option.splits)

lemma format_fields_keys:
  "format_fields X fs m = Some m' \<Longrightarrow> fst ` set m' = fst ` set m \<union> fbField ` set fs"
  by (induction fs arbitrary: m) (auto simp: dom_update split: option.splits)

lemma format_fields_distinct:
  "format_fields X fs m = Some m' \<Longrightarrow> distinct (map fst m) \<Longrightarrow> distinct (map fst m')"
  by (induction fs arbitrary: m) (auto simp: distinct_update split: option.splits)

text \<open>A field that cannot be read keeps the nil value.\<close>

definition unreadable :: "extract_env \<Rightarrow> ('e, 'd) scrape_ops \<Rightarrow> 'e \<Rightarrow> field_block \<Rightarrow> bool" where
  "unreadable X D el f \<longleftrightarrow> (\<forall>d. \<exists>e. fst (matchBlock (filters X) D (fbBlock f) el d) = Err e)"

lemma unreadable_no_text: "unreadable X D el f \<Longrightarrow> selTextVal (fbBlock f) = []"
  by (auto simp: unreadable_def matchBlock_def split: if_splits)

lemma read_fields_Cons:
  assumes "read_fields X D el (f # fs) (m, raw, failing, d) = Some out"
  obtains r d1 raw1 failing1 d2 where
    "matchBlock (filters X) D (fbBlock f) el d = (r, d1)"
    "read_fields X D el fs (case r of Ok v \<Rightarrow> AList.update (fbField f) v m | _ \<Rightarrow> m, raw1, failing1, d2)
       = Some out"
proof (cases "matchBlock (filters X) D (fbBlock f) el d")
  case (Pair r d1)
  with assms that show thesis by (auto split: res.splits prod.splits)
qed

lemma read_fields_other:
  assumes "read_fields X D el fs (m, raw, failing, d) = Some (m', raw', failing', d')"
    and "\<And>f. f \<in> set fs \<Longrightarrow> fbField f = k \<Longrightarrow> unreadable X D el f"
  shows "value_of m' k = value_of m k"
  using assms
proof (induction fs arbitrary: m raw failing d)
  case Nil
  then show ?case by simp
next
  case (Cons f fs)
  from Cons.prems(1) obtain r d1 raw1 failing1 d2 where
    r: "matchBlock (filters X) D (fbBlock f) el d = (r, d1)" and
    rest: "read_fields X D el fs (case r of Ok v \<Rightarrow> AList.update (fbField f) v m | _ \<Rightarrow> m, raw1, failing1, d2)
       = Some (m', raw', failing', d')"
    by (rule read_fields_Cons)
  have keep: "value_of (case r of Ok v \<Rightarrow> AList.update (fbField f) v m | _ \<Rightarrow> m) k = value_of m k"
  proof (cases "fbField f = k")
    case True
    with Cons.prems(2) have "unreadable X D el f" by simp
    then obtain e where "r = Err e" using r unfolding unreadable_def by (metis fst_conv)
    then show ?thesis by simp
  qed (simp add: value_of_update split: res.split)
  from Cons.IH [OF rest] Cons.prems(2) keep show ?case by simp
qed

lemma format_fields_unreadable:
  assumes "format_fields X fs m = Some m'" "value_of m k = VNil"
    and "\<And>f. f \<in> set fs \<Longrightarrow> fbField f = k \<Longrightarrow> selTextVal (fbBlock f) = []"
  shows "value_of m' k = VNil"
  using assms
proof (induction fs arbitrary: m)
  case Nil
  then show ?case by simp
next
  case (Cons f fs)
  then obtain v where v: "formatValues X (Some f) (fbField f) (value_of m (fbField f)) m = Some v"
    "format_fields X fs (AList.update (fbField f) v m) = Some m'"
    by (auto split: option.splits)
  have "value_of (AList.update (fbField f) v m) k = VNil"
    using v(1) Cons.prems by (auto simp: value_of_update formatValues_def split: if_splits)
  with Cons.IH [OF v(2)] Cons.prems(3) show ?case by simp
qed

lemma read_fields_distinct:
  assumes "read_fields X D el fs (m, raw, failing, d) = Some (m', raw', failing', d')" "distinct (map fst m)"
  shows "distinct (map fst m')"
  using assms
proof (induction fs arbitrary: m raw failing d)
  case Nil
  then show ?case by simp
next
  case (Cons f fs)
  from Cons.prems(1) obtain r d1 raw1 failing1 d2 where
    r: "matchBlock (filters X) D (fbBlock f) el d = (r, d1)" and
    rest: "read_fields X D el fs (case r of Ok v \<Rightarrow> AList.update (fbField f) v m | _ \<Rightarrow> m, raw1, failing1, d2)
       = Some (m', raw', failing', d')"
    by (rule read_fields_Cons)
  from Cons.IH [OF rest] Cons.prems(2) show ?case by (simp add: distinct_update split: res.split)
qed

lemma read_fields_keys:
  assumes "read_fields X D el fs (m, raw, failing, d) = Some (m', raw', failing', d')"
  shows "fst ` set m' \<subseteq> fst ` set m \<union> fbField ` set fs"
  using assms
proof (induction fs arbitrary: m raw failing d)
  case Nil
  then show ?case by simp
next
  case (Cons f fs)
  from Cons.prems(1) obtain r d1 raw1 failing1 d2 where
    r: "matchBlock (filters X) D (fbBlock f) el d = (r, d1)" and
    rest: "read_fields X D el fs (case r of Ok v \<Rightarrow> AList.update (fbField f) v m | _ \<Rightarrow> m, raw1, failing1, d2)
       = Some (m', raw', failing', d')"
    by (rule read_fields_Cons)
  from Cons.IH [OF rest] show ?case by (auto simp: dom_update split: res.splits)
qed

subsection \<open>Filling in a scraped item\<close>

text \<open>What the item shows of the value of a key, and that a link has not been filled in yet.\<close>

definition item_shows :: "extract_env \<Rightarrow> string \<Rightarrow> go_value \<Rightarrow> scrape_item \<Rightarrow> bool" where
  "item_shows X k v j \<longleftrightarrow>
     (if k = ''id'' then firstString X v = Some (localID j)
      else if k = ''download'' then
        resolved X v = Some None \<and> itSourceLink j = [] \<or> resolved X v = Some (Some (itSourceLink j))
      else if k = ''link'' then
        resolved X v = Some None \<and> itLink j = [] \<or> resolved X v = Some (Some (itLink j))
      else model_lookup j k = Some v)"

definition unlinked :: "string \<Rightarrow> scrape_item \<Rightarrow> bool" where
  "unlinked k i \<longleftrightarrow> (k = ''download'' \<longrightarrow> itSourceLink i = []) \<and> (k = ''link'' \<longrightarrow> itLink i = [])"

lemma setField_effect:
  assumes "setField k v i = Some j"
  shows "model_lookup j = (model_lookup i)(k \<mapsto> v)"
    and "localID j = localID i" "itSourceLink j = itSourceLink i" "itLink j = itLink i" "itSite j = itSite i"
  using assms by (auto simp: setField_def model_lookup_def update_conv' fun_eq_iff split: option.splits)

lemma populate_cases:
  assumes "populateScrapeItemField X k v i = Some (ok, j)"
  obtains (id) s where "k = ''id''" "firstString X v = Some s" "j = i\<lparr>localID := s\<rparr>"
  | (unresolved) "k = ''download'' \<or> k = ''link''" "resolved X v = Some None" "j = i"
  | (download) u where "k = ''download''" "resolved X v = Some (Some u)" "j = i\<lparr>itSourceLink := u\<rparr>"
  | (link) u where "k = ''link''" "resolved X v = Some (Some u)" "j = i\<lparr>itLink := u\<rparr>"
  | (model) "k \<noteq> ''id''" "k \<noteq> ''download''" "k \<noteq> ''link''" "setField k v i = Some j"
  using assms unfolding populateScrapeItemField_def setLocalID_def
  by (auto split: if_splits option.splits)

lemma model_lookup_more [simp]:
  "model_lookup (i\<lparr>localID := s\<rparr>) = model_lookup i"
  "model_lookup (i\<lparr>itLink := s\<rparr>) = model_lookup i"
  "model_lookup (i\<lparr>itSourceLink := s\<rparr>) = model_lookup i"
  "model_lookup (i\<lparr>publishDate := n\<rparr>) = model_lookup i"
  by (simp_all add: model_lookup_def fun_eq_iff)

lemma populate_shows:
  assumes "populateScrapeItemField X k v i = Some (ok, j)" "unlinked k i"
  shows "item_shows X k v j"
  using assms(1)
proof (cases rule: populate_cases)
  case unresolved
  then show ?thesis using assms(2) by (auto simp: item_shows_def unlinked_def)
next
  case model
  then show ?thesis by (simp add: item_shows_def setField_effect(1))
qed (simp_all add: item_shows_def)

lemma populate_frame:
  assumes "populateScrapeItemField X k v i = Some (ok, j)" "k' \<noteq> k"
  shows "item_shows X k' v' j = item_shows X k' v' i \<and> unlinked k' j = unlinked k' i"
  using assms(1)
proof (cases rule: populate_cases)
  case model
  then show ?thesis using assms(2) by (simp add: item_shows_def unlinked_def setField_effect)
qed (use assms(2) in \<open>auto simp: item_shows_def unlinked_def\<close>)

lemma populate_site: "populateScrapeItemField X k v i = Some (ok, j) \<Longrightarrow> itSite j = itSite i"
  by (erule populate_cases) (simp_all add: setField_effect)

fun is_slice :: "go_value \<Rightarrow> bool" where
  "is_slice (VStrings _) = True"
| "is_slice _ = False"

lemma reformatted_plain:
  assumes "reformatted X key vals = Some (v, vals')" "\<not> is_slice (value_of vals k)"
  shows "value_of vals' k = value_of vals k" "k = key \<Longrightarrow> v = value_of vals k"
  using assms
  by (auto simp: reformatted_def Let_def value_of_update split: option.splits go_value.splits)

lemma populate_fields_shows:
  assumes "populate_fields X scheme raw ks vals (ScrapeResult i) = Some item"
    and "scheme \<noteq> torrentScheme" "distinct ks" "\<forall>k\<in>set ks. unlinked k i"
  shows "\<exists>j. item = ScrapeResult j \<and> itSite j = itSite i
    \<and> (\<forall>k\<in>set ks. \<not> is_slice (value_of vals k) \<longrightarrow> item_shows X k (value_of vals k) j)
    \<and> (\<forall>k v. k \<notin> set ks \<longrightarrow> item_shows X k v i \<longrightarrow> item_shows X k v j)"
  using assms
proof (induction ks arbitrary: vals i)
  case Nil
  then show ?case by auto
next
  case (Cons key ks)
  from Cons.prems(1,2) obtain v vals' ok i' where
    re: "reformatted X key vals = Some (v, vals')" and
    pop: "populateScrapeItemField X key v i = Some (ok, i')" and
    rest: "populate_fields X scheme raw ks vals' (ScrapeResult i') = Some item"
    by (auto simp: populateField_def split: option.splits)
  have "\<forall>k\<in>set ks. unlinked k i'"
    using Cons.prems(3,4) populate_frame [OF pop] by (metis distinct.simps(2) list.set_intros(2))
  with Cons.IH [OF rest] Cons.prems(2,3) obtain j where
    j: "item = ScrapeResult j" "itSite j = itSite i'"
    "\<And>k. k \<in> set ks \<Longrightarrow> \<not> is_slice (value_of vals' k) \<Longrightarrow> item_shows X k (value_of vals' k) j"
    "\<And>k v. k \<notin> set ks \<Longrightarrow> item_shows X k v i' \<Longrightarrow> item_shows X k v j"
    by auto
  have head: "item_shows X key v j"
    using populate_shows [OF pop] Cons.prems(3,4) j(4) by simp
  have "item_shows X k (value_of vals k) j"
    if "k \<in> set (key # ks)" "\<not> is_slice (value_of vals k)" for k
  proof (cases "k = key")
    case True
    then show ?thesis using head reformatted_plain(2) [OF re that(2)] by simp
  next
    case False
    then show ?thesis using that j(3) [of k] reformatted_plain(1) [OF re that(2)] by simp
  qed
  moreover have "item_shows X k v j" if "k \<notin> set (key # ks)" "item_shows X k v i" for k v
    using that j(4) populate_frame [OF pop] by auto
  ultimately show ?case using j(1,2) populate_site [OF pop] by auto
qed

text \<open>The parts of an extraction that succeeded.\<close>

lemma extractItem_Ok:
  assumes "extractItem X D def q cats n el st = (Ok item, st')"
  obtains found raw failing d vals item0 where
    "read_fields X D el (searchFields (defSearch def)) ([], [], fst st, snd st) = Some (found, raw, failing, d)"
    "format_fields X (searchFields (defSearch def)) found = Some vals"
    "populate_fields X (defScheme def) raw (mapOrder X n (map fst vals)) vals (new_item def) = Some item0"
    "hasDateHeader def \<Longrightarrow> \<exists>date d'. extractDateHeader X D def el d = (Ok date, d')
       \<and> item = finish_item X def q cats (item_update (setPublishDate date) item0)"
    "\<not> hasDateHeader def \<Longrightarrow> item = finish_item X def q cats item0"
  using assms unfolding extractItem_def Let_def
  by (auto split: option.splits if_splits res.splits prod.splits)

lemma new_item_scrape:
  "defScheme def \<noteq> torrentScheme \<Longrightarrow>
   \<exists>i. new_item def = ScrapeResult i \<and> itSite i = defSite def \<and> itLink i = [] \<and> itSourceLink i = []"
  by (simp add: new_item_def createNewResultItem_def Let_def setIndexer_def setSite_def empty_scrape_item_def)

lemma item_shows_date [simp]: "item_shows X k v (setPublishDate n i) = item_shows X k v i"
  by (simp add: item_shows_def setPublishDate_def)

lemma itSite_date [simp]: "itSite (setPublishDate n i) = itSite i"
  by (simp add: setPublishDate_def)

lemma extracted_scrape:
  assumes ex: "extractItem X D def q cats n el st = (Ok item, st')"
    and scheme: "defScheme def \<noteq> torrentScheme"
    and order: "\<And>n ks. mset (mapOrder X n ks) = mset ks"
  obtains found raw failing d vals j where
    "read_fields X D el (searchFields (defSearch def)) ([], [], fst st, snd st) = Some (found, raw, failing, d)"
    "format_fields X (searchFields (defSearch def)) found = Some vals"
    "item = ScrapeResult j" "itSite j = defSite def"
    "\<And>f. f \<in> set (searchFields (defSearch def)) \<Longrightarrow> \<not> is_slice (value_of vals (fbField f)) \<Longrightarrow>
       item_shows X (fbField f) (value_of vals (fbField f)) j"
proof -
  from ex obtain found raw failing d vals item0 where
    read: "read_fields X D el (searchFields (defSearch def)) ([], [], fst st, snd st) = Some (found, raw, failing, d)" and
    form: "format_fields X (searchFields (defSearch def)) found = Some vals" and
    pop: "populate_fields X (defScheme def) raw (mapOrder X n (map fst vals)) vals (new_item def) = Some item0" and
    fin: "hasDateHeader def \<Longrightarrow> \<exists>date d'. extractDateHeader X D def el d = (Ok date, d')
       \<and> item = finish_item X def q cats (item_update (setPublishDate date) item0)"
    "\<not> hasDateHeader def \<Longrightarrow> item = finish_item X def q cats item0"
    by (rule extractItem_Ok) blast
  obtain i where i: "new_item def = ScrapeResult i" "itSite i = defSite def" "itLink i = []" "itSourceLink i = []"
    using new_item_scrape [OF scheme] by blast
  have "distinct (map fst vals)"
    using form read_fields_distinct [OF read] format_fields_distinct by simp
  then have "distinct (mapOrder X n (map fst vals))"
    using order [of n "map fst vals"] by (metis mset_eq_imp_distinct_iff)
  moreover have keys: "set (mapOrder X n (map fst vals)) = fst ` set vals"
    using order [of n "map fst vals"] by (metis mset_eq_setD list.set_map)
  moreover have "unlinked k i" for k using i by (simp add: unlinked_def)
  ultimately obtain j where j: "item0 = ScrapeResult j" "itSite j = itSite i"
    "\<And>k. k \<in> fst ` set vals \<Longrightarrow> \<not> is_slice (value_of vals k) \<Longrightarrow> item_shows X k (value_of vals k) j"
    using populate_fields_shows [OF pop [unfolded i(1)] scheme] by auto
  have names: "fbField f \<in> fst ` set vals" if "f \<in> set (searchFields (defSearch def))" for f
    using that format_fields_keys [OF form] by simp
  have "\<exists>j'. item = ScrapeResult j' \<and> itSite j' = itSite j \<and> (\<forall>k v. item_shows X k v j' = item_shows X k v j)"
  proof (cases "hasDateHeader def")
    case True
    with fin(1) j(1) obtain date where "item = ScrapeResult (setPublishDate date j)"
      by (auto simp: finish_item_def)
    then show ?thesis by auto
  next
    case False
    with fin(2) j(1) show ?thesis by (simp add: finish_item_def)
  qed
  then obtain j' where "item = ScrapeResult j'" "itSite j' = itSite j"
    "\<And>k v. item_shows X k v j' = item_shows X k v j"
    by blast
  with that read form j(2,3) i(2) names show thesis by metis
qed

text \<open>The run of the witnesses: an ID that is there and a title that cannot be read.\<close>

definition sample_run :: "string \<Rightarrow> (row_error, result_item) res \<times> failing_fields \<times> unit" where
  "sample_run name = extractItem sample_extract (json_ops sample_path)
     (sample_definition [] [\<lparr>fbField = name, fbBlock = empty_selector\<lparr>selSelector := ''t'', selAttribute := ''x''\<rparr>\<rparr>])
     newQuery [] 1 (JObj [(''k'', JStr ''8'')]) ([], ())"

lemma sample_order: "mset (mapOrder sample_extract n ks) = mset ks"
  by (simp add: sample_extract_def)



text \<open>A field that cannot be read is not left out of a scraped item: as the ID of the item it is the
  text \<open><nil>\<close>, as a link it is that text resolved against the site, and elsewhere it is nil.\<close>

theorem unreadable_field_is_nil_text:
  assumes "extractItem X D def q cats n el st = (Ok item, st')"
    and "defScheme def \<noteq> torrentScheme"
    and "\<And>n ks. mset (mapOrder X n ks) = mset ks"
    and "f \<in> set (searchFields (defSearch def))"
    and "\<And>g. g \<in> set (searchFields (defSearch def)) \<Longrightarrow> fbField g = fbField f \<Longrightarrow> unreadable X D el g"
  shows "\<exists>j. item = ScrapeResult j
    \<and> (fbField f = ''id'' \<longrightarrow> localID j = ''<nil>'')
    \<and> (\<forall>u. resolveURL X ''<nil>'' = Some u \<longrightarrow>
         (fbField f = ''link'' \<longrightarrow> itLink j = u) \<and> (fbField f = ''download'' \<longrightarrow> itSourceLink j = u))
    \<and> (fbField f \<notin> {''id'', ''link'', ''download''} \<longrightarrow> model_lookup j (fbField f) = Some VNil)"
proof -
  from assms(1-3) obtain found raw failing d vals j where
    read: "read_fields X D el (searchFields (defSearch def)) ([], [], fst st, snd st) = Some (found, raw, failing, d)" and
    form: "format_fields X (searchFields (defSearch def)) found = Some vals" and
    j: "item = ScrapeResult j"
    "\<And>f. f \<in> set (searchFields (defSearch def)) \<Longrightarrow> \<not> is_slice (value_of vals (fbField f)) \<Longrightarrow>
       item_shows X (fbField f) (value_of vals (fbField f)) j"
    by (rule extracted_scrape) blast
  have "value_of found (fbField f) = VNil"
    using read_fields_other [OF read, of "fbField f"] assms(5) by (simp add: value_of_def)
  then have "value_of vals (fbField f) = VNil"
    using format_fields_unreadable [OF form] assms(5) unreadable_no_text by metis
  with j(2) [OF assms(4)] have "item_shows X (fbField f) VNil j" by simp
  with j(1) show ?thesis by (auto simp: item_shows_def resolved_def)
qed

theorem unreadable_field_is_nil_text_witness:
  "\<exists>j. fst (sample_run ''id'') = Ok (ScrapeResult j) \<and> localID j = ''<nil>''"
proof -
  let ?f = "\<lparr>fbField = ''id'', fbBlock = empty_selector\<lparr>selSelector := ''t'', selAttribute := ''x''\<rparr>\<rparr>"
  have "(case fst (sample_run ''id'') of Ok _ \<Rightarrow> True | _ \<Rightarrow> False)" by code_simp
  then obtain item st' where r: "sample_run ''id'' = (Ok item, st')"
    by (cases "sample_run ''id''") (auto split: res.splits)
  have u: "unreadable sample_extract (json_ops sample_path) (JObj [(''k'', JStr ''8'')]) ?f"
    by (simp add: unreadable_def matchBlock_def read_found_def json_ops_def json_find_def sample_path_def
        empty_selector_def sel_text_def removed_def element_text_def of_error_def)
  from unreadable_field_is_nil_text [OF r [unfolded sample_run_def] _ sample_order, of ?f] u r
  show ?thesis by (auto simp: sample_definition_def torrentScheme_def)
qed

subsection \<open>Torrents the search did not ask for\<close>

lemma extractItem_finish:
  "\<exists>r s. \<forall>q cats. extractItem X D def q cats n el st = (map_res (finish_item X def q cats) r, s)"
proof (cases "read_fields X D el (searchFields (defSearch def)) ([], [], fst st, snd st)")
  case None
  then have "extractItem X D def q cats n el st = (map_res (finish_item X def q cats) Panic, st)" for q cats
    by (simp add: extractItem_def)
  then show ?thesis by blast
next
  case (Some out)
  obtain found raw failing d where out: "out = (found, raw, failing, d)" by (cases out)
  let ?item = "Option.bind (format_fields X (searchFields (defSearch def)) found)
    (\<lambda>vals. populate_fields X (defScheme def) raw (mapOrder X n (map fst vals)) vals (new_item def))"
  let ?r = "case ?item of None \<Rightarrow> (Panic, failing, d)
    | Some item \<Rightarrow>
        if hasDateHeader def
        then (case extractDateHeader X D def el d of (dr, d') \<Rightarrow>
                (map_res (\<lambda>date. item_update (setPublishDate date) item) dr, failing, d'))
        else (Ok item, failing, d)"
  have "extractItem X D def q cats n el st = (map_res (finish_item X def q cats) (fst ?r), snd ?r)" for q cats
    using Some out by (auto simp: extractItem_def split: option.split res.split prod.split)
  then show ?thesis by blast
qed

lemma populateTorrentItemField_category:
  "populateTorrentItemField X k v row raw t = Some (ok, t') \<Longrightarrow> category t' = category t"
  unfolding populateTorrentItemField_def set_text_def set_parsed_def set_details_def set_title_def Let_def
  by (auto split: if_split_asm option.split_asm)

lemma populate_fields_category:
  "populate_fields X torrentScheme raw ks vals (TorrentResult t) = Some item \<Longrightarrow>
   \<exists>t'. item = TorrentResult t' \<and> category t' = category t"
  by (induction ks arbitrary: vals t)
    (fastforce simp: populateField_def populateTorrentItemField_category split: option.splits)+

lemma finish_item_torrent:
  "finish_item X def q cats item = TorrentResult t \<Longrightarrow> \<exists>t0. item = TorrentResult t0
     \<and> t = populateTorrentData X (categoryMap (defCapabilities def)) q cats t0"
  by (cases item) (simp_all add: finish_item_def)

lemma new_item_torrent:
  "new_item def = TorrentResult t \<Longrightarrow> defScheme def = torrentScheme \<and> category t = 0"
  by (auto simp: new_item_def createNewResultItem_def empty_torrent_def Let_def split: if_splits)

lemma populate_fields_scrape:
  "populate_fields X scheme raw ks vals (ScrapeResult i) = Some item \<Longrightarrow> \<exists>j. item = ScrapeResult j"
  by (induction ks arbitrary: vals i) (auto simp: populateField_def split: option.splits if_splits)

lemma item_update_id: "item_update (\<lambda>i. i) item = item"
  by (cases item) simp_all

lemma extracted_torrent:
  assumes "extractItem X D def q cats n el st = (Ok (TorrentResult t), st')"
  obtains t0 where "category t0 = 0"
    "t = populateTorrentData X (categoryMap (defCapabilities def)) q cats t0"
proof -
  from assms obtain raw vals item0 where
    pop: "populate_fields X (defScheme def) raw (mapOrder X n (map fst vals)) vals (new_item def) = Some item0" and
    date: "hasDateHeader def \<Longrightarrow> \<exists>date d'. TorrentResult t =
       finish_item X def q cats (item_update (setPublishDate date) item0)" and
    no_date: "\<not> hasDateHeader def \<Longrightarrow> TorrentResult t = finish_item X def q cats item0"
    by (rule extractItem_Ok) blast
  have fin: "\<exists>f. TorrentResult t = finish_item X def q cats (item_update f item0)"
  proof (cases "hasDateHeader def")
    case True
    with date show ?thesis by blast
  next
    case False
    with no_date item_update_id show ?thesis by metis
  qed
  from fin obtain t1 where t1: "item0 = TorrentResult t1"
    by (cases item0) (auto simp: finish_item_def)
  then obtain t2 where t2: "new_item def = TorrentResult t2"
    using pop populate_fields_scrape by (cases "new_item def") fastforce+
  with pop t1 populate_fields_category new_item_torrent have "category t1 = 0" by fastforce
  moreover from fin t1 obtain f where
    "t = populateTorrentData X (categoryMap (defCapabilities def)) q cats (t1\<lparr>scraped := f (scraped t1)\<rparr>)"
    by (auto simp: finish_item_def)
  ultimately show thesis using that [of "t1\<lparr>scraped := f (scraped t1)\<rparr>"] by simp
qed

text \<open>Neither the categories of a query nor its series keep a torrent out of the results: another
  query extracts the same torrent from the row but for its category, and a torrent of a local category
  that is not searched comes back without one.\<close>

theorem unwanted_torrent_is_returned:
  assumes ex: "extractItem X D def q cats n el st = (Ok (TorrentResult t), st')"
  shows "(cats \<noteq> [] \<and> localCategoryID t \<notin> set cats \<longrightarrow> category t = 0)
    \<and> (\<exists>t'. extractItem X D def q' cats' n el st = (Ok (TorrentResult t'), st')
         \<and> t'\<lparr>category := 0\<rparr> = t\<lparr>category := 0\<rparr>)"
proof -
  let ?m = "categoryMap (defCapabilities def)"
  from extractItem_finish [of X D def n el st] obtain r s where
    r: "\<And>q cats. extractItem X D def q cats n el st = (map_res (finish_item X def q cats) r, s)" by blast
  from ex r [of q cats] obtain item where
    item: "r = Ok item" "s = st'" "finish_item X def q cats item = TorrentResult t"
    by (cases r) auto
  from finish_item_torrent [OF item(3)] obtain t0 where
    t0: "item = TorrentResult t0" "t = populateTorrentData X ?m q cats t0" by blast
  let ?t' = "populateTorrentData X ?m q' cats' t0"
  have "extractItem X D def q' cats' n el st = (Ok (TorrentResult ?t'), st')"
    using r item t0 by (simp add: finish_item_def)
  moreover have "?t'\<lparr>category := 0\<rparr> = t\<lparr>category := 0\<rparr>"
    unfolding t0(2) by (simp add: populateTorrentData_def resolveItemCategory_def Let_def)
  moreover have "cats \<noteq> [] \<and> localCategoryID t \<notin> set cats \<longrightarrow> category t = 0"
  proof -
    obtain t1 where "category t1 = 0" "t = populateTorrentData X ?m q cats t1"
      using extracted_torrent [OF ex] .
    then show ?thesis
      by (auto simp: populateTorrentData_def resolveItemCategory_def itemMatchesLocalCategories_def Let_def)
  qed
  ultimately show ?thesis by blast
qed

theorem unwanted_torrent_is_returned_witness:
  "\<exists>t t' st'. extractItem sample_extract (json_ops sample_path)
      (sample_definition ''torrent'' [sample_field ''category'' ''k'']) (newQuery\<lparr>qSeries := ''s''\<rparr>) [''7''] 1
      (JObj [(''k'', JStr ''8'')]) ([], ()) = (Ok (TorrentResult t), st')
    \<and> category t = 0
    \<and> extractItem sample_extract (json_ops sample_path)
      (sample_definition ''torrent'' [sample_field ''category'' ''k'']) newQuery [] 1
      (JObj [(''k'', JStr ''8'')]) ([], ()) = (Ok (TorrentResult t'), st')"
proof -
  let ?run = "extractItem sample_extract (json_ops sample_path)
      (sample_definition ''torrent'' [sample_field ''category'' ''k'']) (newQuery\<lparr>qSeries := ''s''\<rparr>) [''7''] 1
      (JObj [(''k'', JStr ''8'')]) ([], ())"
  have run: "(case fst ?run of Ok (TorrentResult t) \<Rightarrow> localCategoryID t | _ \<Rightarrow> []) = ''8''"
    by code_simp
  then obtain t st' where "?run = (Ok (TorrentResult t), st')" "localCategoryID t = ''8''"
    by (cases ?run) (auto split: res.splits result_item.splits)
  with unwanted_torrent_is_returned [OF this(1), of newQuery "[]"] show ?thesis by auto
qed

end
