(* ===== verification/WebClient.thy ===== *)
theory WebClient
  imports Filters
begin

text \<open>
  The fetcher of pages (\<open>indexer/source/web.go\<close>, \<open>indexer/source/fetchResults.go\<close>). The browser is a
  library and a parameter: \<open>'w\<close> is its state together with everything else a request may change,
  \<open>'u\<close> a parsed URL, \<open>'j\<close> a jar of cookies and \<open>'d\<close> a parsed page. A request is shared by pointer
  between the functions here, so it is handed back: following a \<open>Refresh\<close> header changes its URL.
  Following one may also never end, so \<open>web_get\<close> is partial: \<open>None\<close> when it does not return.
\<close>

subsection \<open>The browser\<close>

record 'd response =
  contentTypeHeader :: string
  statusCode :: int
  responseDom :: 'd
  rawBody :: string

record ('u, 'j, 'd, 'w) browser =
  brOpen :: "string \<Rightarrow> 'w \<Rightarrow> string option \<times> 'w"
  brPostForm :: "string \<Rightarrow> (string \<times> string list) list \<Rightarrow> 'w \<Rightarrow> string option \<times> 'w"
  brResponse :: "'w \<Rightarrow> 'd response option"
  brRefreshHeader :: "'w \<Rightarrow> string"
  brSetRequestPath :: "string \<Rightarrow> 'w \<Rightarrow> 'w"
  brRequestURL :: "'w \<Rightarrow> 'u"
  brSetReferer :: "string \<Rightarrow> 'w \<Rightarrow> 'w"
  brSetCookieJar :: "'j \<Rightarrow> 'w \<Rightarrow> 'w"
  brClearHistory :: "'w \<Rightarrow> 'w"
  brSetEncoding :: "string \<Rightarrow> 'w \<Rightarrow> 'w"
  showURL :: "'u \<Rightarrow> string"
  parseURL :: "string \<Rightarrow> 'u option"
  encodeValues :: "(string \<times> string list) list \<Rightarrow> string"

record ('u, 'j) request_options =
  rqURL :: 'u
  rqValues :: "(string \<times> string list) list"
  rqMethod :: string
  rqEncoding :: string
  rqNoEncoding :: bool
  rqCookieJar :: "'j option"
  rqReferer :: "'u option"

definition newRequestOptions :: "'u \<Rightarrow> ('u, 'j) request_options" where
  "newRequestOptions destURL = \<lparr>rqURL = destURL, rqValues = [], rqMethod = ''get'', rqEncoding = [],
     rqNoEncoding = False, rqCookieJar = None, rqReferer = None\<rparr>"

text \<open>A cacher and an error handler may be missing.\<close>

record ('u, 'w) web_client =
  fakeReferer :: bool
  cachePage :: "('w \<Rightarrow> 'w) option"
  cacherIsCacheable :: bool
  errorHandler :: "('u \<Rightarrow> 'w \<Rightarrow> 'w) option"

definition handle_error :: "('u, 'w) web_client \<Rightarrow> ('u, 'j) request_options \<Rightarrow> 'w \<Rightarrow> 'w" where
  "handle_error c req w = (case errorHandler c of None \<Rightarrow> w | Some h \<Rightarrow> h (rqURL req) w)"

subsection \<open>Results\<close>

text \<open>\<open>HTTPResult\<close> is what is left when the browser has no response.\<close>

datatype 'd fetch_result =
  HTTPResult | JSONFetchResult string string int string | HTMLResult string string int 'd

definition extractResponseResult :: "('u, 'j, 'd, 'w) browser \<Rightarrow> 'w \<Rightarrow> 'd fetch_result" where
  "extractResponseResult B w =
     (case brResponse B w of
        None \<Rightarrow> HTTPResult
      | Some r \<Rightarrow>
          let contentSplit = go_split (contentTypeHeader r) '';'';
              contentEncoding = (if length contentSplit > 1 then contentSplit ! 1 else ''utf8'')
          in if contentSplit ! 0 = ''application/json''
             then JSONFetchResult (contentSplit ! 0) contentEncoding (statusCode r) (rawBody r)
             else HTMLResult (contentSplit ! 0) contentEncoding (statusCode r) (responseDom r))"

subsection \<open>Requests\<close>

definition applyOptions ::
    "('u, 'j, 'd, 'w) browser \<Rightarrow> ('u, 'w) web_client \<Rightarrow> ('u, 'j) request_options \<Rightarrow> 'w \<Rightarrow> 'w" where
  "applyOptions B c req w =
     (let referer = (case rqReferer req of
                       None \<Rightarrow> if fakeReferer c then showURL B (rqURL req) else []
                     | Some r \<Rightarrow> showURL B r);
          w1 = (if referer \<noteq> [] then brSetReferer B referer w else w)
      in case rqCookieJar req of None \<Rightarrow> w1 | Some j \<Rightarrow> brSetCookieJar B j w1)"

text \<open>The value of \<open>Refresh\<close> split at its first semicolon; the white space around it is dropped.\<close>

definition refresh_target :: "string \<Rightarrow> string option" where
  "refresh_target refresh =
     (case index_of '';'' refresh of
        None \<Rightarrow> None
      | Some i \<Rightarrow> Some (trim_prefix (dropWhile (\<lambda>c. c \<in> set rx_space) (drop (Suc i) refresh)) ''url=''))"

definition request_text ::
    "('u, 'j, 'd, 'w) browser \<Rightarrow> ('u, 'j) request_options \<Rightarrow> string option" where
  "request_text B req =
     (if rqValues req = [] then Some (showURL B (rqURL req))
      else map_option (showURL B)
        (parseURL B (showURL B (rqURL req) @ ''?'' @ encodeValues B (rqValues req))))"

text \<open>\<open>get\<close> and \<open>handleMetaRefreshHeader\<close> call each other; the answer is the error, the request and
the state.\<close>

partial_function (option) web_get ::
    "('u, 'j, 'd, 'w) browser \<Rightarrow> ('u, 'w) web_client \<Rightarrow> ('u, 'j) request_options \<Rightarrow> 'w \<Rightarrow>
     (string option \<times> ('u, 'j) request_options \<times> 'w) option" where
  "web_get B c req w =
     (case request_text B req of
        None \<Rightarrow> Some (Some ''invalid URL'', req, w)
      | Some dest \<Rightarrow>
          (case brOpen B dest (applyOptions B c req w) of
             (Some e, w1) \<Rightarrow> Some (Some e, req, w1)
           | (None, w1) \<Rightarrow>
               let w2 = (case cachePage c of
                           Some cache \<Rightarrow> if cacherIsCacheable c then cache w1 else w1
                         | None \<Rightarrow> w1)
               in case refresh_target (brRefreshHeader B w2) of
                    None \<Rightarrow> Some (None, req, w2)
                  | Some path \<Rightarrow>
                      let w3 = brSetRequestPath B path w2
                      in Option.bind (web_get B c (req\<lparr>rqURL := brRequestURL B w3\<rparr>) w3)
                           (\<lambda>(err, req', w4).
                              case err of
                                None \<Rightarrow> Some (None, req', w4)
                              | Some e \<Rightarrow>
                                  Some (Some e, req', handle_error c req' (handle_error c req' w4)))))"

definition handleMetaRefreshHeader ::
    "('u, 'j, 'd, 'w) browser \<Rightarrow> ('u, 'w) web_client \<Rightarrow> ('u, 'j) request_options \<Rightarrow> 'w \<Rightarrow>
     (string option \<times> ('u, 'j) request_options \<times> 'w) option" where
  "handleMetaRefreshHeader B c req w =
     (case refresh_target (brRefreshHeader B w) of
        None \<Rightarrow> Some (None, req, w)
      | Some path \<Rightarrow>
          let w1 = brSetRequestPath B path w
          in Option.bind (web_get B c (req\<lparr>rqURL := brRequestURL B w1\<rparr>) w1)
               (\<lambda>(err, req', w2).
                  Some (err, req', case err of None \<Rightarrow> w2 | Some _ \<Rightarrow> handle_error c req' w2)))"

definition web_post ::
    "('u, 'j, 'd, 'w) browser \<Rightarrow> ('u, 'w) web_client \<Rightarrow> ('u, 'j) request_options \<Rightarrow> 'w \<Rightarrow>
     ((string, 'd fetch_result) res \<times> ('u, 'j) request_options \<times> 'w) option" where
  "web_post B c req w =
     (case brPostForm B (showURL B (rqURL req)) (rqValues req) (applyOptions B c req w) of
        (Some e, w1) \<Rightarrow> Some (Err e, req, w1)
      | (None, w1) \<Rightarrow>
          let w2 = (case cachePage c of None \<Rightarrow> w1 | Some cache \<Rightarrow> cache w1)
          in Option.bind (handleMetaRefreshHeader B c req w2)
               (\<lambda>(err, req', w3).
                  case err of
                    Some e \<Rightarrow> Some (Err e, req', w3)
                  | None \<Rightarrow> Some (Ok (extractResponseResult B w3), req', w3)))"

text \<open>\<open>Fetch\<close>; the deferred clean-up runs on every way out but for a nil request.\<close>

definition web_fetch ::
    "('u, 'j, 'd, 'w) browser \<Rightarrow> ('u, 'w) web_client \<Rightarrow> ('u, 'j) request_options option \<Rightarrow> 'w \<Rightarrow>
     ((string, 'd fetch_result) res \<times> ('u, 'j) request_options option \<times> 'w) option" where
  "web_fetch B c request w =
     (case request of
        None \<Rightarrow> Some (Err ''req is required for searching'', None, w)
      | Some req \<Rightarrow>
          if rqMethod req \<in> {[], ''get''} then
            Option.bind (web_get B c req w) (\<lambda>(err, req', w1).
              Some (case err of
                Some e \<Rightarrow> (Err e, Some req', brClearHistory B (handle_error c req' w1))
              | None \<Rightarrow> (Ok (extractResponseResult B w1), Some req', brClearHistory B w1)))
          else if rqMethod req = ''post'' then
            Option.bind (web_post B c req w) (\<lambda>(r, req', w1).
              Some (case r of
                Err e \<Rightarrow> (Err e, Some req', brClearHistory B (handle_error c req' w1))
              | _ \<Rightarrow> (r, Some req', brClearHistory B w1)))
          else Some (Err (''unknown search method '' @ rqMethod req), Some req, brClearHistory B w))"

definition web_open ::
    "('u, 'j, 'd, 'w) browser \<Rightarrow> ('u, 'j) request_options \<Rightarrow> 'w \<Rightarrow> (string, 'd fetch_result) res \<times> 'w" where
  "web_open B opts w =
     (let w1 = (if rqEncoding opts \<noteq> [] \<or> rqNoEncoding opts then brSetEncoding B (rqEncoding opts) w else w)
      in case brOpen B (showURL B (rqURL opts)) w1 of
           (Some e, w2) \<Rightarrow> (Err e, w2)
         | (None, w2) \<Rightarrow> (Ok (extractResponseResult B w2), w2))"

subsection \<open>Following a refresh\<close>

lemma web_get_no_refresh:
  assumes "request_text B req = Some dest" "brOpen B dest (applyOptions B c req w) = (None, w1)"
    and "w2 = (case cachePage c of Some cache \<Rightarrow> if cacherIsCacheable c then cache w1 else w1 | None \<Rightarrow> w1)"
    and "refresh_target (brRefreshHeader B w2) = None"
  shows "web_get B c req w = Some (None, req, w2)"
  using assms by (subst web_get.simps) (simp add: Let_def)

definition always_refreshing :: "('u, 'j, 'd, 'w) browser \<Rightarrow> bool" where
  "always_refreshing B \<longleftrightarrow>
     (\<forall>u vals. vals = [] \<or> parseURL B (showURL B u @ ''?'' @ encodeValues B vals) \<noteq> None) \<and>
     (\<forall>dest w. fst (brOpen B dest w) = None) \<and>
     (\<forall>dest vals w. fst (brPostForm B dest vals w) = None) \<and>
     (\<forall>w. refresh_target (brRefreshHeader B w) \<noteq> None)"

lemma refreshing_text: "always_refreshing B \<Longrightarrow> request_text B req \<noteq> None"
  by (auto simp: always_refreshing_def request_text_def)

lemma web_get_refreshing:
  assumes "web_get B c req w = Some out"
  shows "\<not> always_refreshing B"
  using assms
proof (rule web_get.raw_induct [where P = "\<lambda>B c req w out. \<not> always_refreshing B", rotated])
  fix get :: "('u, 'j, 'd, 'w) browser \<Rightarrow> ('u, 'w) web_client \<Rightarrow> ('u, 'j) request_options \<Rightarrow> 'w \<Rightarrow>
     (string option \<times> ('u, 'j) request_options \<times> 'w) option" and B c req w out
  assume get: "\<And>B c req w out. get B c req w = Some out \<Longrightarrow> \<not> always_refreshing B"
    and step: "(case request_text B req of
        None \<Rightarrow> Some (Some ''invalid URL'', req, w)
      | Some dest \<Rightarrow>
          (case brOpen B dest (applyOptions B c req w) of
             (None, w1) \<Rightarrow>
               let w2 = (case cachePage c of
                           None \<Rightarrow> w1
                         | Some cache \<Rightarrow> if cacherIsCacheable c then cache w1 else w1)
               in case refresh_target (brRefreshHeader B w2) of
                    None \<Rightarrow> Some (None, req, w2)
                  | Some path \<Rightarrow>
                      let w3 = brSetRequestPath B path w2
                      in Option.bind (get B c (req\<lparr>rqURL := brRequestURL B w3\<rparr>) w3)
                           (\<lambda>(err, req', w4).
                              case err of
                                None \<Rightarrow> Some (None, req', w4)
                              | Some e \<Rightarrow>
                                  Some (Some e, req', handle_error c req' (handle_error c req' w4)))
           | (Some e, w1) \<Rightarrow> Some (Some e, req, w1))) = Some out"
  show "\<not> always_refreshing B"
  proof
    assume B: "always_refreshing B"
    obtain dest where dest: "request_text B req = Some dest" using refreshing_text [OF B] by blast
    obtain w1 where w1: "brOpen B dest (applyOptions B c req w) = (None, w1)"
      using B unfolding always_refreshing_def by (metis prod.collapse)
    let ?w2 = "case cachePage c of None \<Rightarrow> w1 | Some cache \<Rightarrow> if cacherIsCacheable c then cache w1 else w1"
    obtain path where "refresh_target (brRefreshHeader B ?w2) = Some path"
      using B unfolding always_refreshing_def by blast
    with step dest w1 B show False
      by (auto simp: Let_def bind_eq_Some_conv dest!: get)
  qed
qed

text \<open>A site that answers every request with a \<open>Refresh\<close> header that names a page is followed for ever:
  neither \<open>Fetch\<close> by get or post nor the request itself returns, whatever is asked for.\<close>

theorem refreshing_site_never_returns:
  assumes B: "always_refreshing B" and "rqMethod req \<in> {[], ''get'', ''post''}"
  shows "web_get B c req w = None \<and> web_fetch B c (Some req) w = None"
proof -
  have g: "web_get B c r v = None" for r v
    using web_get_refreshing B by (metis not_Some_eq)
  have "web_post B c req w = None"
  proof -
    obtain w1 where "brPostForm B (showURL B (rqURL req)) (rqValues req) (applyOptions B c req w) = (None, w1)"
      using B unfolding always_refreshing_def by (metis prod.collapse)
    moreover have "refresh_target (brRefreshHeader B v) \<noteq> None" for v
      using B unfolding always_refreshing_def by blast
    ultimately show ?thesis
      by (auto simp: web_post_def handleMetaRefreshHeader_def g Let_def split: option.split)
  qed
  with g assms(2) show ?thesis by (auto simp: web_fetch_def)
qed

definition refreshing_browser :: "(string, unit, unit, nat) browser" where
  "refreshing_browser = \<lparr>brOpen = (\<lambda>dest w. (None, Suc w)), brPostForm = (\<lambda>dest vals w. (None, Suc w)),
     brResponse = (\<lambda>w. None), brRefreshHeader = (\<lambda>w. ''0;url=a.php''), brSetRequestPath = (\<lambda>p w. w),
     brRequestURL = (\<lambda>w. ''http://s/a.php''), brSetReferer = (\<lambda>r w. w), brSetCookieJar = (\<lambda>j w. w),
     brClearHistory = (\<lambda>w. w), brSetEncoding = (\<lambda>e w. w), showURL = (\<lambda>u. u), parseURL = Some,
     encodeValues = (\<lambda>vs. [])\<rparr>"

theorem refreshing_site_never_returns_witness:
  "web_fetch refreshing_browser \<lparr>fakeReferer = True, cachePage = None, cacherIsCacheable = False, errorHandler = None\<rparr>
     (Some (newRequestOptions ''http://s/'')) 0 = None"
proof -
  have "refresh_target ''0;url=a.php'' = Some ''a.php''" by code_simp
  then show ?thesis
    by (intro refreshing_site_never_returns [THEN conjunct2])
      (simp_all add: always_refreshing_def refreshing_browser_def newRequestOptions_def)
qed

end
