(* ===== verification/Sessions.thy ===== *)
theory Sessions
  imports Selectors WebClient
begin

text \<open>
  Browsing sessions (\<open>indexer/browsingSession.go\<close>) and the parts of a definition that tell how to log
  in (\<open>loginBlock\<close>, \<open>errorBlock\<close>, \<open>pageTestBlock\<close>, \<open>initBlock\<close> of
  \<open>indexer/indexDefinitionParsing.go\<close>). The fetcher, the URL resolver, the forms of the browser and
  the templates are in \<open>session_env\<close>; \<open>'w\<close> is the state they work on. A URL that is compared by
  pointer carries its address. A page is the root of its document and the document, or nothing when
  the browser has none.
\<close>

subsection \<open>Blocks of a definition\<close>

record error_block =
  ebPath :: string
  ebSelector :: string
  ebMessage :: selector_block

record page_test =
  ptPath :: string
  ptSelector :: string

record login_block =
  loginPath :: string
  formSelector :: string
  loginMethod :: string
  loginInputs :: "(string \<times> string) list"
  loginErrors :: "error_block list"
  loginTest :: page_test
  initPath :: string

definition pageTest_isEmpty :: "page_test \<Rightarrow> bool" where
  "pageTest_isEmpty t \<longleftrightarrow> ptPath t = [] \<and> ptSelector t = []"

definition login_isEmpty :: "login_block \<Rightarrow> bool" where
  "login_isEmpty l \<longleftrightarrow> loginPath l = [] \<and> loginMethod l = []"

definition init_isEmpty :: "login_block \<Rightarrow> bool" where
  "init_isEmpty l \<longleftrightarrow> initPath l = []"

subsection \<open>The environment\<close>

type_synonym url_ref = "nat \<times> string"
type_synonym ('e, 'd) page = "('e \<times> 'd) option fetch_result"

record ('e, 'd, 'w) session_env =
  seQuery :: "('e, 'd) goquery"
  seFilters :: filter_env
  seResolve :: "string \<Rightarrow> 'w \<Rightarrow> url_ref option \<times> 'w"
  seFetch :: "url_ref \<Rightarrow> 'w \<Rightarrow> (string, ('e, 'd) page) res \<times> 'w"
  sePost :: "url_ref \<Rightarrow> (string \<times> string) list \<Rightarrow> 'w \<Rightarrow> (string, ('e, 'd) page) res \<times> 'w"
  seOpen :: "url_ref \<Rightarrow> (string \<times> string) list \<Rightarrow> 'w \<Rightarrow> (string, ('e, 'd) page) res \<times> 'w"
  seSetCookies :: "url_ref \<Rightarrow> string \<Rightarrow> 'w \<Rightarrow> 'w"
  seForm :: "string \<Rightarrow> 'w \<Rightarrow> string option \<times> 'w"
  seInput :: "string \<Rightarrow> string \<Rightarrow> 'w \<Rightarrow> string option \<times> 'w"
  seSubmit :: "'w \<Rightarrow> string option \<times> 'w"
  seCurrentURL :: "'w \<Rightarrow> url_ref option"
  seLocationPath :: "('e, 'd) page \<Rightarrow> string option"
  seTemplate :: "string \<Rightarrow> (string \<times> string) list \<Rightarrow> string option"

datatype session_error =
  ResolveFailed | FetchFailed string | FormFailed string | TemplateFailed | NoPassword string
| NoLoginCookie | UnknownMethod string | NotAWebPage | LoginMessage string | BadErrorBlock
| ExpectedHtml | NoDom | LoginCheckFailed string bool

type_synonym ('a, 'w) session_result = "(session_error, 'a) res \<times> 'w"

definition bind_sr ::
    "('a, 'w) session_result \<Rightarrow> ('a \<Rightarrow> 'w \<Rightarrow> ('b, 'w) session_result) \<Rightarrow> ('b, 'w) session_result" where
  "bind_sr r f = (case r of (Panic, w) \<Rightarrow> (Panic, w) | (Err e, w) \<Rightarrow> (Err e, w) | (Ok a, w) \<Rightarrow> f a w)"

definition of_resolve :: "url_ref option \<times> 'w \<Rightarrow> (url_ref, 'w) session_result" where
  "of_resolve r = apfst (of_error ResolveFailed) r"

definition of_fetch :: "(string, 'a) res \<times> 'w \<Rightarrow> ('a, 'w) session_result" where
  "of_fetch r = apfst (\<lambda>x. case x of Panic \<Rightarrow> Panic | Err e \<Rightarrow> Err (FetchFailed e) | Ok a \<Rightarrow> Ok a) r"

definition of_form :: "string option \<times> 'w \<Rightarrow> (unit, 'w) session_result" where
  "of_form r = apfst (\<lambda>x. case x of None \<Rightarrow> Ok () | Some e \<Rightarrow> Err (FormFailed e)) r"

subsection \<open>Error messages of a page\<close>

text \<open>The number of elements a selector finds; only a page of HTML has any, and asking another result
or a missing document panics.\<close>

definition page_find ::
    "('e, 'd, 'w) session_env \<Rightarrow> string \<Rightarrow> ('e, 'd) page \<Rightarrow> ('e \<times> 'd) option" where
  "page_find E sel p =
     (case p of
        HTMLResult _ _ _ (Some (root, d)) \<Rightarrow> Some (gqFind (seQuery E) sel root d, d)
      | _ \<Rightarrow> None)"

definition matchPage :: "('e, 'd, 'w) session_env \<Rightarrow> error_block \<Rightarrow> ('e, 'd) page \<Rightarrow> bool option" where
  "matchPage E b p =
     (if ebPath b \<noteq> [] then map_option ((=) (ebPath b)) (seLocationPath E p)
      else if ebSelector b \<noteq> [] then
        map_option (\<lambda>(found, d). gqLength (seQuery E) found d > 0) (page_find E (ebSelector b) p)
      else Some False)"

text \<open>A message that is a list of texts panics at the assertion to a string.\<close>

definition errorText ::
    "('e, 'd, 'w) session_env \<Rightarrow> error_block \<Rightarrow> ('e, 'd) page \<Rightarrow> (session_error, string) res" where
  "errorText E b p =
     (if \<not> selector_isEmpty (ebMessage b) then
        (case p of
           HTMLResult _ _ _ (Some (root, d)) \<Rightarrow>
             (case fst (matchBlock (seFilters E) (dom_ops (seQuery E)) (ebMessage b)
                     (gqFirst (seQuery E) root d) d) of
                Ok (VStr s) \<Rightarrow> Ok s
              | Err e \<Rightarrow> if selAll (ebMessage b) \<and> e = NoCase then Panic else Err BadErrorBlock
              | _ \<Rightarrow> Panic)
         | _ \<Rightarrow> Panic)
      else if ebSelector b \<noteq> [] then
        (case page_find E (ebSelector b) p of
           None \<Rightarrow> Panic
         | Some (errs, d) \<Rightarrow>
             if gqLength (seQuery E) errs d < 1 then Ok ''error with unmatching selector''
             else Ok (gqText (seQuery E) (gqEq (seQuery E) 0 errs d) d))
      else Err BadErrorBlock)"

text \<open>\<open>Ok ()\<close>: no error was found.\<close>

fun errors_of_page ::
    "('e, 'd, 'w) session_env \<Rightarrow> error_block list \<Rightarrow> ('e, 'd) page \<Rightarrow> (session_error, unit) res" where
  "errors_of_page E [] p = Ok ()"
| "errors_of_page E (b # bs) p =
     (case matchPage E b p of
        None \<Rightarrow> Panic
      | Some False \<Rightarrow> errors_of_page E bs p
      | Some True \<Rightarrow> bind_res (errorText E b p) (\<lambda>msg. Err (LoginMessage (trim_space msg))))"

definition hasError ::
    "('e, 'd, 'w) session_env \<Rightarrow> login_block \<Rightarrow> ('e, 'd) page \<Rightarrow> (session_error, unit) res" where
  "hasError E l p =
     (case p of HTMLResult _ _ _ _ \<Rightarrow> errors_of_page E (loginErrors l) p | _ \<Rightarrow> Err NotAWebPage)"

subsection \<open>A session\<close>

datatype login_state = NoLoginRequired | LoginExpired | LoginRequired | LoginFailed | LoggedIn

record session =
  sesLogin :: login_block
  sesState :: login_state
  sesConfig :: "(string \<times> string) list"

definition newSession :: "(string \<times> string) list \<Rightarrow> login_block \<Rightarrow> session" where
  "newSession siteConfig l = \<lparr>sesLogin = l,
     sesState = (if login_isEmpty l then NoLoginRequired else LoginRequired), sesConfig = siteConfig\<rparr>"

definition isRequired :: "session \<Rightarrow> bool" where
  "isRequired s \<longleftrightarrow> sesState s \<in> {LoginRequired, LoginFailed, LoginExpired}"

definition isLoggedIn :: "session \<Rightarrow> bool" where
  "isLoggedIn s \<longleftrightarrow> sesState s = LoggedIn"

text \<open>\<open>testURL != fetchedAddress\<close> compares two pointers.\<close>

definition verifyLogin ::
    "('e, 'd, 'w) session_env \<Rightarrow> session \<Rightarrow> ('e, 'd) page \<Rightarrow> 'w \<Rightarrow> (bool, 'w) session_result" where
  "verifyLogin E s f w =
     (let t = loginTest (sesLogin s);
          selected = (\<lambda>w'.
            if ptSelector t = [] then (Ok True, w')
            else (case page_find E (ptSelector t) f of
                    None \<Rightarrow> (Panic, w')
                  | Some (found, d) \<Rightarrow> (Ok (gqLength (seQuery E) found d \<noteq> 0), w')))
      in if pageTest_isEmpty t then (Ok True, w)
         else if ptPath t \<noteq> [] \<and> seCurrentURL E w \<noteq> None then
           bind_sr (of_resolve (seResolve E (ptPath t) w)) (\<lambda>testURL w1.
             case seFetch E testURL w1 of
               (Ok (HTMLResult ct enc code root), w2) \<Rightarrow>
                 (if seCurrentURL E w2 = None \<or> fst (the (seCurrentURL E w2)) \<noteq> fst testURL then (Ok False, w2)
                  else if root = None then (Err NoDom, w2)
                  else selected w2)
             | (Panic, w2) \<Rightarrow> (Panic, w2)
             | (_, w2) \<Rightarrow> (Err ExpectedHtml, w2))
         else selected w)"

definition emptyValue :: string where
  "emptyValue = ''<no value>''"

fun input_loop ::
    "('e, 'd, 'w) session_env \<Rightarrow> (string \<times> string) list \<Rightarrow> (string \<times> string) list \<Rightarrow>
     (string \<times> string) list \<Rightarrow> (session_error, (string \<times> string) list) res" where
  "input_loop E config [] result = Ok result"
| "input_loop E config ((name, templateValue) # ins) result =
     (case seTemplate E templateValue config of
        None \<Rightarrow> Err TemplateFailed
      | Some v \<Rightarrow>
          if templateValue = ''{{ .Config.password }}'' \<and> v = emptyValue then Err (NoPassword name)
          else input_loop E config ins (AList.update name v result))"

text \<open>The URL that is resolved first is for a message only; an error of the resolver is ignored here.\<close>

definition extractLoginInput ::
    "('e, 'd, 'w) session_env \<Rightarrow> session \<Rightarrow> 'w \<Rightarrow> ((string \<times> string) list, 'w) session_result" where
  "extractLoginInput E s w =
     (let w1 = snd (seResolve E (loginPath (sesLogin s)) w)
      in (input_loop E (sesConfig s) (loginInputs (sesLogin s)) [], w1))"

definition initLogin :: "('e, 'd, 'w) session_env \<Rightarrow> session \<Rightarrow> 'w \<Rightarrow> (unit, 'w) session_result" where
  "initLogin E s w =
     (if init_isEmpty (sesLogin s) then (Ok (), w)
      else bind_sr (of_resolve (seResolve E (initPath (sesLogin s)) w)) (\<lambda>u w1.
        bind_sr (of_fetch (seFetch E u w1)) (\<lambda>_ w2. (Ok (), w2))))"

fun fill_form ::
    "('e, 'd, 'w) session_env \<Rightarrow> (string \<times> string) list \<Rightarrow> 'w \<Rightarrow> (unit, 'w) session_result" where
  "fill_form E [] w = (Ok (), w)"
| "fill_form E ((name, v) # vs) w = bind_sr (of_form (seInput E name v w)) (\<lambda>_ w1. fill_form E vs w1)"

definition loginViaForm ::
    "('e, 'd, 'w) session_env \<Rightarrow> url_ref \<Rightarrow> string \<Rightarrow> (string \<times> string) list \<Rightarrow> 'w \<Rightarrow>
     (('e, 'd) page, 'w) session_result" where
  "loginViaForm E loginURL sel vals w =
     bind_sr (of_fetch (seFetch E loginURL w)) (\<lambda>page w1.
       bind_sr (of_form (seForm E sel w1)) (\<lambda>_ w2.
         bind_sr (fill_form E vals w2) (\<lambda>_ w3.
           bind_sr (of_form (seSubmit E w3)) (\<lambda>_ w4. (Ok page, w4)))))"

definition value_of_input :: "(string \<times> string) list \<Rightarrow> string \<Rightarrow> string" where
  "value_of_input vals name = (case map_of vals name of None \<Rightarrow> [] | Some v \<Rightarrow> v)"

definition login_request ::
    "('e, 'd, 'w) session_env \<Rightarrow> session \<Rightarrow> url_ref \<Rightarrow> (string \<times> string) list \<Rightarrow> 'w \<Rightarrow>
     (('e, 'd) page, 'w) session_result" where
  "login_request E s loginURL vals w =
     (let m = to_lower (loginMethod (sesLogin s))
      in if m \<in> {[], ''form''} then loginViaForm E loginURL (formSelector (sesLogin s)) vals w
         else if m = ''post'' then of_fetch (sePost E loginURL vals w)
         else if m = ''cookie'' then
           (if value_of_input vals ''cookie'' = emptyValue then (Err NoLoginCookie, w)
            else of_fetch (seOpen E loginURL vals
                   (seSetCookies E loginURL (value_of_input vals ''cookie'') w)))
         else (Err (UnknownMethod (loginMethod (sesLogin s))), w))"

definition login ::
    "('e, 'd, 'w) session_env \<Rightarrow> session \<Rightarrow> 'w \<Rightarrow> (session, 'w) session_result" where
  "login E s w =
     bind_sr (of_resolve (seResolve E (loginPath (sesLogin s)) w)) (\<lambda>loginURL w1.
       bind_sr (extractLoginInput E s w1) (\<lambda>vals w2.
         bind_sr (initLogin E s w2) (\<lambda>_ w3.
           bind_sr (login_request E s loginURL vals w3) (\<lambda>page w4.
             bind_sr (if loginErrors (sesLogin s) = [] then (Ok (), w4)
                      else (hasError E (sesLogin s) page, w4)) (\<lambda>_ w5.
               bind_sr (verifyLogin E s page w5) (\<lambda>loggedIn w6.
                 if loggedIn then (Ok (s\<lparr>sesState := LoggedIn\<rparr>), w6)
                 else (Err (LoginCheckFailed (value_of_input vals ''login_username'')
                        (case map_of vals ''login_password'' of None \<Rightarrow> False | Some v \<Rightarrow> v \<noteq> emptyValue)), w6)))))))"

definition setup_session ::
    "('e, 'd, 'w) session_env \<Rightarrow> session \<Rightarrow> 'w \<Rightarrow> (session, 'w) session_result" where
  "setup_session E s w = (if \<not> isRequired s then (Ok s, w) else login E s w)"

subsection \<open>Several sessions\<close>

record multiplexer =
  muxSessions :: "session list"
  muxIndex :: nat

definition newSessionMultiplexer :: "(session_error + session) list \<Rightarrow> session_error + multiplexer" where
  "newSessionMultiplexer made =
     (case first_some (\<lambda>r. case r of Inl e \<Rightarrow> Some e | Inr _ \<Rightarrow> None) made of
        Some e \<Rightarrow> Inl e
      | None \<Rightarrow> Inr \<lparr>muxSessions = map projr made, muxIndex = 0\<rparr>)"

text \<open>\<open>acquire\<close> hands out the position of the session, \<open>None\<close> when there are none.\<close>

definition acquire ::
    "('e, 'd, 'w) session_env \<Rightarrow> multiplexer \<Rightarrow> 'w \<Rightarrow>
     (session_error, nat option) res \<times> multiplexer \<times> 'w" where
  "acquire E m w =
     (if muxSessions m = [] then (Ok None, m, w)
      else let i = muxIndex m mod length (muxSessions m); m1 = m\<lparr>muxIndex := Suc (muxIndex m)\<rparr>
           in case setup_session E (muxSessions m ! i) w of
                (Ok s, w1) \<Rightarrow> (Ok (Some i), m1\<lparr>muxSessions := (muxSessions m)[i := s]\<rparr>, w1)
              | (Err e, w1) \<Rightarrow> (Err e, m1, w1)
              | (Panic, w1) \<Rightarrow> (Panic, m1, w1))"

subsection \<open>The states of a session\<close>

lemma bind_sr_Ok:
  "bind_sr r f = (Ok b, w) \<longleftrightarrow> (\<exists>a w1. r = (Ok a, w1) \<and> f a w1 = (Ok b, w))"
  by (auto simp: bind_sr_def split: res.splits prod.splits)

lemma login_Ok:
  assumes "login E s w = (Ok s', w')"
  shows "s' = s\<lparr>sesState := LoggedIn\<rparr>"
    and "\<exists>page w1 w2. verifyLogin E s page w1 = (Ok True, w2)"
  using assms by (auto simp: login_def bind_sr_Ok split: if_splits)

lemma setup_session_Ok:
  assumes "setup_session E s w = (Ok s', w')"
  shows "\<not> isRequired s'" "sesLogin s' = sesLogin s" "\<not> isRequired s \<Longrightarrow> s' = s \<and> w' = w"
  using assms login_Ok(1) [of E s w s' w'] by (auto simp: setup_session_def isRequired_def split: if_splits)

text \<open>A history of calls of \<open>acquire\<close>, with what each of them gave. Between two calls anything may happen
to the world, but nothing to the multiplexer.\<close>

inductive acquired ::
    "('e, 'd, 'w) session_env \<Rightarrow> multiplexer \<Rightarrow> (session_error, nat option) res list \<Rightarrow> multiplexer \<Rightarrow> bool"
  for E :: "('e, 'd, 'w) session_env" and m :: multiplexer where
  acquired_none: "acquired E m [] m"
| acquired_more: "acquired E m rs m1 \<Longrightarrow> acquire E m1 w = (r, m2, w') \<Longrightarrow> acquired E m (rs @ [r]) m2"

lemma acquire_step:
  assumes "acquire E m w = (r, m', w')" "muxSessions m \<noteq> []"
  shows "muxIndex m' = Suc (muxIndex m)"
    and "length (muxSessions m') = length (muxSessions m)"
    and "\<forall>k. r = Ok k \<longrightarrow> k = Some (muxIndex m mod length (muxSessions m))
           \<and> \<not> isRequired (muxSessions m' ! (muxIndex m mod length (muxSessions m)))"
    and "i < length (muxSessions m) \<Longrightarrow> \<not> isRequired (muxSessions m ! i) \<Longrightarrow>
           muxSessions m' ! i = muxSessions m ! i"
    and "\<not> isRequired (muxSessions m ! (muxIndex m mod length (muxSessions m))) \<Longrightarrow> w' = w \<and> r = Ok (Some (muxIndex m mod length (muxSessions m)))"
proof -
  let ?i = "muxIndex m mod length (muxSessions m)"
  obtain x w1 where x: "setup_session E (muxSessions m ! ?i) w = (x, w1)" by fastforce
  have i: "?i < length (muxSessions m)" using assms(2) by simp
  have req: "\<not> isRequired (muxSessions m ! ?i) \<Longrightarrow> x = Ok (muxSessions m ! ?i) \<and> w1 = w"
    using x by (simp add: setup_session_def)
  have ok: "x = Ok s \<Longrightarrow> \<not> isRequired s \<and> (\<not> isRequired (muxSessions m ! ?i) \<longrightarrow> s = muxSessions m ! ?i)" for s
    using setup_session_Ok [of E "muxSessions m ! ?i" w s w1] x by auto
  show "muxIndex m' = Suc (muxIndex m)" "length (muxSessions m') = length (muxSessions m)"
    "\<forall>k. r = Ok k \<longrightarrow> k = Some ?i \<and> \<not> isRequired (muxSessions m' ! ?i)"
    "i < length (muxSessions m) \<Longrightarrow> \<not> isRequired (muxSessions m ! i) \<Longrightarrow> muxSessions m' ! i = muxSessions m ! i"
    "\<not> isRequired (muxSessions m ! ?i) \<Longrightarrow> w' = w \<and> r = Ok (Some ?i)"
    using assms x i ok req by (auto simp: acquire_def Let_def nth_list_update split: res.splits if_splits)
qed

lemma acquired_facts:
  assumes "acquired E m rs m'" "muxSessions m \<noteq> []"
  shows "muxIndex m' = muxIndex m + length rs \<and> length (muxSessions m') = length (muxSessions m) \<and>
    (\<forall>k<length rs. \<forall>i. rs ! k = Ok i \<longrightarrow>
       i = Some ((muxIndex m + k) mod length (muxSessions m)) \<and>
       \<not> isRequired (muxSessions m' ! ((muxIndex m + k) mod length (muxSessions m))))"
  using assms
proof (induction rule: acquired.induct)
  case acquired_none
  then show ?case by simp
next
  case (acquired_more rs m1 w r m2 w')
  let ?n = "length (muxSessions m)"
  have IH: "muxIndex m1 = muxIndex m + length rs" "length (muxSessions m1) = ?n"
    "\<And>k i. k < length rs \<Longrightarrow> rs ! k = Ok i \<Longrightarrow> i = Some ((muxIndex m + k) mod ?n) \<and>
       \<not> isRequired (muxSessions m1 ! ((muxIndex m + k) mod ?n))"
    using acquired_more by auto
  then have ne: "muxSessions m1 \<noteq> []" using acquired_more.prems by auto
  note step = acquire_step [OF acquired_more.hyps(2) ne]
  have "i = Some ((muxIndex m + k) mod ?n) \<and> \<not> isRequired (muxSessions m2 ! ((muxIndex m + k) mod ?n))"
    if "k < length (rs @ [r])" "(rs @ [r]) ! k = Ok i" for k i
  proof (cases "k = length rs")
    case True
    with that(2) step(3) IH(1,2) show ?thesis by auto
  next
    case False
    with that have k: "k < length rs" "rs ! k = Ok i" by (auto simp: nth_append)
    have "(muxIndex m + k) mod ?n < length (muxSessions m1)"
      using acquired_more.prems IH(2) by simp
    with IH(3) [OF k] step(4) show ?thesis by metis
  qed
  with step(1,2) IH(1,2) show ?case by simp
qed

text \<open>A world that counts the addresses it has given out; every fetch answers with an empty page.\<close>

definition sample_session_env :: "(unit, unit, nat) session_env" where
  "sample_session_env = \<lparr>
     seQuery = \<lparr>gqFind = (\<lambda>s e d. ()), gqLength = (\<lambda>e d. 1), gqIs = (\<lambda>s e d. False), gqHas = (\<lambda>s e d. ()),
       gqEach = (\<lambda>e d. []), gqText = (\<lambda>e d. []), gqAttr = (\<lambda>s e d. None), gqRemove = (\<lambda>e d. ()),
       gqPrevAllFiltered = (\<lambda>s e d. ()), gqFirst = (\<lambda>e d. ()), gqEq = (\<lambda>n e d. ())\<rparr>,
     seFilters = sample_env,
     seResolve = (\<lambda>p w. (Some (w, p), Suc w)),
     seFetch = (\<lambda>u w. (Ok (HTMLResult ''text/html'' [] 200 (Some ((), ()))), Suc (max w (fst u)))),
     sePost = (\<lambda>u vs w. (Ok (HTMLResult ''text/html'' [] 200 (Some ((), ()))), Suc w)),
     seOpen = (\<lambda>u vs w. (Ok (HTMLResult ''text/html'' [] 200 (Some ((), ()))), Suc w)),
     seSetCookies = (\<lambda>u c w. w), seForm = (\<lambda>s w. (None, w)), seInput = (\<lambda>n v w. (None, w)),
     seSubmit = (\<lambda>w. (None, w)), seCurrentURL = (\<lambda>w. Some (w, [])),
     seLocationPath = (\<lambda>p. None), seTemplate = (\<lambda>t c. Some t)\<rparr>"

definition sample_login :: "string \<Rightarrow> login_block" where
  "sample_login test = \<lparr>loginPath = ''/login'', formSelector = ''form'', loginMethod = ''post'', loginInputs = [],
     loginErrors = [], loginTest = \<lparr>ptPath = test, ptSelector = []\<rparr>, initPath = []\<rparr>"

text \<open>Sessions are handed out in turn, and logging in is done once for each: the k-th call of a history
  that succeeds gives the session at the k-th place in the cycle, and a session that was handed out
  before is handed out again without touching the network.\<close>

theorem sessions_round_robin:
  assumes "acquired E m rs m'" "muxSessions m \<noteq> []"
  shows "(\<forall>k<length rs. \<forall>i. rs ! k = Ok i \<longrightarrow> i = Some ((muxIndex m + k) mod length (muxSessions m)))
    \<and> (\<forall>k<length rs. \<forall>i. rs ! k = Ok i \<and>
         (muxIndex m + k) mod length (muxSessions m) = (muxIndex m + length rs) mod length (muxSessions m) \<longrightarrow>
         (\<exists>m2. acquire E m' w = (Ok i, m2, w)))"
proof (intro conjI allI impI)
  fix k i
  assume "k < length rs" "rs ! k = Ok i"
  then show "i = Some ((muxIndex m + k) mod length (muxSessions m))"
    using acquired_facts [OF assms] by blast
next
  fix k i
  assume k: "k < length rs" and again: "rs ! k = Ok i \<and>
    (muxIndex m + k) mod length (muxSessions m) = (muxIndex m + length rs) mod length (muxSessions m)"
  have ne: "muxSessions m' \<noteq> []" using acquired_facts [OF assms] assms(2) by auto
  obtain r m2 w2 where acq: "acquire E m' w = (r, m2, w2)" by (cases "acquire E m' w")
  from acquired_facts [OF assms] k again
  have "\<not> isRequired (muxSessions m' ! (muxIndex m' mod length (muxSessions m')))"
    "i = Some (muxIndex m' mod length (muxSessions m'))" by auto
  with acquire_step(5) [OF acq ne] acq show "\<exists>m2. acquire E m' w = (Ok i, m2, w)" by simp
qed

theorem sessions_round_robin_witness:
  "\<exists>m1 m2 m3. let s = newSession [] (sample_login []) in
     acquired sample_session_env \<lparr>muxSessions = [s, s], muxIndex = 0\<rparr> [Ok (Some 0), Ok (Some 1)] m2
     \<and> acquire sample_session_env m2 7 = (Ok (Some 0), m3, 7)"
proof -
  let ?s = "newSession [] (sample_login [])"
  let ?m = "\<lparr>muxSessions = [?s, ?s], muxIndex = 0\<rparr>"
  let ?t = "?s\<lparr>sesState := LoggedIn\<rparr>"
  let ?m2 = "\<lparr>muxSessions = [?t, ?t], muxIndex = 2\<rparr>"
  have a: "acquire sample_session_env ?m 0 = (Ok (Some 0), ?m\<lparr>muxSessions := [?t, ?s], muxIndex := 1\<rparr>, 3)"
    "acquire sample_session_env (?m\<lparr>muxSessions := [?t, ?s], muxIndex := 1\<rparr>) 0 = (Ok (Some 1), ?m2, 3)"
    by code_simp+
  have "acquired sample_session_env ?m ([] @ [Ok (Some 0)]) (?m\<lparr>muxSessions := [?t, ?s], muxIndex := 1\<rparr>)"
    by (rule acquired_more [OF acquired_none a(1)])
  from acquired_more [OF this a(2)]
  have run: "acquired sample_session_env ?m [Ok (Some 0), Ok (Some 1)] ?m2" by simp
  from sessions_round_robin [OF run, THEN conjunct2, rule_format, of 0 "Some 0" 7]
  obtain m3 where "acquire sample_session_env ?m2 7 = (Ok (Some 0), m3, 7)" by auto
  with run show ?thesis by (auto simp: Let_def)
qed

text \<open>A login whose check names a page can never succeed: the address of the page that was fetched is
  compared with the wanted one by pointer. The session keeps waiting for a login, and every search that
  takes it fails.\<close>

theorem login_check_by_path_never_passes:
  assumes fresh: "\<And>u w v. seCurrentURL E (snd (seFetch E u w)) = Some v \<Longrightarrow> fst v \<noteq> fst u"
    and open_page: "\<And>w. seCurrentURL E w \<noteq> None"
    and path: "ptPath (loginTest (sesLogin s)) \<noteq> []"
  shows "login E s w \<noteq> (Ok s', w') \<and>
    (isRequired s \<longrightarrow> fst (acquire E \<lparr>muxSessions = [s], muxIndex = n\<rparr> w) \<noteq> Ok i
      \<and> muxSessions (fst (snd (acquire E \<lparr>muxSessions = [s], muxIndex = n\<rparr> w))) = [s])"
proof -
  have v: "verifyLogin E s page w1 \<noteq> (Ok True, w2)" for page w1 w2
  proof
    assume "verifyLogin E s page w1 = (Ok True, w2)"
    with path open_page obtain testURL wa where
      check: "(case seFetch E testURL wa of
          (Ok (HTMLResult ct enc code root), w2) \<Rightarrow>
            (if seCurrentURL E w2 = None \<or> fst (the (seCurrentURL E w2)) \<noteq> fst testURL then (Ok False, w2)
             else if root = None then (Err NoDom, w2)
             else if ptSelector (loginTest (sesLogin s)) = [] then (Ok True, w2)
             else (case page_find E (ptSelector (loginTest (sesLogin s))) page of
                     None \<Rightarrow> (Panic, w2)
                   | Some (found, d) \<Rightarrow> (Ok (gqLength (seQuery E) found d \<noteq> 0), w2)))
        | (Panic, w2) \<Rightarrow> (Panic, w2)
        | (_, w2) \<Rightarrow> (Err ExpectedHtml, w2)) = (Ok True, w2)"
      unfolding verifyLogin_def Let_def pageTest_isEmpty_def by (simp add: bind_sr_Ok) blast
    obtain r wb where f: "seFetch E testURL wa = (r, wb)" by fastforce
    obtain u where u: "seCurrentURL E wb = Some u" using open_page by blast
    then have "fst u \<noteq> fst testURL" using fresh [of testURL wa u] f by simp
    with check f u show False by (simp split: res.splits fetch_result.splits)
  qed
  from v have l: "login E s w \<noteq> (Ok s', w')" for s' w' using login_Ok(2) by metis
  moreover have "fst (acquire E \<lparr>muxSessions = [s], muxIndex = n\<rparr> w) \<noteq> Ok i
      \<and> muxSessions (fst (snd (acquire E \<lparr>muxSessions = [s], muxIndex = n\<rparr> w))) = [s]" if "isRequired s"
  proof -
    obtain r w1 where "login E s w = (r, w1)" by fastforce
    with that l [of _ w1] show ?thesis
      by (cases r) (auto simp: acquire_def setup_session_def Let_def)
  qed
  ultimately show ?thesis by blast
qed

theorem login_check_by_path_never_passes_witness:
  "\<forall>s' w'. login sample_session_env (newSession [] (sample_login ''/home'')) 0 \<noteq> (Ok s', w')"
proof (intro allI)
  fix s' w'
  show "login sample_session_env (newSession [] (sample_login ''/home'')) 0 \<noteq> (Ok s', w')"
    using login_check_by_path_never_passes
      [of sample_session_env "newSession [] (sample_login ''/home'')" 0 s' w' 0 None]
    by (simp add: sample_session_env_def newSession_def sample_login_def)
qed

end
