(* ===== verification/UrlResolver.thy ===== *)
theory UrlResolver
  imports Connectivity Filters
begin

text \<open>
  How a relative URL of a page becomes absolute (\<open>indexer/utils.go\<close>): the first URL of the site that
  the connectivity tester accepts is the base. The operations of \<open>net/url\<close> are in \<open>url_ops\<close>, a nil
  pointer to a URL is \<open>None\<close>. The tester is an interface, here a locale, and the cache of
  \<open>Connectivity\<close> provides it.
\<close>

record 'u url_ops =
  urlParse :: "string \<Rightarrow> 'u option"
  urlShow :: "'u \<Rightarrow> string"
  urlReference :: "'u \<Rightarrow> 'u \<Rightarrow> 'u"

record 's tester =
  tstIsValidOrSet :: "string \<Rightarrow> ('s \<Rightarrow> bool \<times> 's) \<Rightarrow> 's \<Rightarrow> bool \<times> 's"
  tstTest :: "string \<Rightarrow> 's \<Rightarrow> conn_error option \<times> 's"

datatype url_error = BadPartialURL | NoWorkingURL

definition isUnresolvable :: "string \<Rightarrow> bool" where
  "isUnresolvable partialURL \<longleftrightarrow> has_prefix partialURL ''magnet:''"

definition defaultURLTester :: "'s tester \<Rightarrow> string \<Rightarrow> 's \<Rightarrow> bool \<times> 's" where
  "defaultURLTester T u s = (let (err, s') = tstTest T u s in (err = None, s'))"

definition resolvePartial :: "'u url_ops \<Rightarrow> 'u \<Rightarrow> string \<Rightarrow> (url_error, 'u) res" where
  "resolvePartial U baseURL partialURL =
     (case urlParse U partialURL of None \<Rightarrow> Err BadPartialURL | Some p \<Rightarrow> Ok (urlReference U baseURL p))"

fun resolve_loop ::
    "'u url_ops \<Rightarrow> 's tester \<Rightarrow> string \<Rightarrow> 'u option list \<Rightarrow> 's \<Rightarrow> (url_error, 'u) res \<times> 's" where
  "resolve_loop U T partialURL [] s = (Err NoWorkingURL, s)"
| "resolve_loop U T partialURL (None # us) s = (Panic, s)"
| "resolve_loop U T partialURL (Some u # us) s =
     (case tstIsValidOrSet T (urlShow U u) (defaultURLTester T (urlShow U u)) s of
        (True, s') \<Rightarrow> (resolvePartial U u partialURL, s')
      | (False, s') \<Rightarrow> resolve_loop U T partialURL us s')"

definition resolver_resolve ::
    "'u url_ops \<Rightarrow> 's tester \<Rightarrow> 'u option list \<Rightarrow> string \<Rightarrow> 's \<Rightarrow> (url_error, 'u) res \<times> 's" where
  "resolver_resolve U T urls partialURL s =
     (if isUnresolvable partialURL then (of_error BadPartialURL (urlParse U partialURL), s)
      else resolve_loop U T partialURL urls s)"

text \<open>The URLs of an index: the configured URL is appended when parsing it fails (a nil pointer), and a
link of the definition is left out when it is the configured one. \<open>GetSiteOption\<close> gives \<open>None\<close> when
the option is not set; the comparison is with the empty text then.\<close>

fun link_urls :: "'u url_ops \<Rightarrow> string \<Rightarrow> string list \<Rightarrow> 'u option list" where
  "link_urls U configURL [] = []"
| "link_urls U configURL (u # us) =
     (if u \<noteq> configURL
      then (case urlParse U u of None \<Rightarrow> link_urls U configURL us
                               | Some r \<Rightarrow> Some r # link_urls U configURL us)
      else link_urls U configURL us)"

definition newURLResolverForIndex :: "'u url_ops \<Rightarrow> string option \<Rightarrow> string list \<Rightarrow> 'u option list" where
  "newURLResolverForIndex U configured links =
     (case configured of
        None \<Rightarrow> link_urls U [] links
      | Some configURL \<Rightarrow>
          (if urlParse U configURL = None then [None] else []) @ link_urls U configURL links)"

subsection \<open>The contract of a tester\<close>

text \<open>\<open>known u s\<close>: the tester has a good answer for the URL; \<open>answers u\<close>: the site answers when it is asked.\<close>

locale connectivity_tester =
  fixes T :: "'s tester" and inv :: "'s \<Rightarrow> bool" and known :: "string \<Rightarrow> 's \<Rightarrow> bool"
    and answers :: "string \<Rightarrow> bool"
  assumes valid_known: "inv s \<Longrightarrow> known u s \<Longrightarrow> tstIsValidOrSet T u f s = (True, s)"
    and valid_unknown: "inv s \<Longrightarrow> \<not> known u s \<Longrightarrow> tstIsValidOrSet T u f s = f s"
    and test_good: "inv s \<Longrightarrow> answers u \<Longrightarrow> fst (tstTest T u s) = None
        \<and> inv (snd (tstTest T u s)) \<and> known u (snd (tstTest T u s))"
    and test_bad: "inv s \<Longrightarrow> \<not> answers u \<Longrightarrow> fst (tstTest T u s) \<noteq> None \<and> snd (tstTest T u s) = s"
begin

definition usable :: "'u url_ops \<Rightarrow> 's \<Rightarrow> 'u \<Rightarrow> bool" where
  "usable U s u \<longleftrightarrow> known (urlShow U u) s \<or> answers (urlShow U u)"

lemma accept:
  assumes "inv s"
  shows "tstIsValidOrSet T u (defaultURLTester T u) s =
     (if known u s then (True, s) else if answers u then (True, snd (tstTest T u s)) else (False, s))"
  using assms valid_known [of s u] valid_unknown [of s u] test_good [of s u] test_bad [of s u]
  by (auto simp: defaultURLTester_def case_prod_unfold Let_def)

lemma resolve_first_usable:
  assumes "inv s"
  shows "case List.find (usable U s) us of
      None \<Rightarrow> resolve_loop U T p (map Some us) s = (Err NoWorkingURL, s)
    | Some u \<Rightarrow> \<exists>s'. resolve_loop U T p (map Some us) s = (resolvePartial U u p, s')
        \<and> inv s' \<and> known (urlShow U u) s'"
proof (induction us)
  case Nil
  then show ?case by simp
next
  case (Cons u us)
  show ?case
  proof (cases "usable U s u")
    case True
    then show ?thesis
      using accept [OF assms, of "urlShow U u"] test_good [OF assms, of "urlShow U u"] assms
      by (auto simp: usable_def)
  next
    case False
    then have "resolve_loop U T p (map Some (u # us)) s = resolve_loop U T p (map Some us) s"
      using accept [OF assms, of "urlShow U u"] by (simp add: usable_def)
    moreover have "List.find (usable U s) (u # us) = List.find (usable U s) us" using False by simp
    ultimately show ?thesis using Cons.IH by metis
  qed
qed

end

subsection \<open>The connectivity cache is such a tester\<close>

definition conn_tester ::
    "int \<Rightarrow> (string \<Rightarrow> fetch_outcome) option \<Rightarrow> (string, details) withTTL tester" where
  "conn_tester now fetcher = \<lparr>
     tstIsValidOrSet = conn_isValidOrSet ttl_contains,
     tstTest = conn_test ttl_add_at now fetcher\<rparr>"

definition conn_inv :: "(string, details) withTTL \<Rightarrow> bool" where
  "conn_inv t \<longleftrightarrow> ttl_inv t \<and> 0 < ttl_capacity t"

interpretation cached: connectivity_tester "conn_tester now fetcher" conn_inv ttl_contains
    "\<lambda>u. probe_url fetcher u = None" for now fetcher
  by unfold_locales
     (auto simp: conn_tester_def conn_isValidOrSet_def conn_test_def conn_inv_def timed.add_keeps
       timed.contains_add)

subsection \<open>Resolving against the first site that works\<close>

lemma link_urls_links: "link_urls U c links = map Some (List.map_filter (urlParse U) (filter (\<lambda>u. u \<noteq> c) links))"
  by (induction links) (auto simp: List.map_filter_simps split: option.split)

text \<open>A URL that is no magnet link is resolved against the first URL of the site that is known to work
  or answers when it is tried, and that URL is known to work from then on; when there is none this is an
  error and nothing is remembered.\<close>

theorem resolved_against_first_working_url:
  assumes "conn_inv s" "\<not> isUnresolvable partialURL"
  shows "case List.find (\<lambda>u. ttl_contains (urlShow U u) s \<or> probe_url fetcher (urlShow U u) = None) us of
      None \<Rightarrow> resolver_resolve U (conn_tester now fetcher) (map Some us) partialURL s = (Err NoWorkingURL, s)
    | Some u \<Rightarrow> \<exists>s'. resolver_resolve U (conn_tester now fetcher) (map Some us) partialURL s =
          (of_error BadPartialURL (map_option (urlReference U u) (urlParse U partialURL)), s')
        \<and> conn_inv s' \<and> ttl_contains (urlShow U u) s'"
proof -
  have p: "resolvePartial U u partialURL =
      of_error BadPartialURL (map_option (urlReference U u) (urlParse U partialURL))" for u
    by (simp add: resolvePartial_def of_error_def split: option.split)
  have rr: "resolver_resolve U (conn_tester now fetcher) (map Some us) partialURL s =
      resolve_loop U (conn_tester now fetcher) partialURL (map Some us) s"
    using assms(2) by (simp add: resolver_resolve_def)
  have "cached.usable fetcher U s = (\<lambda>u. ttl_contains (urlShow U u) s \<or> probe_url fetcher (urlShow U u) = None)"
    by (simp add: fun_eq_iff cached.usable_def)
  with cached.resolve_first_usable [OF assms(1), where fetcher = fetcher and U = U and us = us and now = now and p = partialURL]
  show ?thesis unfolding rr p [symmetric] by simp
qed

text \<open>The URL a user configures for a site is never used. When it is well formed the resolver has only
  the links of the definition, and of these not even the one the user asked for; when it is malformed the
  resolver panics on every URL that is no magnet link.\<close>

theorem configured_url_never_used:
  "(urlParse U configURL \<noteq> None \<longrightarrow>
      newURLResolverForIndex U (Some configURL) links =
        map Some (List.map_filter (urlParse U) (filter (\<lambda>u. u \<noteq> configURL) links)))
   \<and> (urlParse U configURL = None \<and> \<not> isUnresolvable partialURL \<longrightarrow>
      fst (resolver_resolve U T (newURLResolverForIndex U (Some configURL) links) partialURL s) = Panic)"
  by (simp add: newURLResolverForIndex_def link_urls_links resolver_resolve_def)

definition sample_urls :: "string url_ops" where
  "sample_urls = \<lparr>urlParse = (\<lambda>s. if s = ''bad'' then None else Some s), urlShow = (\<lambda>u. u),
     urlReference = (\<lambda>b p. b @ p)\<rparr>"

theorem configured_url_never_used_witness:
  "newURLResolverForIndex sample_urls (Some ''http://b'') [''http://a'', ''http://b''] = [Some ''http://a'']
   \<and> fst (resolver_resolve sample_urls (conn_tester 0 None)
       (newURLResolverForIndex sample_urls (Some ''bad'') [''http://a'']) ''/x'' (projr newConnectivity)) = Panic"
  using configured_url_never_used [of sample_urls "''http://b''" "[''http://a'', ''http://b'']" "''/x''" "conn_tester 0 None" "projr newConnectivity"]
    configured_url_never_used [of sample_urls "''bad''" "[''http://a'']" "''/x''" "conn_tester 0 None" "projr newConnectivity"]
  by (simp add: sample_urls_def isUnresolvable_def has_prefix_def List.map_filter_simps)

theorem resolved_against_first_working_url_witness:
  "\<exists>s s'. newConnectivity = Inr s \<and> resolver_resolve sample_urls
     (conn_tester 0 (Some (\<lambda>u. if u = ''http://b'' then HTMLFetchResult 200 else FetchFailed)))
     [Some ''http://a'', Some ''http://b''] ''/x'' s = (Ok ''http://b/x'', s')
     \<and> ttl_contains ''http://b'' s'"
proof -
  let ?f = "Some (\<lambda>u. if u = ''http://b'' then HTMLFetchResult 200 else FetchFailed)"
  obtain s where s: "newConnectivity = Inr s"
    by (simp add: newConnectivity_def newTTL_def newTTLWithEvict_def newLRU_def)
  then have i: "conn_inv s" "ttl_abs s = []"
    using newTTL_inv [of 10000 "60 * minute" False s]
    by (simp_all add: newConnectivity_def newTTL_def conn_inv_def ttl_capacity_def)
  then have "\<not> ttl_contains u s" for u
    by (simp add: conn_inv_def ttl_inv_def ttl_contains_def lru_contains_abs ttl_abs_def)
  then have f: "List.find (\<lambda>u. ttl_contains (urlShow sample_urls u) s \<or> probe_url ?f (urlShow sample_urls u) = None)
      [''http://a'', ''http://b''] = Some ''http://b''"
    by (simp add: sample_urls_def probe_url_def validateBrowserCall_def status_ok_def)
  have u: "\<not> isUnresolvable ''/x''" by (simp add: isUnresolvable_def has_prefix_def)
  from resolved_against_first_working_url [OF i(1) u, where U = sample_urls and fetcher = ?f
      and us = "[''http://a'', ''http://b'']" and now = 0]
  show ?thesis using s unfolding f by (auto simp: sample_urls_def of_error_def)
qed

end
