(* ===== verification/StatusReports.thy ===== *)
theory StatusReports
  imports TtlCache GoStrconv
begin

text \<open>
  The errors an index reports (\<open>indexer/statusReporter.go\<close>): \<open>Error\<close> puts an error into a cache of ten
  entries under the number of errors that are there, \<open>GetErrors\<close> lists them. \<open>noteError\<close> of
  \<open>indexer/runner.go\<close> is deferred by every search and reports its error even when it is nil. The
  message published on the bus is in \<open>StatusMessages\<close>.
\<close>

record reportable =
  rptType :: string
  rptError :: "string option"

type_synonym error_cache = "(nat, reportable) withTTL"

definition errorTTL :: int where
  "errorTTL = 2 * 24 * 3600 * 1000000000"

definition newErrorCache :: "cache_error + error_cache" where
  "newErrorCache = newTTL 10 errorTTL"

definition reporter_error :: "int \<Rightarrow> reportable option \<Rightarrow> error_cache \<Rightarrow> error_cache" where
  "reporter_error now err c =
     (case err of None \<Rightarrow> c | Some e \<Rightarrow> snd (ttl_add now (ttl_len c) e c))"

definition newError :: "string \<Rightarrow> string option \<Rightarrow> reportable option" where
  "newError errType err = Some \<lparr>rptType = errType, rptError = err\<rparr>"

definition noteError :: "int \<Rightarrow> string \<Rightarrow> string option \<Rightarrow> error_cache \<Rightarrow> error_cache" where
  "noteError now errType err c = reporter_error now (newError errType err) c"

text \<open>\<open>%s\<close> of an error whose method panics.\<close>

definition nil_error_text :: string where
  "nil_error_text = ''%!s(PANIC=Error method: runtime error: invalid memory address or nil pointer dereference)''"

definition error_text :: "reportable \<Rightarrow> string" where
  "error_text e = (case rptError e of Some s \<Rightarrow> s | None \<Rightarrow> nil_error_text)"

fun errors_loop :: "int \<Rightarrow> nat list \<Rightarrow> string list \<Rightarrow> error_cache \<Rightarrow> string list \<times> error_cache" where
  "errors_loop now [] errs c = (errs, c)"
| "errors_loop now (i # is) errs c =
     (if i < ttl_len c then
        (case ttl_get now i c of
           (None, c') \<Rightarrow> errors_loop now is errs c'
         | (Some e, c') \<Rightarrow> errors_loop now is (errs[i := error_text e]) c')
      else (errs, c))"

definition getErrors :: "int \<Rightarrow> error_cache \<Rightarrow> string list \<times> error_cache" where
  "getErrors now c = (let n = ttl_len c in errors_loop now [0..<n] (replicate n []) c)"

subsection \<open>The contents of the cache\<close>

definition entry_of :: "int \<times> reportable \<Rightarrow> reportable ttledCacheValue" where
  "entry_of te = \<lparr>tvalue = snd te, lastAccessTime = fst te\<rparr>"

definition report_all :: "(int \<times> reportable) list \<Rightarrow> error_cache \<Rightarrow> error_cache" where
  "report_all es c = fold (\<lambda>(t, e). reporter_error t (Some e)) es c"

text \<open>What is in the cache after some reports: the entries under their numbers, and once there have been
more than ten, the second to the tenth and the latest.\<close>

definition reported :: "(int \<times> reportable) list \<Rightarrow> (nat \<times> reportable ttledCacheValue) list" where
  "reported es =
     (if length es \<le> 10 then rev (zip [0..<length es] (map entry_of es))
      else (10, entry_of (last es)) # rev (zip [1..<10] (map entry_of (take 9 (drop 1 es)))))"

lemma report_all_snoc:
  "report_all (es @ [(t, e)]) c = snd (ttl_add t (ttl_len (report_all es c)) e (report_all es c))"
  by (simp add: report_all_def reporter_error_def)

lemma ttl_len_abs: "ttl_len t = length (ttl_abs t)"
  by (simp add: ttl_len_def ttl_abs_def lru_len_def lru_abs_def)

lemma length_reported: "length (reported es) = min 10 (length es)"
  by (simp add: reported_def)

lemma reported_step:
  "snd (sp_add 10 (length (reported es)) (entry_of te) (reported es)) = reported (es @ [te])"
proof -
  consider (room) "length es < 10" | (full) "length es = 10" | (over) "length es > 10" by linarith
  then show ?thesis
  proof cases
    case room
    then have "length es \<notin> fst ` set (reported es)"
      by (auto simp: reported_def dest: set_zip_leftD)
    moreover have "filter (\<lambda>e. fst e \<noteq> length es) (reported es) = reported es"
      using calculation by (auto simp: filter_id_conv image_iff)
    ultimately show ?thesis
      using room by (simp add: length_reported sp_add_def sp_touch_def) (simp add: reported_def)
  next
    case full
    then obtain x xs where es: "es = x # xs" "length xs = 9" by (cases es) auto
    have new: "10 \<notin> fst ` set (reported es)"
      using full by (auto simp: reported_def dest: set_zip_leftD)
    then have f: "filter (\<lambda>e. fst e \<noteq> 10) (reported es) = reported es"
      by (auto simp: filter_id_conv image_iff)
    have r: "reported es = rev (zip [1..<10] (map entry_of xs)) @ [(0, entry_of x)]"
      using es by (simp add: reported_def upt_rec [of 0 10])
    have "reported (es @ [te]) = (10, entry_of te) # rev (zip [1..<10] (map entry_of xs))"
      using es by (simp add: reported_def)
    then show ?thesis
      using full new f by (simp add: length_reported sp_add_def sp_touch_def) (simp add: r butlast_append)
  next
    case over
    let ?tl = "rev (zip [1..<10] (map entry_of (take 9 (drop 1 es))))"
    have "filter (\<lambda>e. fst e \<noteq> 10) ?tl = ?tl"
      by (auto simp: filter_id_conv dest: set_zip_leftD)
    with over show ?thesis
      by (simp add: length_reported sp_add_def sp_touch_def) (simp add: reported_def)
  qed
qed

lemma report_all_abs:
  assumes "ttl_inv c" "ttl_abs c = []" "lsize (base c) = 10"
  shows "ttl_inv (report_all es c) \<and> lsize (base (report_all es c)) = 10 \<and> ttl (report_all es c) = ttl c
    \<and> ttl_abs (report_all es c) = reported es"
proof (induction es rule: rev_induct)
  case Nil
  then show ?case using assms by (simp add: report_all_def reported_def)
next
  case (snoc te es)
  obtain t e where te: "te = (t, e)" by (cases te)
  let ?c = "report_all es c"
  have "ttl_abs (snd (ttl_add t (ttl_len ?c) e ?c)) = reported (es @ [te])"
    using ttl_add_abs [of ?c t "ttl_len ?c" e] snoc reported_step [of es te]
    by (simp add: ttl_len_abs te entry_of_def)
  with snoc show ?case
    by (simp add: te report_all_snoc ttl_add_inv)
      (simp add: ttl_add_def case_prod_unfold Let_def add_frame)
qed

subsection \<open>The list of errors\<close>

definition all_live :: "int \<Rightarrow> error_cache \<Rightarrow> bool" where
  "all_live now c \<longleftrightarrow> (\<forall>e\<in>snd ` set (ttl_abs c). \<not> stale_at (ttl c) now e)"

definition put_error :: "error_cache \<Rightarrow> nat \<Rightarrow> string list \<Rightarrow> string list" where
  "put_error c i errs =
     (case map_of (ttl_abs c) i of None \<Rightarrow> errs | Some e \<Rightarrow> errs[i := error_text (tvalue e)])"

lemma ttl_get_live:
  assumes "ttl_inv c" "all_live now c"
  shows "fst (ttl_get now i c) = map_option tvalue (map_of (ttl_abs c) i)"
    and "map_of (ttl_abs (snd (ttl_get now i c))) = map_of (ttl_abs c)"
    and "length (ttl_abs (snd (ttl_get now i c))) = length (ttl_abs c)"
    and "all_live now (snd (ttl_get now i c))"
proof -
  have d: "distinct (map fst (ttl_abs c))"
    using assms(1) lru_abs_distinct by (auto simp: ttl_inv_def ttl_abs_def)
  have keep: "ttl (snd (ttl_get now i c)) = ttl c"
    by (simp add: ttl_get_def split: option.split prod.split)
  have "fst (ttl_get now i c) = map_option tvalue (map_of (ttl_abs c) i)
    \<and> map_of (ttl_abs (snd (ttl_get now i c))) = map_of (ttl_abs c)
    \<and> length (ttl_abs (snd (ttl_get now i c))) = length (ttl_abs c)
    \<and> set (ttl_abs (snd (ttl_get now i c))) = set (ttl_abs c)"
  proof (cases "map_of (ttl_abs c) i")
    case None
    then show ?thesis using ttl_get_abs [OF assms(1), of now i] by simp
  next
    case (Some e)
    then have mem: "(i, e) \<in> set (ttl_abs c)" by (rule map_of_SomeD)
    then have "\<not> stale_at (ttl c) now e" using assms(2) by (force simp: all_live_def)
    then have g: "fst (ttl_get now i c) = Some (tvalue e)" "ttl_abs (snd (ttl_get now i c)) = sp_touch i e (ttl_abs c)"
      using ttl_get_abs [OF assms(1), of now i] Some by simp_all
    have m: "mset (sp_touch i e (ttl_abs c)) = mset (ttl_abs c)"
    proof -
      have "filter (\<lambda>x. fst x \<noteq> i) (ttl_abs c) = filter (\<lambda>x. x \<noteq> (i, e)) (ttl_abs c)"
        using d mem by (intro filter_cong) (auto dest: eq_key_imp_eq_value)
      also have "\<dots> = remove1 (i, e) (ttl_abs c)"
        using d by (simp add: remove1_filter_distinct distinct_map)
      finally show ?thesis using mem by (simp add: sp_touch_def)
    qed
    then have "distinct (map fst (sp_touch i e (ttl_abs c)))"
      using d by (metis mset_map mset_eq_imp_distinct_iff)
    with d m have "map_of (sp_touch i e (ttl_abs c)) = map_of (ttl_abs c)"
      by (metis map_of_inject_set mset_eq_setD)
    then show ?thesis
      using g m Some by (simp add: mset_eq_length [OF m] mset_eq_setD [OF m])
  qed
  then show "fst (ttl_get now i c) = map_option tvalue (map_of (ttl_abs c) i)"
    "map_of (ttl_abs (snd (ttl_get now i c))) = map_of (ttl_abs c)"
    "length (ttl_abs (snd (ttl_get now i c))) = length (ttl_abs c)"
    "all_live now (snd (ttl_get now i c))"
    using assms(2) keep by (auto simp: all_live_def)
qed

lemma errors_loop_live:
  assumes "ttl_inv c" "all_live now c" "\<forall>i\<in>set is. i < ttl_len c"
  shows "fst (errors_loop now is errs c) = fold (put_error c) is errs"
  using assms
proof (induction "is" arbitrary: errs c)
  case Nil
  then show ?case by simp
next
  case (Cons i "is")
  obtain r c' where g: "ttl_get now i c = (r, c')" by fastforce
  note live = ttl_get_live [OF Cons.prems(1,2), of i, unfolded g fst_conv snd_conv]
  have c': "ttl_inv c'" "all_live now c'" "\<forall>i\<in>set is. i < ttl_len c'" "put_error c' = put_error c"
    using Cons.prems ttl_get_inv [OF Cons.prems(1), of now i] g live
    by (auto simp: ttl_len_abs put_error_def fun_eq_iff)
  show ?case
    using Cons.IH [OF c'(1-3)] Cons.prems(3) g live(1) c'(4)
    by (auto simp: put_error_def [of c i] split: option.split)
qed

lemma fold_put_error:
  "k \<le> length errs \<Longrightarrow>
   fold (put_error c) [0..<k] errs =
     map (\<lambda>i. case map_of (ttl_abs c) i of None \<Rightarrow> errs ! i | Some e \<Rightarrow> error_text (tvalue e)) [0..<k] @ drop k errs"
proof (induction k)
  case 0
  then show ?case by simp
next
  case (Suc k)
  then have "drop k errs = errs ! k # drop (Suc k) errs" by (simp add: Cons_nth_drop_Suc)
  with Suc show ?case
    by (simp add: put_error_def [of c k] list_update_append split: option.split)
qed

lemma getErrors_live:
  assumes "ttl_inv c" "all_live now c"
  shows "fst (getErrors now c) =
    map (\<lambda>i. case map_of (ttl_abs c) i of None \<Rightarrow> [] | Some e \<Rightarrow> error_text (tvalue e)) [0..<ttl_len c]"
  using errors_loop_live [OF assms, of "[0..<ttl_len c]"] fold_put_error [of "ttl_len c" "replicate (ttl_len c) []" c]
  by (auto simp: getErrors_def Let_def split: option.split)

lemma map_of_rev_zip:
  assumes "distinct ks" "length ks = length xs" "i < length xs"
  shows "map_of (rev (zip ks xs)) (ks ! i) = Some (xs ! i)"
proof -
  have "distinct (map fst (rev (zip ks xs)))" using assms by (simp add: rev_map [symmetric])
  moreover have "(ks ! i, xs ! i) \<in> set (rev (zip ks xs))" using assms by (auto simp: in_set_zip)
  ultimately show ?thesis by (rule map_of_is_SomeI)
qed

lemma map_of_reported:
  assumes "i < length es" "i < 10"
  shows "map_of (reported es) i = (if length es > 10 \<and> i = 0 then None else Some (entry_of (es ! i)))"
proof (cases "length es \<le> 10")
  case True
  then show ?thesis
    using assms map_of_rev_zip [of "[0..<length es]" "map entry_of es" i] by (simp add: reported_def)
next
  case False
  let ?xs = "take 9 (drop 1 es)"
  have "map_of (rev (zip [1..<10] (map entry_of ?xs))) i = Some (entry_of (es ! i))" if "i \<noteq> 0"
    using False assms that map_of_rev_zip [of "[1..<10]" "map entry_of ?xs" "i - 1"] by simp
  moreover have "map_of (rev (zip [1..<10] (map entry_of ?xs))) 0 = None"
    by (auto simp: map_of_eq_None_iff dest: set_zip_leftD)
  ultimately show ?thesis using False assms(2) by (auto simp: reported_def)
qed

lemma reported_live:
  assumes "\<forall>(t, e)\<in>set es. now \<le> t + d" "v \<in> snd ` set (reported es)"
  shows "\<not> stale_at d now v"
proof -
  have "v \<in> entry_of ` set es"
  proof (cases "length es \<le> 10")
    case True
    with assms(2) show ?thesis by (auto simp: reported_def dest: set_zip_rightD)
  next
    case False
    have "entry_of ` set (take 9 (drop 1 es)) \<subseteq> entry_of ` set es"
      by (auto dest: in_set_takeD in_set_dropD)
    moreover have "v = entry_of (last es) \<or> v \<in> entry_of ` set (take 9 (drop 1 es))"
      using assms(2) False by (auto simp: reported_def dest: set_zip_rightD)
    moreover have "last es \<in> set es" using False by (cases es) auto
    ultimately show ?thesis by blast
  qed
  with assms(1) show ?thesis by (auto simp: stale_at_def entry_of_def)
qed

text \<open>Up to ten reports are listed in their order; from the eleventh report on the list is an empty text
and the second to the tenth report, whatever is reported later.\<close>

lemma errors_listed:
  assumes new: "newErrorCache = Inr c" and live: "\<forall>(t, e)\<in>set es. now \<le> t + errorTTL"
  shows "fst (getErrors now (report_all es c)) =
    (if length es \<le> 10 then map (\<lambda>te. error_text (snd te)) es
     else [] # map (\<lambda>te. error_text (snd te)) (take 9 (drop 1 es)))"
proof -
  have c: "ttl_inv c" "ttl_abs c = []" "ttl c = errorTTL" "lsize (base c) = 10"
    using newTTL_inv [of 10 errorTTL False c] new by (simp_all add: newErrorCache_def newTTL_def)
  let ?c = "report_all es c"
  have r: "ttl_inv ?c" "ttl ?c = errorTTL" "ttl_abs ?c = reported es"
    using report_all_abs [OF c(1,2,4)] c(3) by simp_all
  have "all_live now ?c"
    using reported_live [OF live] by (simp add: all_live_def r)
  then have g: "fst (getErrors now ?c) =
      map (\<lambda>i. case map_of (reported es) i of None \<Rightarrow> [] | Some e \<Rightarrow> error_text (tvalue e)) [0..<min 10 (length es)]"
    using getErrors_live [OF r(1)] by (simp add: r(3) ttl_len_abs length_reported)
  also have "\<dots> = map (\<lambda>i. if length es > 10 \<and> i = 0 then [] else error_text (snd (es ! i))) [0..<min 10 (length es)]"
    by (rule map_cong) (simp_all add: map_of_reported entry_of_def)
  also have "\<dots> = (if length es \<le> 10 then map (\<lambda>te. error_text (snd te)) es
     else [] # map (\<lambda>te. error_text (snd te)) (take 9 (drop 1 es)))"
    by (rule nth_equalityI) (auto simp: nth_Cons split: nat.split)
  finally show ?thesis .
qed

end
