(* ===== verification/Runner.thy ===== *)
theory Runner
  imports RowFacts Sessions StatusReports
begin

text \<open>
  One search by an index (\<open>indexer/runner.go\<close>, \<open>indexer/searchTemplate.go\<close>,
  \<open>indexer/resultExtraction.go\<close>, \<open>indexer/context.go\<close>): a session is acquired, the request is made from
  the definition and the query, the page is fetched and its rows become results; the error of the
  search, or that there was none, is reported. \<open>runner_env\<close> holds what the code asks of other packages,
  \<open>'w\<close> is the state it works on. Publishing messages and logging are left out.
\<close>

subsection \<open>Templates of a request\<close>

record template_data =
  tdQuery :: query
  tdKeywords :: string
  tdCategories :: "string list"
  tdJob :: "worker_job option"

definition newSearchTemplateData :: "query \<Rightarrow> worker_job option \<Rightarrow> string list \<Rightarrow> template_data" where
  "newSearchTemplateData q job localCategories =
     \<lparr>tdQuery = q, tdKeywords = query_keywords q, tdCategories = localCategories, tdJob = job\<rparr>"

text \<open>\<open>None\<close>: there is no job, the pointer is nil.\<close>

definition rangeValue :: "template_data \<Rightarrow> string \<Rightarrow> string option" where
  "rangeValue td name =
     map_option (\<lambda>j. case map_of (jobFields j) name of None \<Rightarrow> [] | Some v \<Rightarrow> v) (tdJob td)"

definition applyField :: "template_data \<Rightarrow> string \<Rightarrow> string option" where
  "applyField td name =
     (case map_of (qFields (tdQuery td)) name of
        Some (RangeField _) \<Rightarrow> rangeValue td name
      | Some (OtherValue s) \<Rightarrow> Some s
      | None \<Rightarrow> Some ''<nil>'')"

definition hasQueryField :: "template_data \<Rightarrow> string \<Rightarrow> bool" where
  "hasQueryField td name \<longleftrightarrow> map_of (qFields (tdQuery td)) name \<noteq> None"

definition getSearchFieldValue :: "template_data \<Rightarrow> string \<Rightarrow> string + string" where
  "getSearchFieldValue td name =
     (case tdJob td of
        None \<Rightarrow> Inl ''template has no search state''
      | Some j \<Rightarrow> Inr (case map_of (jobFields j) name of None \<Rightarrow> [] | Some v \<Rightarrow> v))"

subsection \<open>The environment and the state\<close>

datatype search_error =
  SessionError session_error | TemplateError | TargetURLError | RawInputError
| FetchError string | EnumerationError "string option"

record ('e, 'd, 'j, 'w) runner_env =
  reSession :: "('e, 'd, 'w) session_env"
  reExtract :: extract_env
  reTemplate :: "string \<Rightarrow> template_data \<Rightarrow> string option"
  reParseQuery :: "string \<Rightarrow> (string \<times> string list) list option"
  reFetch :: "(url_ref, 'j) request_options \<Rightarrow> 'w \<Rightarrow> (string, ('e, 'd) page) res \<times> 'w"
  reJar :: "nat \<Rightarrow> 'w \<Rightarrow> 'j"
  reReferer :: "nat \<Rightarrow> 'w \<Rightarrow> url_ref option"
  reDecode :: "string \<Rightarrow> (string \<times> json) list option"
  reJsonPath :: json_path
  reSlice :: "nat \<Rightarrow> nat \<Rightarrow> 'e \<Rightarrow> 'd \<Rightarrow> 'e option"
  reAppend :: "'e \<Rightarrow> 'e \<Rightarrow> 'd \<Rightarrow> 'd"
  reErrorText :: "search_error \<Rightarrow> string"
  reFilter :: "string \<Rightarrow> 'e \<Rightarrow> 'd \<Rightarrow> 'e"

record runner =
  rnDefinition :: index_definition
  rnFailing :: failing_fields
  rnErrors :: error_cache
  rnSessions :: multiplexer
  rnLastVerified :: int

subsection \<open>The request\<close>

definition values_add ::
    "string \<Rightarrow> string \<Rightarrow> (string \<times> string list) list \<Rightarrow> (string \<times> string list) list" where
  "values_add k v vals = AList.update k ((case map_of vals k of None \<Rightarrow> [] | Some vs \<Rightarrow> vs) @ [v]) vals"

definition evalRawSearchInputs ::
    "('e, 'd, 'j, 'w) runner_env \<Rightarrow> string \<Rightarrow> (string \<times> string list) list \<Rightarrow>
     (string \<times> string list) list option" where
  "evalRawSearchInputs E s vals =
     map_option (\<lambda>parsed. fold (\<lambda>(k, vs). fold (values_add k) vs) parsed vals) (reParseQuery E s)"

text \<open>The inputs of the definition in the order of the runtime; a field of the query takes the place of the
configured value, and is empty when there is no job.\<close>

fun inputs_loop ::
    "('e, 'd, 'j, 'w) runner_env \<Rightarrow> template_data \<Rightarrow> (string \<times> string) list \<Rightarrow> (string \<times> string list) list \<Rightarrow>
     (search_error, (string \<times> string list) list) res" where
  "inputs_loop E td [] vals = Ok vals"
| "inputs_loop E td ((name, configured) # ins) vals =
     (let v = (if hasQueryField td name
               then (case getSearchFieldValue td name of Inl _ \<Rightarrow> [] | Inr s \<Rightarrow> s) else configured)
      in case reTemplate E v td of
           None \<Rightarrow> Err TemplateError
         | Some r \<Rightarrow>
             if name = ''$raw'' then
               (case evalRawSearchInputs E r vals of
                  None \<Rightarrow> Err RawInputError | Some vals' \<Rightarrow> inputs_loop E td ins vals')
             else inputs_loop E td ins (values_add name r vals))"

definition getURLValuesForSearch ::
    "('e, 'd, 'j, 'w) runner_env \<Rightarrow> search_block \<Rightarrow> template_data \<Rightarrow>
     (search_error, (string \<times> string list) list) res" where
  "getURLValuesForSearch E sb td =
     inputs_loop E td (case searchInputs sb of None \<Rightarrow> [] | Some ins \<Rightarrow> ins) []"

definition applyToRequest ::
    "('e, 'd, 'j, 'w) runner_env \<Rightarrow> nat option \<Rightarrow> 'w \<Rightarrow> (url_ref, 'j) request_options \<Rightarrow>
     (url_ref, 'j) request_options" where
  "applyToRequest E session w req =
     (case session of
        None \<Rightarrow> req | Some i \<Rightarrow> req\<lparr>rqCookieJar := Some (reJar E i w), rqReferer := reReferer E i w\<rparr>)"

definition createRequest ::
    "('e, 'd, 'j, 'w) runner_env \<Rightarrow> index_definition \<Rightarrow> query \<Rightarrow> string list \<Rightarrow> worker_job option \<Rightarrow>
     nat option \<Rightarrow> 'w \<Rightarrow> (search_error, (url_ref, 'j) request_options) res \<times> 'w" where
  "createRequest E def q lCategories job session w =
     (let td = newSearchTemplateData q job lCategories
      in case reTemplate E (searchPath (defSearch def)) td of
           None \<Rightarrow> (Err TemplateError, w)
         | Some path \<Rightarrow>
             (case seResolve (reSession E) path w of
                (None, w1) \<Rightarrow> (Err TargetURLError, w1)
              | (Some u, w1) \<Rightarrow>
                  (map_res (\<lambda>vals. applyToRequest E session w1
                      ((newRequestOptions u)\<lparr>rqValues := vals, rqMethod := searchMethod (defSearch def)\<rparr>))
                     (getURLValuesForSearch E (defSearch def) td), w1)))"

subsection \<open>The rows of a page\<close>

text \<open>What the page tells about the search; \<open>None\<close> is a panic: the value is no text, or there is no job
to set the ID of.\<close>

fun context_loop ::
    "('e, 'd, 'j, 'w) runner_env \<Rightarrow> field_block list \<Rightarrow> 'e \<Rightarrow> worker_job option \<Rightarrow> 'd \<Rightarrow>
     (worker_job option \<times> 'd) option" where
  "context_loop E [] el job d = Some (job, d)"
| "context_loop E (f # fs) el job d =
     (case matchBlock (filters (reExtract E)) (dom_ops (seQuery (reSession E))) (fbBlock f) el d of
        (Panic, _) \<Rightarrow> None
      | (Err _, d') \<Rightarrow> context_loop E fs el job d'
      | (Ok v, d') \<Rightarrow>
          if fbField f = ''searchId'' then
            (case (v, job) of
               (VStr s, Some j) \<Rightarrow> context_loop E fs el (Some (job_setID s j)) d'
             | _ \<Rightarrow> None)
          else context_loop E fs el job d')"

text \<open>Every \<open>1 + after\<close> rows become one; a slice that is out of range panics.\<close>

fun merge_rows ::
    "('e, 'd, 'j, 'w) runner_env \<Rightarrow> nat \<Rightarrow> 'e \<Rightarrow> nat list \<Rightarrow> 'd \<Rightarrow> 'd option" where
  "merge_rows E after rows [] d = Some d"
| "merge_rows E after rows (i # is) d =
     (let Q = seQuery (reSession E)
      in case reSlice E (i + 1) (i + 1 + after) rows d of
           None \<Rightarrow> None
         | Some following \<Rightarrow>
             let d1 = reAppend E (gqEq Q i rows d) (gqFind Q ''td'' following d) d
             in merge_rows E after rows is (gqRemove Q following d1))"

definition clearDom ::
    "('e, 'd, 'j, 'w) runner_env \<Rightarrow> rows_block \<Rightarrow> 'e \<Rightarrow> 'd \<Rightarrow> (string, unit) res \<times> 'd" where
  "clearDom E rb root d =
     (let Q = seQuery (reSession E); sel = selSelector (rowsSelector rb);
          rows = gqFind Q sel root d;
          merged = (if rowsAfter rb > 0
                    then merge_rows E (nat (rowsAfter rb)) rows
                      (filter (\<lambda>i. i mod (1 + nat (rowsAfter rb)) = 0) [0..<gqLength Q rows d]) d
                    else Some d)
      in case merged of
           None \<Rightarrow> (Panic, d)
         | Some d1 \<Rightarrow>
             let d2 = (if rowsRemove rb \<noteq> []
                       then gqRemove Q (reFilter E (rowsRemove rb) (gqFind Q sel root d1) d1) d1 else d1)
             in (if sel = [] then Err ''no result item selector is given'' else Ok (), d2))"

text \<open>The rows together with the document they are in.\<close>

datatype ('e, 'd) scrape_rows = DomRows "'e list" 'd | JsonRows "json list" | NoRows

definition extractItemsFromDom ::
    "('e, 'd, 'j, 'w) runner_env \<Rightarrow> index_definition \<Rightarrow> 'e \<Rightarrow> worker_job option \<Rightarrow> 'd \<Rightarrow>
     (string, ('e, 'd) scrape_rows) res \<times> worker_job option" where
  "extractItemsFromDom E def root job d =
     (let Q = seQuery (reSession E)
      in case context_loop E (searchContext (defSearch def)) (gqFirst Q root d) job d of
           None \<Rightarrow> (Panic, job)
         | Some (job', d1) \<Rightarrow>
             (case clearDom E (searchRows (defSearch def)) root d1 of
                (Panic, _) \<Rightarrow> (Panic, job')
              | (Err e, _) \<Rightarrow> (Err e, job')
              | (Ok _, d2) \<Rightarrow>
                  let rows = gqFind Q (selSelector (rowsSelector (searchRows (defSearch def)))) root d2
                  in (Ok (DomRows (map (\<lambda>i. gqEq Q i rows d2) [0..<gqLength Q rows d2]) d2), job')))"

definition extractItemsFromJSON ::
    "('e, 'd, 'j, 'w) runner_env \<Rightarrow> index_definition \<Rightarrow> string \<Rightarrow> (string, ('e, 'd) scrape_rows) res" where
  "extractItemsFromJSON E def body =
     (case reDecode E body of
        None \<Rightarrow> Err ''invalid JSON''
      | Some kvs \<Rightarrow>
          (case map_of kvs (selPath (rowsSelector (searchRows (defSearch def)))) of
             Some (JArr js) \<Rightarrow> Ok (JsonRows js)
           | _ \<Rightarrow> Panic))"

definition extractScrapeItems ::
    "('e, 'd, 'j, 'w) runner_env \<Rightarrow> index_definition \<Rightarrow> ('e, 'd) page \<Rightarrow> worker_job option \<Rightarrow>
     (string, ('e, 'd) scrape_rows) res \<times> worker_job option" where
  "extractScrapeItems E def p job =
     (case p of
        HTMLResult _ _ _ (Some (root, d)) \<Rightarrow>
          extractItemsFromDom E def (gqFirst (seQuery (reSession E)) root d) job d
      | HTMLResult _ _ _ None \<Rightarrow> (Panic, job)
      | JSONFetchResult _ _ _ body \<Rightarrow> (extractItemsFromJSON E def body, job)
      | HTTPResult \<Rightarrow> (Ok NoRows, job))"

subsection \<open>A search\<close>

definition run_rows ::
    "('e, 'd, 'j, 'w) runner_env \<Rightarrow> index_definition \<Rightarrow> query \<Rightarrow> string list \<Rightarrow> ('e, 'd) scrape_rows \<Rightarrow>
     failing_fields \<Rightarrow> result_item list option \<times> failing_fields" where
  "run_rows E def q cats rows failing =
     (case rows of
        DomRows els d \<Rightarrow>
          apsnd fst (processScrapedItems (reExtract E) (dom_ops (seQuery (reSession E))) def q cats els (failing, d))
      | JsonRows js \<Rightarrow>
          apsnd fst (processScrapedItems (reExtract E) (json_ops (reJsonPath E)) def q cats js (failing, ()))
      | NoRows \<Rightarrow> (Some [], failing))"

text \<open>The deferred report: it is made on every way out, with the error the variable holds then.\<close>

definition note_error :: "int \<Rightarrow> string \<Rightarrow> string option \<Rightarrow> runner \<Rightarrow> runner" where
  "note_error now errType err r = r\<lparr>rnErrors := noteError now errType err (rnErrors r)\<rparr>"

definition fetch_rows ::
    "('e, 'd, 'j, 'w) runner_env \<Rightarrow> int \<Rightarrow> query \<Rightarrow> string list \<Rightarrow> (url_ref, 'j) request_options \<Rightarrow>
     worker_job option \<Rightarrow> runner \<Rightarrow> 'w \<Rightarrow>
     (search_error, result_item list) res \<times> worker_job option \<times> runner \<times> 'w" where
  "fetch_rows E now q cats req job r w =
     (case reFetch E req w of
        (Panic, w1) \<Rightarrow> (Panic, job, r, w1)
      | (Err e, w1) \<Rightarrow> (Err (FetchError e), job, note_error now ''cant-fetch-content'' (Some e) r, w1)
      | (Ok page, w1) \<Rightarrow>
          (case extractScrapeItems E (rnDefinition r) page job of
             (Panic, job') \<Rightarrow> (Panic, job', r, w1)
           | (Err e, job') \<Rightarrow>
               (Err (EnumerationError (Some e)), job', note_error now ''cant-fetch-content'' (Some e) r, w1)
           | (Ok NoRows, job') \<Rightarrow>
               (Err (EnumerationError None), job', note_error now ''cant-fetch-content'' None r, w1)
           | (Ok rows, job') \<Rightarrow>
               (case run_rows E (rnDefinition r) q cats rows (rnFailing r) of
                  (None, failing) \<Rightarrow> (Panic, job', r\<lparr>rnFailing := failing\<rparr>, w1)
                | (Some results, failing) \<Rightarrow>
                    (Ok results, job', note_error now ''login'' None (r\<lparr>rnFailing := failing\<rparr>), w1))))"

definition runner_search ::
    "('e, 'd, 'j, 'w) runner_env \<Rightarrow> categories \<Rightarrow> int \<Rightarrow> query \<Rightarrow> worker_job option \<Rightarrow> runner \<Rightarrow> 'w \<Rightarrow>
     (search_error, result_item list) res \<times> worker_job option \<times> runner \<times> 'w" where
  "runner_search E all_cats now q job r w =
     (let (acquired, sessions, w1) = acquire (reSession E) (rnSessions r) w;
          r1 = r\<lparr>rnSessions := sessions\<rparr>
      in case acquired of
           Panic \<Rightarrow> (Panic, job, r1, w1)
         | Err e \<Rightarrow>
             (Err (SessionError e), job, note_error now ''login'' (Some (reErrorText E (SessionError e))) r1, w1)
         | Ok session \<Rightarrow>
             let cats = getLocalCategoriesMatchingQuery all_cats (qCategories q)
                          (categoryMap (defCapabilities (rnDefinition r)))
             in case createRequest E (rnDefinition r) q cats job session w1 of
                  (Panic, w2) \<Rightarrow> (Panic, job, r1, w2)
                | (Err e, w2) \<Rightarrow> (Err e, job, note_error now ''bad-target'' (Some (reErrorText E e)) r1, w2)
                | (Ok req, w2) \<Rightarrow> fetch_rows E now q cats req job r1 w2)"

subsection \<open>The other operations of an index\<close>

definition indexVerificationSpan :: int where
  "indexVerificationSpan = 24 * 60 * 60 * 1000000000"

datatype health_error = SearchFailed search_error | NullResult

text \<open>A search without results gives a nil slice, so the message on empty results is never reached.\<close>

definition healthCheck ::
    "('e, 'd, 'j, 'w) runner_env \<Rightarrow> categories \<Rightarrow> int \<Rightarrow> runner \<Rightarrow> 'w \<Rightarrow>
     (health_error, unit) res \<times> runner \<times> 'w" where
  "healthCheck E all_cats now r w =
     (if now - rnLastVerified r < indexVerificationSpan then (Ok (), r, w)
      else (case runner_search E all_cats now newQuery None r w of
              (Panic, _, r', w') \<Rightarrow> (Panic, r', w')
            | (Err e, _, r', w') \<Rightarrow> (Err (SearchFailed e), r', w')
            | (Ok results, _, r', w') \<Rightarrow>
                if results = [] then (Err NullResult, r', w')
                else (Ok (), r'\<lparr>rnLastVerified := now\<rparr>, w')))"

definition searchIsSinglePaged :: "runner \<Rightarrow> bool" where
  "searchIsSinglePaged r \<longleftrightarrow> isSinglePage (defSearch (rnDefinition r))"

definition maxSearchPages :: "runner \<Rightarrow> uint64" where
  "maxSearchPages r = (if searchIsSinglePaged r then 1 else word_of_int (maxPages (defSearch (rnDefinition r))))"

definition more_params :: "string \<Rightarrow> string list" where
  "more_params k =
     (if k = ''search'' then [''imdbid'', ''tvdbid'', ''tvmazeid'']
      else if k = ''movie-search'' then [''imdbid'']
      else if k = ''tv-search'' then [''tvdbid'', ''tvmazeid'', ''rid''] else [])"

definition runner_capabilities :: "runner \<Rightarrow> capabilities" where
  "runner_capabilities r =
     (let caps = toTorznab (defCapabilities (rnDefinition r))
      in caps\<lparr>capModes := map (\<lambda>m. m\<lparr>supportedParams := supportedParams m @ more_params (modeKey m)\<rparr>) (capModes caps)\<rparr>)"

text \<open>\<open>Ratio\<close>: the ratio that was matched is bound to a new variable of the inner block, the outer one stays
nil and its assertion to a string panics. An error of a list of texts panics at its own assertion.\<close>

definition runner_ratio ::
    "('e, 'd, 'j, 'w) runner_env \<Rightarrow> runner \<Rightarrow> 'w \<Rightarrow> (string, string) res \<times> runner \<times> 'w" where
  "runner_ratio E r w =
     (let def = rnDefinition r; s = defRatio def
      in if selTextVal s \<noteq> [] then (Ok (selTextVal s), r, w)
         else if defRatioPath def = [] then (Ok ''unknown'', r, w)
         else (case acquire (reSession E) (rnSessions r) w of
                 (Panic, m, w1) \<Rightarrow> (Panic, r\<lparr>rnSessions := m\<rparr>, w1)
               | (Err e, m, w1) \<Rightarrow> (Err (reErrorText E (SessionError e)), r\<lparr>rnSessions := m\<rparr>, w1)
               | (Ok _, m, w1) \<Rightarrow>
                   let r1 = r\<lparr>rnSessions := m\<rparr>
                   in case seResolve (reSession E) (defRatioPath def) w1 of
                        (None, w2) \<Rightarrow> (Err (reErrorText E TargetURLError), r1, w2)
                      | (Some u, w2) \<Rightarrow>
                          (case reFetch E (newRequestOptions u) w2 of
                             (Panic, w3) \<Rightarrow> (Panic, r1, w3)
                           | (Err _, w3) \<Rightarrow> (Ok ''error'', r1, w3)
                           | (Ok (HTMLResult _ _ _ (Some (root, d))), w3) \<Rightarrow>
                               (case fst (matchBlock (filters (reExtract E)) (dom_ops (seQuery (reSession E))) s
                                       (gqFirst (seQuery (reSession E)) root d) d) of
                                  Err e \<Rightarrow> (if selAll s \<and> e = NoCase then Panic else Err ''no match'', r1, w3)
                                | _ \<Rightarrow> (Panic, r1, w3))
                           | (Ok (HTMLResult _ _ _ None), w3) \<Rightarrow> (Panic, r1, w3)
                           | (Ok _, w3) \<Rightarrow> (Err ''response was not html'', r1, w3))))"

subsection \<open>Every search reports\<close>

definition noted :: "(search_error, 'a) res \<Rightarrow> string option \<Rightarrow> bool" where
  "noted result err \<longleftrightarrow>
     (case result of Panic \<Rightarrow> False | Ok _ \<Rightarrow> err = None | Err (EnumerationError e) \<Rightarrow> err = e | Err _ \<Rightarrow> err \<noteq> None)"

lemma note_error_errors [simp]: "rnErrors (note_error now t e r) = noteError now t e (rnErrors r)"
  by (simp add: note_error_def)

lemma createRequest_total: "fst (createRequest E def q cats job session w) \<noteq> Panic"
proof -
  have "inputs_loop E td ins vals \<noteq> Panic" for td ins vals
    by (induction ins arbitrary: vals) (auto simp: Let_def split: option.splits if_splits)
  then show ?thesis
    by (simp add: createRequest_def getURLValuesForSearch_def Let_def split: option.split prod.split)
qed

lemma fetch_rows_reports:
  assumes "fetch_rows E now q cats req job r w = (res, job', r', w')" "res \<noteq> Panic"
  shows "\<exists>t err. rnErrors r' = noteError now t err (rnErrors r) \<and> noted res err"
  using assms unfolding fetch_rows_def noted_def
  by (auto split: res.splits prod.splits scrape_rows.splits option.splits) blast

lemma createRequest_error:
  "fst (createRequest E def q cats job session w) = Err e \<Longrightarrow> e \<in> {TemplateError, TargetURLError, RawInputError}"
proof -
  have i: "inputs_loop E td ins vals = Err e \<Longrightarrow> e \<in> {TemplateError, TargetURLError, RawInputError}" for td ins vals
    by (induction ins arbitrary: vals) (auto simp: Let_def split: option.splits if_splits)
  have m: "map_res f x = Err e \<longleftrightarrow> x = Err e" for f :: "'x \<Rightarrow> 'y" and x :: "(search_error, 'x) res"
    by (cases x) auto
  assume "fst (createRequest E def q cats job session w) = Err e"
  then show ?thesis
    using i by (auto simp: createRequest_def getURLValuesForSearch_def Let_def m split: option.splits prod.splits)
qed

lemma runner_search_reports:
  assumes "runner_search E all_cats now q job r w = (res, job', r', w')" "res \<noteq> Panic"
  shows "\<exists>t err. rnErrors r' = noteError now t err (rnErrors r) \<and> noted res err"
proof -
  obtain x m w1 where a: "acquire (reSession E) (rnSessions r) w = (x, m, w1)" by (metis prod_cases3)
  let ?r1 = "r\<lparr>rnSessions := m\<rparr>"
  show ?thesis
  proof (cases x)
    case Panic
    with a assms show ?thesis by (simp add: runner_search_def)
  next
    case (Err e)
    with a assms have "rnErrors r' = noteError now ''login'' (Some (reErrorText E (SessionError e))) (rnErrors r)"
      "res = Err (SessionError e)" by (auto simp: runner_search_def)
    then show ?thesis by (auto simp: noted_def)
  next
    case (Ok session)
    let ?cats = "getLocalCategoriesMatchingQuery all_cats (qCategories q)
       (categoryMap (defCapabilities (rnDefinition r)))"
    obtain y w2 where c: "createRequest E (rnDefinition r) q ?cats job session w1 = (y, w2)" by fastforce
    show ?thesis
    proof (cases y)
      case Panic
      with c createRequest_total show ?thesis by (metis fst_conv)
    next
      case (Err e)
      with a Ok c assms have "rnErrors r' = noteError now ''bad-target'' (Some (reErrorText E e)) (rnErrors r)"
        "res = Err e" by (auto simp: runner_search_def)
      moreover have "e \<in> {TemplateError, TargetURLError, RawInputError}"
        using createRequest_error c Err by (metis fst_conv)
      ultimately show ?thesis by (auto simp: noted_def) blast+
    next
      case (Ok req)
      with a \<open>x = Ok session\<close> c assms(1) have
        "fetch_rows E now q ?cats req job ?r1 w2 = (res, job', r', w')"
        by (simp add: runner_search_def)
      from fetch_rows_reports [OF this assms(2)] show ?thesis by simp
    qed
  qed
qed

text \<open>A history of searches of one index: when each was made and what it gave.\<close>

inductive searched ::
    "('e, 'd, 'j, 'w) runner_env \<Rightarrow> categories \<Rightarrow> runner \<Rightarrow>
     (int \<times> (search_error, result_item list) res) list \<Rightarrow> runner \<Rightarrow> bool"
  for E :: "('e, 'd, 'j, 'w) runner_env" and all_cats :: categories and r :: runner where
  searched_none: "searched E all_cats r [] r"
| searched_more: "searched E all_cats r hist r1 \<Longrightarrow>
     runner_search E all_cats now q job r1 w = (res, job', r2, w') \<Longrightarrow> res \<noteq> Panic \<Longrightarrow>
     searched E all_cats r (hist @ [(now, res)]) r2"

lemma searched_reports:
  "searched E all_cats r hist r' \<Longrightarrow>
   \<exists>es. length es = length hist \<and> rnErrors r' = report_all es (rnErrors r) \<and>
     (\<forall>k<length hist. fst (es ! k) = fst (hist ! k) \<and> noted (snd (hist ! k)) (rptError (snd (es ! k))))"
proof (induction rule: searched.induct)
  case searched_none
  then show ?case by (simp add: report_all_def)
next
  case (searched_more hist r1 now q job w res job' r2 w')
  then obtain es where es: "length es = length hist" "rnErrors r1 = report_all es (rnErrors r)"
    "\<forall>k<length hist. fst (es ! k) = fst (hist ! k) \<and> noted (snd (hist ! k)) (rptError (snd (es ! k)))"
    by blast
  from runner_search_reports [OF searched_more.hyps(2,3)] obtain t err where
    n: "rnErrors r2 = noteError now t err (rnErrors r1)" "noted res err" by blast
  let ?es = "es @ [(now, \<lparr>rptType = t, rptError = err\<rparr>)]"
  have "rnErrors r2 = report_all ?es (rnErrors r)"
    using n(1) es(2) by (simp add: noteError_def newError_def report_all_def)
  moreover have "fst (?es ! k) = fst ((hist @ [(now, res)]) ! k) \<and>
      noted (snd ((hist @ [(now, res)]) ! k)) (rptError (snd (?es ! k)))"
    if "k < length (hist @ [(now, res)])" for k
    using that es(1,3) n(2) by (auto simp: nth_append less_Suc_eq)
  ultimately show ?case using es(1) by (intro exI [of _ ?es]) simp
qed


definition sample_runner_env :: "(unit, unit, unit, nat) runner_env" where
  "sample_runner_env = \<lparr>reSession = sample_session_env, reExtract = sample_extract,
     reTemplate = (\<lambda>s td. Some s), reParseQuery = (\<lambda>s. None),
     reFetch = (\<lambda>req w. (Ok (JSONFetchResult ''application/json'' ''utf8'' 200 []), w)),
     reJar = (\<lambda>i w. ()), reReferer = (\<lambda>i w. None), reDecode = (\<lambda>b. Some [([], JArr [])]),
     reJsonPath = sample_path, reSlice = (\<lambda>a b e d. None), reAppend = (\<lambda>a b d. d),
     reErrorText = (\<lambda>e. ''error''), reFilter = (\<lambda>s e d. e)\<rparr>"

definition sample_runner :: runner where
  "sample_runner = \<lparr>rnDefinition = sample_definition [] [], rnFailing = [], rnErrors = projr newErrorCache,
     rnSessions = \<lparr>muxSessions = [], muxIndex = 0\<rparr>, rnLastVerified = 0\<rparr>"


subsection \<open>The ratio and the health of an index\<close>

lemma ratio_of_page_panics:
  assumes "selTextVal (defRatio (rnDefinition r)) = []" "defRatioPath (rnDefinition r) \<noteq> []"
    and "fst (runner_ratio E r w) = Ok ratio"
  shows "ratio = ''error''"
  using assms
  by (auto simp: runner_ratio_def Let_def split: res.splits prod.splits option.splits fetch_result.splits if_splits)

lemma health_is_remembered:
  assumes "healthCheck E all_cats now r w = (Ok (), r', w')" "later - now < indexVerificationSpan"
    and "indexVerificationSpan \<le> now - rnLastVerified r"
  shows "healthCheck E all_cats later r' v = (Ok (), r', v)"
  using assms by (auto simp: healthCheck_def split: res.splits prod.splits if_splits)

end
