(* ===== verification/IndexLoaders.thy ===== *)
theory IndexLoaders
  imports RowFacts Sessions
begin

text \<open>
  Where the definitions of indexes come from: the selectors of \<open>indexer/indexSelection.go\<close>, the parsing
  of a definition (\<open>indexer/indexDefinitionParsing.go\<close>), the loader of files (\<open>indexer/fsLoader.go\<close>), of
  the definitions in the program (\<open>indexer/assetLoader.go\<close>) and their combination
  (\<open>indexer/multipleDefsLoader.go\<close>, \<open>indexer/load.go\<close>). YAML, the assets, the decompression and the file
  system are parameters, one value of \<open>load_env\<close> during a call.
\<close>

subsection \<open>Selectors\<close>

record index_selector =
  ixSelector :: string
  ixParts :: "string list"

definition newIndexSelector :: "string \<Rightarrow> index_selector" where
  "newIndexSelector s = \<lparr>ixSelector = s, ixParts = map trim_space (go_split s '','')\<rparr>"

definition indexSelectorAggregate :: string where
  "indexSelectorAggregate = ''aggregate''"

definition indexSelectorAll :: string where
  "indexSelectorAll = ''all''"

definition isAggregate :: "index_selector \<Rightarrow> bool" where
  "isAggregate s \<longleftrightarrow> ixSelector s = [] \<or> ixSelector s = indexSelectorAggregate \<or>
     ixSelector s = indexSelectorAll \<or> str_contains (ixSelector s) '',''"

definition shouldLoadAllIndexes :: "index_selector \<Rightarrow> bool" where
  "shouldLoadAllIndexes s \<longleftrightarrow> isAggregate s \<and> length (go_split (ixSelector s) '','') = 1"

definition list_contains :: "string list \<Rightarrow> string \<Rightarrow> bool" where
  "list_contains s e \<longleftrightarrow> e \<in> set s"

definition selector_matches :: "index_selector \<Rightarrow> string \<Rightarrow> bool" where
  "selector_matches s name =
     (if ixSelector s = [] \<or> ixSelector s = indexSelectorAll then True
      else if ixSelector s = indexSelectorAggregate then False
      else list_contains (ixParts s) name)"

text \<open>A selector that is nil selects everything.\<close>

definition selected :: "index_selector option \<Rightarrow> string \<Rightarrow> bool" where
  "selected sel name = (case sel of None \<Rightarrow> True | Some s \<Rightarrow> selector_matches s name)"

subsection \<open>Parsing a definition\<close>

record settings_field =
  sfName :: string
  sfType :: string
  sfLabel :: string

record definition_stats =
  stSize :: nat
  stModTime :: int
  stHash :: string
  stSource :: string

record loaded_definition =
  ldDefinition :: index_definition
  ldLogin :: login_block
  ldSettings :: "settings_field list"
  ldRateLimit :: int
  ldStats :: definition_stats

definition defaultSettingsFields :: "settings_field list" where
  "defaultSettingsFields =
     [\<lparr>sfName = ''username'', sfType = ''text'', sfLabel = ''Username''\<rparr>,
      \<lparr>sfName = ''password'', sfType = ''password'', sfLabel = ''Password''\<rparr>]"

definition defaultRateLimit :: int where
  "defaultRateLimit = 500"

text \<open>\<open>leYaml\<close> gives what the text says over the defaults of the code: the definition, its login, the settings
and the rate limit. \<open>leDir\<close> is \<open>None\<close> where a directory can not be listed, \<open>leFile\<close> where a file can not be
opened or read; a file comes with its modification time.\<close>

record load_env =
  leYaml :: "string \<Rightarrow> (index_definition \<times> login_block \<times> settings_field list \<times> int) option"
  leSha1 :: "string \<Rightarrow> string"
  leDirectories :: "string list"
  leDir :: "string \<Rightarrow> string list option"
  leFile :: "string \<Rightarrow> (string \<times> int) option"
  leAssetNames :: "string list"
  leAsset :: "string \<Rightarrow> string option"
  leUnzip :: "string \<Rightarrow> string option"

definition parseDefinition :: "load_env \<Rightarrow> int \<Rightarrow> string \<Rightarrow> (string, loaded_definition) res" where
  "parseDefinition E now src =
     (case leYaml E src of
        None \<Rightarrow> Err ''invalid YAML''
      | Some (def, lg, settings, limit) \<Rightarrow> Ok
          \<lparr>ldDefinition = def, ldLogin = lg,
           ldSettings = (if settings = [] then defaultSettingsFields else settings),
           ldRateLimit = (if limit = 0 then defaultRateLimit else limit),
           ldStats = \<lparr>stSize = length src, stModTime = now, stHash = leSha1 E src, stSource = []\<rparr>\<rparr>)"

definition with_modTime :: "int \<Rightarrow> loaded_definition \<Rightarrow> loaded_definition" where
  "with_modTime t d = d\<lparr>ldStats := (ldStats d)\<lparr>stModTime := t\<rparr>\<rparr>"

definition with_source :: "string \<Rightarrow> loaded_definition \<Rightarrow> loaded_definition" where
  "with_source s d = d\<lparr>ldStats := (ldStats d)\<lparr>stSource := s\<rparr>\<rparr>"

definition parseDefinitionFile :: "load_env \<Rightarrow> int \<Rightarrow> string \<Rightarrow> (string, loaded_definition) res" where
  "parseDefinitionFile E now path =
     (case leFile E path of
        None \<Rightarrow> Err ''cannot read the file''
      | Some (src, modTime) \<Rightarrow> map_res (with_modTime modTime) (parseDefinition E now src))"

subsection \<open>Paths: the package path\<close>

definition path_step :: "bool \<Rightarrow> string \<Rightarrow> string list \<Rightarrow> string list" where
  "path_step rooted c out =
     (if c = [] \<or> c = ''.'' then out
      else if c = ''..'' then
        (if out \<noteq> [] \<and> hd out \<noteq> ''..'' then tl out else if rooted then out else c # out)
      else c # out)"

definition path_clean :: "string \<Rightarrow> string" where
  "path_clean s =
     (if s = [] then ''.''
      else let rooted = (hd s = CHR ''/'');
               r = join ''/'' (rev (fold (path_step rooted) (go_split s ''/'') []))
           in if rooted then CHR ''/'' # r else if r = [] then ''.'' else r)"

definition path_join :: "string \<Rightarrow> string \<Rightarrow> string" where
  "path_join a b =
     (case filter (\<lambda>e. e \<noteq> []) [a, b] of [] \<Rightarrow> [] | es \<Rightarrow> path_clean (join ''/'' es))"

definition path_base :: "string \<Rightarrow> string" where
  "path_base s =
     (let t = trim_right s ''/'';
          b = rev (takeWhile (\<lambda>c. c \<noteq> CHR ''/'') (rev t))
      in if s = [] then ''.'' else if b = [] then ''/'' else b)"

subsection \<open>The loader of files\<close>

definition index_of_file :: "string \<Rightarrow> string option" where
  "index_of_file basename =
     (if has_suffix basename ''.yml'' \<or> has_suffix basename ''.yaml''
      then Some (trim_suffix (trim_suffix basename ''.yml'') ''.yaml'') else None)"

definition walk_file :: "string \<Rightarrow> string \<Rightarrow> (string \<times> string) list \<Rightarrow> (string \<times> string) list" where
  "walk_file dir basename defs =
     (case index_of_file basename of
        None \<Rightarrow> defs | Some ix \<Rightarrow> AList.update ix (path_clean (path_join dir basename)) defs)"

definition walk_directory :: "load_env \<Rightarrow> string \<Rightarrow> (string \<times> string) list \<Rightarrow> (string \<times> string) list" where
  "walk_directory E dir defs =
     (case leDir E dir of None \<Rightarrow> defs | Some files \<Rightarrow> fold (walk_file dir) files defs)"

definition walkDirectories :: "load_env \<Rightarrow> (string \<times> string) list" where
  "walkDirectories E = fold (walk_directory E) (leDirectories E) []"

definition fs_list :: "load_env \<Rightarrow> index_selector option \<Rightarrow> (string, string list) res" where
  "fs_list E sel = Ok (filter (selected sel) (map fst (walkDirectories E)))"

definition fs_listWithNames :: "load_env \<Rightarrow> string list \<Rightarrow> (string, string list) res" where
  "fs_listWithNames E names = Ok (filter (list_contains names) (map fst (walkDirectories E)))"

definition unknown_index :: string where
  "unknown_index = ''unknown indexer''"

definition fs_load :: "load_env \<Rightarrow> int \<Rightarrow> string \<Rightarrow> (string, loaded_definition) res" where
  "fs_load E now key =
     (case map_of (walkDirectories E) key of
        None \<Rightarrow> Err unknown_index
      | Some file \<Rightarrow> map_res (with_source (''file:'' @ file)) (parseDefinitionFile E now file))"

subsection \<open>The definitions in the program\<close>

definition asset_index :: "string \<Rightarrow> string" where
  "asset_index name = replace_all (replace_all (path_base name) ''.yml'' []) ''.yaml'' []"

definition asset_list :: "load_env \<Rightarrow> index_selector option \<Rightarrow> (string, string list) res" where
  "asset_list E sel = Ok (filter (selected sel) (map asset_index (leAssetNames E)))"

definition asset_listWithNames :: "load_env \<Rightarrow> string list \<Rightarrow> (string, string list) res" where
  "asset_listWithNames E names = Ok (map asset_index (filter (list_contains names) (leAssetNames E)))"

text \<open>The error of the decompression is ignored: the definition is then read from nothing.\<close>

definition asset_resolver :: "load_env \<Rightarrow> string \<Rightarrow> string option" where
  "asset_resolver E key =
     (let unzipped = (\<lambda>data. case leUnzip E data of None \<Rightarrow> [] | Some d \<Rightarrow> d)
      in case leAsset E (''definitions/'' @ key @ ''.yml'') of
           Some data \<Rightarrow> Some (unzipped data)
         | None \<Rightarrow> map_option unzipped (leAsset E (''definitions/'' @ key @ ''.yaml'')))"

definition asset_load :: "load_env \<Rightarrow> int \<Rightarrow> string \<Rightarrow> (string, loaded_definition) res" where
  "asset_load E now key =
     (case asset_resolver E key of
        None \<Rightarrow> Err ''asset not found''
      | Some data \<Rightarrow> map_res (with_source (''asset:'' @ key)) (parseDefinition E now data))"

subsection \<open>Several loaders\<close>

record def_loader =
  ldrList :: "index_selector option \<Rightarrow> (string, string list) res"
  ldrLoad :: "string \<Rightarrow> (string, loaded_definition) res"

fun multi_names ::
    "def_loader option list \<Rightarrow> index_selector option \<Rightarrow> string list \<Rightarrow> (string, string list) res" where
  "multi_names [] sel acc = Ok acc"
| "multi_names (None # ls) sel acc = Panic"
| "multi_names (Some l # ls) sel acc =
     bind_res (ldrList l sel) (\<lambda>names. multi_names ls sel (acc @ names))"

definition multi_list :: "def_loader option list \<Rightarrow> index_selector option \<Rightarrow> (string, string list) res" where
  "multi_list ls sel = map_res (\<lambda>names. sort (remdups names)) (multi_names ls sel [])"

definition newer :: "loaded_definition option \<Rightarrow> loaded_definition \<Rightarrow> bool" where
  "newer def l = (case def of None \<Rightarrow> True | Some d \<Rightarrow> stModTime (ldStats l) > stModTime (ldStats d))"

fun multi_load_loop ::
    "string \<Rightarrow> def_loader option list \<Rightarrow> loaded_definition option \<Rightarrow>
     (string, loaded_definition option) res" where
  "multi_load_loop key [] def = Ok def"
| "multi_load_loop key (None # ls) def = multi_load_loop key ls def"
| "multi_load_loop key (Some l # ls) def =
     (case ldrLoad l key of
        Panic \<Rightarrow> Panic
      | Err _ \<Rightarrow> multi_load_loop key ls def
      | Ok d \<Rightarrow> multi_load_loop key ls (if newer def d then Some d else def))"

definition multi_load :: "def_loader option list \<Rightarrow> string \<Rightarrow> (string, loaded_definition) res" where
  "multi_load ls key =
     bind_res (multi_load_loop key ls None)
       (\<lambda>def. case def of None \<Rightarrow> Err unknown_index | Some d \<Rightarrow> Ok d)"

definition fs_loader :: "load_env \<Rightarrow> int \<Rightarrow> def_loader" where
  "fs_loader E now = \<lparr>ldrList = fs_list E, ldrLoad = fs_load E now\<rparr>"

definition asset_loader :: "load_env \<Rightarrow> int \<Rightarrow> def_loader" where
  "asset_loader E now = \<lparr>ldrList = asset_list E, ldrLoad = asset_load E now\<rparr>"

definition defaultMultiLoader :: "load_env \<Rightarrow> int \<Rightarrow> def_loader option list" where
  "defaultMultiLoader E now = [Some (fs_loader E now), Some (asset_loader E now)]"

text \<open>\<open>LoadEnabledDefinitions\<close>: \<open>section\<close> tells what the configuration holds under the name of an index.\<close>

fun load_enabled_loop ::
    "(string \<Rightarrow> bool) \<Rightarrow> (string \<Rightarrow> (string, loaded_definition) res) \<Rightarrow> string list \<Rightarrow>
     loaded_definition list \<Rightarrow> (string, loaded_definition list) res" where
  "load_enabled_loop present load [] defs = Ok defs"
| "load_enabled_loop present load (key # keys) defs =
     (if present key then bind_res (load key) (\<lambda>d. load_enabled_loop present load keys (defs @ [d]))
      else load_enabled_loop present load keys defs)"

definition loadEnabledDefinitions ::
    "(string \<Rightarrow> bool) \<Rightarrow> load_env \<Rightarrow> int \<Rightarrow> (string, loaded_definition list) res" where
  "loadEnabledDefinitions present E now =
     bind_res (multi_list (defaultMultiLoader E now) None)
       (\<lambda>keys. load_enabled_loop present (multi_load (defaultMultiLoader E now)) keys [])"

subsection \<open>What every loader promises about selectors\<close>

text \<open>With a selector a loader lists those of its indexes that the selector matches.\<close>

locale definition_loader =
  fixes lister :: "index_selector option \<Rightarrow> (string, string list) res"
  assumes selects: "lister (Some s) = map_res (filter (selector_matches s)) (lister None)"
begin

lemma listed_matches: "lister (Some s) = Ok ns \<Longrightarrow> x \<in> set ns \<Longrightarrow> selector_matches s x"
  by (cases "lister None") (auto simp: selects)

lemma aggregate_lists_nothing:
  "lister None = Ok ns \<Longrightarrow> lister (Some (newIndexSelector indexSelectorAggregate)) = Ok []"
  by (simp add: selects selector_matches_def newIndexSelector_def indexSelectorAggregate_def indexSelectorAll_def)

lemma all_lists_everything:
  "lister None = Ok ns \<Longrightarrow> lister (Some (newIndexSelector indexSelectorAll)) = Ok ns"
  by (simp add: selects selector_matches_def newIndexSelector_def)

end

lemma selected_simps [simp]: "selected None = (\<lambda>_. True)" "selected (Some s) = selector_matches s"
  by (simp_all add: selected_def fun_eq_iff)

interpretation files: definition_loader "fs_list E" for E :: load_env
  by unfold_locales (simp add: fs_list_def)

interpretation assets: definition_loader "asset_list E" for E :: load_env
  by unfold_locales (simp add: asset_list_def)

lemma map_res_map_res: "map_res f (map_res g r) = map_res (\<lambda>x. f (g x)) r"
  by (cases r) auto

lemma multi_names_selects:
  assumes "\<forall>l. Some l \<in> set ls \<longrightarrow> definition_loader (ldrList l)"
  shows "multi_names ls (Some s) (filter (selector_matches s) acc) =
    map_res (filter (selector_matches s)) (multi_names ls None acc)"
  using assms
proof (induction ls arbitrary: acc)
  case Nil
  then show ?case by simp
next
  case (Cons l ls)
  show ?case
  proof (cases l)
    case None
    then show ?thesis by simp
  next
    case (Some a)
    then have "definition_loader (ldrList a)" using Cons.prems by simp
    note a = definition_loader.selects [OF this]
    show ?thesis
    proof (cases "ldrList a None")
      case (Ok names)
      then show ?thesis using Cons.IH [of "acc @ names"] Cons.prems Some by (simp add: a)
    qed (simp_all add: Some a)
  qed
qed

lemma multi_list_loader:
  assumes "\<forall>l. Some l \<in> set ls \<longrightarrow> definition_loader (ldrList l)"
  shows "definition_loader (multi_list ls)"
proof
  fix s
  have "filter P (sort (remdups xs)) = sort (remdups (filter P xs))" for P and xs :: "string list"
    by (simp add: filter_sort remdups_filter)
  then show "multi_list ls (Some s) = map_res (filter (selector_matches s)) (multi_list ls None)"
    using multi_names_selects [OF assms, of s "[]"] by (simp add: multi_list_def map_res_map_res)
qed

interpretation built_in: definition_loader "multi_list (defaultMultiLoader E now)" for E :: load_env and now :: int
  by (rule multi_list_loader)
    (auto simp: defaultMultiLoader_def fs_loader_def asset_loader_def files.definition_loader_axioms
      assets.definition_loader_axioms)

subsection \<open>The indexes that are available\<close>

lemma walk_files_keys:
  "fst ` set (fold (walk_file dir) files defs) =
     fst ` set defs \<union> {x. Some x \<in> index_of_file ` set files}"
proof (induction files arbitrary: defs)
  case Nil
  then show ?case by simp
next
  case (Cons f files)
  have "fst ` set (walk_file dir f defs) = fst ` set defs \<union> {x. Some x = index_of_file f}"
    by (auto simp: walk_file_def dom_update split: option.splits)
  with Cons.IH [of "walk_file dir f defs"] show ?case by auto
qed

definition files_of :: "load_env \<Rightarrow> string set" where
  "files_of E = {x. \<exists>dir files. dir \<in> set (leDirectories E) \<and> leDir E dir = Some files \<and>
     Some x \<in> index_of_file ` set files}"

lemma walk_directories_keys:
  "fst ` set (fold (walk_directory E) dirs defs) = fst ` set defs \<union>
     {x. \<exists>dir files. dir \<in> set dirs \<and> leDir E dir = Some files \<and> Some x \<in> index_of_file ` set files}"
proof (induction dirs arbitrary: defs)
  case Nil
  then show ?case by simp
next
  case (Cons d dirs)
  have "fst ` set (walk_directory E d defs) =
      fst ` set defs \<union> {x. \<exists>files. leDir E d = Some files \<and> Some x \<in> index_of_file ` set files}"
    by (cases "leDir E d") (simp_all add: walk_directory_def walk_files_keys)
  with Cons.IH [of "walk_directory E d defs"] show ?case by auto
qed

lemma walkDirectories_keys: "fst ` set (walkDirectories E) = files_of E"
  by (simp add: walkDirectories_def walk_directories_keys files_of_def)

text \<open>The indexes that can be used are listed without repetition, in order: the names of the files in
  the directories of definitions that end in \<open>.yml\<close> or \<open>.yaml\<close> and of the definitions in the program, as
  far as the selector matches them. Directories that can not be read are passed over.\<close>

theorem available_indexes:
  "\<exists>ns. multi_list (defaultMultiLoader E now) sel = Ok ns \<and> sorted ns \<and> distinct ns \<and>
     set ns = {x \<in> files_of E \<union> asset_index ` set (leAssetNames E). selected sel x}"
proof -
  have "set (filter (selected sel) (map fst (walkDirectories E))) = {x \<in> files_of E. selected sel x}"
    by (simp only: set_filter set_map walkDirectories_keys)
  then show ?thesis
    by (auto simp: multi_list_def defaultMultiLoader_def fs_loader_def asset_loader_def fs_list_def asset_list_def)
qed

subsection \<open>Which definition is loaded\<close>

lemma multi_load_loop_newest:
  assumes "multi_load_loop key (map Some ls) def = Ok r"
  shows "(r = None \<longrightarrow> def = None \<and> (\<forall>l\<in>set ls. \<exists>e. ldrLoad l key = Err e))
    \<and> (\<forall>d. r = Some d \<longrightarrow> (def = Some d \<or> (\<exists>l\<in>set ls. ldrLoad l key = Ok d))
        \<and> (\<forall>l\<in>set ls. \<forall>d'. ldrLoad l key = Ok d' \<longrightarrow> stModTime (ldStats d') \<le> stModTime (ldStats d))
        \<and> (\<forall>d'. def = Some d' \<longrightarrow> stModTime (ldStats d') \<le> stModTime (ldStats d)))"
  using assms
proof (induction ls arbitrary: def)
  case Nil
  then show ?case by auto
next
  case (Cons l ls)
  show ?case
  proof (cases "ldrLoad l key")
    case Panic
    with Cons.prems show ?thesis by simp
  next
    case (Err e)
    with Cons.IH [of "def"] Cons.prems show ?thesis by auto
  next
    case (Ok d)
    let ?def = "if newer def d then Some d else def"
    from Cons.prems Ok have "multi_load_loop key (map Some ls) ?def = Ok r" by simp
    from Cons.IH [OF this] Ok show ?thesis
      by (cases "newer def d") (force simp: newer_def split: option.splits)+
  qed
qed

text \<open>Of the definitions the loaders have for a key the one with the latest modification time is
  loaded, and the key is unknown exactly when no loader can load it.\<close>

theorem newest_definition_is_loaded:
  assumes "\<forall>l\<in>set ls. ldrLoad l key \<noteq> Panic"
  shows "(\<exists>d. multi_load (map Some ls) key = Ok d \<and> (\<exists>l\<in>set ls. ldrLoad l key = Ok d)
        \<and> (\<forall>l\<in>set ls. \<forall>d'. ldrLoad l key = Ok d' \<longrightarrow> stModTime (ldStats d') \<le> stModTime (ldStats d)))
    \<or> (multi_load (map Some ls) key = Err unknown_index \<and> (\<forall>l\<in>set ls. \<exists>e. ldrLoad l key = Err e))"
proof -
  have "\<exists>r. multi_load_loop key (map Some ls) def = Ok r" for "def"
    using assms by (induction ls arbitrary: "def") (auto split: res.splits)
  then obtain r where r: "multi_load_loop key (map Some ls) None = Ok r" by blast
  from multi_load_loop_newest [OF this] show ?thesis
    by (cases r) (auto simp: multi_load_def r)
qed

definition sample_login :: login_block where
  "sample_login = \<lparr>loginPath = [], formSelector = ''form'', loginMethod = [], loginInputs = [],
     loginErrors = [], loginTest = \<lparr>ptPath = [], ptSelector = []\<rparr>, initPath = []\<rparr>"

definition sample_load_env :: load_env where
  "sample_load_env = \<lparr>leYaml = (\<lambda>s. Some (sample_definition s [], sample_login, [], 0)), leSha1 = (\<lambda>s. []),
     leDirectories = [''/none'', ''/defs''],
     leDir = (\<lambda>d. if d = ''/defs'' then Some [''a.yml'', ''b.yaml'', ''notes''] else None),
     leFile = (\<lambda>p. if p = ''/defs/a.yml'' then Some (''mine'', 5) else None),
     leAssetNames = [''definitions/a.yml'', ''definitions/c.yml''],
     leAsset = (\<lambda>n. if n = ''definitions/a.yml'' then Some ''theirs'' else None), leUnzip = Some\<rparr>"

lemma sample_load:
  "map_res (\<lambda>d. (stModTime (ldStats d), stSource (ldStats d))) (fs_load sample_load_env 9 ''a'') = Ok (5, ''file:/defs/a.yml'')"
  "map_res (\<lambda>d. (stModTime (ldStats d), stSource (ldStats d))) (asset_load sample_load_env 9 ''a'') = Ok (9, ''asset:a'')"
  by code_simp+

theorem newest_definition_is_loaded_witness:
  "\<exists>d. multi_load (map Some [fs_loader sample_load_env 9, asset_loader sample_load_env 9]) ''a'' = Ok d \<and>
     9 \<le> stModTime (ldStats d)"
proof -
  let ?ls = "[fs_loader sample_load_env 9, asset_loader sample_load_env 9]"
  obtain f d where fd: "fs_load sample_load_env 9 ''a'' = Ok f"
    "asset_load sample_load_env 9 ''a'' = Ok d" "stModTime (ldStats d) = 9"
    using sample_load by (auto elim!: map_res.elims)
  then have "\<forall>l\<in>set ?ls. ldrLoad l ''a'' \<noteq> Panic"
    by (simp add: fs_loader_def asset_loader_def)
  from newest_definition_is_loaded [OF this] show ?thesis
    using fd by (auto simp: fs_loader_def asset_loader_def)
qed

text \<open>A definition in the program gets the time it is parsed as its modification time, so it is newer than
the file of the user.\<close>

text \<open>C27: A file with the definition of an index never replaces the definition in the program: that one is
  loaded whenever it can be parsed and the file was not modified in the future.\<close>

theorem definition_file_never_replaces_asset:
  assumes "asset_resolver E key = Some src" "leYaml E src = Some (def, lg, settings, limit)"
    and "\<And>path body t. map_of (walkDirectories E) key = Some path \<Longrightarrow> leFile E path = Some (body, t) \<Longrightarrow> t < now"
  shows "\<exists>d. multi_load (defaultMultiLoader E now) key = Ok d \<and> ldDefinition d = def
    \<and> stSource (ldStats d) = ''asset:'' @ key"
proof -
  obtain d where d: "asset_load E now key = Ok d" "ldDefinition d = def"
    "stSource (ldStats d) = ''asset:'' @ key" "stModTime (ldStats d) = now"
    using assms(1,2) by (simp add: asset_load_def parseDefinition_def with_source_def)
  have "newer (Some f) d" if "fs_load E now key = Ok f" for f
    using that assms(3) d(4)
    by (auto simp: newer_def fs_load_def parseDefinitionFile_def parseDefinition_def with_source_def with_modTime_def
      split: option.splits)
  moreover have "fs_load E now key \<noteq> Panic"
    by (auto simp: fs_load_def parseDefinitionFile_def parseDefinition_def split: option.splits)
  moreover have "newer None d" for d by (simp add: newer_def)
  ultimately show ?thesis
    using d(1-3)
    by (auto simp: multi_load_def defaultMultiLoader_def fs_loader_def asset_loader_def split: res.splits)
qed

theorem definition_file_never_replaces_asset_witness:
  "\<exists>d. multi_load (defaultMultiLoader sample_load_env 9) ''a'' = Ok d \<and>
     stSource (ldStats d) = ''asset:a'' \<and> map_of (walkDirectories sample_load_env) ''a'' = Some ''/defs/a.yml''"
proof -
  have s: "asset_resolver sample_load_env ''a'' = Some ''theirs''"
    "map_of (walkDirectories sample_load_env) ''a'' = Some ''/defs/a.yml''" by code_simp+
  have y: "leYaml sample_load_env ''theirs'' = Some (sample_definition ''theirs'' [], sample_login, [], 0)"
    by (simp add: sample_load_env_def)
  have f: "t < 9" if "map_of (walkDirectories sample_load_env) ''a'' = Some path"
    "leFile sample_load_env path = Some (body, t)" for path body and t :: int
    using that s(2) by (auto simp: sample_load_env_def)
  have "\<exists>d. multi_load (defaultMultiLoader sample_load_env 9) ''a'' = Ok d \<and>
      ldDefinition d = sample_definition ''theirs'' [] \<and> stSource (ldStats d) = ''asset:'' @ ''a''"
    by (rule definition_file_never_replaces_asset [OF s(1) y]) (use f in blast)
  with s(2) show ?thesis by auto
qed

end
