(* ===== verification/IndexScope.thy ===== *)
theory IndexScope
  imports IndexLoaders Runner
begin

text \<open>
  The indexes a program has open: the scope of \<open>indexer/indexesCollection.go\<close> (\<open>indexMap\<close>), which
  creates the index of a name when it is first asked for and keeps it, the collections of indexes it
  gives, \<open>NewRunner\<close> of \<open>indexer/runner.go\<close>, \<open>ResolveIndexID\<close> of \<open>indexer/indexSelection.go\<close> and
  the aggregate of \<open>indexer/aggregate.go\<close>. An \<open>*Runner\<close> is its position in the list of the runners, so
  that a runner that is in several collections is one object. \<open>Lookup\<close> and \<open>LookupAll\<close> call each other:
  the number they are given bounds the depth of these calls, and \<open>None\<close> says that it is exceeded.
\<close>

subsection \<open>The scope\<close>

text \<open>\<open>scList\<close> and \<open>scLoad\<close> are the loader; a list of names that is nil is \<open>None\<close>. \<open>scSite\<close> is the
configuration of a site.\<close>

record scope_env =
  scList :: "index_selector option \<Rightarrow> (string, string list option) res"
  scLoad :: "string \<Rightarrow> (string, loaded_definition) res"
  scSite :: "string \<Rightarrow> string + (string \<times> string) list option"
  scUsers :: int

record scope =
  scIndexes :: "(string \<times> nat list) list"
  scRunners :: "runner list"

definition newScope :: scope where
  "newScope = \<lparr>scIndexes = [], scRunners = []\<rparr>"

definition userSessions :: "scope_env \<Rightarrow> nat" where
  "userSessions E = (if scUsers E \<le> 0 then 1 else nat (scUsers E))"

definition new_index_session :: "scope_env \<Rightarrow> loaded_definition \<Rightarrow> session_error + session" where
  "new_index_session E d =
     (case scSite E (defName (ldDefinition d)) of
        Inl e \<Rightarrow> Inl (FetchFailed e)
      | Inr site \<Rightarrow> Inr (newSession (case site of None \<Rightarrow> [] | Some kvs \<Rightarrow> kvs) (ldLogin d)))"

text \<open>\<open>Panic\<close>: the sessions can not be created, and the program exits.\<close>

definition newRunner :: "scope_env \<Rightarrow> loaded_definition \<Rightarrow> runner option" where
  "newRunner E d =
     (case (newErrorCache, newSessionMultiplexer (replicate (userSessions E) (new_index_session E d))) of
        (Inr errs, Inr mux) \<Rightarrow> Some \<lparr>rnDefinition = ldDefinition d, rnFailing = [], rnErrors = errs,
          rnSessions = mux, rnLastVerified = 0\<rparr>
      | _ \<Rightarrow> None)"

definition newIndexRunner :: "scope_env \<Rightarrow> string \<Rightarrow> scope \<Rightarrow> (string, nat list) res \<times> scope" where
  "newIndexRunner E name s =
     (case scLoad E name of
        Panic \<Rightarrow> (Panic, s)
      | Err e \<Rightarrow> (Err e, s)
      | Ok d \<Rightarrow>
          (case newRunner E d of
             None \<Rightarrow> (Panic, s)
           | Some r \<Rightarrow> (Ok [length (scRunners s)], s\<lparr>scRunners := scRunners s @ [r]\<rparr>)))"

definition is_configured :: "scope_env \<Rightarrow> string \<Rightarrow> bool" where
  "is_configured E key \<longleftrightarrow> (case scSite E key of Inr (Some _) \<Rightarrow> True | _ \<Rightarrow> False)"

type_synonym looked_up = "((string, nat list) res \<times> scope) option"

text \<open>The loop of \<open>LookupAll\<close>, over a \<open>Lookup\<close>.\<close>

fun lookup_keys ::
    "(string \<Rightarrow> scope \<Rightarrow> looked_up) \<Rightarrow> scope_env \<Rightarrow> string list \<Rightarrow> nat list \<Rightarrow> scope \<Rightarrow> looked_up" where
  "lookup_keys look E [] acc s = Some (Ok acc, s)"
| "lookup_keys look E (key # keys) acc s =
     (if is_configured E key
      then (case look key s of
              None \<Rightarrow> None
            | Some (Ok c, s') \<Rightarrow> lookup_keys look E keys (acc @ c) s'
            | Some (failed, s') \<Rightarrow> Some (failed, s'))
      else lookup_keys look E keys acc s)"

definition lookupAll ::
    "(string \<Rightarrow> scope \<Rightarrow> looked_up) \<Rightarrow> scope_env \<Rightarrow> index_selector option \<Rightarrow> scope \<Rightarrow> looked_up" where
  "lookupAll look E sel s =
     (case scList E sel of
        Panic \<Rightarrow> Some (Panic, s)
      | Err e \<Rightarrow> Some (Err e, s)
      | Ok None \<Rightarrow> Some (Err ''no indexMap matched the given selector'', s)
      | Ok (Some keys) \<Rightarrow> lookup_keys look E keys [] s)"

definition keep_indexes :: "string \<Rightarrow> (string, nat list) res \<times> scope \<Rightarrow> (string, nat list) res \<times> scope" where
  "keep_indexes key rs =
     (case rs of
        (Ok c, s) \<Rightarrow> (Ok c, s\<lparr>scIndexes := AList.update key c (scIndexes s)\<rparr>)
      | (failed, s) \<Rightarrow> (failed, s))"

fun lookup :: "nat \<Rightarrow> scope_env \<Rightarrow> string \<Rightarrow> scope \<Rightarrow> looked_up" where
  "lookup 0 E key s = None"
| "lookup (Suc n) E key s =
     (case map_of (scIndexes s) key of
        Some c \<Rightarrow> Some (Ok c, s)
      | None \<Rightarrow>
          map_option (keep_indexes key)
            (let sel = newIndexSelector key
             in if isAggregate sel then lookupAll (lookup n E) E (Some sel) s
                else Some (newIndexRunner E (ixSelector sel) s)))"

fun lookup_categories_loop ::
    "nat \<Rightarrow> scope_env \<Rightarrow> category list \<Rightarrow> string list \<Rightarrow> nat list \<Rightarrow> scope \<Rightarrow> looked_up" where
  "lookup_categories_loop n E cats [] acc s = Some (Ok acc, s)"
| "lookup_categories_loop n E cats (key # keys) acc s =
     (case lookup n E key s of
        None \<Rightarrow> None
      | Some (Ok c, s') \<Rightarrow> lookup_categories_loop n E cats keys
          (acc @ filter (\<lambda>i. hasCategories (runner_capabilities (scRunners s' ! i)) cats) c) s'
      | Some (failed, s') \<Rightarrow> Some (failed, s'))"

definition lookupWithCategories ::
    "nat \<Rightarrow> scope_env \<Rightarrow> index_selector option \<Rightarrow> category list \<Rightarrow> scope \<Rightarrow> looked_up" where
  "lookupWithCategories n E sel cats s =
     (case scList E sel of
        Panic \<Rightarrow> Some (Panic, s)
      | Err e \<Rightarrow> Some (Err e, s)
      | Ok keys \<Rightarrow> lookup_categories_loop n E cats (case keys of None \<Rightarrow> [] | Some ks \<Rightarrow> ks) [] s)"

subsection \<open>Collections of indexes\<close>

definition index_at :: "scope \<Rightarrow> nat \<Rightarrow> runner" where
  "index_at s i = scRunners s ! i"

definition collection_name :: "scope \<Rightarrow> nat list \<Rightarrow> string" where
  "collection_name s c = join '','' (map (\<lambda>i. defName (rnDefinition (index_at s i))) c)"

text \<open>Reading the errors of an index takes those that are too old out of its cache.\<close>

definition runner_errors :: "int \<Rightarrow> nat \<Rightarrow> scope \<Rightarrow> string list \<times> scope" where
  "runner_errors now i s =
     (let (errs, c) = getErrors now (rnErrors (index_at s i))
      in (errs, s\<lparr>scRunners := (scRunners s)[i := (index_at s i)\<lparr>rnErrors := c\<rparr>]\<rparr>))"

fun collection_errors :: "int \<Rightarrow> nat list \<Rightarrow> scope \<Rightarrow> string list \<times> scope" where
  "collection_errors now [] s = ([], s)"
| "collection_errors now (i # is) s =
     (let (errs, s1) = runner_errors now i s; (rest, s2) = collection_errors now is s1
      in (errs @ rest, s2))"

definition collection_maxSearchPages :: "scope \<Rightarrow> nat list \<Rightarrow> uint64" where
  "collection_maxSearchPages s c =
     fold (\<lambda>i m. if maxSearchPages (index_at s i) > m then maxSearchPages (index_at s i) else m) c 0"

definition collection_hasCategories :: "scope \<Rightarrow> nat list \<Rightarrow> category list \<Rightarrow> bool" where
  "collection_hasCategories s c cats \<longleftrightarrow>
     (\<exists>i\<in>set c. hasCategories (runner_capabilities (index_at s i)) cats)"

text \<open>\<open>Info\<close> of an index panics when its definition has no links.\<close>

record index_info =
  infoID :: string
  infoTitle :: string
  infoLanguage :: string
  infoLink :: string

definition runner_info :: "(index_definition \<Rightarrow> string) \<Rightarrow> runner \<Rightarrow> index_info option" where
  "runner_info language r =
     (case defLinks (rnDefinition r) of
        [] \<Rightarrow> None
      | l # _ \<Rightarrow> Some \<lparr>infoID = defSite (rnDefinition r), infoTitle = defName (rnDefinition r),
          infoLanguage = language (rnDefinition r), infoLink = l\<rparr>)"

definition collection_info :: index_info where
  "collection_info =
     \<lparr>infoID = ''aggregate'', infoTitle = ''Index collection'', infoLanguage = ''en-US'', infoLink = []\<rparr>"

text \<open>The index whose title is the site of an item opens it.\<close>

fun collection_open ::
    "(index_definition \<Rightarrow> string) \<Rightarrow> (nat \<Rightarrow> 'p) \<Rightarrow> scope \<Rightarrow> string \<Rightarrow> nat list \<Rightarrow> (string, 'p) res" where
  "collection_open language opener s site [] = Err ''couldn't find Indexes''"
| "collection_open language opener s site (i # is) =
     (case runner_info language (index_at s i) of
        None \<Rightarrow> Panic
      | Some nfo \<Rightarrow> if infoTitle nfo = site then Ok (opener i) else collection_open language opener s site is)"

text \<open>The checks run at the same time; here they run in the order of the collection. An error is only
logged.\<close>

fun collection_healthCheck ::
    "('e, 'd, 'j, 'w) runner_env \<Rightarrow> (index_definition \<Rightarrow> string) \<Rightarrow> categories \<Rightarrow> int \<Rightarrow> nat list \<Rightarrow>
     scope \<Rightarrow> 'w \<Rightarrow> (string, unit) res \<times> scope \<times> 'w" where
  "collection_healthCheck E language cats now [] s w = (Ok (), s, w)"
| "collection_healthCheck E language cats now (i # is) s w =
     (if runner_info language (index_at s i) = None then (Panic, s, w)
      else (case healthCheck E cats now (index_at s i) w of
              (Panic, r, w') \<Rightarrow> (Panic, s\<lparr>scRunners := (scRunners s)[i := r]\<rparr>, w')
            | (_, r, w') \<Rightarrow>
                collection_healthCheck E language cats now is (s\<lparr>scRunners := (scRunners s)[i := r]\<rparr>) w'))"

subsection \<open>The index of an ID\<close>

text \<open>The collections in the order of the runtime.\<close>

fun resolve_id_loop :: "int \<Rightarrow> (string \<times> nat list) list \<Rightarrow> string \<Rightarrow> scope \<Rightarrow> (string + string) \<times> scope" where
  "resolve_id_loop now [] firstIndex s = (Inr firstIndex, s)"
| "resolve_id_loop now ((ixID, c) # ixs) firstIndex s =
     (let (errs, s1) = collection_errors now c s
      in if errs \<noteq> [] \<and> \<not> length c > 1 then resolve_id_loop now ixs firstIndex s1
         else if length c > 1 then (Inl ixID, s1)
         else resolve_id_loop now ixs (if firstIndex = [] then ixID else firstIndex) s1)"

definition resolveIndexID ::
    "int \<Rightarrow> (string \<times> nat list) list \<Rightarrow> string \<Rightarrow> scope \<Rightarrow> string \<times> scope" where
  "resolveIndexID now order i s =
     (if \<not> (i = [] \<or> i = indexSelectorAggregate \<or> i = indexSelectorAll) then (i, s)
      else (case resolve_id_loop now order [] s of
              (Inl ixID, s') \<Rightarrow> (ixID, s')
            | (Inr firstIndex, s') \<Rightarrow> (if i = [] then firstIndex else i, s')))"

end
