(* ===== verification/ScopeFacts.thy ===== *)
theory ScopeFacts
  imports IndexScope
begin

text \<open>
  What the scope keeps: every collection refers to indexes that exist, an index has one object however
  many collections it is in, and a collection of several indexes is made of the objects of its members.
  A name that its own selector lists can not be looked up.
\<close>

subsection \<open>Well-formed scopes\<close>

definition names_one :: "string \<Rightarrow> bool" where
  "names_one key \<longleftrightarrow> \<not> isAggregate (newIndexSelector key)"

definition index_of_name :: "scope_env \<Rightarrow> scope \<Rightarrow> string \<Rightarrow> nat list \<Rightarrow> bool" where
  "index_of_name E s key c \<longleftrightarrow>
     (\<exists>i d. c = [i] \<and> scLoad E key = Ok d \<and> rnDefinition (index_at s i) = ldDefinition d)"

definition scope_ok :: "scope_env \<Rightarrow> scope \<Rightarrow> bool" where
  "scope_ok E s \<longleftrightarrow> distinct (map fst (scIndexes s))
     \<and> (\<forall>key c. map_of (scIndexes s) key = Some c \<longrightarrow>
          (\<forall>i\<in>set c. i < length (scRunners s)) \<and> (names_one key \<longrightarrow> index_of_name E s key c))
     \<and> (\<forall>key key' i. names_one key \<longrightarrow> names_one key' \<longrightarrow>
          map_of (scIndexes s) key = Some [i] \<longrightarrow> map_of (scIndexes s) key' = Some [i] \<longrightarrow> key = key')"

lemma newScope_ok: "scope_ok E newScope"
  by (simp add: scope_ok_def newScope_def)

lemma selector_newIndexSelector [simp]: "ixSelector (newIndexSelector key) = key"
  by (simp add: newIndexSelector_def)

lemma scope_ok_refs:
  "scope_ok E s \<Longrightarrow> map_of (scIndexes s) key = Some c \<Longrightarrow> i \<in> set c \<Longrightarrow> i < length (scRunners s)"
  by (simp add: scope_ok_def)

lemma scope_ok_one:
  "scope_ok E s \<Longrightarrow> map_of (scIndexes s) key = Some c \<Longrightarrow> names_one key \<Longrightarrow> index_of_name E s key c"
  by (simp add: scope_ok_def)

lemma newRunner_definition: "newRunner E d = Some r \<Longrightarrow> rnDefinition r = ldDefinition d"
  by (auto simp: newRunner_def split: sum.splits)

lemma index_at_append: "i < length (scRunners s) \<Longrightarrow>
    index_at (s\<lparr>scRunners := scRunners s @ rs\<rparr>) i = index_at s i"
  by (simp add: index_at_def nth_append)

lemma newIndexRunner_one:
  assumes ok: "scope_ok E s" and new: "map_of (scIndexes s) key = None"
    and run: "keep_indexes key (newIndexRunner E key s) = (r, s')"
  shows "scope_ok E s' \<and> (\<forall>c. r = Ok c \<longrightarrow> (\<forall>i\<in>set c. i < length (scRunners s')))"
proof (cases "\<exists>d x. scLoad E key = Ok d \<and> newRunner E d = Some x")
  case False
  then have "newIndexRunner E key s = (Panic, s) \<or> (\<exists>e. newIndexRunner E key s = (Err e, s))"
    by (auto simp: newIndexRunner_def split: res.splits option.splits)
  with run ok show ?thesis by (auto simp: keep_indexes_def)
next
  case True
  then obtain d x where d: "scLoad E key = Ok d" "newRunner E d = Some x" by blast
  let ?n = "length (scRunners s)"
  let ?t = "s\<lparr>scRunners := scRunners s @ [x], scIndexes := AList.update key [?n] (scIndexes s)\<rparr>"
  have s': "r = Ok [?n]" "s' = ?t"
    using run d by (auto simp: newIndexRunner_def keep_indexes_def)
  have m: "map_of (AList.update key [?n] (scIndexes s)) k = (if k = key then Some [?n] else map_of (scIndexes s) k)" for k
    by (simp add: update_conv')
  have at: "index_at ?t i = index_at s i" if "i < ?n" for i
    using that by (simp add: index_at_def nth_append)
  have last: "index_at ?t ?n = x" by (simp add: index_at_def)
  have "index_of_name E ?t k c" if "map_of (scIndexes ?t) k = Some c" "names_one k" for k c
  proof (cases "k = key")
    case True
    with that(1) have "c = [?n]" by (simp add: m)
    moreover have "rnDefinition (index_at ?t ?n) = ldDefinition d"
      unfolding last by (rule newRunner_definition [OF d(2)])
    ultimately show ?thesis using d(1) True unfolding index_of_name_def by blast
  next
    case False
    with that have k: "map_of (scIndexes s) k = Some c" by (simp add: m)
    from scope_ok_one [OF ok k that(2)] obtain i e where
      "c = [i]" "scLoad E k = Ok e" "rnDefinition (index_at s i) = ldDefinition e"
      by (auto simp: index_of_name_def)
    moreover have "i < ?n" using scope_ok_refs [OF ok k] \<open>c = [i]\<close> by simp
    ultimately show ?thesis by (simp add: index_of_name_def at)
  qed
  moreover have "i < length (scRunners ?t)" if "map_of (scIndexes ?t) k = Some c" "i \<in> set c" for k c i
    using that scope_ok_refs [OF ok, of k c i] by (cases "k = key") (auto simp: m)
  moreover have "k = k'" if "names_one k" "names_one k'"
    "map_of (scIndexes ?t) k = Some [i]" "map_of (scIndexes ?t) k' = Some [i]" for k k' i
  proof -
    have "?n \<noteq> i" if "map_of (scIndexes s) k = Some [i]" for k using scope_ok_refs [OF ok that] by force
    moreover have "map_of (scIndexes s) k = Some [i] \<Longrightarrow> map_of (scIndexes s) k' = Some [i] \<Longrightarrow> k = k'"
      using ok that(1,2) unfolding scope_ok_def by blast
    ultimately show ?thesis
      using that(3,4) by (cases "k = key"; cases "k' = key") (auto simp: m)
  qed
  moreover have "distinct (map fst (scIndexes ?t))"
    using ok by (simp add: scope_ok_def distinct_update)
  ultimately have "scope_ok E ?t" unfolding scope_ok_def by blast
  with s' show ?thesis by simp
qed

lemma keep_aggregate:
  assumes "scope_ok E s" "\<not> names_one key" "\<forall>i\<in>set c. i < length (scRunners s)"
  shows "scope_ok E (s\<lparr>scIndexes := AList.update key c (scIndexes s)\<rparr>)"
  using assms
  by (auto simp: scope_ok_def distinct_update update_conv' index_of_name_def index_at_def)

subsection \<open>What every lookup promises\<close>

text \<open>The loop of \<open>LookupAll\<close> is proved for any lookup that keeps the scope well formed and its indexes in
place.\<close>

definition extends :: "scope \<Rightarrow> scope \<Rightarrow> bool" where
  "extends s s' \<longleftrightarrow> (\<exists>rs. scRunners s' = scRunners s @ rs)
     \<and> (\<forall>key c. names_one key \<longrightarrow> map_of (scIndexes s) key = Some c \<longrightarrow> map_of (scIndexes s') key = Some c)"

lemma extends_refl: "extends s s"
  by (simp add: extends_def)

lemma extends_trans: "extends s t \<Longrightarrow> extends t u \<Longrightarrow> extends s u"
  by (fastforce simp: extends_def)

lemma extends_length: "extends s s' \<Longrightarrow> length (scRunners s) \<le> length (scRunners s')"
  by (auto simp: extends_def)

locale index_lookup =
  fixes E :: scope_env and look :: "string \<Rightarrow> scope \<Rightarrow> looked_up"
  assumes look_keeps: "scope_ok E s \<Longrightarrow> look key s = Some (r, s') \<Longrightarrow> scope_ok E s' \<and> extends s s'"
    and look_refs: "scope_ok E s \<Longrightarrow> look key s = Some (Ok c, s') \<Longrightarrow> \<forall>i\<in>set c. i < length (scRunners s')"
begin

lemma keys_keep:
  assumes "scope_ok E s" "\<forall>i\<in>set acc. i < length (scRunners s)"
    and "lookup_keys look E keys acc s = Some (r, s')"
  shows "scope_ok E s' \<and> extends s s' \<and> (\<forall>c. r = Ok c \<longrightarrow> (\<forall>i\<in>set c. i < length (scRunners s')))"
  using assms
proof (induction keys arbitrary: acc s)
  case Nil
  then show ?case by (auto simp: extends_refl)
next
  case (Cons key keys)
  show ?case
  proof (cases "is_configured E key")
    case False
    with Cons show ?thesis by simp
  next
    case True
    with Cons.prems(3) obtain x s1 where x: "look key s = Some (x, s1)"
      by (auto split: option.splits)
    note keeps = look_keeps [OF Cons.prems(1) x]
    show ?thesis
    proof (cases x)
      case (Ok c)
      have "\<forall>i\<in>set (acc @ c). i < length (scRunners s1)"
        using look_refs [OF Cons.prems(1) x [unfolded Ok]] Cons.prems(2) extends_length [of s s1] keeps by fastforce
      moreover have "lookup_keys look E keys (acc @ c) s1 = Some (r, s')"
        using Cons.prems(3) True x Ok by simp
      ultimately show ?thesis using Cons.IH keeps extends_trans by blast
    qed (use Cons.prems(3) True x keeps in auto)
  qed
qed

lemma all_keep:
  assumes "scope_ok E s" "lookupAll look E sel s = Some (r, s')"
  shows "scope_ok E s' \<and> extends s s' \<and> (\<forall>c. r = Ok c \<longrightarrow> (\<forall>i\<in>set c. i < length (scRunners s')))"
  using assms keys_keep [of s "[]"] extends_refl [of s]
  by (auto simp: lookupAll_def split: res.splits option.splits)

end

lemma update_aggregate_extends:
  "\<not> names_one key \<Longrightarrow> extends s (s\<lparr>scIndexes := AList.update key c (scIndexes s)\<rparr>)"
  by (auto simp: extends_def update_conv')

lemma newIndexRunner_extends:
  assumes "map_of (scIndexes s) key = None" "keep_indexes key (newIndexRunner E key s) = (r, s')"
  shows "extends s s'"
  using assms
  by (auto simp: newIndexRunner_def keep_indexes_def extends_def update_conv' split: res.splits option.splits)

lemma lookup_found: "map_of (scIndexes s) key = Some c \<Longrightarrow> lookup (Suc n) E key s = Some (Ok c, s)"
  by simp

lemma lookup_single:
  "names_one key \<Longrightarrow> map_of (scIndexes s) key = None \<Longrightarrow>
   lookup (Suc n) E key s = Some (keep_indexes key (newIndexRunner E key s))"
  by (simp add: names_one_def)

lemma lookup_several:
  "\<not> names_one key \<Longrightarrow> map_of (scIndexes s) key = None \<Longrightarrow>
   lookup (Suc n) E key s =
     map_option (keep_indexes key) (lookupAll (lookup n E) E (Some (newIndexSelector key)) s)"
  by (simp add: names_one_def)

declare lookup.simps [simp del]

lemma lookup_none [simp]: "lookup 0 E key s = None"
  by (simp add: lookup.simps)

lemma lookup_step:
  assumes below: "index_lookup E (lookup n E)" and ok: "scope_ok E s"
    and run: "lookup (Suc n) E key s = Some (r, s')"
  shows "scope_ok E s' \<and> extends s s' \<and> (\<forall>c. r = Ok c \<longrightarrow> (\<forall>i\<in>set c. i < length (scRunners s')))"
proof (cases "map_of (scIndexes s) key")
  case (Some c)
  with run ok extends_refl scope_ok_refs [OF ok Some] show ?thesis by (auto simp: lookup_found)
next
  case None
  show ?thesis
  proof (cases "names_one key")
    case True
    with run None have "keep_indexes key (newIndexRunner E key s) = (r, s')" by (simp add: lookup_single)
    from newIndexRunner_one [OF ok None this] newIndexRunner_extends [OF None this] show ?thesis by blast
  next
    case False
    with run None obtain x s1 where x: "lookupAll (lookup n E) E (Some (newIndexSelector key)) s = Some (x, s1)"
      "keep_indexes key (x, s1) = (r, s')"
      by (auto simp: lookup_several)
    note all = index_lookup.all_keep [OF below ok x(1)]
    show ?thesis
    proof (cases x)
      case (Ok c)
      with x(2) have "r = Ok c" "s' = s1\<lparr>scIndexes := AList.update key c (scIndexes s1)\<rparr>"
        by (auto simp: keep_indexes_def)
      with all Ok keep_aggregate [OF _ False] extends_trans [OF _ update_aggregate_extends [OF False]]
      show ?thesis by auto
    qed (use x(2) all in \<open>auto simp: keep_indexes_def\<close>)
  qed
qed

interpretation scope: index_lookup E "lookup n E" for E :: scope_env and n :: nat
proof (induction n)
  case 0
  show ?case by unfold_locales simp_all
next
  case (Suc n)
  show ?case by unfold_locales (use lookup_step [OF Suc.IH] in blast)+
qed

text \<open>C28: Every lookup keeps the scope well formed, whether it succeeds or not: each name has one
  collection, a collection only refers to indexes there are, the collection of a single name is one index
  with the definition that is loaded under that name, and no index has two names. What was there stays,
  and a lookup that succeeds gives indexes there are.\<close>

theorem lookup_keeps_scope_ok:
  assumes "scope_ok E s" "lookup n E key s = Some (r, s')"
  shows "scope_ok E s' \<and> extends s s' \<and> (\<forall>c. r = Ok c \<longrightarrow> (\<forall>i\<in>set c. i < length (scRunners s')))"
  using scope.look_keeps [OF assms] scope.look_refs [OF assms(1)] assms(2) by blast

definition sample_scope_env :: "string list \<Rightarrow> scope_env" where
  "sample_scope_env names = \<lparr>scList = (\<lambda>sel. Ok (Some names)),
     scLoad = (\<lambda>key. parseDefinition sample_load_env 0 key), scSite = (\<lambda>key. Inr (Some [])), scUsers = 0\<rparr>"

lemma sample_lookup:
  "map_option (\<lambda>(r, s). (r, length (scRunners s))) (lookup 2 (sample_scope_env [''a'', ''b'']) ''all'' newScope) =
     Some (Ok [0, 1], 2)"
  by code_simp

theorem lookup_keeps_scope_ok_witness:
  "\<exists>s. lookup 2 (sample_scope_env [''a'', ''b'']) ''all'' newScope = Some (Ok [0, 1], s) \<and>
     scope_ok (sample_scope_env [''a'', ''b'']) s"
proof -
  from sample_lookup obtain s where s: "lookup 2 (sample_scope_env [''a'', ''b'']) ''all'' newScope = Some (Ok [0, 1], s)"
    by auto
  from lookup_keeps_scope_ok [OF newScope_ok s] s show ?thesis by blast
qed

subsection \<open>Collections of several indexes\<close>

lemma lookup_one:
  assumes "names_one key" "lookup (Suc n) E key s = Some (r, s')"
  shows "(\<forall>c. r = Ok c \<longrightarrow> map_of (scIndexes s') key = Some c)
    \<and> (\<forall>k. \<not> names_one k \<longrightarrow> map_of (scIndexes s') k = map_of (scIndexes s) k)"
proof (cases "map_of (scIndexes s) key")
  case (Some c)
  with assms show ?thesis by (auto simp: lookup_found)
next
  case None
  with assms have "keep_indexes key (newIndexRunner E key s) = (r, s')" by (simp add: lookup_single)
  with assms(1) show ?thesis
    by (auto simp: newIndexRunner_def keep_indexes_def update_conv' split: res.splits option.splits)
qed

lemma lookup_one_returns: "names_one key \<Longrightarrow> \<exists>r s'. lookup (Suc n) E key s = Some (r, s')"
  by (cases "map_of (scIndexes s) key") (auto simp: lookup_found lookup_single)

lemma lookup_keys_acc:
  "lookup_keys look E keys acc s = map_option (apfst (map_res (\<lambda>c. acc @ c))) (lookup_keys look E keys [] s)"
proof (induction keys arbitrary: acc s)
  case Nil
  then show ?case by simp
next
  case (Cons key keys)
  have "lookup_keys look E keys (acc @ c) t =
      map_option (apfst (map_res (\<lambda>c. acc @ c))) (lookup_keys look E keys c t)" for c t
    unfolding Cons.IH [of "acc @ c"] Cons.IH [of c]
    by (cases "lookup_keys look E keys [] t") (auto simp: map_res_map_res fun_eq_iff intro!: arg_cong [where f = "\<lambda>f. map_res f _"])
  then show ?case using Cons.IH [of acc s] by (auto split: option.split res.split)
qed

lemma lookup_keys_extends:
  assumes "scope_ok E s" "lookup_keys (lookup n E) E keys acc s = Some (r, s')"
  shows "extends s s'"
proof -
  from assms(2) obtain r' where "lookup_keys (lookup n E) E keys [] s = Some (r', s')"
    by (auto simp: lookup_keys_acc [of _ _ _ acc])
  with scope.keys_keep [OF assms(1)] show ?thesis by force
qed

definition members :: "scope_env \<Rightarrow> scope \<Rightarrow> string list \<Rightarrow> nat list" where
  "members E s keys =
     concat (map (\<lambda>k. case map_of (scIndexes s) k of None \<Rightarrow> [] | Some c \<Rightarrow> c) (filter (is_configured E) keys))"

definition all_open :: "scope_env \<Rightarrow> scope \<Rightarrow> string list \<Rightarrow> bool" where
  "all_open E s keys \<longleftrightarrow> (\<forall>k\<in>set keys. is_configured E k \<longrightarrow> map_of (scIndexes s) k \<noteq> None)"

lemma lookup_keys_members:
  assumes "\<forall>k\<in>set keys. names_one k" "scope_ok E s"
  shows "\<exists>r s'. lookup_keys (lookup (Suc n) E) E keys acc s = Some (r, s')
    \<and> (\<forall>k. \<not> names_one k \<longrightarrow> map_of (scIndexes s') k = map_of (scIndexes s) k)
    \<and> (\<forall>c. r = Ok c \<longrightarrow> c = acc @ members E s' keys \<and> all_open E s' keys)"
  using assms
proof (induction keys arbitrary: acc s)
  case Nil
  then show ?case by (simp add: members_def all_open_def)
next
  case (Cons key keys)
  show ?case
  proof (cases "is_configured E key")
    case False
    with Cons.IH [of s acc] Cons.prems show ?thesis by (auto simp: members_def all_open_def)
  next
    case True
    from Cons.prems(1) have one: "names_one key" by simp
    obtain x s1 where x: "lookup (Suc n) E key s = Some (x, s1)" using lookup_one_returns [OF one] by blast
    note x_one = lookup_one [OF one x] and x_ok = lookup_keeps_scope_ok [OF Cons.prems(2) x]
    show ?thesis
    proof (cases x)
      case (Ok c)
      obtain r s' where r: "lookup_keys (lookup (Suc n) E) E keys (acc @ c) s1 = Some (r, s')"
        "\<forall>k. \<not> names_one k \<longrightarrow> map_of (scIndexes s') k = map_of (scIndexes s1) k"
        "\<forall>c'. r = Ok c' \<longrightarrow> c' = (acc @ c) @ members E s' keys \<and> all_open E s' keys"
        using Cons.IH [of s1 "acc @ c"] Cons.prems(1) x_ok by auto
      have "extends s1 s'" using lookup_keys_extends [OF _ r(1)] x_ok by blast
      moreover have "map_of (scIndexes s1) key = Some c" using x_one Ok by blast
      ultimately have "map_of (scIndexes s') key = Some c" using one by (simp add: extends_def)
      then show ?thesis
        using r x_one Ok x True by (auto simp: members_def all_open_def)
    qed (use True x x_one in auto)
  qed
qed

lemma members_update:
  assumes "\<not> names_one key" "\<forall>k\<in>set keys. names_one k"
  shows "members E (s\<lparr>scIndexes := AList.update key c (scIndexes s)\<rparr>) keys = members E s keys"
    "all_open E (s\<lparr>scIndexes := AList.update key c (scIndexes s)\<rparr>) keys = all_open E s keys"
proof -
  have "k \<noteq> key" if "k \<in> set keys" for k using assms that by blast
  then show "members E (s\<lparr>scIndexes := AList.update key c (scIndexes s)\<rparr>) keys = members E s keys"
    "all_open E (s\<lparr>scIndexes := AList.update key c (scIndexes s)\<rparr>) keys = all_open E s keys"
    by (auto simp: members_def all_open_def update_conv' intro!: arg_cong [where f = concat])
qed

text \<open>C29: Looking up several indexes ends, and gives the objects of the configured ones among the indexes
  the selector lists, in that order: the same objects that looking up their names gives. The collection is
  kept under the selector when all of them can be made, and not otherwise.\<close>

theorem several_indexes_are_their_members:
  assumes "scope_ok E s" "\<not> names_one key" "map_of (scIndexes s) key = None"
    and "scList E (Some (newIndexSelector key)) = Ok (Some keys)" "\<forall>k\<in>set keys. names_one k"
  shows "\<exists>r s'. lookup (Suc (Suc n)) E key s = Some (r, s') \<and>
    (case r of
       Ok c \<Rightarrow> c = members E s' keys \<and> all_open E s' keys \<and> map_of (scIndexes s') key = Some c
     | _ \<Rightarrow> map_of (scIndexes s') key = None)"
proof -
  obtain r s1 where r: "lookup_keys (lookup (Suc n) E) E keys [] s = Some (r, s1)"
    "\<forall>k. \<not> names_one k \<longrightarrow> map_of (scIndexes s1) k = map_of (scIndexes s) k"
    "\<forall>c. r = Ok c \<longrightarrow> c = members E s1 keys \<and> all_open E s1 keys"
    using lookup_keys_members [OF assms(5,1), of n "[]"] by auto
  have l: "lookup (Suc (Suc n)) E key s = Some (keep_indexes key (r, s1))"
    using assms(3,4) r(1) by (simp add: lookup_several assms(2) lookupAll_def)
  show ?thesis
  proof (cases r)
    case (Ok c)
    let ?t = "s1\<lparr>scIndexes := AList.update key c (scIndexes s1)\<rparr>"
    have "map_of (scIndexes ?t) key = Some c" by (simp add: update_conv')
    with l r(3) Ok members_update [OF assms(2,5), where E = E and s = s1 and c = c] show ?thesis
      by (intro exI [of _ "Ok c"] exI [of _ ?t]) (simp add: keep_indexes_def)
  qed (use l r(2) assms(2,3) in \<open>auto simp: keep_indexes_def\<close>)
qed

theorem several_indexes_are_their_members_witness:
  "\<exists>s. lookup 2 (sample_scope_env [''a'', ''b'']) ''all'' newScope = Some (Ok [0, 1], s) \<and>
     members (sample_scope_env [''a'', ''b'']) s [''a'', ''b''] = [0, 1]"
proof -
  let ?E = "sample_scope_env [''a'', ''b'']"
  from sample_lookup obtain s where s: "lookup 2 ?E ''all'' newScope = Some (Ok [0, 1], s)" by auto
  have all: "\<not> names_one ''all''" and one: "\<forall>k\<in>set [''a'', ''b'']. names_one k" by code_simp+
  have new: "map_of (scIndexes newScope) ''all'' = None" by (simp add: newScope_def)
  have "scList ?E (Some (newIndexSelector ''all'')) = Ok (Some [''a'', ''b''])"
    by (simp add: sample_scope_env_def)
  from several_indexes_are_their_members [OF newScope_ok all new this one, of 0] s show ?thesis
    by (auto simp: numeral_2_eq_2)
qed

text \<open>A selector that lists its own name, such as \<open>all\<close> when the definition of an index is in a file
  \<open>all.yml\<close>, is never looked up with success, however deep the calls may nest.\<close>

theorem self_listing_never_found:
  assumes "scList E (Some (newIndexSelector key)) = Ok (Some keys)" "key \<in> set keys"
    and "\<not> names_one key" "is_configured E key" "map_of (scIndexes s) key = None"
  shows "\<not> (\<exists>c s'. lookup n E key s = Some (Ok c, s'))"
proof -
  have "map_of (scIndexes s') key = None \<and> (key' = key \<longrightarrow> (\<forall>c. r \<noteq> Ok c))"
    if "map_of (scIndexes s) key = None" "lookup n E key' s = Some (r, s')" for n key' s r s'
    using that
  proof (induction n arbitrary: key' s r s')
    case 0
    then show ?case by simp
  next
    case (Suc n)
    have keys: "map_of (scIndexes t') key = None \<and> (key \<in> set ks \<longrightarrow> (\<forall>c. x \<noteq> Ok c))"
      if "map_of (scIndexes t) key = None" "lookup_keys (lookup n E) E ks acc t = Some (x, t')" for ks acc t x t'
      using that
    proof (induction ks arbitrary: acc t)
      case (Cons k ks)
      show ?case
      proof (cases "is_configured E k")
        case False
        with Cons.IH [OF Cons.prems(1)] Cons.prems(2) assms(4) show ?thesis by auto
      next
        case True
        with Cons.prems(2) obtain y t1 where y: "lookup n E k t = Some (y, t1)" by (auto split: option.splits)
        from Suc.IH [OF Cons.prems(1) y] show ?thesis
          using Cons.IH [of t1] Cons.prems(2) True y by (cases y) auto
      qed
    qed simp
    show ?case
    proof (cases "map_of (scIndexes s) key'")
      case (Some c)
      with Suc.prems show ?thesis by (auto simp: lookup_found)
    next
      case None
      show ?thesis
      proof (cases "names_one key'")
        case True
        with assms(3) have "key' \<noteq> key" by blast
        with True None Suc.prems show ?thesis
          by (auto simp: lookup_single newIndexRunner_def keep_indexes_def update_conv' split: res.splits option.splits)
      next
        case False
        with None Suc.prems obtain x s1 where x:
          "lookupAll (lookup n E) E (Some (newIndexSelector key')) s = Some (x, s1)" "keep_indexes key' (x, s1) = (r, s')"
          by (auto simp: lookup_several)
        have "map_of (scIndexes s1) key = None \<and> (key' = key \<longrightarrow> (\<forall>c. x \<noteq> Ok c))"
          using x(1) keys [OF Suc.prems(1), of keys "[]"] keys [OF Suc.prems(1), of _ "[]"] Suc.prems(1) assms(1,2)
          by (auto simp: lookupAll_def split: res.splits option.splits) blast+
        with x(2) show ?thesis by (cases x) (auto simp: keep_indexes_def update_conv')
      qed
    qed
  qed
  with assms(5) show ?thesis by blast
qed

theorem self_listing_never_found_witness:
  "\<not> (\<exists>c s. lookup 5 (sample_scope_env [''a'', ''all'']) ''all'' newScope = Some (Ok c, s))"
proof (rule self_listing_never_found [where keys = "[''a'', ''all'']"])
  show "\<not> names_one ''all''" by code_simp
qed (simp_all add: sample_scope_env_def newScope_def is_configured_def)

subsection \<open>Health of a collection\<close>

lemma collection_healthCheck_no_error:
  "fst (collection_healthCheck E language cats now c s w) \<noteq> Err e"
  by (induction c arbitrary: s w) (auto split: res.splits prod.splits)

end
