(* ===== verification/Facade.thy ===== *)
theory Facade
  imports ScopeFacts Workpool
begin

text \<open>
  The facade the program searches through (\<open>indexer/facade.go\<close>): it opens the indexes of a name, opens
  the storage of the results when it is first needed and starts the worker pool of a search; and the
  goroutine of \<open>indexer/watch.go\<close> that searches again and again. What the configuration holds is
  \<open>facade_config\<close>; the storage is known by its namespace.
\<close>

record facade_config =
  cfIndex :: string
  cfWorkers :: int
  cfStorage :: string
  cfEndpoint :: string

record facade =
  fcIndexes :: "nat list"
  fcScope :: scope
  fcWorkers :: nat
  fcStorage :: "string option"

definition noIndexError :: string where
  "noIndexError = ''no index configured. you have to pick an index''"

definition newEmptyFacade :: "facade_config \<Rightarrow> facade" where
  "newEmptyFacade cf =
     \<lparr>fcIndexes = [], fcScope = newScope, fcWorkers = (if cfWorkers cf < 1 then 1 else nat (cfWorkers cf)),
      fcStorage = None\<rparr>"

definition facade_with :: "facade_config \<Rightarrow> nat list \<times> scope \<Rightarrow> facade" where
  "facade_with cf cs = (newEmptyFacade cf)\<lparr>fcIndexes := fst cs, fcScope := snd cs\<rparr>"

type_synonym new_facade = "(string, facade) res option"

definition newFacadeFromConfiguration :: "nat \<Rightarrow> scope_env \<Rightarrow> facade_config \<Rightarrow> new_facade" where
  "newFacadeFromConfiguration n E cf =
     (if cfIndex cf = [] then Some (Err noIndexError)
      else map_option (\<lambda>(r, s). map_res (\<lambda>c. facade_with cf (c, s)) r) (lookup n E (cfIndex cf) newScope))"

definition newAggregateFacadeWithCategories ::
    "nat \<Rightarrow> scope_env \<Rightarrow> facade_config \<Rightarrow> string \<Rightarrow> category list \<Rightarrow> new_facade" where
  "newAggregateFacadeWithCategories n E cf indexNames cats =
     (let names = (if indexNames = [] then cfIndex cf else indexNames)
      in if names = [] then Some (Err noIndexError)
         else map_option
           (\<lambda>(r, s). case r of
              Panic \<Rightarrow> Panic
            | Err _ \<Rightarrow> Err (''Could not find Indexes `'' @ names @ ''`.'')
            | Ok c \<Rightarrow> Ok (facade_with cf (c, s)))
           (lookupWithCategories n E (Some (newIndexSelector names)) cats newScope))"

definition newFacade ::
    "nat \<Rightarrow> scope_env \<Rightarrow> facade_config \<Rightarrow> string \<Rightarrow> category list \<Rightarrow> new_facade" where
  "newFacade n E cf indexNames cats =
     (if isAggregate (newIndexSelector indexNames)
      then newAggregateFacadeWithCategories n E cf indexNames cats
      else map_option
        (\<lambda>(r, s). case r of
           Panic \<Rightarrow> Panic
         | Err _ \<Rightarrow> Err ''indexer wasn't found''
         | Ok c \<Rightarrow>
             if cats \<noteq> [] \<and> \<not> collection_hasCategories s c cats
             then Err ''indexer doesn't support the needed indexCategories''
             else Ok (facade_with cf (c, s)))
        (lookup n E indexNames newScope))"

subsection \<open>Searching\<close>

text \<open>The storage is named after the indexes; without a type or an endpoint in the configuration, or
with an empty name, it panics.\<close>

definition getMultiIndexDatabase :: "facade_config \<Rightarrow> facade \<Rightarrow> string option" where
  "getMultiIndexDatabase cf f =
     (if cfStorage cf = [] \<or> cfEndpoint cf = [] then None
      else let name = collection_name (fcScope f) (fcIndexes f) in if name = [] then None else Some name)"

definition ensureDatabaseConnection :: "facade_config \<Rightarrow> facade \<Rightarrow> facade option" where
  "ensureDatabaseConnection cf f =
     (case fcStorage f of
        Some _ \<Rightarrow> Some f
      | None \<Rightarrow> map_option (\<lambda>name. f\<lparr>fcStorage := Some name\<rparr>) (getMultiIndexDatabase cf f))"

text \<open>\<open>setKey\<close> is the error the storage answers when its key is set. The pool has one iterator for each
index, which is then fed as in \<open>pool_step\<close>.\<close>

definition facade_search ::
    "facade_config \<Rightarrow> (string \<Rightarrow> string option) \<Rightarrow> query \<Rightarrow> facade \<Rightarrow> (string, pool) res \<times> facade" where
  "facade_search cf setKey q f =
     (case ensureDatabaseConnection cf f of
        None \<Rightarrow> (Panic, f)
      | Some f' \<Rightarrow>
          (case setKey (the (fcStorage f')) of
             Some e \<Rightarrow> (Err e, f')
           | None \<Rightarrow> (of_panic (createWorkerPool (length (remdups (fcIndexes f'))) q (fcWorkers f')), f')))"

definition searchWithKeywords ::
    "facade_config \<Rightarrow> (string \<Rightarrow> string option) \<Rightarrow> string \<Rightarrow> uint64 \<Rightarrow> uint64 \<Rightarrow> facade \<Rightarrow>
     (string, pool) res \<times> facade" where
  "searchWithKeywords cf setKey keywords firstPage pages f =
     (case newQueryFromQueryString keywords of
        Panics \<Rightarrow> (Panic, f)
      | Fails e \<Rightarrow> (Err e, f)
      | Returns q \<Rightarrow>
          facade_search cf setKey (q\<lparr>qPage := firstPage, numberOfPagesToFetch := pages\<rparr>) f)"

definition searchKeywordsWithCategory ::
    "facade_config \<Rightarrow> (string \<Rightarrow> string option) \<Rightarrow> string \<Rightarrow> uint64 \<Rightarrow> category \<Rightarrow> facade \<Rightarrow>
     (string, pool) res \<times> facade" where
  "searchKeywordsWithCategory cf setKey keywords page cat f =
     (case newQueryFromQueryString keywords of
        Panics \<Rightarrow> (Panic, f)
      | Fails e \<Rightarrow> (Err e, f)
      | Returns q \<Rightarrow> facade_search cf setKey (q\<lparr>qPage := page, qCategories := [catID cat]\<rparr>) f)"

subsection \<open>Watching an index\<close>

text \<open>What a search of the facade gives the goroutine: a login error ends it, after another error the
channel of results is nil, otherwise the pages come over the channel and then it is closed.\<close>

datatype watch_search = WatchLoginError | WatchError string | WatchPages "scrape_item list list"

datatype watch_phase =
  WSearch | WPause | WRange "scrape_item list list option" | WSend "scrape_item list" "scrape_item list list"
| WRest | WEnded

record watch =
  wPhase :: watch_phase
  wQuery :: query
  wStartingPage :: uint64
  wOutput :: "scrape_item list"

definition newWatch :: "uint64 \<Rightarrow> query option \<Rightarrow> watch" where
  "newWatch pages q =
     (let q0 = (case q of None \<Rightarrow> newQuery | Some q \<Rightarrow> q)
      in \<lparr>wPhase = WSearch, wQuery = q0\<lparr>numberOfPagesToFetch := pages, stopOnStale := True\<rparr>,
          wStartingPage = qPage q0, wOutput = []\<rparr>)"

inductive watch_step :: "(query \<Rightarrow> watch_search \<Rightarrow> bool) \<Rightarrow> watch \<Rightarrow> watch \<Rightarrow> bool"
  for searches :: "query \<Rightarrow> watch_search \<Rightarrow> bool" where
  watch_login: "wPhase w = WSearch \<Longrightarrow> searches (wQuery w) WatchLoginError \<Longrightarrow>
     watch_step searches w (w\<lparr>wPhase := WEnded\<rparr>)"
| watch_failed: "wPhase w = WSearch \<Longrightarrow> searches (wQuery w) (WatchError e) \<Longrightarrow>
     watch_step searches w (w\<lparr>wPhase := WPause\<rparr>)"
| watch_found: "wPhase w = WSearch \<Longrightarrow> searches (wQuery w) (WatchPages ps) \<Longrightarrow>
     watch_step searches w (w\<lparr>wPhase := WRange (Some ps)\<rparr>)"
| watch_pause: "wPhase w = WPause \<Longrightarrow> watch_step searches w (w\<lparr>wPhase := WRange None\<rparr>)"
| watch_page: "wPhase w = WRange (Some (p # ps)) \<Longrightarrow> watch_step searches w (w\<lparr>wPhase := WSend p ps\<rparr>)"
| watch_send: "wPhase w = WSend (i # is) ps \<Longrightarrow>
     watch_step searches w (w\<lparr>wPhase := WSend is ps, wOutput := wOutput w @ [i]\<rparr>)"
| watch_sent: "wPhase w = WSend [] ps \<Longrightarrow> watch_step searches w (w\<lparr>wPhase := WRange (Some ps)\<rparr>)"
| watch_closed: "wPhase w = WRange (Some []) \<Longrightarrow> watch_step searches w (w\<lparr>wPhase := WRest\<rparr>)"
| watch_again: "wPhase w = WRest \<Longrightarrow>
     watch_step searches w (w\<lparr>wPhase := WSearch, wQuery := (wQuery w)\<lparr>qPage := wStartingPage w\<rparr>\<rparr>)"

definition watch_run :: "(query \<Rightarrow> watch_search \<Rightarrow> bool) \<Rightarrow> watch \<Rightarrow> watch \<Rightarrow> bool" where
  "watch_run searches = (watch_step searches)\<^sup>*\<^sup>*"

inductive_cases watch_step_cases: "watch_step searches w w'"

subsection \<open>What a facade holds\<close>

lemma loop_categories:
  assumes "scope_ok E s" "\<forall>i\<in>set acc. i < length (scRunners s) \<and> hasCategories (runner_capabilities (index_at s i)) cats"
    and "lookup_categories_loop n E cats keys acc s = Some (Ok c, s')"
  shows "\<forall>i\<in>set c. i < length (scRunners s') \<and> hasCategories (runner_capabilities (index_at s' i)) cats"
  using assms
proof (induction keys arbitrary: acc s)
  case Nil
  then show ?case by simp
next
  case (Cons key keys)
  then obtain x s1 where x: "lookup n E key s = Some (x, s1)" by (auto split: option.splits)
  with Cons.prems(3) obtain d where d: "x = Ok d" by (cases x) auto
  from lookup_keeps_scope_ok [OF Cons.prems(1) x] d have ok: "scope_ok E s1" "extends s s1"
    "\<forall>i\<in>set d. i < length (scRunners s1)" by auto
  have at: "index_at s1 i = index_at s i \<and> i < length (scRunners s1)" if "i < length (scRunners s)" for i
    using ok(2) that by (auto simp: extends_def index_at_def nth_append)
  let ?acc = "acc @ filter (\<lambda>i. hasCategories (runner_capabilities (scRunners s1 ! i)) cats) d"
  have "\<forall>i\<in>set ?acc. i < length (scRunners s1) \<and> hasCategories (runner_capabilities (index_at s1 i)) cats"
    using Cons.prems(2) ok(3) at by (auto simp: index_at_def)
  moreover have "lookup_categories_loop n E cats keys ?acc s1 = Some (Ok c, s')"
    using Cons.prems(3) x d by simp
  ultimately show ?case by (rule Cons.IH [OF ok(1)])
qed

text \<open>Every index of a facade that is made for some categories supports all of them, whether the facade
  is for one index or for several.\<close>

theorem facade_supports_categories:
  assumes "newFacade n E cf indexNames cats = Some (Ok f)" "i \<in> set (fcIndexes f)"
  shows "hasCategories (runner_capabilities (index_at (fcScope f) i)) cats"
proof (cases "isAggregate (newIndexSelector indexNames)")
  case True
  let ?names = "if indexNames = [] then cfIndex cf else indexNames"
  from True assms(1) obtain c s where c:
    "lookupWithCategories n E (Some (newIndexSelector ?names)) cats newScope = Some (Ok c, s)"
    "f = facade_with cf (c, s)"
    by (auto simp: newFacade_def newAggregateFacadeWithCategories_def Let_def split: if_splits res.splits)
  then show ?thesis
    using loop_categories [OF newScope_ok, of "[]"] assms(2)
    by (auto simp: lookupWithCategories_def facade_with_def split: res.splits)
next
  case False
  with assms(1) obtain r s where r: "lookup n E indexNames newScope = Some (r, s)"
    by (auto simp: newFacade_def)
  with assms(1) False obtain c where "r = Ok c"
    "f = facade_with cf (c, s)" "cats = [] \<or> collection_hasCategories s c cats"
    by (cases r) (auto simp: newFacade_def split: if_splits)
  with r have c: "lookup n E indexNames newScope = Some (Ok c, s)"
    "f = facade_with cf (c, s)" "cats = [] \<or> collection_hasCategories s c cats" by simp_all
  then obtain m where n: "n = Suc m" by (cases n) auto
  have one: "names_one indexNames" using False by (simp add: names_one_def)
  have "map_of (scIndexes s) indexNames = Some c" using lookup_one [OF one c(1) [unfolded n]] by blast
  moreover have "scope_ok E s" using lookup_keeps_scope_ok [OF newScope_ok c(1)] by blast
  ultimately have "index_of_name E s indexNames c" using one scope_ok_one by blast
  then obtain j where "c = [j]" by (auto simp: index_of_name_def)
  with c(2,3) assms(2) show ?thesis
    by (auto simp: collection_hasCategories_def facade_with_def hasCategories_def)
qed

definition sample_facade_config :: facade_config where
  "sample_facade_config = \<lparr>cfIndex = [], cfWorkers = 0, cfStorage = ''boltdb'', cfEndpoint = ''db''\<rparr>"

theorem facade_supports_categories_witness:
  "\<exists>f. newFacade 1 (sample_scope_env [''a'', ''b'']) sample_facade_config ''a'' [] = Some (Ok f) \<and>
     fcIndexes f = [0] \<and> hasCategories (runner_capabilities (index_at (fcScope f) 0)) []"
proof -
  have "map_option (map_res fcIndexes)
      (newFacade 1 (sample_scope_env [''a'', ''b'']) sample_facade_config ''a'' []) = Some (Ok [0])"
    by code_simp
  then obtain f where f: "newFacade 1 (sample_scope_env [''a'', ''b'']) sample_facade_config ''a'' [] = Some (Ok f)"
    "fcIndexes f = [0]" by (auto elim!: map_res.elims)
  with facade_supports_categories [OF f(1), of 0] show ?thesis by auto
qed

text \<open>A facade for the selector \<open>aggregate\<close> has no indexes: no name matches it.\<close>

lemma aggregate_facade_empty:
  assumes "scList E = (\<lambda>sel. map_res Some (multi_list (defaultMultiLoader L now) sel))"
  shows "newFacade n E cf indexSelectorAggregate cats = Some (Ok (facade_with cf ([], newScope)))"
proof -
  from available_indexes [of L now None] obtain ns where "multi_list (defaultMultiLoader L now) None = Ok ns"
    by blast
  from built_in.aggregate_lists_nothing [OF this] assms show ?thesis
    by (simp add: newFacade_def newAggregateFacadeWithCategories_def lookupWithCategories_def
      isAggregate_def newIndexSelector_def indexSelectorAggregate_def)
qed

subsection \<open>A watch that fails\<close>

text \<open>When a search of a watch fails with another error than one of the login, the watch waits once and
  then blocks for ever on a channel that is nil: it never searches again and gives no further result.\<close>

theorem failed_watch_never_recovers:
  assumes "wPhase w = WSearch" "searches (wQuery w) (WatchError e)"
  shows "\<exists>w1. watch_step searches w w1 \<and> (\<forall>w'. watch_run searches w1 w' \<longrightarrow>
    wPhase w' \<in> {WPause, WRange None} \<and> wOutput w' = wOutput w \<and>
    (wPhase w' = WRange None \<longrightarrow> (\<forall>w2. \<not> watch_step searches w' w2)))"
proof -
  let ?w1 = "w\<lparr>wPhase := WPause\<rparr>"
  have step: "watch_step searches w ?w1" using assms by (rule watch_failed)
  have inv: "wPhase w' \<in> {WPause, WRange None} \<and> wOutput w' = wOutput w" if "watch_run searches ?w1 w'" for w'
    using that unfolding watch_run_def
    by (induction rule: rtranclp_induct) (auto elim!: watch_step_cases)
  moreover have "\<not> watch_step searches w' w2" if "wPhase w' = WRange None" for w' w2
    using that by (auto elim!: watch_step_cases)
  ultimately show ?thesis using step by blast
qed

theorem failed_watch_never_recovers_witness:
  "\<exists>w1. watch_step (\<lambda>q r. r = WatchError ''no key'') (newWatch 3 None) w1 \<and> wPhase w1 \<in> {WPause, WRange None}"
proof -
  have "wPhase (newWatch 3 None) = WSearch" by (simp add: newWatch_def)
  from failed_watch_never_recovers [OF this, of "\<lambda>q r. r = WatchError ''no key''" "''no key''"]
  show ?thesis by (auto simp: watch_run_def)
qed

end
