(* ===== verification/Server.thy ===== *)
theory Server
  imports Facade
begin

text \<open>
  The server (\<open>server/\<close>): its key (\<open>auth.go\<close>, \<open>server.go\<close>), the tokens of download links
  (\<open>token.go\<close>), the torznab handlers (\<open>torznab.go\<close>, \<open>responseFormatting.go\<close>, \<open>search/torrent.go\<close>),
  downloads (\<open>download.go\<close>), the status (\<open>status.go\<close>, \<open>statusReportGenerator.go\<close>) and the health
  endpoint (\<open>healthCheck.go\<close>), and the resolution of movies and shows (\<open>torrent/enriching.go\<close>). A
  response is what is written; \<open>None\<close> is a panic of the handler. The search of the facade, JWT, SHA-1,
  the services for movies and shows, and the downloads are parameters; \<open>'w\<close> is the state they work on.
\<close>

subsection \<open>The key of the server\<close>

record server_params =
  spApiKey :: "string option"
  spPassphrase :: string
  spPathPrefix :: string

definition hex_digit :: "nat \<Rightarrow> char" where
  "hex_digit n = char_of (if n < 10 then 48 + n else 87 + n)"

definition hex_bytes :: "string \<Rightarrow> string" where
  "hex_bytes bs = concat (map (\<lambda>b. [hex_digit (of_char b div 16), hex_digit (of_char b mod 16)]) bs)"

text \<open>\<open>GetBytes\<close> of \<open>config/viper.go\<close> converts a string, so it is never nil.\<close>

definition viper_getBytes :: "(string \<Rightarrow> string) \<Rightarrow> string \<Rightarrow> string option" where
  "viper_getBytes getString param = Some (getString param)"

text \<open>\<open>NewServer\<close>: the password and the prefix are read from the server it has just made.\<close>

definition newServer :: "(string \<Rightarrow> string option) \<Rightarrow> server_params" where
  "newServer getBytes = \<lparr>spApiKey = getBytes ''api_key'', spPassphrase = [], spPathPrefix = []\<rparr>"

definition sharedKey :: "(string \<Rightarrow> string) \<Rightarrow> string \<Rightarrow> server_params \<Rightarrow> string" where
  "sharedKey sha1 rnd p =
     (case spApiKey p of
        Some k \<Rightarrow> k
      | None \<Rightarrow> if spPassphrase p \<noteq> [] then hex_bytes (take 16 (sha1 (spPassphrase p))) else hex_bytes (take 16 rnd))"

definition checkAPIKey :: "(string \<Rightarrow> string) \<Rightarrow> string \<Rightarrow> server_params \<Rightarrow> string \<Rightarrow> bool" where
  "checkAPIKey sha1 rnd p inputKey \<longleftrightarrow> inputKey = sharedKey sha1 rnd p"

subsection \<open>Tokens\<close>

record token =
  tkIndexName :: string
  tkLink :: string

text \<open>\<open>jwSign\<close> gives the signed text of some claims, \<open>jwParse\<close> the claims of a text that is signed with the
key by a method of the HMAC family and valid now.\<close>

record jwt =
  jwSign :: "string \<Rightarrow> (string \<times> json) list \<Rightarrow> string option"
  jwParse :: "string \<Rightarrow> string \<Rightarrow> (string \<times> json) list option"

definition token_claims :: "int \<Rightarrow> token \<Rightarrow> (string \<times> json) list" where
  "token_claims now t = [(''s'', JStr (tkIndexName t)), (''l'', JStr (tkLink t)), (''nbf'', JNum (itoa now))]"

definition token_encode :: "jwt \<Rightarrow> int \<Rightarrow> string \<Rightarrow> token \<Rightarrow> string option" where
  "token_encode J now key t = jwSign J key (token_claims now t)"

text \<open>The claims are asserted to be texts.\<close>

definition decodeToken :: "jwt \<Rightarrow> string \<Rightarrow> string \<Rightarrow> (string, token) res" where
  "decodeToken J ts key =
     (case jwParse J key ts of
        None \<Rightarrow> Err ''invalid token''
      | Some claims \<Rightarrow>
          (case (map_of claims ''s'', map_of claims ''l'') of
             (Some (JStr s), Some (JStr l)) \<Rightarrow> Ok \<lparr>tkIndexName = s, tkLink = l\<rparr>
           | _ \<Rightarrow> Panic))"

subsection \<open>The links of the results\<close>

text \<open>\<open>url.QueryEscape\<close>.\<close>

definition unreserved :: "char \<Rightarrow> bool" where
  "unreserved c \<longleftrightarrow>
     (let n = (of_char c :: nat)
      in 97 \<le> n \<and> n \<le> 122 \<or> 65 \<le> n \<and> n \<le> 90 \<or> 48 \<le> n \<and> n \<le> 57 \<or> c \<in> set ''-_.~'')"

definition hex_upper :: "nat \<Rightarrow> char" where
  "hex_upper n = char_of (if n < 10 then 48 + n else 55 + n)"

definition queryEscape :: "string \<Rightarrow> string" where
  "queryEscape s = concat (map (\<lambda>c.
     if unreserved c then [c] else if c = CHR '' '' then ''+''
     else [CHR ''%'', hex_upper (of_char c div 16), hex_upper (of_char c mod 16)]) s)"

fun asScrapeItem :: "result_item \<Rightarrow> scrape_item" where
  "asScrapeItem (ScrapeResult i) = i"
| "asScrapeItem (TorrentResult t) = scraped t"

record server_env =
  svSha1 :: "string \<Rightarrow> string"
  svJwt :: jwt
  svParseURL :: "string \<Rightarrow> string option"
  svScope :: scope_env
  svDepth :: nat

text \<open>A request: the scheme, the host, the parameters of the path and of the query, the clock and the
random bytes it would draw.\<close>

record request =
  rqTLS :: bool
  rqHost :: string
  rqPath :: "(string \<times> string) list"
  rqQuery :: "(string \<times> string list) list"
  rqNow :: int
  rqRandom :: string

definition path_param :: "request \<Rightarrow> string \<Rightarrow> string" where
  "path_param r k = (case map_of (rqPath r) k of None \<Rightarrow> [] | Some v \<Rightarrow> v)"

definition query_param :: "request \<Rightarrow> string \<Rightarrow> string" where
  "query_param r k = (case map_of (rqQuery r) k of Some (v # _) \<Rightarrow> v | _ \<Rightarrow> [])"

definition baseURL :: "server_env \<Rightarrow> server_params \<Rightarrow> request \<Rightarrow> string \<Rightarrow> string option" where
  "baseURL V p r appendPath =
     svParseURL V ((if rqTLS r then ''https'' else ''http'') @ ''://'' @ rqHost r @
       path_join (spPathPrefix p) appendPath)"

definition getTokenValue :: "server_env \<Rightarrow> int \<Rightarrow> string \<Rightarrow> scrape_item \<Rightarrow> string option" where
  "getTokenValue V now key item =
     token_encode (svJwt V) now key
       \<lparr>tkIndexName = (case itIndexer item of Some ix \<Rightarrow> riName ix | None \<Rightarrow> itSite item),
        tkLink = (if itSourceLink item = [] then itLink item else itSourceLink item)\<rparr>"

definition download_link :: "string \<Rightarrow> string \<Rightarrow> string \<Rightarrow> string" where
  "download_link root tok uuid =
     root @ ''/'' @ tok @ ''/'' @ queryEscape (replace_all uuid ''/'' ''-'') @ ''.torrent''"

text \<open>The result item is rewritten through the pointer to its embedded scraped item.\<close>

definition rewrite_item :: "server_env \<Rightarrow> int \<Rightarrow> string \<Rightarrow> string \<Rightarrow> result_item \<Rightarrow> result_item option" where
  "rewrite_item V now key root item =
     (let i = asScrapeItem item
      in if has_prefix (itLink i) ''magnet:'' then Some item
         else map_option (\<lambda>tok. item_update (\<lambda>i. i\<lparr>itLink := download_link root tok (uuidValue i)\<rparr>) item)
                (getTokenValue V now key i))"

fun rewrite_loop :: "(result_item \<Rightarrow> result_item option) \<Rightarrow> result_item list \<Rightarrow> result_item list option" where
  "rewrite_loop f [] = Some []"
| "rewrite_loop f (i # is) =
     (case f i of None \<Rightarrow> None | Some j \<Rightarrow> map_option ((#) j) (rewrite_loop f is))"

definition rewriteLinks ::
    "server_env \<Rightarrow> server_params \<Rightarrow> request \<Rightarrow> result_item list \<Rightarrow> (string, result_item list) res" where
  "rewriteLinks V p r results =
     (case baseURL V p r ''/d'' of
        None \<Rightarrow> Err ''bad base url''
      | Some root \<Rightarrow> of_error ''cannot sign''
          (rewrite_loop (rewrite_item V (rqNow r) (sharedKey (svSha1 V) (rqRandom r) p) root) results))"

subsection \<open>Movies and shows by their IDs\<close>

record enrich_services =
  showByTvdb :: "string \<Rightarrow> string + string option"
  showByTvmaze :: "string \<Rightarrow> string + string option"
  showByTvrage :: "string \<Rightarrow> string + string option"
  movieByImdb :: "string \<Rightarrow> string + (string \<times> string) option"

definition with_show :: "string + string option \<Rightarrow> query \<Rightarrow> string + query" where
  "with_show found q =
     (case found of
        Inl e \<Rightarrow> Inl e
      | Inr None \<Rightarrow> Inr q
      | Inr (Some name) \<Rightarrow> Inr (q\<lparr>qSeries := name\<rparr>))"

definition with_movie :: "string + (string \<times> string) option \<Rightarrow> query \<Rightarrow> string + query" where
  "with_movie found q =
     (case found of
        Inl e \<Rightarrow> Inl (''imdb error. '' @ e)
      | Inr None \<Rightarrow> Inr q
      | Inr (Some (name, year)) \<Rightarrow>
          if name = [] then Inl ''movie title was blank'' else Inr (q\<lparr>qMovie := name, qYear := year\<rparr>))"

definition enrichMovieAndShowData :: "enrich_services \<Rightarrow> query \<Rightarrow> string + query" where
  "enrichMovieAndShowData S q =
     (if tvdbID q \<noteq> [] \<and> tvdbID q \<noteq> ''0'' then with_show (showByTvdb S (tvdbID q)) (q\<lparr>tvdbID := ''0''\<rparr>)
      else if tvMazeID q \<noteq> [] then with_show (showByTvmaze S (tvMazeID q)) (q\<lparr>tvMazeID := ''0''\<rparr>)
      else if tvRageID q \<noteq> [] then with_show (showByTvrage S (tvRageID q)) (q\<lparr>tvRageID := []\<rparr>)
      else if imdbID q \<noteq> [] then
        with_movie (movieByImdb S (if has_prefix (imdbID q) ''tt'' then imdbID q else ''tt'' @ imdbID q))
          (q\<lparr>imdbID := []\<rparr>)
      else Inr q)"

subsection \<open>Feeds\<close>

record feed =
  fdInfo :: index_info
  fdCategory :: string
  fdItems :: "result_item list"

text \<open>The parts of an item in the XML of a feed that its readers follow; what is empty is left out of it.\<close>

record xml_item =
  xmTitle :: string
  xmGuid :: string
  xmLink :: string
  xmEnclosureURL :: string
  xmCategory :: string
  xmSize :: uint32
  xmAttributes :: "(string \<times> string) list"

definition torrent_xml :: "torrent_item \<Rightarrow> xml_item" where
  "torrent_xml t =
     \<lparr>xmTitle = title t, xmGuid = uuidValue (scraped t), xmLink = tLink t, xmEnclosureURL = tLink t,
      xmCategory = itoa (category t), xmSize = tSize t,
      xmAttributes = [(''category'', itoa (category t)), (''seeders'', itoa (seeders t)), (''peers'', itoa (peers t))]\<rparr>"

text \<open>An atom entry: its title, its link and its description. Other items than torrents panic.\<close>

fun atom_items :: "result_item list \<Rightarrow> (string \<times> string \<times> string) list option" where
  "atom_items [] = Some []"
| "atom_items (TorrentResult t # is) = map_option ((#) (title t, tLink t, tLink t)) (atom_items is)"
| "atom_items (ScrapeResult i # is) = None"

datatype response =
  Redirect string | TorznabError string nat | CapsXml capabilities
| AtomFeed "(string \<times> string \<times> string) list" | XmlFeed string "feed option" | JsonFeed string "feed option"
| NotFound string | ErrorLogged string | Download nat string string | TimedOut | Nothing
| StatusJson "string list" | HealthJson "(string \<times> bool) list"

text \<open>\<open>MarshalIndent\<close> of a feed that is nil gives nothing, so what is written is the header alone; the
atom output looks into the feed.\<close>

definition write_feed :: "string \<Rightarrow> string \<Rightarrow> feed option \<Rightarrow> response option" where
  "write_feed format encoding fd =
     (if format = ''atom'' then Option.bind fd (\<lambda>f. map_option AtomFeed (atom_items (fdItems f)))
      else if format = [] \<or> format = ''xml'' then Some (XmlFeed encoding fd)
      else if format = ''json'' then Some (JsonFeed encoding fd)
      else Some Nothing)"

subsection \<open>The torznab handlers\<close>

text \<open>What the handlers keep: the facade, the cache of feeds, where a feed may be nil, and the world.\<close>

record 'w server =
  srParams :: server_params
  srFacade :: facade
  srCache :: "(string, feed option) withTTL"
  srWorld :: 'w

record 'w handler_env =
  hvServer :: server_env
  hvServices :: enrich_services
  hvSearch :: "facade \<Rightarrow> query \<Rightarrow> 'w \<Rightarrow> (string, result_item list list) res \<times> 'w"
  hvValuesEncode :: "(string \<times> string list) list \<Rightarrow> string"
  hvOrder :: "(string \<times> nat list) list \<Rightarrow> (string \<times> nat list) list"

definition searchCacheTTL :: int where
  "searchCacheTTL = 3600 * 1000000000"

definition put_scope :: "scope \<Rightarrow> 'w server \<Rightarrow> 'w server" where
  "put_scope sc s = s\<lparr>srFacade := (srFacade s)\<lparr>fcScope := sc\<rparr>\<rparr>"

text \<open>The index a request names: the indexes and the scope after looking them up.\<close>

definition requested_indexes ::
    "'w handler_env \<Rightarrow> request \<Rightarrow> 'w server \<Rightarrow> ((string, nat list) res \<times> 'w server) option" where
  "requested_indexes H r s =
     (let sc = fcScope (srFacade s);
          (i, sc1) = resolveIndexID (rqNow r) (hvOrder H (scIndexes sc)) (path_param r ''indexes'') sc
      in map_option (\<lambda>(res, sc2). (res, put_scope sc2 s))
           (lookup (svDepth (hvServer H)) (svScope (hvServer H)) i sc1))"

definition torznabIndexCapabilities ::
    "'w handler_env \<Rightarrow> request \<Rightarrow> 'w server \<Rightarrow> response option \<times> 'w server" where
  "torznabIndexCapabilities H r s =
     (case requested_indexes H r s of
        None \<Rightarrow> (None, s)
      | Some (Panic, s1) \<Rightarrow> (None, s1)
      | Some (Err e, s1) \<Rightarrow> (Some (TorznabError e 201), s1)
      | Some (Ok [], s1) \<Rightarrow> (None, s1)
      | Some (Ok (i # _), s1) \<Rightarrow> (Some (CapsXml (runner_capabilities (index_at (fcScope (srFacade s1)) i))), s1))"

definition torznabSearch ::
    "'w handler_env \<Rightarrow> request \<Rightarrow> query \<Rightarrow> 'w server \<Rightarrow> (string, feed) res \<times> 'w server" where
  "torznabSearch H r q s =
     (let (res, w) = hvSearch H (srFacade s) q (srWorld s); s1 = s\<lparr>srWorld := w\<rparr>
      in case res of
           Panic \<Rightarrow> (Panic, s1)
         | Err e \<Rightarrow> (Err e, s1)
         | Ok pages \<Rightarrow>
             (map_res (\<lambda>rewritten. \<lparr>fdInfo = collection_info, fdCategory = qType q, fdItems = rewritten\<rparr>)
               (rewriteLinks (hvServer H) (srParams s1) r (concat pages)), s1))"

text \<open>A feed from the cache, or one that is searched for and put there, also when the search fails: it is
nil then.\<close>

definition cached_feed ::
    "'w handler_env \<Rightarrow> request \<Rightarrow> query \<Rightarrow> 'w server \<Rightarrow> (string, feed option) res \<times> 'w server" where
  "cached_feed H r q s =
     (let key = uniqueKey (hvValuesEncode H) q; (hit, c) = ttl_get (rqNow r) key (srCache s); s1 = s\<lparr>srCache := c\<rparr>
      in case hit of
           Some fd \<Rightarrow> (Ok fd, s1)
         | None \<Rightarrow>
             (case torznabSearch H r q s1 of
                (Panic, s2) \<Rightarrow> (Panic, s2)
              | (Err e, s2) \<Rightarrow> (Err e, s2\<lparr>srCache := snd (ttl_add (rqNow r) key None (srCache s2))\<rparr>)
              | (Ok fd, s2) \<Rightarrow> (Ok (Some fd), s2\<lparr>srCache := snd (ttl_add (rqNow r) key (Some fd) (srCache s2))\<rparr>)))"

definition search_types :: "string list" where
  "search_types = [''search'', ''tvsearch'', ''tv-search'', ''movie'', ''movie-search'', ''moviesearch'']"

definition answer_search ::
    "'w handler_env \<Rightarrow> request \<Rightarrow> nat \<Rightarrow> 'w server \<Rightarrow> response option \<times> 'w server" where
  "answer_search H r i s =
     (case newQueryFromUrl (rqQuery r) of
        None \<Rightarrow> (None, s)
      | Some (_, False) \<Rightarrow> (Some (TorznabError ''Invalid query'' 102), s)
      | Some (None, True) \<Rightarrow> (None, s)
      | Some (Some q0, True) \<Rightarrow>
          (case enrichMovieAndShowData (hvServices H) q0 of
             Inl _ \<Rightarrow> (Some (TorznabError ''Invalid query'' 102), s)
           | Inr q \<Rightarrow>
               (case cached_feed H r q s of
                  (Panic, s1) \<Rightarrow> (None, s1)
                | (Err e, s1) \<Rightarrow> (Some (TorznabError e 900), s1)
                | (Ok fd, s1) \<Rightarrow>
                    (write_feed (query_param r ''format'')
                       (defEncoding (rnDefinition (index_at (fcScope (srFacade s1)) i))) fd, s1))))"

definition torznabHandler ::
    "'w handler_env \<Rightarrow> request \<Rightarrow> 'w server \<Rightarrow> response option \<times> 'w server" where
  "torznabHandler H r s =
     (let t = query_param r ''t''
      in if t = [] then (Some (Redirect (''/torznab/caps/'' @ path_param r ''indexes'')), s)
         else if t = ''caps'' then torznabIndexCapabilities H r s
         else (case requested_indexes H r s of
                 None \<Rightarrow> (None, s)
               | Some (Panic, s1) \<Rightarrow> (None, s1)
               | Some (Err e, s1) \<Rightarrow> (Some (TorznabError e 201), s1)
               | Some (Ok [], s1) \<Rightarrow> (None, s1)
               | Some (Ok (i # _), s1) \<Rightarrow>
                   if \<not> checkAPIKey (svSha1 (hvServer H)) (rqRandom r) (srParams s1) (query_param r ''apikey'')
                   then (Some (TorznabError ''Invalid apikey parameter'' 102), s1)
                   else if t \<in> set search_types then answer_search H r i s1
                   else (Some (TorznabError ''Unknown type parameter'' 201), s1)))"

subsection \<open>Opening a result: indexer/download.go\<close>

record ('e, 'd, 'j, 'w) open_env =
  opRunner :: "('e, 'd, 'j, 'w) runner_env"
  opParse :: "string \<Rightarrow> url_ref option"
  opOpen :: "url_ref \<Rightarrow> 'w \<Rightarrow> string option \<times> 'w"
  opDelivered :: "url_ref \<Rightarrow> 'w \<Rightarrow> nat option \<times> 'w"

definition downloadsNeedResolution :: "runner \<Rightarrow> bool" where
  "downloadsNeedResolution r \<longleftrightarrow> map_of (rnFailing r) ''download'' \<noteq> None"

text \<open>The link that is opened: the source link of the item, or what the field \<open>download\<close> gives on the
page of its link; \<open>None\<close> inside is the answer without a proxy and without an error.\<close>

definition download_source ::
    "('e, 'd, 'j, 'w) open_env \<Rightarrow> scrape_item \<Rightarrow> runner \<Rightarrow> 'w \<Rightarrow> (search_error, string option) res \<times> 'w" where
  "download_source P item r w =
     (if \<not> (itSourceLink item = [] \<or> downloadsNeedResolution r) then (Ok (Some (itSourceLink item)), w)
      else
        let E = opRunner P; Q = seQuery (reSession E);
            field = (case map_of (rnFailing r) ''download'' of
                       Some f \<Rightarrow> f | None \<Rightarrow> \<lparr>fbField = [], fbBlock = empty_selector\<rparr>)
        in case opParse P (itLink item) of
             None \<Rightarrow> (Err TargetURLError, w)
           | Some u \<Rightarrow>
               (case reFetch E (newRequestOptions u) w of
                  (Panic, w1) \<Rightarrow> (Panic, w1)
                | (Err e, w1) \<Rightarrow> (Err (FetchError e), w1)
                | (Ok (HTMLResult _ _ _ (Some (root, d))), w1) \<Rightarrow>
                    (case fst (matchBlock (filters (reExtract E)) (dom_ops Q) (fbBlock field) root d) of
                       Panic \<Rightarrow> (Panic, w1)
                     | Err _ \<Rightarrow> (Ok None, w1)
                     | Ok v \<Rightarrow> (of_panic (map_option Some (firstString (reExtract E) v)), w1))
                | (Ok (HTMLResult _ _ _ None), w1) \<Rightarrow> (Panic, w1)
                | (Ok _, w1) \<Rightarrow> (Ok (Some (itSourceLink item)), w1)))"

definition runner_open ::
    "('e, 'd, 'j, 'w) open_env \<Rightarrow> scrape_item \<Rightarrow> runner \<Rightarrow> 'w \<Rightarrow>
     (search_error, url_ref option) res \<times> runner \<times> 'w" where
  "runner_open P item r w =
     (let S = reSession (opRunner P)
      in case acquire S (rnSessions r) w of
           (Panic, m, w1) \<Rightarrow> (Panic, r\<lparr>rnSessions := m\<rparr>, w1)
         | (Err e, m, w1) \<Rightarrow> (Err (SessionError e), r\<lparr>rnSessions := m\<rparr>, w1)
         | (Ok _, m, w1) \<Rightarrow>
             let r1 = r\<lparr>rnSessions := m\<rparr>
             in case download_source P item r1 w1 of
                  (Panic, w2) \<Rightarrow> (Panic, r1, w2)
                | (Err e, w2) \<Rightarrow> (Err e, r1, w2)
                | (Ok None, w2) \<Rightarrow> (Ok None, r1, w2)
                | (Ok (Some link), w2) \<Rightarrow>
                    (case seResolve S link w2 of
                       (None, w3) \<Rightarrow> (Err TargetURLError, r1, w3)
                     | (Some u, w3) \<Rightarrow>
                         (case opOpen P u w3 of
                            (Some e, w4) \<Rightarrow> (Err (FetchError e), r1, w4)
                          | (None, w4) \<Rightarrow> (Ok (Some u), r1, w4))))"

definition runner_download ::
    "('e, 'd, 'j, 'w) open_env \<Rightarrow> string \<Rightarrow> runner \<Rightarrow> 'w \<Rightarrow>
     (search_error, url_ref option) res \<times> runner \<times> 'w" where
  "runner_download P url r w = runner_open P (empty_scrape_item\<lparr>itSourceLink := url\<rparr>) r w"

subsection \<open>Downloads through the server\<close>

definition put_runner :: "nat \<Rightarrow> runner \<Rightarrow> 'w \<Rightarrow> 'w server \<Rightarrow> 'w server" where
  "put_runner i r w s =
     (put_scope ((fcScope (srFacade s))\<lparr>scRunners := (scRunners (fcScope (srFacade s)))[i := r]\<rparr>) s)\<lparr>srWorld := w\<rparr>"

definition send_download ::
    "('e, 'd, 'j, 'w) open_env \<Rightarrow> string \<Rightarrow> string \<Rightarrow> nat \<Rightarrow> 'w server \<Rightarrow> response option \<times> 'w server" where
  "send_download P link filename i s =
     (case runner_download P link (index_at (fcScope (srFacade s)) i) (srWorld s) of
        (Panic, r, w) \<Rightarrow> (None, put_runner i r w s)
      | (Err e, r, w) \<Rightarrow> (Some (ErrorLogged (reErrorText (opRunner P) e)), put_runner i r w s)
      | (Ok None, r, w) \<Rightarrow> (Some (ErrorLogged ''couldn't open stream for download''), put_runner i r w s)
      | (Ok (Some u), r, w) \<Rightarrow>
          (case opDelivered P u w of
             (Some len, w1) \<Rightarrow> (Some (Download len link filename), put_runner i r w1 s)
           | (None, w1) \<Rightarrow> (Some TimedOut, put_runner i r w1 s)))"

definition downloadHandler ::
    "'w handler_env \<Rightarrow> ('e, 'd, 'j, 'w) open_env \<Rightarrow> request \<Rightarrow> 'w server \<Rightarrow> response option \<times> 'w server" where
  "downloadHandler H P r s =
     (let tok = path_param r ''token''; V = hvServer H
      in if tok = [] then (Some Nothing, s)
         else (case decodeToken (svJwt V) tok (sharedKey (svSha1 V) (rqRandom r) (srParams s)) of
                 Panic \<Rightarrow> (None, s)
               | Err e \<Rightarrow> (Some (ErrorLogged e), s)
               | Ok t \<Rightarrow>
                   if tkLink t = [] then (Some (NotFound ''Indexes link not found''), s)
                   else (case lookup (svDepth V) (svScope V) (tkIndexName t) (fcScope (srFacade s)) of
                           None \<Rightarrow> (None, s)
                         | Some (Panic, sc) \<Rightarrow> (None, put_scope sc s)
                         | Some (Err e, sc) \<Rightarrow> (Some (ErrorLogged e), put_scope sc s)
                         | Some (Ok [], sc) \<Rightarrow> (Some (ErrorLogged ''indexer not found''), put_scope sc s)
                         | Some (Ok (i # _), sc) \<Rightarrow>
                             send_download P (tkLink t) (path_param r ''filename'') i (put_scope sc s))))"

subsection \<open>Status and health\<close>

definition aggregatesStatus ::
    "'w handler_env \<Rightarrow> (index_definition \<Rightarrow> string) \<Rightarrow> 'w server \<Rightarrow> response option \<times> 'w server" where
  "aggregatesStatus H language s =
     (case lookup (svDepth (hvServer H)) (svScope (hvServer H)) ''all'' (fcScope (srFacade s)) of
        None \<Rightarrow> (None, s)
      | Some (Panic, sc) \<Rightarrow> (None, put_scope sc s)
      | Some (Err e, sc) \<Rightarrow> (Some (ErrorLogged e), put_scope sc s)
      | Some (Ok c, sc) \<Rightarrow>
          (map_option StatusJson (those (map (\<lambda>i. map_option infoTitle (runner_info language (index_at sc i))) c)),
           put_scope sc s))"

record index_status =
  isIndex :: string
  isAggregateStatus :: bool
  isErrors :: "string list"
  isSize :: nat

text \<open>\<open>GetIndexesStatus\<close>: the collections in the order of the runtime, the number of records by the
namespace. A collection without indexes is nil here and has an empty entry.\<close>

fun getIndexesStatus ::
    "int \<Rightarrow> (string \<Rightarrow> nat option) \<Rightarrow> (string \<times> nat list) list \<Rightarrow> scope \<Rightarrow> index_status list \<times> scope" where
  "getIndexesStatus now records [] s = ([], s)"
| "getIndexesStatus now records ((key, c) # cs) s =
     (if c = [] then
        apfst ((#) \<lparr>isIndex = [], isAggregateStatus = False, isErrors = [], isSize = 0\<rparr>)
          (getIndexesStatus now records cs s)
      else
        let (errs, s1) = collection_errors now c s;
            st = \<lparr>isIndex = key, isAggregateStatus = (length c > 1), isErrors = errs,
                  isSize = (case records key of None \<Rightarrow> 0 | Some n \<Rightarrow> n)\<rparr>
        in apfst ((#) st) (getIndexesStatus now records cs s1))"

text \<open>The latest results come from a cache for three minutes.\<close>

definition cacheTTL :: int where
  "cacheTTL = 3 * 60 * 1000000000"

definition status_latest ::
    "int \<Rightarrow> ('w \<Rightarrow> 'l \<times> 'w) \<Rightarrow> (string, 'l) withTTL \<Rightarrow> 'w \<Rightarrow> 'l option \<times> (string, 'l) withTTL \<times> 'w" where
  "status_latest now getLatestItems c w =
     (if \<not> ttl_contains ''status'' c
      then (let (l, w') = getLatestItems w in (Some l, snd (ttl_add now ''status'' l c), w'))
      else (let (hit, c') = ttl_get now ''status'' c in (hit, c', w)))"

text \<open>The health of every collection that is open, in the order of the runtime.\<close>

fun health_loop ::
    "('e, 'd, 'j, 'w) runner_env \<Rightarrow> (index_definition \<Rightarrow> string) \<Rightarrow> categories \<Rightarrow> int \<Rightarrow>
     (string \<times> nat list) list \<Rightarrow> (string \<times> bool) list \<Rightarrow> scope \<Rightarrow> 'w \<Rightarrow>
     (string \<times> bool) list option \<times> scope \<times> 'w" where
  "health_loop E language cats now [] output s w = (Some output, s, w)"
| "health_loop E language cats now ((key, c) # cs) output s w =
     (case collection_healthCheck E language cats now c s w of
        (Panic, s1, w1) \<Rightarrow> (None, s1, w1)
      | (res, s1, w1) \<Rightarrow>
          (case c of
             [] \<Rightarrow> (None, s1, w1)
           | i # _ \<Rightarrow> health_loop E language cats now cs
               (AList.update (defSite (rnDefinition (index_at s1 i))) (case res of Ok _ \<Rightarrow> True | _ \<Rightarrow> False) output)
               s1 w1))"

definition server_healthCheck ::
    "'w handler_env \<Rightarrow> ('e, 'd, 'j, 'w) runner_env \<Rightarrow> (index_definition \<Rightarrow> string) \<Rightarrow> categories \<Rightarrow> int \<Rightarrow>
     'w server \<Rightarrow> response option \<times> 'w server" where
  "server_healthCheck H E language cats now s =
     (let sc = fcScope (srFacade s); (out, sc1, w) = health_loop E language cats now (hvOrder H (scIndexes sc)) [] sc (srWorld s)
      in (map_option HealthJson out, (put_scope sc1 s)\<lparr>srWorld := w\<rparr>))"

end
