(* ===== verification/ServerFacts.thy ===== *)
theory ServerFacts
  imports Server
begin

text \<open>
  What the server does with a request: who may search, what the cache of feeds answers after a failed
  search, where the links of the results lead, and what the status and health endpoints report.
\<close>

subsection \<open>The key\<close>

text \<open>A server that is configured without a key accepts requests without one: the key read from the
  configuration is the empty text, not nil, so neither a passphrase nor a random key takes its place.\<close>

theorem server_without_key_is_open:
  assumes "getString ''api_key'' = []" "query_param r ''apikey'' = []"
  shows "checkAPIKey sha1 (rqRandom r) (newServer (viper_getBytes getString)) (query_param r ''apikey'')"
  using assms by (simp add: checkAPIKey_def sharedKey_def newServer_def viper_getBytes_def)

theorem server_without_key_is_open_witness:
  "checkAPIKey (\<lambda>s. s) [] (newServer (viper_getBytes (\<lambda>k. []))) []"
  using server_without_key_is_open
    [of "\<lambda>k. []" "\<lparr>rqTLS = False, rqHost = [], rqPath = [], rqQuery = [], rqNow = 0, rqRandom = []\<rparr>" "\<lambda>s. s"]
  by (simp add: query_param_def)

lemma requested_indexes_frame:
  "requested_indexes H r s = Some (x, s1) \<Longrightarrow> srWorld s1 = srWorld s \<and> srCache s1 = srCache s \<and> srParams s1 = srParams s"
  by (auto simp: requested_indexes_def put_scope_def Let_def split: prod.splits)

text \<open>C30: Without the key of the server a request neither searches nor changes the cache of feeds, whatever
  it asks for.\<close>

theorem no_search_without_key:
  assumes "\<not> checkAPIKey (svSha1 (hvServer H)) (rqRandom r) (srParams s) (query_param r ''apikey'')"
  shows "srWorld (snd (torznabHandler H r s)) = srWorld s \<and> srCache (snd (torznabHandler H r s)) = srCache s"
proof -
  obtain x where x: "requested_indexes H r s = x" by simp
  show ?thesis
  proof (cases x)
    case None
    with x show ?thesis by (simp add: torznabHandler_def torznabIndexCapabilities_def Let_def)
  next
    case (Some rs)
    then obtain res s1 where rs: "requested_indexes H r s = Some (res, s1)" using x by (cases rs) auto
    note frame = requested_indexes_frame [OF rs]
    show ?thesis
    proof (cases res)
      case (Ok c)
      then show ?thesis using rs frame assms
        by (cases c) (simp_all add: torznabHandler_def torznabIndexCapabilities_def Let_def)
    qed (use rs frame in \<open>simp_all add: torznabHandler_def torznabIndexCapabilities_def Let_def\<close>)
  qed
qed

definition sample_token :: token where
  "sample_token = \<lparr>tkIndexName = ''n'', tkLink = ''u/8''\<rparr>"

definition sample_server_env :: server_env where
  "sample_server_env = \<lparr>svSha1 = (\<lambda>s. s),
     svJwt = \<lparr>jwSign = (\<lambda>k c. if c = token_claims 0 sample_token then Some ''t'' else None),
       jwParse = (\<lambda>k s. if s = ''t'' then Some (token_claims 0 sample_token) else None)\<rparr>,
     svParseURL = Some, svScope = sample_scope_env [''a'', ''b''], svDepth = 2\<rparr>"

definition sample_handler_env :: "nat handler_env" where
  "sample_handler_env = \<lparr>hvServer = sample_server_env,
     hvServices = \<lparr>showByTvdb = (\<lambda>i. Inr None), showByTvmaze = (\<lambda>i. Inr None), showByTvrage = (\<lambda>i. Inr None),
       movieByImdb = (\<lambda>i. Inr None)\<rparr>,
     hvSearch = (\<lambda>f q w. (Err ''down'', Suc w)), hvValuesEncode = (\<lambda>vs. concat (map fst vs)),
     hvOrder = (\<lambda>cs. cs)\<rparr>"

definition sample_server :: "nat server" where
  "sample_server = \<lparr>srParams = \<lparr>spApiKey = Some ''k'', spPassphrase = [], spPathPrefix = []\<rparr>,
     srFacade = newEmptyFacade sample_facade_config, srCache = projr (newTTL 100 searchCacheTTL), srWorld = 0\<rparr>"

definition sample_request :: "string \<Rightarrow> request" where
  "sample_request key = \<lparr>rqTLS = False, rqHost = ''h'', rqPath = [(''indexes'', ''a'')],
     rqQuery = [(''t'', [''search'']), (''apikey'', [key])], rqNow = 0, rqRandom = []\<rparr>"

theorem no_search_without_key_witness:
  "srWorld (snd (torznabHandler sample_handler_env (sample_request ''x'') sample_server)) = 0
     \<and> fst (torznabHandler sample_handler_env (sample_request ''x'') sample_server) =
         Some (TorznabError ''Invalid apikey parameter'' 102)"
proof -
  have "\<not> checkAPIKey (svSha1 (hvServer sample_handler_env)) (rqRandom (sample_request ''x'')) (srParams sample_server)
      (query_param (sample_request ''x'') ''apikey'')" by code_simp
  from no_search_without_key [OF this] have "srWorld (snd (torznabHandler sample_handler_env (sample_request ''x'') sample_server)) = 0"
    by (simp add: sample_server_def)
  moreover have "fst (torznabHandler sample_handler_env (sample_request ''x'') sample_server) =
      Some (TorznabError ''Invalid apikey parameter'' 102)" by code_simp
  ultimately show ?thesis by blast
qed

subsection \<open>The cache of feeds\<close>

lemma get_after_add:
  assumes "ttl_inv c" "0 < lsize (base c)" "now \<le> at + ttl c"
  shows "fst (ttl_get now k (snd (ttl_add at k v c))) = Some v"
proof -
  let ?c = "snd (ttl_add at k v c)"
  have inv: "ttl_inv ?c" using assms(1) by (rule ttl_add_inv)
  have t: "ttl ?c = ttl c" by (simp add: ttl_add_def case_prod_unfold Let_def)
  have "map_of (snd (sp_add cap k x xs)) k = Some x" if "0 < cap" for cap x and xs :: "('a \<times> 'b ttledCacheValue) list"
    using that by (cases "filter (\<lambda>e. fst e \<noteq> k) xs") (auto simp: sp_add_def sp_touch_def Let_def)
  then have "map_of (ttl_abs ?c) k = Some \<lparr>tvalue = v, lastAccessTime = at\<rparr>"
    using ttl_add_abs [OF assms(1)] assms(2) by metis
  with ttl_get_abs [OF inv, of now k] t assms(3) show ?thesis
    by (auto simp: stale_at_def split: if_splits)
qed

lemma ttl_get_frame:
  "ttl (snd (ttl_get now k c)) = ttl c \<and> lsize (base (snd (ttl_get now k c))) = lsize (base c)"
proof -
  obtain v b where g: "lru_get k (base c) = (v, b)" by fastforce
  with get_frame(1) [of k "base c"] have "lsize b = lsize (base c)" by simp
  with g show ?thesis by (auto simp: ttl_get_def split: option.split)
qed

lemma lookup_is_kept: "lookup n E key s = Some (Ok c, s') \<Longrightarrow> map_of (scIndexes s') key = Some c"
proof (cases n)
  case (Suc m)
  assume l: "lookup n E key s = Some (Ok c, s')"
  show ?thesis
  proof (cases "map_of (scIndexes s) key")
    case (Some d)
    with l Suc show ?thesis by (auto simp: lookup_found)
  next
    case None
    then obtain rs where "lookup n E key s = map_option (keep_indexes key) rs"
      using Suc by (cases "names_one key") (auto simp: lookup_single lookup_several intro: that [of "Some _"])
    with l obtain x t where "keep_indexes key (x, t) = (Ok c, s')" by auto
    then show ?thesis by (cases x) (auto simp: keep_indexes_def update_conv')
  qed
qed simp

definition global_id :: "string \<Rightarrow> bool" where
  "global_id i \<longleftrightarrow> i = [] \<or> i = indexSelectorAggregate \<or> i = indexSelectorAll"

lemma requested_again:
  assumes "requested_indexes H r s = Some (Ok c, s1)" "\<not> global_id (path_param r ''indexes'')"
    and "fcScope (srFacade s2) = fcScope (srFacade s1)"
  shows "requested_indexes H (r\<lparr>rqNow := later\<rparr>) s2 = Some (Ok c, s2)"
proof -
  let ?V = "hvServer H" and ?i = "path_param r ''indexes''"
  have r: "resolveIndexID now order ?i sc = (?i, sc)" for now order sc
    using assms(2) by (simp add: resolveIndexID_def global_id_def)
  from assms(1) r obtain sc where l: "lookup (svDepth ?V) (svScope ?V) ?i (fcScope (srFacade s)) = Some (Ok c, sc)"
    "s1 = put_scope sc s"
    by (auto simp: requested_indexes_def Let_def)
  have "map_of (scIndexes sc) ?i = Some c" by (rule lookup_is_kept [OF l(1)])
  moreover obtain m where "svDepth ?V = Suc m" using l(1) by (cases "svDepth ?V") auto
  moreover have "path_param (r\<lparr>rqNow := later\<rparr>) ''indexes'' = ?i" by (simp add: path_param_def)
  ultimately show ?thesis
    using assms(3) l(2) r by (simp add: requested_indexes_def Let_def lookup_found put_scope_def)
qed

lemma torznabSearch_frame:
  "torznabSearch H r q s = (res, s1) \<Longrightarrow>
   srFacade s1 = srFacade s \<and> srCache s1 = srCache s \<and> srParams s1 = srParams s"
  by (auto simp: torznabSearch_def Let_def split: prod.splits res.splits)

lemma write_feed_no_error: "write_feed format encoding fd \<noteq> Some (TorznabError e n)"
  by (auto simp: write_feed_def split: Option.bind_splits)

lemma failed_answer:
  assumes "answer_search H r i s = (Some (TorznabError e 900), s1)"
  obtains q0 q where "newQueryFromUrl (rqQuery r) = Some (Some q0, True)"
    "enrichMovieAndShowData (hvServices H) q0 = Inr q" "cached_feed H r q s = (Err e, s1)"
proof -
  from assms obtain q0 q where q: "newQueryFromUrl (rqQuery r) = Some (Some q0, True)"
    "enrichMovieAndShowData (hvServices H) q0 = Inr q"
    by (auto simp: answer_search_def split: option.splits prod.splits bool.splits sum.splits)
  moreover from assms q have "cached_feed H r q s = (Err e, s1)"
    by (auto simp: answer_search_def write_feed_no_error split: prod.splits res.splits)
  ultimately show ?thesis by (rule that)
qed

lemma failed_feed:
  assumes "cached_feed H r q s = (Err e, s1)"
  shows "srFacade s1 = srFacade s \<and> srParams s1 = srParams s \<and>
    (let key = uniqueKey (hvValuesEncode H) q
     in srCache s1 = snd (ttl_add (rqNow r) key None (snd (ttl_get (rqNow r) key (srCache s)))))"
  using assms by (auto simp: cached_feed_def Let_def split: prod.splits option.splits res.splits dest!: torznabSearch_frame)

lemma feed_from_cache:
  assumes "fst (ttl_get (rqNow r) (uniqueKey (hvValuesEncode H) q) (srCache s)) = Some fd"
  shows "\<exists>c. cached_feed H r q s = (Ok fd, s\<lparr>srCache := c\<rparr>)"
  using assms by (auto simp: cached_feed_def Let_def split: prod.splits)

lemma failed_handler:
  assumes "torznabHandler H r s = (Some (TorznabError e 900), s1)"
  obtains i c s0 where "requested_indexes H r s = Some (Ok (i # c), s0)"
    "query_param r ''t'' \<in> set search_types"
    "checkAPIKey (svSha1 (hvServer H)) (rqRandom r) (srParams s0) (query_param r ''apikey'')"
    "answer_search H r i s0 = (Some (TorznabError e 900), s1)"
  using assms
  by (auto simp: torznabHandler_def torznabIndexCapabilities_def Let_def
    split: if_splits option.splits prod.splits res.splits list.splits)

text \<open>C31: A search that fails is remembered as a feed that is nil: for an hour the same request is answered
  without searching, as a success with an empty body.\<close>

theorem failed_search_served_from_cache:
  assumes "torznabHandler H r s = (Some (TorznabError e 900), s1)"
    and "\<not> global_id (path_param r ''indexes'')" "query_param r ''format'' = []"
    and "ttl_inv (srCache s)" "0 < lsize (base (srCache s))" "later \<le> rqNow r + ttl (srCache s)"
  shows "\<exists>encoding s2. torznabHandler H (r\<lparr>rqNow := later\<rparr>) s1 = (Some (XmlFeed encoding None), s2)
    \<and> srWorld s2 = srWorld s1"
proof -
  let ?r = "r\<lparr>rqNow := later\<rparr>"
  obtain i c s0 where h: "requested_indexes H r s = Some (Ok (i # c), s0)"
    "query_param r ''t'' \<in> set search_types"
    "checkAPIKey (svSha1 (hvServer H)) (rqRandom r) (srParams s0) (query_param r ''apikey'')"
    "answer_search H r i s0 = (Some (TorznabError e 900), s1)"
    using failed_handler [OF assms(1)] .
  obtain q0 q where q: "newQueryFromUrl (rqQuery r) = Some (Some q0, True)"
    "enrichMovieAndShowData (hvServices H) q0 = Inr q" "cached_feed H r q s0 = (Err e, s1)"
    using failed_answer [OF h(4)] .
  let ?key = "uniqueKey (hvValuesEncode H) q"
  note f = failed_feed [OF q(3), unfolded Let_def]
  let ?c = "snd (ttl_get (rqNow r) ?key (srCache s0))"
  have c0: "srCache s0 = srCache s" using requested_indexes_frame [OF h(1)] by blast
  have "fst (ttl_get later ?key (snd (ttl_add (rqNow r) ?key None ?c))) = Some None"
    using assms(4-6) c0 ttl_get_frame [of "rqNow r" ?key "srCache s0"]
    by (intro get_after_add ttl_get_inv) auto
  with f have "fst (ttl_get (rqNow ?r) ?key (srCache s1)) = Some None" by simp
  from feed_from_cache [OF this] obtain c' where hit: "cached_feed H ?r q s1 = (Ok None, s1\<lparr>srCache := c'\<rparr>)" by blast
  have again: "requested_indexes H ?r s1 = Some (Ok (i # c), s1)"
    using requested_again [OF h(1) assms(2)] f by simp
  have p: "query_param ?r k = query_param r k" for k by (simp add: query_param_def)
  have t: "query_param r ''t'' \<noteq> []" "query_param r ''t'' \<noteq> ''caps''"
    using h(2) by (auto simp: search_types_def)
  have "answer_search H ?r i s1 = (Some (XmlFeed (defEncoding (rnDefinition (index_at (fcScope (srFacade s1)) i))) None),
      s1\<lparr>srCache := c'\<rparr>)"
    using q(1,2) hit assms(3) p by (simp add: answer_search_def write_feed_def)
  with again t h(2,3) f p show ?thesis
    by (simp add: torznabHandler_def Let_def)
qed

theorem failed_search_served_from_cache_witness:
  "\<exists>s1 s2 encoding. torznabHandler sample_handler_env (sample_request ''k'') sample_server =
       (Some (TorznabError ''down'' 900), s1)
     \<and> torznabHandler sample_handler_env ((sample_request ''k'')\<lparr>rqNow := 9\<rparr>) s1 = (Some (XmlFeed encoding None), s2)"
proof -
  have "fst (torznabHandler sample_handler_env (sample_request ''k'') sample_server) = Some (TorznabError ''down'' 900)"
    by code_simp
  then obtain s1 where s1: "torznabHandler sample_handler_env (sample_request ''k'') sample_server =
      (Some (TorznabError ''down'' 900), s1)" by (metis prod.collapse)
  obtain c :: "(string, feed option) withTTL" where c: "newTTL 100 searchCacheTTL = Inr c"
    by (simp add: newTTL_def newTTLWithEvict_def newLRU_def)
  from newTTL_inv [OF c [unfolded newTTL_def]] c have inv: "ttl_inv (srCache sample_server)"
    "0 < lsize (base (srCache sample_server))" "9 \<le> rqNow (sample_request ''k'') + ttl (srCache sample_server)"
    by (simp_all add: sample_server_def sample_request_def searchCacheTTL_def)
  have "\<not> global_id (path_param (sample_request ''k'') ''indexes'')"
    "query_param (sample_request ''k'') ''format'' = []" by code_simp+
  from failed_search_served_from_cache [OF s1 this inv] s1 show ?thesis by blast
qed

subsection \<open>The links of the results\<close>

lemma rewrite_loop_nth:
  "rewrite_loop f xs = Some ys \<Longrightarrow> length ys = length xs \<and> (\<forall>i<length xs. f (xs ! i) = Some (ys ! i))"
proof (induction xs arbitrary: ys)
  case (Cons x xs)
  then obtain y zs where "f x = Some y" "rewrite_loop f xs = Some zs" "ys = y # zs"
    by (auto split: option.splits)
  with Cons.IH show ?case by (auto simp: nth_Cons split: nat.split)
qed simp

lemma scrape_of_update [simp]: "asScrapeItem (item_update f item) = f (asScrapeItem item)"
  by (cases item) simp_all

text \<open>C32: The link of every result but a magnet link leads to the server and carries a token: what the
  server reads from it with its key is the name of the index and the link the result came with.\<close>

theorem rewritten_links_decode:
  assumes "rewriteLinks V p r results = Ok results'" "n < length results"
    and "\<not> has_prefix (itLink (asScrapeItem (results ! n))) ''magnet:''" "spApiKey p = Some k"
    and "\<And>t s. jwSign (svJwt V) k (token_claims (rqNow r) t) = Some s \<Longrightarrow>
      jwParse (svJwt V) k s = Some (token_claims (rqNow r) t)"
  shows "\<exists>root tok. itLink (asScrapeItem (results' ! n)) =
      download_link root tok (uuidValue (asScrapeItem (results ! n)))
    \<and> decodeToken (svJwt V) tok (sharedKey (svSha1 V) rnd p) = Ok
        \<lparr>tkIndexName = (case itIndexer (asScrapeItem (results ! n)) of
             Some ix \<Rightarrow> riName ix | None \<Rightarrow> itSite (asScrapeItem (results ! n))),
         tkLink = (if itSourceLink (asScrapeItem (results ! n)) = [] then itLink (asScrapeItem (results ! n))
           else itSourceLink (asScrapeItem (results ! n)))\<rparr>"
proof -
  let ?i = "asScrapeItem (results ! n)"
  have key: "sharedKey (svSha1 V) x p = k" for x using assms(4) by (simp add: sharedKey_def)
  from assms(1) obtain root where
    "rewrite_loop (rewrite_item V (rqNow r) k root) results = Some results'"
    by (auto simp: rewriteLinks_def of_error_def key split: option.splits)
  from rewrite_loop_nth [OF this] assms(2)
  have "rewrite_item V (rqNow r) k root (results ! n) = Some (results' ! n)" by blast
  with assms(3) obtain tok where tok: "getTokenValue V (rqNow r) k ?i = Some tok"
    "results' ! n = item_update (\<lambda>i. i\<lparr>itLink := download_link root tok (uuidValue i)\<rparr>) (results ! n)"
    by (auto simp: rewrite_item_def Let_def)
  let ?t = "\<lparr>tkIndexName = (case itIndexer ?i of Some ix \<Rightarrow> riName ix | None \<Rightarrow> itSite ?i),
    tkLink = (if itSourceLink ?i = [] then itLink ?i else itSourceLink ?i)\<rparr>"
  have "jwSign (svJwt V) k (token_claims (rqNow r) ?t) = Some tok"
    using tok(1) by (simp add: getTokenValue_def token_encode_def)
  from assms(5) [OF this] have "decodeToken (svJwt V) tok k = Ok ?t"
    by (simp add: decodeToken_def token_claims_def)
  moreover have "itLink (asScrapeItem (results' ! n)) = download_link root tok (uuidValue ?i)"
    by (simp add: tok(2))
  ultimately show ?thesis unfolding key by blast
qed

theorem rewritten_links_decode_witness:
  "\<exists>results. rewriteLinks sample_server_env (srParams sample_server) (sample_request []) [ScrapeResult
       (empty_scrape_item\<lparr>itLink := ''u/8'', itIndexer := Some \<lparr>riID = [], riName = ''n''\<rparr>\<rparr>)] = Ok results
     \<and> (\<exists>root tok. itLink (asScrapeItem (results ! 0)) = download_link root tok []
       \<and> decodeToken (svJwt sample_server_env) tok ''k'' = Ok sample_token)"
proof -
  let ?i = "empty_scrape_item\<lparr>itLink := ''u/8'', itIndexer := Some \<lparr>riID = [], riName = ''n''\<rparr>\<rparr>"
  let ?run = "rewriteLinks sample_server_env (srParams sample_server) (sample_request []) [ScrapeResult ?i]"
  have "map_res length ?run = Ok 1" by code_simp
  then obtain results where run: "?run = Ok results" by (auto elim!: map_res.elims)
  have key: "spApiKey (srParams sample_server) = Some ''k''" by (simp add: sample_server_def)
  have law: "jwParse (svJwt sample_server_env) ''k'' s = Some (token_claims (rqNow (sample_request [])) t)"
    if "jwSign (svJwt sample_server_env) ''k'' (token_claims (rqNow (sample_request [])) t) = Some s" for t s
    using that by (auto simp: sample_server_env_def sample_request_def split: if_splits)
  have m: "\<not> has_prefix (itLink (asScrapeItem ([ScrapeResult ?i] ! 0))) ''magnet:''" by code_simp
  have k: "sharedKey (svSha1 sample_server_env) [] (srParams sample_server) = ''k''"
    by (simp add: sharedKey_def sample_server_def)
  have z: "0 < length [ScrapeResult ?i]" by simp
  from rewritten_links_decode [OF run z m key law, of "[]"] run k show ?thesis
    by (auto simp: empty_scrape_item_def sample_token_def)
qed

subsection \<open>The links in the feed\<close>

text \<open>A torrent has a link of its own besides that of the scraped item in it, and it is its own that is
written to a feed.\<close>

fun own_link :: "result_item \<Rightarrow> string" where
  "own_link (ScrapeResult i) = []"
| "own_link (TorrentResult t) = tLink t"

lemma own_link_update [simp]: "own_link (item_update f item) = own_link item"
  by (cases item) simp_all

lemma populateTorrentItemField_link:
  "populateTorrentItemField X k v row raw t = Some (ok, t') \<Longrightarrow> tLink t' = tLink t"
  unfolding populateTorrentItemField_def set_text_def set_parsed_def set_details_def set_title_def Let_def
  by (auto split: if_split_asm option.split_asm)

lemma populateField_link:
  "populateField X scheme k v row raw item = Some item' \<Longrightarrow> own_link item' = own_link item"
  by (cases item) (auto simp: populateField_def populateTorrentItemField_link split: if_splits)

lemma populate_fields_link:
  "populate_fields X scheme raw ks vals item = Some item' \<Longrightarrow> own_link item' = own_link item"
  by (induction ks arbitrary: vals item)
    (auto split: option.splits prod.splits dest!: populateField_link)

lemma finish_item_link: "own_link (finish_item X def q cats item) = own_link item"
  by (cases item) (simp_all add: finish_item_def populateTorrentData_def resolveItemCategory_def Let_def)

lemma new_item_link: "own_link (new_item def) = []"
  by (simp add: new_item_def createNewResultItem_def empty_torrent_def Let_def)

lemma extracted_link:
  assumes "extractItem X D def q cats n el st = (Ok item, st')"
  shows "own_link item = []"
proof (rule extractItem_Ok [OF assms], goal_cases)
  case (1 found raw failing d vals item0)
  from populate_fields_link [OF 1(3)] have "own_link item0 = []" by (simp add: new_item_link)
  with 1(4,5) show ?case by (cases "hasDateHeader def") (auto simp: finish_item_link)
qed

lemma process_loop_link:
  assumes "process_loop X D def q cats i rows results st = (Some out, st')" "\<forall>r\<in>set results. own_link r = []"
  shows "\<forall>r\<in>set out. own_link r = []"
  using assms
proof (induction X D def q cats i rows results st rule: process_loop.induct)
  case (1 X D def q cats i results st)
  then show ?case by simp
next
  case (2 X D def q cats i row rows results st)
  obtain x st1 where x: "extractItem X D def q cats (i + 1) row st = (x, st1)"
    by (cases "extractItem X D def q cats (i + 1) row st")
  show ?case
  proof (cases x)
    case (Ok item)
    with 2 x extracted_link [of X D def q cats "i + 1" row st item st1] show ?thesis by (simp split: if_splits)
  qed (use 2 x in \<open>simp_all split: if_splits\<close>)
qed

lemma rewritten_link:
  assumes "rewriteLinks V p r results = Ok results'"
  shows "map own_link results' = map own_link results"
proof -
  from assms obtain key root where "rewrite_loop (rewrite_item V (rqNow r) key root) results = Some results'"
    by (auto simp: rewriteLinks_def of_error_def split: option.splits)
  note nth = rewrite_loop_nth [OF this]
  have "own_link y = own_link x" if "rewrite_item V now key root x = Some y" for now x y
    using that by (auto simp: rewrite_item_def Let_def split: if_splits)
  with nth show ?thesis by (auto intro!: nth_equalityI)
qed

text \<open>C33: No torrent in a feed has a link: neither the extraction of a page nor the rewriting of the links sets
  the link that is published, so the link and the URL of the enclosure of every torrent are left out.\<close>

theorem published_torrents_have_no_link:
  assumes "processScrapedItems X D def q cats els st = (Some results, st')"
    and "rewriteLinks V p r results = Ok results'" "TorrentResult t \<in> set results'"
  shows "xmLink (torrent_xml t) = [] \<and> xmEnclosureURL (torrent_xml t) = []"
proof -
  have "\<forall>x\<in>set results. own_link x = []"
    using process_loop_link [OF assms(1) [unfolded processScrapedItems_def]] by simp
  then have "set (map own_link results) \<subseteq> {[]}" by auto
  then have "set (map own_link results') \<subseteq> {[]}" by (simp only: rewritten_link [OF assms(2)])
  then have "own_link (TorrentResult t) = []" using assms(3) by force
  then show ?thesis by (simp add: torrent_xml_def)
qed

theorem published_torrents_have_no_link_witness:
  "\<exists>results t. rewriteLinks (sample_server_env\<lparr>svJwt := \<lparr>jwSign = (\<lambda>k c. Some ''t''), jwParse = (\<lambda>k s. None)\<rparr>\<rparr>)
       (srParams sample_server) (sample_request []) results = Ok [TorrentResult t]
     \<and> itLink (scraped t) = ''http://h/d/t/.torrent'' \<and> xmLink (torrent_xml t) = []"
proof -
  let ?V = "sample_server_env\<lparr>svJwt := \<lparr>jwSign = (\<lambda>k c. Some ''t''), jwParse = (\<lambda>k s. None)\<rparr>\<rparr>"
  let ?run = "processScrapedItems sample_extract (json_ops sample_path)
    (sample_definition ''torrent'' [sample_field ''link'' ''k'']) newQuery [] [JObj [(''k'', JStr ''8'')]] ([], ())"
  let ?rewritten = "\<lambda>rs. rewriteLinks ?V (srParams sample_server) (sample_request []) rs"
  have "(case fst ?run of None \<Rightarrow> [] | Some rs \<Rightarrow>
      (case ?rewritten rs of Ok [TorrentResult t] \<Rightarrow> itLink (scraped t) | _ \<Rightarrow> [])) = ''http://h/d/t/.torrent''"
    by code_simp
  then obtain rs t where rs: "fst ?run = Some rs" "?rewritten rs = Ok [TorrentResult t]"
    "itLink (scraped t) = ''http://h/d/t/.torrent''"
    by (auto split: option.splits res.splits list.splits result_item.splits)
  from rs(1) obtain st' where "?run = (Some rs, st')" by (metis prod.collapse)
  from published_torrents_have_no_link [OF this rs(2), of t] rs(2,3) show ?thesis by auto
qed

subsection \<open>Status and health\<close>

text \<open>The health endpoint reports every index as healthy, whatever its check finds.\<close>

lemma health_endpoint_always_ok:
  assumes "server_healthCheck H E language cats now s = (Some (HealthJson out), s')"
  shows "\<forall>(site, ok)\<in>set out. ok"
proof -
  have u: "\<forall>(site, ok)\<in>set (AList.update k True out). ok" if "\<forall>(site, ok)\<in>set out. ok" for k and out :: "(string \<times> bool) list"
    using that by (induction out) auto
  have loop: "\<forall>(site, ok)\<in>set out'. ok"
    if "health_loop E language cats now cs out sc w = (Some out', sc', w')" "\<forall>(site, ok)\<in>set out. ok"
    for cs out sc w out' sc' w'
    using that
  proof (induction cs arbitrary: out sc w)
    case (Cons kc cs)
    obtain k c where kc: "kc = (k, c)" by fastforce
    obtain res s1 w1 where h: "collection_healthCheck E language cats now c sc w = (res, s1, w1)" by (metis prod_cases3)
    with collection_healthCheck_no_error [of E language cats now c sc w] Cons.prems(1) kc have "res = Ok ()"
      by (cases res) auto
    with Cons.prems(1) kc h obtain i where
      "health_loop E language cats now cs (AList.update (defSite (rnDefinition (index_at s1 i))) True out) s1 w1 =
        (Some out', sc', w')"
      by (cases c) simp_all
    from Cons.IH [OF this u [OF Cons.prems(2)]] show ?case .
  qed simp
  from assms obtain cs sc1 w1 where
    "health_loop E language cats now cs [] (fcScope (srFacade s)) (srWorld s) = (Some out, sc1, w1)"
    by (auto simp: server_healthCheck_def Let_def split: prod.splits)
  from loop [OF this] show ?thesis by simp
qed

text \<open>Between the end of the three minutes and the next sweep of the cache the status panics.\<close>

lemma stale_status_panics:
  assumes "ttl_inv c" "map_of (ttl_abs c) ''status'' = Some e" "stale_at (ttl c) now e"
  shows "fst (status_latest now latest c w) = None"
proof -
  have "ttl_contains ''status'' c"
    using assms(1,2) lru_contains_abs [of "base c" "''status''"] map_of_SomeD [OF assms(2)]
    by (force simp: ttl_contains_def ttl_inv_def ttl_abs_def)
  moreover have "fst (ttl_get now ''status'' c) = None"
    using ttl_get_abs [OF assms(1), of now "''status''"] assms(2,3) by simp
  ultimately show ?thesis by (simp add: status_latest_def case_prod_unfold Let_def)
qed

text \<open>A request for the selector \<open>aggregate\<close> panics as long as no collection of several indexes is open.\<close>

lemma aggregate_request_panics:
  assumes "svScope (hvServer H) = E" "scList E = (\<lambda>sel. map_res Some (multi_list (defaultMultiLoader L now) sel))"
    and "svDepth (hvServer H) = Suc n" "fcScope (srFacade s) = newScope" "hvOrder H [] = []"
    and "path_param r ''indexes'' = indexSelectorAggregate" "query_param r ''t'' \<notin> {[]}"
  shows "fst (torznabHandler H r s) = None"
proof -
  from available_indexes [of L now None] obtain ns where ns: "multi_list (defaultMultiLoader L now) None = Ok ns"
    by blast
  have "\<not> names_one indexSelectorAggregate"
    by (simp add: names_one_def isAggregate_def)
  then have "lookup (Suc n) E indexSelectorAggregate newScope =
      Some (Ok [], newScope\<lparr>scIndexes := [(indexSelectorAggregate, [])]\<rparr>)"
    using assms(2) built_in.aggregate_lists_nothing [OF ns]
    by (simp add: lookup_several lookupAll_def newScope_def keep_indexes_def)
  then have "\<exists>s1. requested_indexes H r s = Some (Ok [], s1)"
    using assms by (simp add: requested_indexes_def Let_def resolveIndexID_def newScope_def indexSelectorAggregate_def)
  then show ?thesis
    using assms(7) by (auto simp: torznabHandler_def torznabIndexCapabilities_def Let_def)
qed

end
