(* ===== verification/TimerHeap.thy ===== *)
theory TimerHeap
  imports GoPrelude
begin

text \<open>
  The timers of \<open>indexer/cache/heapTimer.go\<close>. The functions \<open>Push\<close> and \<open>Pop\<close> of the package
  \<open>container/heap\<close> are given with their loops, over a comparison of elements; the heap of the
  program holds pointers to timers, so a timer is a position of the store \<open>timers\<close>, which only
  grows, and the heap is a list of positions. A callback is run on the world and on the timers:
  it may add or cancel timers, as the lock is not held while it runs; a callback that panics is
  one that stops early, since \<open>runCallback\<close> recovers. Times are in nanoseconds, and the clock is
  an argument of the operations that read it.
\<close>

subsection \<open>The package container/heap\<close>

definition swap_at :: "'a list \<Rightarrow> nat \<Rightarrow> nat \<Rightarrow> 'a list" where
  "swap_at xs i j = xs[i := xs ! j, j := xs ! i]"

abbreviation parent_of :: "nat \<Rightarrow> nat" where
  "parent_of j \<equiv> (j - 1) div 2"

function heap_up :: "('a \<Rightarrow> 'a \<Rightarrow> bool) \<Rightarrow> 'a list \<Rightarrow> nat \<Rightarrow> 'a list" where
  "heap_up lt xs j =
     (let i = parent_of j in
      if i = j \<or> \<not> lt (xs ! j) (xs ! i) then xs else heap_up lt (swap_at xs i j) i)"
  by auto
termination by (relation "measure (\<lambda>(lt, xs, j). j)") auto

function heap_down :: "('a \<Rightarrow> 'a \<Rightarrow> bool) \<Rightarrow> 'a list \<Rightarrow> nat \<Rightarrow> nat \<Rightarrow> 'a list" where
  "heap_down lt xs i n =
     (let j1 = 2 * i + 1; j2 = j1 + 1 in
      if n \<le> j1 then xs
      else let j = (if j2 < n \<and> lt (xs ! j2) (xs ! j1) then j2 else j1) in
           if \<not> lt (xs ! j) (xs ! i) then xs else heap_down lt (swap_at xs i j) j n)"
  by auto
termination by (relation "measure (\<lambda>(lt, xs, i, n). n - i)") auto

declare heap_up.simps [simp del] heap_down.simps [simp del]

definition heap_push :: "('a \<Rightarrow> 'a \<Rightarrow> bool) \<Rightarrow> 'a \<Rightarrow> 'a list \<Rightarrow> 'a list" where
  "heap_push lt x xs = (let ys = xs @ [x] in heap_up lt ys (length ys - 1))"

text \<open>\<open>Pop\<close> is only called on a heap that is not empty: on an empty one it panics.\<close>

definition heap_pop :: "('a \<Rightarrow> 'a \<Rightarrow> bool) \<Rightarrow> 'a list \<Rightarrow> 'a \<times> 'a list" where
  "heap_pop lt xs =
     (let n = length xs - 1; ys = heap_down lt (swap_at xs 0 n) 0 n in (last ys, butlast ys))"

subsection \<open>Timers\<close>

definition minTimerInterval :: int where
  "minTimerInterval = 1000000"

record 'c timer =
  fireTime :: int
  interval :: int
  callback :: "'c option"
  repeat :: bool
  addseq :: uint64

record 'c timer_heap =
  timers :: "'c timer list"
  timerHeap :: "nat list"
  nextAddSeq :: uint64

definition no_timers :: "'c timer_heap" where
  "no_timers = \<lparr>timers = [], timerHeap = [], nextAddSeq = 1\<rparr>"

definition timer_at :: "'c timer_heap \<Rightarrow> nat \<Rightarrow> 'c timer" where
  "timer_at s r = timers s ! r"

definition set_timer :: "nat \<Rightarrow> 'c timer \<Rightarrow> 'c timer_heap \<Rightarrow> 'c timer_heap" where
  "set_timer r t s = s\<lparr>timers := (timers s)[r := t]\<rparr>"

definition timer_cancel :: "nat \<Rightarrow> 'c timer_heap \<Rightarrow> 'c timer_heap" where
  "timer_cancel r s = set_timer r ((timer_at s r)\<lparr>callback := None\<rparr>) s"

definition timer_isActive :: "nat \<Rightarrow> 'c timer_heap \<Rightarrow> bool" where
  "timer_isActive r s \<longleftrightarrow> callback (timer_at s r) \<noteq> None"

definition timer_before :: "'c timer \<Rightarrow> 'c timer \<Rightarrow> bool" where
  "timer_before t1 t2 =
     (if fireTime t1 < fireTime t2 then True
      else if fireTime t1 > fireTime t2 then False
      else addseq t1 < addseq t2)"

definition timer_less :: "'c timer_heap \<Rightarrow> nat \<Rightarrow> nat \<Rightarrow> bool" where
  "timer_less s i j = timer_before (timer_at s i) (timer_at s j)"

text \<open>What \<open>AddCallback\<close>, \<open>AddTimer\<close> and \<open>Tick\<close> do under the lock: the next number, then the heap.\<close>

definition enqueue :: "nat \<Rightarrow> 'c timer_heap \<Rightarrow> 'c timer_heap" where
  "enqueue r s =
     (let s1 = set_timer r ((timer_at s r)\<lparr>addseq := nextAddSeq s\<rparr>) s;
          s2 = s1\<lparr>nextAddSeq := nextAddSeq s1 + 1\<rparr>
      in s2\<lparr>timerHeap := heap_push (timer_less s2) r (timerHeap s2)\<rparr>)"

definition new_timer :: "int \<Rightarrow> int \<Rightarrow> 'c option \<Rightarrow> bool \<Rightarrow> 'c timer_heap \<Rightarrow> nat \<times> 'c timer_heap" where
  "new_timer now d c rep s =
     (let t = \<lparr>fireTime = now + d, interval = d, callback = c, repeat = rep, addseq = 0\<rparr>;
          r = length (timers s)
      in (r, enqueue r (s\<lparr>timers := timers s @ [t]\<rparr>)))"

definition addCallback :: "int \<Rightarrow> int \<Rightarrow> 'c option \<Rightarrow> 'c timer_heap \<Rightarrow> nat \<times> 'c timer_heap" where
  "addCallback now d c s = new_timer now d c False s"

definition addTimer :: "int \<Rightarrow> int \<Rightarrow> 'c option \<Rightarrow> 'c timer_heap \<Rightarrow> nat \<times> 'c timer_heap" where
  "addTimer now d c s =
     (let d' = (if d < minTimerInterval then minTimerInterval else d) in new_timer now d' c True s)"

subsection \<open>A tick\<close>

type_synonym ('w, 'c) timed = "'w \<times> 'c timer_heap"

definition requeue :: "int \<Rightarrow> nat \<Rightarrow> 'c timer_heap \<Rightarrow> 'c timer_heap" where
  "requeue now r s =
     (let t = timer_at s r; ft = fireTime t + interval t;
          ft' = (if \<not> now < ft then now + interval t else ft)
      in enqueue r (set_timer r (t\<lparr>fireTime := ft'\<rparr>) s))"

text \<open>One pass of the loop of \<open>Tick\<close>, on a heap whose first timer is due.\<close>

definition tick_pass ::
    "('c \<Rightarrow> ('w, 'c) timed \<Rightarrow> ('w, 'c) timed) \<Rightarrow> int \<Rightarrow> ('w, 'c) timed \<Rightarrow> ('w, 'c) timed" where
  "tick_pass run now ws =
     (let (w, s) = ws;
          (r, h) = heap_pop (timer_less s) (timerHeap s);
          s1 = s\<lparr>timerHeap := h\<rparr>
      in case callback (timer_at s1 r) of
           None \<Rightarrow> (w, s1)
         | Some c \<Rightarrow>
             let s2 = (if \<not> repeat (timer_at s1 r) then timer_cancel r s1 else s1);
                 (w', s3) = run c (w, s2)
             in (w', if repeat (timer_at s3 r) then requeue now r s3 else s3))"

definition first_due :: "int \<Rightarrow> 'c timer_heap \<Rightarrow> bool" where
  "first_due now s = (case timerHeap s of [] \<Rightarrow> False | r # _ \<Rightarrow> \<not> now < fireTime (timer_at s r))"

text \<open>\<open>None\<close> is a tick that never returns, when the callbacks keep adding timers that are due.\<close>

partial_function (option) tick ::
    "('c \<Rightarrow> ('w, 'c) timed \<Rightarrow> ('w, 'c) timed) \<Rightarrow> int \<Rightarrow> ('w, 'c) timed \<Rightarrow> ('w, 'c) timed option" where
  "tick run now ws = (if first_due now (snd ws) then tick run now (tick_pass run now ws) else Some ws)"

declare tick.simps [code]

text \<open>The routine of \<open>StartTicks\<close>: a tick at every wake-up of the clock.\<close>

fun tick_all ::
    "('c \<Rightarrow> ('w, 'c) timed \<Rightarrow> ('w, 'c) timed) \<Rightarrow> int list \<Rightarrow> ('w, 'c) timed \<Rightarrow> ('w, 'c) timed option" where
  "tick_all run [] ws = Some ws"
| "tick_all run (now # clock) ws = Option.bind (tick run now ws) (tick_all run clock)"

end
