(* ===== verification/TimerFacts.thy ===== *)
theory TimerFacts
  imports TimerHeap
begin

text \<open>
  The timers fire in order. The locale \<open>heap_order\<close> is what \<open>container/heap\<close> asks of \<open>Less\<close>; under
  it \<open>Push\<close> and \<open>Pop\<close> keep the heap and the first element is minimal. It is interpreted on the
  comparison of timers, whatever the store holds.
\<close>

subsection \<open>Binary heaps over a comparison\<close>

lemma length_swap_at [simp]: "length (swap_at xs i j) = length xs"
  by (simp add: swap_at_def)

lemma mset_swap_at [simp]: "i < length xs \<Longrightarrow> j < length xs \<Longrightarrow> mset (swap_at xs i j) = mset xs"
  using mset_swap [of j xs i] by (simp add: swap_at_def)

lemma nth_swap_at:
  "i < length xs \<Longrightarrow> j < length xs \<Longrightarrow> k < length xs \<Longrightarrow>
   swap_at xs i j ! k = (if k = i then xs ! j else if k = j then xs ! i else xs ! k)"
  by (auto simp: swap_at_def nth_list_update)

lemma heap_up_mset: "j < length xs \<Longrightarrow> mset (heap_up lt xs j) = mset xs"
proof (induction lt xs j rule: heap_up.induct)
  case (1 lt xs j)
  then show ?case by (subst heap_up.simps) (auto simp: Let_def)
qed

lemma heap_down_length [simp]: "length (heap_down lt xs i n) = length xs"
proof (induction lt xs i n rule: heap_down.induct)
  case (1 lt xs i n)
  then show ?case by (subst heap_down.simps) (auto simp: Let_def)
qed

lemma heap_down_mset: "i < n \<Longrightarrow> n \<le> length xs \<Longrightarrow> mset (heap_down lt xs i n) = mset xs"
proof (induction lt xs i n rule: heap_down.induct)
  case (1 lt xs i n)
  then show ?case by (subst heap_down.simps) (auto simp: Let_def)
qed

lemma heap_down_beyond: "n \<le> k \<Longrightarrow> i < n \<Longrightarrow> n \<le> length xs \<Longrightarrow> heap_down lt xs i n ! k = xs ! k"
proof (induction lt xs i n rule: heap_down.induct)
  case (1 lt xs i n)
  then show ?case by (subst heap_down.simps) (auto simp: Let_def swap_at_def)
qed

definition heap_upto :: "('a \<Rightarrow> 'a \<Rightarrow> bool) \<Rightarrow> nat \<Rightarrow> 'a list \<Rightarrow> bool" where
  "heap_upto lt n xs \<longleftrightarrow> (\<forall>k. 0 < k \<longrightarrow> k < n \<longrightarrow> \<not> lt (xs ! k) (xs ! parent_of k))"

definition heap_but_up :: "('a \<Rightarrow> 'a \<Rightarrow> bool) \<Rightarrow> 'a list \<Rightarrow> nat \<Rightarrow> bool" where
  "heap_but_up lt xs j \<longleftrightarrow>
     (\<forall>k. 0 < k \<longrightarrow> k < length xs \<longrightarrow> k \<noteq> j \<longrightarrow> \<not> lt (xs ! k) (xs ! parent_of k)) \<and>
     (\<forall>k. 0 < k \<longrightarrow> k < length xs \<longrightarrow> parent_of k = j \<longrightarrow> 0 < j \<longrightarrow> \<not> lt (xs ! k) (xs ! parent_of j))"

definition heap_but_down :: "('a \<Rightarrow> 'a \<Rightarrow> bool) \<Rightarrow> nat \<Rightarrow> 'a list \<Rightarrow> nat \<Rightarrow> bool" where
  "heap_but_down lt n xs i \<longleftrightarrow>
     (\<forall>k. 0 < k \<longrightarrow> k < n \<longrightarrow> parent_of k \<noteq> i \<longrightarrow> \<not> lt (xs ! k) (xs ! parent_of k)) \<and>
     (\<forall>k. 0 < k \<longrightarrow> k < n \<longrightarrow> parent_of k = i \<longrightarrow> 0 < i \<longrightarrow> \<not> lt (xs ! k) (xs ! parent_of i))"

lemma parent_less: "0 < k \<Longrightarrow> parent_of k < k"
  by simp

lemma children: "0 < k \<Longrightarrow> parent_of k = i \<longleftrightarrow> k = 2 * i + 1 \<or> k = 2 * i + 2"
  by presburger

locale heap_order =
  fixes lt :: "'a \<Rightarrow> 'a \<Rightarrow> bool"
  assumes asym: "lt a b \<Longrightarrow> \<not> lt b a"
    and ntrans: "\<not> lt b a \<Longrightarrow> \<not> lt c b \<Longrightarrow> \<not> lt c a"
begin

lemma irrefl: "\<not> lt a a"
  using asym by blast

lemma up_swap:
  assumes "j < length xs" "heap_but_up lt xs j" "0 < j" "lt (xs ! j) (xs ! parent_of j)"
  shows "heap_but_up lt (swap_at xs (parent_of j) j) (parent_of j)"
proof -
  define p where "p = parent_of j"
  define ys where "ys = swap_at xs p j"
  have p: "p < j" "p < length xs" using assms(1,3) by (auto simp: p_def)
  have ys: "ys ! k = (if k = p then xs ! j else if k = j then xs ! p else xs ! k)"
    if "k < length xs" for k
    using nth_swap_at [of p xs j k] that p assms(1) by (simp add: ys_def)
  have h: "\<not> lt (xs ! k) (xs ! parent_of k)" if "0 < k" "k < length xs" "k \<noteq> j" for k
    using assms(2) that by (simp add: heap_but_up_def)
  have g: "\<not> lt (xs ! k) (xs ! p)" if "0 < k" "k < length xs" "parent_of k = j" for k
    using assms(2,3) that by (simp add: heap_but_up_def p_def)
  have n: "\<not> lt (xs ! p) (xs ! j)" using assms(4) asym by (simp add: p_def)
  have a: "\<not> lt (ys ! k) (ys ! parent_of k)" if k: "0 < k" "k < length xs" "k \<noteq> p" for k
  proof -
    have q: "parent_of k < length xs" "parent_of k < k" using k by auto
    show ?thesis
    proof (cases "k = j")
      case True
      then show ?thesis using n ys [OF k(2)] ys [OF q(1)] p by (simp add: p_def)
    next
      case False
      note hk = h [OF k(1,2) False]
      show ?thesis
        using ys [OF k(2)] ys [OF q(1)] hk g [OF k(1,2)] False k(3) n
          ntrans [of "xs ! p" "xs ! j" "xs ! k"]
        by (auto split: if_splits)
    qed
  qed
  have b: "\<not> lt (ys ! k) (ys ! parent_of p)" if k: "0 < k" "k < length xs" "parent_of k = p" "0 < p" for k
  proof -
    have q: "parent_of p < p" using k(4) by simp
    have up: "\<not> lt (xs ! p) (xs ! parent_of p)" using h [of p] p k(4) by simp
    have "ys ! parent_of p = xs ! parent_of p" using ys [of "parent_of p"] q p by simp
    moreover have "ys ! k = (if k = j then xs ! p else xs ! k)"
      using ys [OF k(2)] k(1,3) parent_less [OF k(1)] by auto
    moreover have "\<not> lt (xs ! k) (xs ! parent_of p)" if "k \<noteq> j"
      using h [OF k(1,2) that] k(3) up by (metis ntrans)
    ultimately show ?thesis using up by (auto split: if_splits)
  qed
  show ?thesis using a b by (simp add: heap_but_up_def ys_def p_def)
qed

lemma up_heap:
  "j < length xs \<Longrightarrow> heap_but_up lt xs j \<Longrightarrow> heap_upto lt (length xs) (heap_up lt xs j)"
proof (induction j arbitrary: xs rule: less_induct)
  case (less j)
  show ?case
  proof (cases "0 < j \<and> lt (xs ! j) (xs ! parent_of j)")
    case True
    then show ?thesis
      using less.IH [of "parent_of j" "swap_at xs (parent_of j) j"] less.prems up_swap
      by (subst heap_up.simps) (auto simp: Let_def)
  next
    case False
    then have "heap_up lt xs j = xs" by (subst heap_up.simps) (auto simp: Let_def)
    then show ?thesis
      using less.prems False by (auto simp: heap_but_up_def heap_upto_def)
  qed
qed

lemma down_swap:
  assumes "j < n" "n \<le> length xs" "heap_but_down lt n xs i" "0 < j" "parent_of j = i"
    and lt: "lt (xs ! j) (xs ! i)"
    and least: "\<And>k. 0 < k \<Longrightarrow> k < n \<Longrightarrow> parent_of k = i \<Longrightarrow> \<not> lt (xs ! k) (xs ! j)"
  shows "heap_but_down lt n (swap_at xs i j) j"
proof -
  define ys where "ys = swap_at xs i j"
  have ij: "i < j" "i < length xs" "j < length xs" using assms(1,2,4,5) by auto
  have ys: "ys ! k = (if k = i then xs ! j else if k = j then xs ! i else xs ! k)" if "k < n" for k
    using nth_swap_at [of i xs j k] that ij assms(2) by (simp add: ys_def)
  have h: "\<not> lt (xs ! k) (xs ! parent_of k)" if "0 < k" "k < n" "parent_of k \<noteq> i" for k
    using assms(3) that by (simp add: heap_but_down_def)
  have g: "\<not> lt (xs ! j) (xs ! parent_of i)" if "0 < i"
    using assms(1,3,4,5) that by (simp add: heap_but_down_def)
  have a: "\<not> lt (ys ! k) (ys ! parent_of k)" if k: "0 < k" "k < n" "parent_of k \<noteq> j" for k
  proof -
    have q: "parent_of k < n" "parent_of k < k" using k by auto
    show ?thesis
    proof (cases "parent_of k = i")
      case True
      then show ?thesis
        using ys [OF k(2)] ys [OF q(1)] least [OF k(1,2)] asym [OF lt] q by auto
    next
      case False
      then show ?thesis
        using ys [OF k(2)] ys [OF q(1)] h [OF k(1,2) False] g k assms(5) by auto
    qed
  qed
  have b: "\<not> lt (ys ! k) (ys ! parent_of j)" if k: "0 < k" "k < n" "parent_of k = j" for k
    using ys [OF k(2)] ys [of i] h [OF k(1,2)] k parent_less [OF k(1)] assms(1,5) ij by auto
  show ?thesis using a b by (simp add: heap_but_down_def ys_def)
qed

definition smaller_child :: "'a list \<Rightarrow> nat \<Rightarrow> nat \<Rightarrow> nat" where
  "smaller_child xs i n =
     (if 2 * i + 2 < n \<and> lt (xs ! (2 * i + 2)) (xs ! (2 * i + 1)) then 2 * i + 2 else 2 * i + 1)"

lemma smaller_child_least:
  assumes "0 < k" "k < n" "parent_of k = i"
  shows "\<not> lt (xs ! k) (xs ! smaller_child xs i n)"
  using assms children [OF assms(1), of i] irrefl asym by (auto simp: smaller_child_def)

lemma heap_down_child:
  "heap_down lt xs i n =
     (let j = smaller_child xs i n in
      if n \<le> 2 * i + 1 \<or> \<not> lt (xs ! j) (xs ! i) then xs else heap_down lt (swap_at xs i j) j n)"
  by (subst heap_down.simps) (simp add: Let_def smaller_child_def)

lemma down_heap:
  "i < n \<Longrightarrow> n \<le> length xs \<Longrightarrow> heap_but_down lt n xs i \<Longrightarrow> heap_upto lt n (heap_down lt xs i n)"
proof (induction "n - i" arbitrary: xs i rule: less_induct)
  case less
  define j where "j = smaller_child xs i n"
  have h: "\<not> lt (xs ! k) (xs ! parent_of k)" if "0 < k" "k < n" "parent_of k \<noteq> i" for k
    using less.prems(3) that by (simp add: heap_but_down_def)
  have least: "\<not> lt (xs ! k) (xs ! j)" if "0 < k" "k < n" "parent_of k = i" for k
    using smaller_child_least [OF that] by (simp add: j_def)
  show ?case
  proof (cases "n \<le> 2 * i + 1 \<or> \<not> lt (xs ! j) (xs ! i)")
    case True
    then have stop: "heap_down lt xs i n = xs"
      by (subst heap_down_child) (simp add: Let_def j_def)
    have "\<not> lt (xs ! k) (xs ! i)" if k: "0 < k" "k < n" "parent_of k = i" for k
    proof -
      have "\<not> n \<le> 2 * i + 1" using children [OF k(1), of i] k by auto
      with True have "\<not> lt (xs ! j) (xs ! i)" by simp
      then show ?thesis using least [OF k] by (metis ntrans)
    qed
    then show ?thesis unfolding stop heap_upto_def using h by metis
  next
    case False
    have j: "i < j" "j < n" "0 < j" "parent_of j = i"
      using False by (auto simp: j_def smaller_child_def)
    have "heap_but_down lt n (swap_at xs i j) j"
      using down_swap [of j n xs i] less.prems(2,3) j False least by blast
    then have "heap_upto lt n (heap_down lt (swap_at xs i j) j n)"
      using less.hyps [of j "swap_at xs i j"] less.prems j by simp
    then show ?thesis
      using False by (subst heap_down_child) (simp add: Let_def j_def)
  qed
qed

lemma root_minimal:
  assumes "heap_upto lt n xs"
  shows "k < n \<Longrightarrow> \<not> lt (xs ! k) (xs ! 0)"
proof (induction k rule: less_induct)
  case (less k)
  show ?case
  proof (cases "k = 0")
    case True
    then show ?thesis using asym by blast
  next
    case False
    then have "\<not> lt (xs ! k) (xs ! parent_of k)" "\<not> lt (xs ! parent_of k) (xs ! 0)"
      using assms less by (auto simp: heap_upto_def)
    then show ?thesis by (meson ntrans)
  qed
qed

lemma push_heap:
  assumes "heap_upto lt (length xs) xs"
  shows "heap_upto lt (length (heap_push lt x xs)) (heap_push lt x xs)"
    and "mset (heap_push lt x xs) = add_mset x (mset xs)"
proof -
  have m: "mset (heap_up lt (xs @ [x]) (length xs)) = add_mset x (mset xs)"
    by (subst heap_up_mset) auto
  then have l: "length (heap_up lt (xs @ [x]) (length xs)) = length (xs @ [x])"
    by (metis length_append_singleton mset.simps(2) length_Cons size_mset)
  have "heap_but_up lt (xs @ [x]) (length xs)"
    using assms by (auto simp: heap_but_up_def heap_upto_def nth_append)
  then have "heap_upto lt (length (xs @ [x])) (heap_up lt (xs @ [x]) (length xs))"
    by (intro up_heap) auto
  then show "heap_upto lt (length (heap_push lt x xs)) (heap_push lt x xs)"
    using l by (simp add: heap_push_def)
  show "mset (heap_push lt x xs) = add_mset x (mset xs)"
    using m by (simp add: heap_push_def)
qed

lemma pop_heap:
  assumes "heap_upto lt (length xs) xs" "xs \<noteq> []" "heap_pop lt xs = (r, h)"
  shows "r = xs ! 0" "heap_upto lt (length h) h" "mset xs = add_mset r (mset h)"
proof -
  define n where "n = length xs - 1"
  define ys where "ys = swap_at xs 0 n"
  define zs where "zs = heap_down lt ys 0 n"
  have n: "length xs = Suc n" using assms(2) by (simp add: n_def)
  have len: "length ys = Suc n" "length zs = Suc n" by (simp_all add: ys_def zs_def n)
  have rh: "r = last zs" "h = butlast zs"
    using assms(3) by (simp_all add: heap_pop_def Let_def n ys_def zs_def)
  have ys: "ys ! k = (if k = 0 then xs ! n else if k = n then xs ! 0 else xs ! k)" if "k \<le> n" for k
    using nth_swap_at [of 0 xs n k] that n by (simp add: ys_def)
  have down: "heap_upto lt n zs \<and> mset zs = mset ys \<and> zs ! n = ys ! n"
  proof (cases "n = 0")
    case True
    then have "zs = ys" by (simp add: zs_def heap_down_child)
    then show ?thesis using True by (simp add: heap_upto_def)
  next
    case False
    have "heap_but_down lt n ys 0"
      using assms(1) n by (auto simp: heap_but_down_def heap_upto_def ys)
    then show ?thesis
      using False len down_heap [of 0 n ys] heap_down_mset [of 0 n ys lt]
        heap_down_beyond [of n n 0 ys lt]
      by (simp add: zs_def)
  qed
  have "zs \<noteq> []" using len by auto
  then have last: "last zs = zs ! n" using len by (simp add: last_conv_nth)
  then show "r = xs ! 0" using down ys [of n] rh by (auto split: if_splits)
  show "heap_upto lt (length h) h"
    using down len by (auto simp: rh heap_upto_def nth_butlast)
  have "mset zs = mset xs" using down n by (simp add: ys_def)
  then show "mset xs = add_mset r (mset h)"
    using \<open>zs \<noteq> []\<close> by (metis rh append_butlast_last_id mset_append mset_single_iff add_mset_add_single mset.simps)
qed

end

subsection \<open>The heap of timers\<close>

lemma timer_before_order:
  "timer_before a b \<Longrightarrow> \<not> timer_before b a"
  "\<not> timer_before b a \<Longrightarrow> \<not> timer_before c b \<Longrightarrow> \<not> timer_before c a"
  by (auto simp: timer_before_def split: if_splits)

interpretation timers_in: heap_order "timer_less s" for s :: "'c timer_heap"
  by unfold_locales (auto simp: timer_less_def dest: timer_before_order)

definition timers_ok :: "'c timer_heap \<Rightarrow> bool" where
  "timers_ok s \<longleftrightarrow>
     heap_upto (timer_less s) (length (timerHeap s)) (timerHeap s) \<and>
     distinct (timerHeap s) \<and> set (timerHeap s) \<subseteq> {..<length (timers s)} \<and>
     (\<forall>t\<in>set (timers s). repeat t \<longrightarrow> minTimerInterval \<le> interval t)"

definition due :: "int \<Rightarrow> 'c timer_heap \<Rightarrow> nat \<Rightarrow> bool" where
  "due now s r \<longleftrightarrow> fireTime (timer_at s r) \<le> now"

lemma heap_upto_agree:
  assumes "heap_upto (timer_less s) (length h) h"
    and "\<forall>r\<in>set h. fireTime (timer_at s' r) = fireTime (timer_at s r) \<and>
                  addseq (timer_at s' r) = addseq (timer_at s r)"
  shows "heap_upto (timer_less s') (length h) h"
  unfolding heap_upto_def
proof (intro allI impI)
  fix k assume k: "0 < k" "k < length h"
  then have "parent_of k < length h" by simp
  with k have "timer_less s' (h ! k) (h ! parent_of k) = timer_less s (h ! k) (h ! parent_of k)"
    using assms(2) by (simp add: timer_less_def timer_before_def)
  then show "\<not> timer_less s' (h ! k) (h ! parent_of k)"
    using assms(1) k by (simp add: heap_upto_def)
qed

lemma timer_at_set:
  "timer_at (set_timer r t s) q = (if q = r \<and> r < length (timers s) then t else timer_at s q)"
  by (cases "r < length (timers s)") (auto simp: set_timer_def timer_at_def list_update_beyond)

lemma timer_at_fields [simp]:
  "timer_at (s\<lparr>timerHeap := h\<rparr>) q = timer_at s q" "timer_at (s\<lparr>nextAddSeq := n\<rparr>) q = timer_at s q"
  by (simp_all add: timer_at_def)

lemma timer_less_fields [simp]:
  "timer_less (s\<lparr>timerHeap := h\<rparr>) = timer_less s" "timer_less (s\<lparr>nextAddSeq := n\<rparr>) = timer_less s"
  by (simp_all add: timer_less_def fun_eq_iff)

lemma set_timer_fields [simp]:
  "timerHeap (set_timer r t s) = timerHeap s" "nextAddSeq (set_timer r t s) = nextAddSeq s"
  "length (timers (set_timer r t s)) = length (timers s)"
  by (simp_all add: set_timer_def)

definition off_heap :: "nat \<Rightarrow> 'c timer_heap \<Rightarrow> bool" where
  "off_heap r s \<longleftrightarrow> r < length (timers s) \<and> r \<notin> set (timerHeap s)"

definition clamped :: "'c timer \<Rightarrow> bool" where
  "clamped t \<longleftrightarrow> (repeat t \<longrightarrow> minTimerInterval \<le> interval t)"

lemma set_timer_ok:
  assumes "timers_ok s" "off_heap r s" "clamped t"
  shows "timers_ok (set_timer r t s)"
proof -
  have "heap_upto (timer_less (set_timer r t s)) (length (timerHeap s)) (timerHeap s)"
    by (rule heap_upto_agree [of s]) (use assms in \<open>auto simp: timers_ok_def timer_at_set off_heap_def\<close>)
  moreover have "\<forall>t'\<in>set (timers (set_timer r t s)). repeat t' \<longrightarrow> minTimerInterval \<le> interval t'"
    using assms set_update_subset_insert [of "timers s" r t]
    by (auto simp: set_timer_def timers_ok_def clamped_def)
  ultimately show ?thesis using assms(1) by (simp add: timers_ok_def)
qed

lemma timer_clamped: "timers_ok s \<Longrightarrow> r < length (timers s) \<Longrightarrow> clamped (timer_at s r)"
  by (simp add: timers_ok_def clamped_def timer_at_def)

lemma enqueue_mset:
  assumes "timers_ok s" "off_heap r s"
  shows "mset (timerHeap (enqueue r s)) = add_mset r (mset (timerHeap s))"
    and "timers_ok (enqueue r s)"
proof -
  define s2 where
    "s2 = (set_timer r ((timer_at s r)\<lparr>addseq := nextAddSeq s\<rparr>) s)\<lparr>nextAddSeq := nextAddSeq s + 1\<rparr>"
  have "clamped ((timer_at s r)\<lparr>addseq := nextAddSeq s\<rparr>)"
    using timer_clamped assms by (auto simp: clamped_def off_heap_def)
  then have ok: "timers_ok s2"
    using set_timer_ok [OF assms] by (simp add: s2_def timers_ok_def)
  have h: "timerHeap s2 = timerHeap s" "length (timers s2) = length (timers s)"
    by (simp_all add: s2_def)
  have e: "enqueue r s = s2\<lparr>timerHeap := heap_push (timer_less s2) r (timerHeap s2)\<rparr>"
    by (simp add: enqueue_def Let_def s2_def)
  note push = timers_in.push_heap [of s2 "timerHeap s2" r]
  have up: "heap_upto (timer_less s2) (length (timerHeap s2)) (timerHeap s2)"
    using ok by (simp add: timers_ok_def)
  then have m: "mset (heap_push (timer_less s2) r (timerHeap s2)) = add_mset r (mset (timerHeap s))"
    using push(2) by (simp add: h)
  then show "mset (timerHeap (enqueue r s)) = add_mset r (mset (timerHeap s))" by (simp add: e)
  have "distinct (heap_push (timer_less s2) r (timerHeap s2))"
    using mset_eq_imp_distinct_iff [of "heap_push (timer_less s2) r (timerHeap s2)" "r # timerHeap s"]
      m assms by (simp add: timers_ok_def off_heap_def)
  moreover have "set (heap_push (timer_less s2) r (timerHeap s2)) = insert r (set (timerHeap s))"
    using mset_eq_setD [of "heap_push (timer_less s2) r (timerHeap s2)" "r # timerHeap s"] m by simp
  ultimately show "timers_ok (enqueue r s)"
    using push(1) [OF up] ok assms(2) h by (simp add: e timers_ok_def off_heap_def)
qed

lemma timer_at_enqueue:
  "r < length (timers s) \<Longrightarrow> timer_at (enqueue r s) q =
     (if q = r then (timer_at s r)\<lparr>addseq := nextAddSeq s\<rparr> else timer_at s q)"
  by (simp add: enqueue_def Let_def timer_at_set)

lemma length_enqueue [simp]: "length (timers (enqueue r s)) = length (timers s)"
  by (simp add: enqueue_def Let_def)

lemma first_timer:
  assumes "timers_ok s" "first_due now s" "heap_pop (timer_less s) (timerHeap s) = (r, h)"
  shows "due now s r" "\<forall>q\<in>set (timerHeap s). \<not> timer_less s q r"
    "mset (timerHeap s) = add_mset r (mset h)"
    "timers_ok (s\<lparr>timerHeap := h\<rparr>)" "off_heap r (s\<lparr>timerHeap := h\<rparr>)"
proof -
  have ne: "timerHeap s \<noteq> []" using assms(2) by (auto simp: first_due_def)
  have up: "heap_upto (timer_less s) (length (timerHeap s)) (timerHeap s)"
    using assms(1) by (simp add: timers_ok_def)
  note pop = timers_in.pop_heap [OF up ne assms(3)]
  show "due now s r"
    using assms(2) pop(1) by (cases "timerHeap s") (auto simp: first_due_def due_def)
  show "\<forall>q\<in>set (timerHeap s). \<not> timer_less s q r"
    using timers_in.root_minimal [OF up] pop(1) by (metis in_set_conv_nth)
  show m: "mset (timerHeap s) = add_mset r (mset h)" by (rule pop(3))
  then have d: "distinct (r # h)" "set (r # h) = set (timerHeap s)"
    using assms(1) mset_eq_imp_distinct_iff [of "timerHeap s" "r # h"] mset_eq_setD [of "timerHeap s" "r # h"]
    by (auto simp: timers_ok_def)
  then show "timers_ok (s\<lparr>timerHeap := h\<rparr>)" "off_heap r (s\<lparr>timerHeap := h\<rparr>)"
    using assms(1) pop(2) by (auto simp: timers_ok_def off_heap_def)
qed

text \<open>Callbacks that act on the world and leave the timers alone.\<close>

definition leaves_timers :: "('c \<Rightarrow> ('w, 'c) timed \<Rightarrow> ('w, 'c) timed) \<Rightarrow> ('c \<Rightarrow> 'w \<Rightarrow> 'w) \<Rightarrow> bool" where
  "leaves_timers run eff \<longleftrightarrow> (\<forall>c w s. run c (w, s) = (eff c w, s))"

definition requeued :: "'c timer_heap \<Rightarrow> nat \<Rightarrow> bool" where
  "requeued s r \<longleftrightarrow> repeat (timer_at s r) \<and> timer_isActive r s"

definition fired :: "'c timer_heap \<Rightarrow> nat \<Rightarrow> 'c list" where
  "fired s r = (case callback (timer_at s r) of None \<Rightarrow> [] | Some c \<Rightarrow> [c])"

lemma timers_ok_cancel: "timers_ok s \<Longrightarrow> off_heap r s \<Longrightarrow> timers_ok (timer_cancel r s)"
  using timer_clamped [of s r] by (simp add: timer_cancel_def clamped_def off_heap_def set_timer_ok)

lemma off_heap_set [simp]: "off_heap r (set_timer q t s) = off_heap r s"
  by (simp add: off_heap_def)

lemma requeue_ok:
  assumes "timers_ok s" "off_heap r s" "repeat (timer_at s r)"
  shows "timers_ok (requeue now r s)" "mset (timerHeap (requeue now r s)) = add_mset r (mset (timerHeap s))"
    "\<not> due now (requeue now r s) r" "q \<noteq> r \<Longrightarrow> timer_at (requeue now r s) q = timer_at s q"
proof -
  define t where "t = timer_at s r"
  define ft where "ft = (if \<not> now < fireTime t + interval t then now + interval t else fireTime t + interval t)"
  define s1 where "s1 = set_timer r (t\<lparr>fireTime := ft\<rparr>) s"
  have e: "requeue now r s = enqueue r s1"
    by (simp add: requeue_def Let_def s1_def t_def ft_def)
  have r: "r < length (timers s)" using assms(2) by (simp add: off_heap_def)
  have cl: "clamped t" using timer_clamped [OF assms(1) r] by (simp add: t_def)
  then have ok: "timers_ok s1" "off_heap r s1"
    using set_timer_ok [OF assms(1,2)] assms(2) by (simp_all add: s1_def clamped_def)
  show "timers_ok (requeue now r s)" "mset (timerHeap (requeue now r s)) = add_mset r (mset (timerHeap s))"
    using enqueue_mset [OF ok] by (simp_all add: e) (simp add: s1_def)
  have "0 < interval t" using cl assms(3) by (simp add: clamped_def t_def minTimerInterval_def)
  then have "now < ft" by (simp add: ft_def)
  then show "\<not> due now (requeue now r s) r"
    using r timer_at_enqueue [of r s1 r]
    by (simp add: e due_def) (simp add: s1_def timer_at_set)
  show "q \<noteq> r \<Longrightarrow> timer_at (requeue now r s) q = timer_at s q"
    using r by (simp add: e timer_at_enqueue s1_def timer_at_set)
qed

lemma pass_plain:
  assumes "timers_ok s" "first_due now s" "leaves_timers run eff"
    and pop: "heap_pop (timer_less s) (timerHeap s) = (r, h)"
  obtains s' where "tick_pass run now (w, s) = (fold eff (fired s r) w, s')" "timers_ok s'"
    "mset (timerHeap s') = mset h + (if requeued s r then {#r#} else {#})"
    "requeued s r \<Longrightarrow> \<not> due now s' r" "\<forall>q. q \<noteq> r \<longrightarrow> timer_at s' q = timer_at s q"
proof -
  define s1 where "s1 = s\<lparr>timerHeap := h\<rparr>"
  note first = first_timer [OF assms(1,2) pop, folded s1_def]
  have at: "timer_at s1 q = timer_at s q" for q by (simp add: s1_def)
  have hs: "timerHeap s1 = h" by (simp add: s1_def)
  show ?thesis
  proof (cases "callback (timer_at s r)")
    case None
    then show ?thesis
      using that [of s1] first(4) pop
      by (simp add: tick_pass_def fired_def requeued_def timer_isActive_def at hs flip: s1_def)
  next
    case (Some c)
    show ?thesis
    proof (cases "repeat (timer_at s r)")
      case True
      have "tick_pass run now (w, s) = (eff c w, requeue now r s1)"
        using Some True pop assms(3) by (simp add: tick_pass_def leaves_timers_def at flip: s1_def)
      moreover have "requeued s r" using Some True by (simp add: requeued_def timer_isActive_def)
      ultimately show ?thesis
        using that [of "requeue now r s1"] requeue_ok [OF first(4,5)] True Some
        by (simp add: at hs fired_def)
    next
      case False
      have "tick_pass run now (w, s) = (eff c w, timer_cancel r s1)"
        using Some False pop assms(3)
        by (simp add: tick_pass_def leaves_timers_def at timer_cancel_def timer_at_set first(5) [unfolded off_heap_def] flip: s1_def)
      moreover have "\<not> requeued s r" using False by (simp add: requeued_def)
      ultimately show ?thesis
        using that [of "timer_cancel r s1"] timers_ok_cancel [OF first(4,5)] Some
        by (simp add: at hs fired_def timer_cancel_def timer_at_set)
    qed
  qed
qed

lemma tick_done: "\<not> first_due now s \<Longrightarrow> tick run now (w, s) = Some (w, s)"
  by (subst tick.simps) simp

lemma tick_more: "first_due now s \<Longrightarrow> tick run now (w, s) = tick run now (tick_pass run now (w, s))"
  by (subst tick.simps) simp

lemma not_first_due:
  assumes "timers_ok s" "\<not> first_due now s" "r \<in> set (timerHeap s)"
  shows "\<not> due now s r"
proof -
  have ne: "timerHeap s \<noteq> []" using assms(3) by auto
  have "\<not> timer_less s r (timerHeap s ! 0)"
    using assms timers_in.root_minimal [of s "length (timerHeap s)" "timerHeap s"]
    by (metis in_set_conv_nth timers_ok_def)
  moreover have "now < fireTime (timer_at s (timerHeap s ! 0))"
    using assms(2) ne by (cases "timerHeap s") (auto simp: first_due_def)
  ultimately show ?thesis by (auto simp: due_def timer_less_def timer_before_def split: if_splits)
qed

definition no_later :: "'c timer_heap \<Rightarrow> nat \<Rightarrow> nat \<Rightarrow> bool" where
  "no_later s a b \<longleftrightarrow>
     fireTime (timer_at s a) < fireTime (timer_at s b) \<or>
     fireTime (timer_at s a) = fireTime (timer_at s b) \<and> addseq (timer_at s a) \<le> addseq (timer_at s b)"

definition fires_in_order :: "int \<Rightarrow> 'c timer_heap \<Rightarrow> nat list \<Rightarrow> bool" where
  "fires_in_order now s rs \<longleftrightarrow>
     mset rs = filter_mset (due now s) (mset (timerHeap s)) \<and> sorted_wrt (no_later s) rs"

lemma no_later_less: "no_later s a b \<longleftrightarrow> \<not> timer_less s b a"
  by (auto simp: no_later_def timer_less_def timer_before_def)

lemma due_step:
  assumes "timers_ok s" "mset (timerHeap s) = add_mset r (mset h)"
    and "mset (timerHeap s') = mset h + (if again then {#r#} else {#})"
    and "again \<Longrightarrow> \<not> due now s' r" "\<forall>q. q \<noteq> r \<longrightarrow> timer_at s' q = timer_at s q"
  shows "filter_mset (due now s') (mset (timerHeap s')) = filter_mset (due now s) (mset h)"
    and "r \<notin> set h"
proof -
  have d: "distinct (r # h)"
    using assms(1,2) mset_eq_imp_distinct_iff [of "timerHeap s" "r # h"] by (simp add: timers_ok_def)
  then show "r \<notin> set h" by simp
  have "filter_mset (due now s') (mset h) = filter_mset (due now s) (mset h)"
    using d assms(5) by (intro filter_mset_cong) (auto simp: due_def)
  then show "filter_mset (due now s') (mset (timerHeap s')) = filter_mset (due now s) (mset h)"
    using assms(3,4) by auto
qed

lemma fires_Cons:
  assumes h: "mset (timerHeap s) = add_mset r (mset h)" "r \<notin> set h"
    and r: "due now s r" "\<forall>q\<in>set (timerHeap s). \<not> timer_less s q r"
    and h': "filter_mset (due now s') (mset (timerHeap s')) = filter_mset (due now s) (mset h)"
    and same: "\<forall>q. q \<noteq> r \<longrightarrow> timer_at s' q = timer_at s q"
    and rs: "fires_in_order now s' rs"
  shows "fires_in_order now s (r # rs)" "r \<notin> set rs"
proof -
  have m: "mset rs = filter_mset (due now s) (mset h)"
    using rs h' by (simp add: fires_in_order_def)
  have "set rs = {q \<in> set h. due now s q}" using m by (metis set_mset_filter set_mset_mset)
  then have sub: "set rs \<subseteq> set h" by simp
  from sub show nr: "r \<notin> set rs" using h(2) by auto
  have "sorted_wrt (no_later s') rs" using rs by (simp add: fires_in_order_def)
  then have "sorted_wrt (no_later s) rs"
    using nr same by (elim sorted_wrt_mono_rel [rotated]) (metis no_later_def)
  moreover have "set (timerHeap s) = set (r # h)"
    using mset_eq_setD [of "timerHeap s" "r # h"] h by simp
  ultimately show "fires_in_order now s (r # rs)"
    using m r h sub by (auto simp: fires_in_order_def no_later_less)
qed

definition stays :: "int \<Rightarrow> 'c timer_heap \<Rightarrow> nat \<Rightarrow> bool" where
  "stays now s r \<longleftrightarrow> \<not> due now s r \<or> requeued s r"

lemma stays_step:
  assumes "timers_ok s" "mset (timerHeap s) = add_mset r (mset h)" "due now s r"
    and "mset (timerHeap s') = mset h + (if requeued s r then {#r#} else {#})"
    and "requeued s r \<Longrightarrow> \<not> due now s' r" "\<forall>q. q \<noteq> r \<longrightarrow> timer_at s' q = timer_at s q"
  shows "filter_mset (stays now s') (mset (timerHeap s')) = filter_mset (stays now s) (mset (timerHeap s))"
proof -
  have "distinct (r # h)"
    using assms(1,2) mset_eq_imp_distinct_iff [of "timerHeap s" "r # h"] by (simp add: timers_ok_def)
  then have "filter_mset (stays now s') (mset h) = filter_mset (stays now s) (mset h)"
    using assms(6)
    by (intro filter_mset_cong) (auto simp: stays_def due_def requeued_def timer_isActive_def)
  then show ?thesis using assms by (auto simp: stays_def)
qed

text \<open>C34: A tick returns. When the callbacks leave the timers alone it runs the callbacks of exactly the
  timers that are due and not cancelled, each once, in the order of their times and, among equal
  times, of their numbers; afterwards no timer of the heap is due, and the heap holds the timers
  that were not due and those that repeat.
\<close>

theorem tick_fires_due_in_order:
  assumes "timers_ok s" "leaves_timers run eff"
  shows "\<exists>rs s'. tick run now (w, s) = Some (fold eff (concat (map (fired s) rs)) w, s') \<and>
    fires_in_order now s rs \<and> timers_ok s' \<and> (\<forall>r\<in>set (timerHeap s'). \<not> due now s' r) \<and>
    mset (timerHeap s') = filter_mset (stays now s) (mset (timerHeap s))"
  using assms(1)
proof (induction "size (filter_mset (due now s) (mset (timerHeap s)))" arbitrary: w s)
  case 0
  then have nd: "\<forall>r\<in>set (timerHeap s). \<not> due now s r" by auto
  then have "\<not> first_due now s" by (auto simp: first_due_def due_def split: list.splits)
  moreover have "fires_in_order now s []" using 0 by (simp add: fires_in_order_def)
  moreover have "filter_mset (stays now s) (mset (timerHeap s)) = mset (timerHeap s)"
    using nd by (auto simp: stays_def filter_mset_eq_conv)
  ultimately show ?case using 0 nd by (intro exI [of _ "[]"] exI [of _ s]) (simp add: tick_done)
next
  case (Suc n)
  have first: "first_due now s"
  proof (rule ccontr)
    assume "\<not> first_due now s"
    then have "size (filter_mset (due now s) (mset (timerHeap s))) = 0"
      using not_first_due [OF Suc.prems] by simp
    then show False using Suc.hyps(2) by linarith
  qed
  obtain r h where pop: "heap_pop (timer_less s) (timerHeap s) = (r, h)" by fastforce
  note f = first_timer [OF Suc.prems first pop]
  obtain s1 where s1: "tick_pass run now (w, s) = (fold eff (fired s r) w, s1)" "timers_ok s1"
    "mset (timerHeap s1) = mset h + (if requeued s r then {#r#} else {#})"
    "requeued s r \<Longrightarrow> \<not> due now s1 r" "\<forall>q. q \<noteq> r \<longrightarrow> timer_at s1 q = timer_at s q"
    by (rule pass_plain [OF Suc.prems first assms(2) pop, of w]) (rule that)
  note left = due_step [OF Suc.prems f(3) s1(3,4,5)]
  have "size (filter_mset (due now s1) (mset (timerHeap s1))) = n"
    using Suc.hyps(2) left(1) f(1,3) by simp
  from Suc.hyps(1) [OF this [symmetric] s1(2), of "fold eff (fired s r) w"] obtain rs s' where
    s': "tick run now (fold eff (fired s r) w, s1) =
           Some (fold eff (concat (map (fired s1) rs)) (fold eff (fired s r) w), s')"
      "fires_in_order now s1 rs" "timers_ok s'" "\<forall>r\<in>set (timerHeap s'). \<not> due now s' r"
      "mset (timerHeap s') = filter_mset (stays now s1) (mset (timerHeap s1))"
    by blast
  note order = fires_Cons [OF f(3) left(2) f(1,2) left(1) s1(5) s'(2)]
  have same: "map (fired s1) rs = map (fired s) rs"
    using order(2) s1(5) by (auto simp: fired_def)
  have "tick run now (w, s) = Some (fold eff (concat (map (fired s) (r # rs))) w, s')"
    using s'(1) by (simp add: tick_more [OF first] s1(1) same)
  then show ?case
    using order(1) s'(3-5) stays_step [OF Suc.prems f(3,1) s1(3-5)]
    by (intro exI [of _ "r # rs"] exI [of _ s']) simp
qed

text \<open>
  Callbacks that add and cancel timers: every operation keeps the heap well formed and never puts a
  timer back that is not on the heap, and then so does a tick that returns.
\<close>

definition keeps_timers :: "('c \<Rightarrow> ('w, 'c) timed \<Rightarrow> ('w, 'c) timed) \<Rightarrow> bool" where
  "keeps_timers run \<longleftrightarrow>
     (\<forall>c ws r. timers_ok (snd ws) \<longrightarrow> off_heap r (snd ws) \<longrightarrow>
        timers_ok (snd (run c ws)) \<and> off_heap r (snd (run c ws)))"

lemma pass_keeps:
  assumes "keeps_timers run" "timers_ok (snd ws)" "first_due now (snd ws)"
  shows "timers_ok (snd (tick_pass run now ws))"
proof -
  obtain w s where ws: "ws = (w, s)" by (cases ws)
  obtain r h where pop: "heap_pop (timer_less s) (timerHeap s) = (r, h)" by fastforce
  define s1 where "s1 = s\<lparr>timerHeap := h\<rparr>"
  define s2 where "s2 = (if \<not> repeat (timer_at s1 r) then timer_cancel r s1 else s1)"
  note first = first_timer [OF assms(2,3) [unfolded ws snd_conv] pop, folded s1_def]
  have at: "timer_at s1 q = timer_at s q" for q by (simp add: s1_def)
  have s2: "timers_ok s2" "off_heap r s2"
    using first(4,5) timers_ok_cancel by (auto simp: s2_def timer_cancel_def)
  show ?thesis
  proof (cases "callback (timer_at s1 r)")
    case None
    then have "tick_pass run now ws = (w, s1)"
      using pop by (simp add: ws tick_pass_def s1_def)
    then show ?thesis using first(4) by simp
  next
    case (Some c)
    obtain w' s3 where run: "run c (w, s2) = (w', s3)" by fastforce
    then have "timers_ok s3 \<and> off_heap r s3"
      using assms(1) s2 by (metis keeps_timers_def snd_conv)
    moreover have "tick_pass run now ws = (w', if repeat (timer_at s3 r) then requeue now r s3 else s3)"
      using Some run pop unfolding s2_def ws tick_pass_def
      by (simp add: at flip: s1_def)
    ultimately show ?thesis using requeue_ok(1) by auto
  qed
qed

lemma tick_keeps:
  assumes "keeps_timers run" "timers_ok (snd ws)" "tick run now ws = Some ws'"
  shows "timers_ok (snd ws') \<and> (\<forall>r\<in>set (timerHeap (snd ws')). \<not> due now (snd ws') r)"
proof -
  have "keeps_timers run \<longrightarrow> timers_ok (snd ws) \<longrightarrow> timers_ok (snd ws') \<and> \<not> first_due now (snd ws')"
  proof (rule tick.raw_induct [where P = "\<lambda>run now ws out.
      keeps_timers run \<longrightarrow> timers_ok (snd ws) \<longrightarrow> timers_ok (snd out) \<and> \<not> first_due now (snd out)",
      OF _ assms(3)])
    fix tk :: "('a \<Rightarrow> ('b, 'a) timed \<Rightarrow> ('b, 'a) timed) \<Rightarrow> int \<Rightarrow> ('b, 'a) timed \<Rightarrow> ('b, 'a) timed option"
      and run now ws out
    assume "\<And>run now ws out. tk run now ws = Some out \<Longrightarrow> keeps_timers run \<longrightarrow>
              timers_ok (snd ws) \<longrightarrow> timers_ok (snd out) \<and> \<not> first_due now (snd out)"
      and "(if first_due now (snd ws) then tk run now (tick_pass run now ws) else Some ws) = Some out"
    then show "keeps_timers run \<longrightarrow> timers_ok (snd ws) \<longrightarrow> timers_ok (snd out) \<and> \<not> first_due now (snd out)"
      using pass_keeps [of run ws now] by (auto split: if_splits)
  qed
  then show ?thesis using assms(1,2) not_first_due by blast
qed

text \<open>A log of callbacks, with two due timers added in the wrong order and one that is not due.\<close>

definition log_run :: "'c \<Rightarrow> ('c list, 'c) timed \<Rightarrow> ('c list, 'c) timed" where
  "log_run c ws = (fst ws @ [c], snd ws)"

definition sample_timers :: "nat timer_heap" where
  "sample_timers =
     (let s1 = snd (addTimer 0 5000000 (Some 3) no_timers);
          s2 = snd (addCallback 0 9000000 (Some 4) s1);
          s3 = snd (addCallback 0 1000000 (Some 1) s2)
      in snd (addCallback 0 1000000 (Some 2) s3))"

lemma new_timer_ok:
  assumes "timers_ok s" "rep \<longrightarrow> minTimerInterval \<le> d"
  shows "timers_ok (snd (new_timer now d c rep s))"
proof -
  define s1 where
    "s1 = s\<lparr>timers := timers s @ [\<lparr>fireTime = now + d, interval = d, callback = c, repeat = rep, addseq = 0\<rparr>]\<rparr>"
  have at: "r < length (timers s) \<Longrightarrow> timer_at s1 r = timer_at s r" for r
    by (simp add: s1_def timer_at_def nth_append)
  have "heap_upto (timer_less s1) (length (timerHeap s)) (timerHeap s)"
    by (rule heap_upto_agree [of s]) (use assms(1) at in \<open>auto simp: timers_ok_def\<close>)
  moreover have "length (timers s) \<notin> set (timerHeap s)" using assms(1) by (auto simp: timers_ok_def)
  ultimately have "timers_ok s1" "off_heap (length (timers s)) s1"
    using assms by (auto simp: timers_ok_def off_heap_def s1_def)
  then show ?thesis
    using enqueue_mset(2) by (simp add: new_timer_def Let_def s1_def)
qed

lemma add_ok:
  "timers_ok s \<Longrightarrow> timers_ok (snd (addCallback now d c s))"
  "timers_ok s \<Longrightarrow> timers_ok (snd (addTimer now d c s))"
  by (simp_all add: addCallback_def addTimer_def new_timer_ok)

lemma no_timers_ok: "timers_ok no_timers"
  by (simp add: no_timers_def timers_ok_def heap_upto_def)

lemma log_run_plain: "leaves_timers log_run (\<lambda>c w. w @ [c])"
  by (simp add: leaves_timers_def log_run_def)

lemma sample_timers_ok: "timers_ok sample_timers"
  by (simp add: sample_timers_def Let_def add_ok no_timers_ok)

theorem tick_fires_due_in_order_witness:
  "\<exists>rs s'. tick log_run 5000000 ([], sample_timers) =
       Some (fold (\<lambda>c w. w @ [c]) (concat (map (fired sample_timers) rs)) [], s') \<and>
    fires_in_order 5000000 sample_timers rs \<and> timers_ok s' \<and>
    (\<forall>r\<in>set (timerHeap s'). \<not> due 5000000 s' r) \<and>
    mset (timerHeap s') = filter_mset (stays 5000000 sample_timers) (mset (timerHeap sample_timers))"
  by (rule tick_fires_due_in_order [OF sample_timers_ok log_run_plain])

lemma sample_ticks:
  "map_option fst (tick log_run 5000000 ([], sample_timers)) = Some [1, 2, 3]"
  by code_simp

end
