(* ===== verification/Firestore.thy ===== *)
theory Firestore
  imports IndexKeys
begin

text \<open>
  The backing on Firestore, \<open>storage/firebase/firebase.go\<close>, \<open>latest.go\<close>, \<open>counting.go\<close> and
  \<open>stats.go\<close>. The client of Firestore is a parameter: the record \<open>firestore_client\<close> of the calls
  the code makes, over a state \<open>'f\<close> of the service. The documents of a query come as the results of
  \<open>Next\<close>: the documents, and then the error that ends them, which is returned by every further call,
  as the documentation of the iterator says. What else is used of the service is in \<open>firestore_laws\<close>.
\<close>

datatype fs_error = FsDone | FsNotFound | FsExists | FsEmptyID | FsOther string

text \<open>What the code writes: records, the document of the counter and the shards below it.\<close>

datatype fs_data = FsItem scrape_item | FsCreated int | FsShard int

type_synonym fs_path = "string list"

record fs_query =
  qCollection :: string
  qWheres :: "(string \<times> go_value) list"
  qOffset :: nat
  qLimit :: "nat option"
  qOrderDesc :: "string option"

type_synonym fs_iterator = "(fs_path \<times> fs_data) list \<times> fs_error"

record 'f firestore_client =
  fsGet :: "fs_path \<Rightarrow> 'f \<Rightarrow> fs_error + fs_data"
  fsCreate :: "fs_path \<Rightarrow> fs_data \<Rightarrow> 'f \<Rightarrow> fs_error option \<times> 'f"
  fsSet :: "fs_path \<Rightarrow> fs_data \<Rightarrow> 'f \<Rightarrow> fs_error option \<times> 'f"
  fsIncrement :: "fs_path \<Rightarrow> string \<Rightarrow> int \<Rightarrow> 'f \<Rightarrow> fs_error option \<times> 'f"
  fsDelete :: "fs_path \<Rightarrow> 'f \<Rightarrow> fs_error option \<times> 'f"
  fsNewDoc :: "string \<Rightarrow> 'f \<Rightarrow> string"
  fsDocuments :: "fs_query \<Rightarrow> 'f \<Rightarrow> fs_iterator"
  fsDataTo :: "fs_data \<Rightarrow> scrape_item \<Rightarrow> fs_error + scrape_item"
  fsField :: "fs_data \<Rightarrow> string \<Rightarrow> go_value option"

datatype 'a fs_result = FsPanic | FsFail fs_error | FsRet 'a

definition it_next :: "fs_iterator \<Rightarrow> (fs_error + fs_path \<times> fs_data) \<times> fs_iterator" where
  "it_next it = (case it of ([], e) \<Rightarrow> (Inl e, it) | (d # ds, e) \<Rightarrow> (Inr d, (ds, e)))"

definition of_step :: "fs_error option \<times> 'f \<Rightarrow> unit fs_result \<times> 'f" where
  "of_step r = (case fst r of None \<Rightarrow> FsRet () | Some e \<Rightarrow> FsFail e, snd r)"

subsection \<open>The counter\<close>

definition counterDoc :: string where "counterDoc = ''__count''"
definition metaDoc :: string where "metaDoc = ''meta''"
definition resultsCollection :: string where "resultsCollection = ''results''"

fun init_shards ::
    "'f firestore_client \<Rightarrow> fs_path \<Rightarrow> nat list \<Rightarrow> 'f \<Rightarrow> fs_error option \<times> 'f" where
  "init_shards C doc [] f = (None, f)"
| "init_shards C doc (num # nums) f =
     (case fsSet C (doc @ [''shards'', itoa (int num)]) (FsShard 0) f of
        (Some e, f') \<Rightarrow> (Some (FsOther ''set''), f')
      | (None, f') \<Rightarrow> init_shards C doc nums f')"

definition initCounter ::
    "'f firestore_client \<Rightarrow> int \<Rightarrow> nat \<Rightarrow> fs_path \<Rightarrow> 'f \<Rightarrow> fs_error option \<times> 'f" where
  "initCounter C now shards doc f =
     (case fsCreate C doc (FsCreated now) f of
        (Some e, f') \<Rightarrow> (Some e, f')
      | (None, f') \<Rightarrow> init_shards C doc [0..<shards] f')"

definition initCounterIfNeeded ::
    "'f firestore_client \<Rightarrow> int \<Rightarrow> nat \<Rightarrow> fs_path \<Rightarrow> 'f \<Rightarrow> fs_error option \<times> 'f" where
  "initCounterIfNeeded C now shards doc f =
     (case fsGet C doc f of
        Inl e \<Rightarrow> if e \<noteq> FsNotFound then (Some e, f) else initCounter C now shards doc f
      | Inr _ \<Rightarrow> (None, f))"

text \<open>\<open>shard\<close> is the number \<open>rand.Intn\<close> draws.\<close>

definition incrementCounter ::
    "'f firestore_client \<Rightarrow> nat \<Rightarrow> fs_path \<Rightarrow> 'f \<Rightarrow> fs_error option \<times> 'f" where
  "incrementCounter C shard doc f = fsIncrement C (doc @ [''shards'', itoa (int shard)]) ''Count'' 1 f"

subsection \<open>The backing\<close>

record firestore_storage =
  fsShards :: nat
  fsNamespace :: string

text \<open>\<open>opened\<close> is the error of \<open>firestore.NewClient\<close>, if any.\<close>

definition newFirestoreStorage ::
    "'f firestore_client \<Rightarrow> fs_error option \<Rightarrow> int \<Rightarrow> string \<Rightarrow> 'f \<Rightarrow> (fs_error + firestore_storage) \<times> 'f" where
  "newFirestoreStorage C opened now ns f =
     (case opened of
        Some e \<Rightarrow> (Inl e, f)
      | None \<Rightarrow>
          let target = (if ns = [] then resultsCollection else ns);
              st = \<lparr>fsShards = 20, fsNamespace = target\<rparr>
          in case initCounterIfNeeded C now (fsShards st) [target, counterDoc] f of
               (Some e, f') \<Rightarrow> (Inl e, f')
             | (None, f') \<Rightarrow> (Inr st, f'))"

definition fs_doc :: "firestore_storage \<Rightarrow> string \<Rightarrow> fs_path" where
  "fs_doc st ident = [fsNamespace st, ident]"

definition fs_all :: "firestore_storage \<Rightarrow> fs_query" where
  "fs_all st = \<lparr>qCollection = fsNamespace st, qWheres = [], qOffset = 0, qLimit = None, qOrderDesc = None\<rparr>"

fun truncate_loop ::
    "'f firestore_client \<Rightarrow> (fs_path \<times> fs_data) list \<Rightarrow> fs_error \<Rightarrow> 'f \<Rightarrow> fs_error option \<times> 'f" where
  "truncate_loop C [] e f = (Some e, f)"
| "truncate_loop C (d # ds) e f =
     (case fsDelete C (fst d) f of
        (Some e', f') \<Rightarrow> (Some e', f')
      | (None, f') \<Rightarrow> truncate_loop C ds e f')"

definition fs_truncate :: "'f firestore_client \<Rightarrow> firestore_storage \<Rightarrow> 'f \<Rightarrow> fs_error option \<times> 'f" where
  "fs_truncate C st f = (let (ds, e) = fsDocuments C (fs_all st) f in truncate_loop C ds e f)"

definition fs_hasIndex :: "string \<Rightarrow> bool" where
  "fs_hasIndex meta = False"

text \<open>\<open>None\<close> is a nil query; the limit is dropped when the query has keys.\<close>

definition transformIndexQueryToFirestoreQuery ::
    "firestore_storage \<Rightarrow> key_query option \<Rightarrow> nat \<Rightarrow> fs_query" where
  "transformIndexQueryToFirestoreQuery st q lim =
     (case q of
        None \<Rightarrow> (fs_all st)\<lparr>qLimit := Some lim\<rparr>
      | Some kvs \<Rightarrow>
          if kvs = [] then (fs_all st)\<lparr>qLimit := Some lim\<rparr> else (fs_all st)\<lparr>qWheres := kvs\<rparr>)"

definition fs_find ::
    "'f firestore_client \<Rightarrow> firestore_storage \<Rightarrow> key_query option \<Rightarrow> scrape_item \<Rightarrow> 'f \<Rightarrow> scrape_item fs_result" where
  "fs_find C st q result f =
     (let fireQuery = transformIndexQueryToFirestoreQuery st q 1
      in case it_next (fsDocuments C (fireQuery\<lparr>qLimit := Some 1\<rparr>) f) of
           (Inl e, _) \<Rightarrow> FsFail e
         | (Inr d, _) \<Rightarrow> (case fsDataTo C (snd d) result of Inl e \<Rightarrow> FsFail e | Inr r \<Rightarrow> FsRet r))"

text \<open>
  \<open>ForEach\<close> with the records it has called back for. A nil document without \<open>Done\<close> is skipped, so a
  query that fails is asked again without end: \<open>None\<close>.
\<close>

partial_function (option) for_each_loop ::
    "'f firestore_client \<Rightarrow> fs_iterator \<Rightarrow> scrape_item list \<Rightarrow> scrape_item list option" where
  "for_each_loop C it seen =
     (case it_next it of
        (Inl e, it') \<Rightarrow> if e = FsDone then Some seen else for_each_loop C it' seen
      | (Inr d, it') \<Rightarrow>
          (case fsDataTo C (snd d) empty_scrape_item of
             Inl _ \<Rightarrow> Some seen
           | Inr r \<Rightarrow> for_each_loop C it' (seen @ [r])))"

definition fs_forEach :: "'f firestore_client \<Rightarrow> firestore_storage \<Rightarrow> 'f \<Rightarrow> scrape_item list option" where
  "fs_forEach C st f =
     for_each_loop C (fsDocuments C (transformIndexQueryToFirestoreQuery st None 1) f) []"

text \<open>\<open>GetLatest\<close> skips a document it cannot decode, and does not end when the query fails either.\<close>

partial_function (option) fs_latest_loop ::
    "'f firestore_client \<Rightarrow> fs_iterator \<Rightarrow> scrape_item list \<Rightarrow> scrape_item list option" where
  "fs_latest_loop C it out =
     (case it_next it of
        (Inl e, it') \<Rightarrow> if e = FsDone then Some out else fs_latest_loop C it' out
      | (Inr d, it') \<Rightarrow>
          (case fsDataTo C (snd d) empty_scrape_item of
             Inl _ \<Rightarrow> fs_latest_loop C it' out
           | Inr r \<Rightarrow> fs_latest_loop C it' (out @ [r])))"

definition fs_getLatest ::
    "'f firestore_client \<Rightarrow> firestore_storage \<Rightarrow> nat \<Rightarrow> 'f \<Rightarrow> scrape_item list option" where
  "fs_getLatest C st n f =
     fs_latest_loop C
       (fsDocuments C ((fs_all st)\<lparr>qOrderDesc := Some ''ID'', qLimit := Some n\<rparr>) f) []"

definition fs_update ::
    "'f firestore_client \<Rightarrow> firestore_storage \<Rightarrow> key_query option \<Rightarrow> scrape_item \<Rightarrow> 'f \<Rightarrow> unit fs_result \<times> 'f" where
  "fs_update C st q item f =
     (case it_next (fsDocuments C (transformIndexQueryToFirestoreQuery st q 1) f) of
        (Inl e, _) \<Rightarrow> (FsFail e, f)
      | (Inr d, _) \<Rightarrow> of_step (fsSet C (fst d) (FsItem item) f))"

definition no_key :: "key option \<Rightarrow> bool" where
  "no_key k \<longleftrightarrow> (case k of None \<Rightarrow> True | Some k' \<Rightarrow> key_isEmpty k')"

definition fs_create_doc ::
    "'f firestore_client \<Rightarrow> nat \<Rightarrow> firestore_storage \<Rightarrow> fs_path \<Rightarrow> scrape_item \<Rightarrow> 'f \<Rightarrow>
     unit fs_result \<times> scrape_item \<times> 'f" where
  "fs_create_doc C shard st doc item f =
     (case fsCreate C doc (FsItem item) f of
        (Some e, f') \<Rightarrow> (FsFail e, item, f')
      | (None, f') \<Rightarrow>
          let (r, f'') = of_step (incrementCounter C shard (fs_doc st counterDoc) f') in (r, item, f''))"

definition fs_createWithID ::
    "'f firestore_client \<Rightarrow> nat \<Rightarrow> firestore_storage \<Rightarrow> key option \<Rightarrow> scrape_item \<Rightarrow> key option \<Rightarrow> 'f \<Rightarrow>
     unit fs_result \<times> scrape_item \<times> 'f" where
  "fs_createWithID C shard st key item uniqueIndexKeys f =
     (if no_key key
      then let ident = fsNewDoc C (fsNamespace st) f
           in fs_create_doc C shard st (fs_doc st ident) (setUUID ident item) f
      else case getIndexValueFromItem key (reflect_scrape item) of
             None \<Rightarrow> (FsPanic, item, f)
           | Some indexValue \<Rightarrow>
               if indexValue = [] then (FsFail FsEmptyID, item, f)
               else fs_create_doc C shard st (fs_doc st indexValue) item f)"

text \<open>\<open>IsEmpty\<close> on a nil key panics, after the record has been created.\<close>

definition fs_create ::
    "'f firestore_client \<Rightarrow> nat \<Rightarrow> firestore_storage \<Rightarrow> scrape_item \<Rightarrow> key option \<Rightarrow> 'f \<Rightarrow>
     unit fs_result \<times> scrape_item \<times> 'f" where
  "fs_create C shard st item additionalIndex f =
     (case fs_createWithID C shard st None item additionalIndex f of
        (FsRet _, item', f') \<Rightarrow>
          (case additionalIndex of None \<Rightarrow> (FsPanic, item', f') | Some _ \<Rightarrow> (FsRet (), item', f'))
      | r \<Rightarrow> r)"

text \<open>A number of another type than \<open>int\<close>, or no number, fails the type assertion.\<close>

definition fs_size :: "'f firestore_client \<Rightarrow> firestore_storage \<Rightarrow> 'f \<Rightarrow> int fs_result" where
  "fs_size C st f =
     (case fsGet C (fs_doc st metaDoc) f of
        Inl _ \<Rightarrow> FsRet (- 1)
      | Inr d \<Rightarrow> (case fsField C d ''count'' of Some (VNum GoInt n) \<Rightarrow> FsRet n | _ \<Rightarrow> FsPanic))"

end
