(* ===== verification/FirestoreFacts.thy ===== *)
theory FirestoreFacts
  imports Firestore
begin

text \<open>
  What the backing on Firestore does with its store: listings that never return, the size that is
  never known, truncation that never succeeds, and identities that are never given twice.
\<close>

definition undecodable :: "'f firestore_client \<Rightarrow> fs_path \<times> fs_data \<Rightarrow> bool" where
  "undecodable C d \<longleftrightarrow> (\<exists>e. fsDataTo C (snd d) empty_scrape_item = Inl e)"

definition decoded :: "'f firestore_client \<Rightarrow> fs_path \<times> fs_data \<Rightarrow> scrape_item list" where
  "decoded C d = (case fsDataTo C (snd d) empty_scrape_item of Inl _ \<Rightarrow> [] | Inr r \<Rightarrow> [r])"

lemma it_next_simps [simp]:
  "it_next ([], e) = (Inl e, ([], e))" "it_next (d # ds, e) = (Inr d, (ds, e))"
  by (simp_all add: it_next_def)

lemma decoded_simps:
  "fsDataTo C (snd d) empty_scrape_item = Inl e \<Longrightarrow> decoded C d = []"
  "fsDataTo C (snd d) empty_scrape_item = Inr r \<Longrightarrow> decoded C d = [r]"
  by (simp_all add: decoded_def)

lemma for_each_done:
  "for_each_loop C (ds, FsDone) seen =
     Some (seen @ concat (map (decoded C) (takeWhile (\<lambda>d. \<not> undecodable C d) ds)))"
proof (induction ds arbitrary: seen)
  case Nil
  then show ?case by (subst for_each_loop.simps) simp
next
  case (Cons d ds)
  show ?case
  proof (cases "fsDataTo C (snd d) empty_scrape_item")
    case (Inl e)
    then show ?thesis by (subst for_each_loop.simps) (simp add: undecodable_def)
  next
    case (Inr r)
    then show ?thesis
      using Cons [of "seen @ [r]"] by (subst for_each_loop.simps) (simp add: undecodable_def decoded_simps(2))
  qed
qed

lemma for_each_stops:
  assumes "for_each_loop C (ds, e) seen = Some out"
  shows "e = FsDone \<or> (\<exists>d\<in>set ds. undecodable C d)"
proof -
  have "snd (ds, e) = FsDone \<or> (\<exists>d\<in>set (fst (ds, e)). undecodable C d)"
  proof (rule for_each_loop.raw_induct [where P = "\<lambda>C it seen out.
      snd it = FsDone \<or> (\<exists>d\<in>set (fst it). undecodable C d)", OF _ assms])
    fix lp :: "'a firestore_client \<Rightarrow> fs_iterator \<Rightarrow> scrape_item list \<Rightarrow> scrape_item list option"
      and C it seen out
    assume ih: "\<And>C it seen out. lp C it seen = Some out \<Longrightarrow>
        snd it = FsDone \<or> (\<exists>d\<in>set (fst it). undecodable C d)"
      and step: "(case it_next it of
        (Inl e, it') \<Rightarrow> if e = FsDone then Some seen else lp C it' seen
      | (Inr d, it') \<Rightarrow>
          (case fsDataTo C (snd d) empty_scrape_item of
             Inl _ \<Rightarrow> Some seen
           | Inr r \<Rightarrow> lp C it' (seen @ [r]))) = Some out"
    obtain ds e where it: "it = (ds, e)" by (cases it)
    show "snd it = FsDone \<or> (\<exists>d\<in>set (fst it). undecodable C d)"
    proof (cases ds)
      case Nil
      then show ?thesis using step ih [of C it seen out] by (auto simp: it split: if_splits)
    next
      case (Cons d ds')
      then show ?thesis
        using step ih [of C "(ds', e)"]
        by (auto simp: it undecodable_def split: sum.splits)
    qed
  qed
  then show ?thesis by simp
qed

lemma latest_done:
  "fs_latest_loop C (ds, FsDone) out = Some (out @ concat (map (decoded C) ds))"
proof (induction ds arbitrary: out)
  case Nil
  then show ?case by (subst fs_latest_loop.simps) simp
next
  case (Cons d ds)
  then show ?case
    by (subst fs_latest_loop.simps) (cases "fsDataTo C (snd d) empty_scrape_item"; simp add: decoded_simps)
qed

lemma latest_stops:
  assumes "fs_latest_loop C (ds, e) out = Some res"
  shows "e = FsDone"
proof -
  have "snd (ds, e) = FsDone"
  proof (rule fs_latest_loop.raw_induct [where P = "\<lambda>C it out res. snd it = FsDone", OF _ assms])
    fix lp :: "'a firestore_client \<Rightarrow> fs_iterator \<Rightarrow> scrape_item list \<Rightarrow> scrape_item list option"
      and C it out res
    assume ih: "\<And>C it out res. lp C it out = Some res \<Longrightarrow> snd it = FsDone"
      and step: "(case it_next it of
        (Inl e, it') \<Rightarrow> if e = FsDone then Some out else lp C it' out
      | (Inr d, it') \<Rightarrow>
          (case fsDataTo C (snd d) empty_scrape_item of
             Inl _ \<Rightarrow> lp C it' out
           | Inr r \<Rightarrow> lp C it' (out @ [r]))) = Some res"
    obtain ds e where it: "it = (ds, e)" by (cases it)
    show "snd it = FsDone"
    proof (cases ds)
      case Nil
      then show ?thesis using step ih [of C it out res] by (auto simp: it split: if_splits)
    next
      case (Cons d ds')
      then show ?thesis
        using step ih [of C "(ds', e)"] by (auto simp: it split: sum.splits)
    qed
  qed
  then show ?thesis by simp
qed

text \<open>The service returns no more documents than the limit of the query.\<close>

definition keeps_limit :: "'f firestore_client \<Rightarrow> bool" where
  "keeps_limit C \<longleftrightarrow>
     (\<forall>q f n. qLimit q = Some n \<longrightarrow> length (fst (fsDocuments C q f)) \<le> n)"

definition all_query :: "firestore_storage \<Rightarrow> fs_query" where
  "all_query st = transformIndexQueryToFirestoreQuery st None 1"

definition latest_query :: "firestore_storage \<Rightarrow> nat \<Rightarrow> fs_query" where
  "latest_query st n = (fs_all st)\<lparr>qOrderDesc := Some ''ID'', qLimit := Some n\<rparr>"

text \<open>C36: \<open>ForEach\<close> of the Firestore backing calls back for at most one record, the first, whatever the
  number of records; and when the query fails, with an error other than the end of the documents,
  neither it nor \<open>GetLatest\<close> returns, unless \<open>ForEach\<close> first meets a document it cannot decode.
\<close>

theorem firestore_listings:
  assumes "keeps_limit C" "fsDocuments C (all_query st) f = (ds, e)"
    and "fsDocuments C (latest_query st n) f = (ls, e')"
  shows "fs_forEach C st f =
      (if e = FsDone \<or> (\<exists>d\<in>set ds. undecodable C d) then Some (concat (map (decoded C) ds)) else None) \<and>
    length (concat (map (decoded C) ds)) \<le> 1 \<and>
    fs_getLatest C st n f = (if e' = FsDone then Some (concat (map (decoded C) ls)) else None)"
proof (intro conjI)
  have "qLimit (all_query st) = Some 1"
    by (simp add: all_query_def transformIndexQueryToFirestoreQuery_def)
  then have "length (fst (fsDocuments C (all_query st) f)) \<le> 1"
    using assms(1) unfolding keeps_limit_def by blast
  then have "length ds \<le> 1" by (simp add: assms(2))
  then have one: "ds = [] \<or> (\<exists>d. ds = [d])" by (cases ds) auto
  then show "length (concat (map (decoded C) ds)) \<le> 1"
    by (auto simp: decoded_def split: sum.splits)
  have loop: "fs_forEach C st f = for_each_loop C (ds, e) []"
    using assms(2) by (simp add: fs_forEach_def all_query_def)
  show "fs_forEach C st f =
      (if e = FsDone \<or> (\<exists>d\<in>set ds. undecodable C d) then Some (concat (map (decoded C) ds)) else None)"
  proof (cases "e = FsDone \<or> (\<exists>d\<in>set ds. undecodable C d)")
    case True
    then have "for_each_loop C (ds, e) [] = Some (concat (map (decoded C) ds))"
    proof
      assume "e = FsDone"
      then show ?thesis using one for_each_done [of C ds "[]"]
        by (auto simp: undecodable_def decoded_def)
    next
      assume "\<exists>d\<in>set ds. undecodable C d"
      then show ?thesis using one
        by (subst for_each_loop.simps) (auto simp: undecodable_def decoded_simps)
    qed
    then show ?thesis using True loop by simp
  next
    case False
    then have "for_each_loop C (ds, e) [] = None"
      using for_each_stops [of C ds e "[]"] by (cases "for_each_loop C (ds, e) []") blast+
    then show ?thesis using False loop by simp
  qed
  have "fs_getLatest C st n f = fs_latest_loop C (ls, e') []"
    using assms(3) by (simp add: fs_getLatest_def latest_query_def)
  then show "fs_getLatest C st n f = (if e' = FsDone then Some (concat (map (decoded C) ls)) else None)"
    using latest_done [of C ls "[]"] latest_stops [of C ls e' "[]"]
    by (cases "fs_latest_loop C (ls, e') []") auto
qed

text \<open>
  A service in memory: documents by path, in the order of their creation, and whether queries fail.
\<close>

definition as_int64 :: "go_value \<Rightarrow> go_value" where
  "as_int64 v = (case v of VNum _ n \<Rightarrow> VNum GoInt64 n | _ \<Rightarrow> v)"

definition mem_field :: "fs_data \<Rightarrow> string \<Rightarrow> go_value option" where
  "mem_field d name =
     (case d of
        FsItem i \<Rightarrow> map_option as_int64 (map_of (scrape_fields i) name)
      | FsCreated t \<Rightarrow> if name = ''created'' then Some (VTime t) else None
      | FsShard n \<Rightarrow> if name = ''Count'' then Some (VNum GoInt64 n) else None)"

definition mem_answers :: "fs_query \<Rightarrow> fs_path \<times> fs_data \<Rightarrow> bool" where
  "mem_answers q d \<longleftrightarrow> length (fst d) = 2 \<and> hd (fst d) = qCollection q \<and>
     (\<forall>(k, v)\<in>set (qWheres q). mem_field (snd d) k = Some v)"

definition mem_documents :: "fs_query \<Rightarrow> bool \<times> (fs_path \<times> fs_data) list \<Rightarrow> fs_iterator" where
  "mem_documents q f =
     (if fst f then ([], FsOther ''unavailable'')
      else let ds = drop (qOffset q) (filter (mem_answers q) (snd f))
           in (case qLimit q of None \<Rightarrow> ds | Some n \<Rightarrow> take n ds, FsDone))"

definition mem_increment ::
    "fs_path \<Rightarrow> string \<Rightarrow> int \<Rightarrow> bool \<times> (fs_path \<times> fs_data) list \<Rightarrow> fs_error option \<times> bool \<times> (fs_path \<times> fs_data) list" where
  "mem_increment p name n f =
     (case map_of (snd f) p of
        Some (FsShard m) \<Rightarrow> (None, fst f, AList.update p (FsShard (m + n)) (snd f))
      | _ \<Rightarrow> (Some FsNotFound, f))"

definition mem_client :: "(bool \<times> (fs_path \<times> fs_data) list) firestore_client" where
  "mem_client = \<lparr>
     fsGet = (\<lambda>p f. case map_of (snd f) p of None \<Rightarrow> Inl FsNotFound | Some d \<Rightarrow> Inr d),
     fsCreate = (\<lambda>p d f. if map_of (snd f) p = None then (None, fst f, snd f @ [(p, d)]) else (Some FsExists, f)),
     fsSet = (\<lambda>p d f. (None, fst f, AList.update p d (snd f))),
     fsIncrement = mem_increment,
     fsDelete = (\<lambda>p f. (None, fst f, filter (\<lambda>d. fst d \<noteq> p) (snd f))),
     fsNewDoc = (\<lambda>c f. replicate (length (snd f)) CHR ''x''),
     fsDocuments = mem_documents,
     fsDataTo = (\<lambda>d r. case d of FsItem i \<Rightarrow> Inr i | _ \<Rightarrow> Inr r),
     fsField = mem_field\<rparr>"

lemma mem_keeps_limit: "keeps_limit mem_client"
  by (auto simp: keeps_limit_def mem_client_def mem_documents_def Let_def)

definition sample_docs :: "(fs_path \<times> fs_data) list" where
  "sample_docs = [([''results'', ''1''], FsItem (setLocalID ''1'' empty_scrape_item)),
                  ([''results'', ''2''], FsItem (setLocalID ''2'' empty_scrape_item))]"

definition sample_fs :: firestore_storage where
  "sample_fs = \<lparr>fsShards = 20, fsNamespace = ''results''\<rparr>"

lemma sample_documents:
  "fsDocuments mem_client (all_query sample_fs) (False, sample_docs) = (take 1 sample_docs, FsDone)"
  "fsDocuments mem_client (latest_query sample_fs 5) (True, sample_docs) = ([], FsOther ''unavailable'')"
  "fsDocuments mem_client (latest_query sample_fs 5) (False, sample_docs) = (sample_docs, FsDone)"
  "fsDocuments mem_client (all_query sample_fs) (True, sample_docs) = ([], FsOther ''unavailable'')"
  by (simp_all add: mem_client_def mem_documents_def all_query_def latest_query_def mem_answers_def
      transformIndexQueryToFirestoreQuery_def fs_all_def sample_fs_def sample_docs_def)

text \<open>Two records: \<open>ForEach\<close> sees one of them; when the service fails nothing returns.\<close>

theorem firestore_listings_witness:
  "fs_forEach mem_client sample_fs (False, sample_docs) = Some [setLocalID ''1'' empty_scrape_item] \<and>
   fs_forEach mem_client sample_fs (True, sample_docs) = None \<and>
   fs_getLatest mem_client sample_fs 5 (True, sample_docs) = None"
  using firestore_listings [OF mem_keeps_limit sample_documents(1,3)]
    firestore_listings [OF mem_keeps_limit sample_documents(4,2)]
  by (simp add: sample_docs_def decoded_def) (simp add: mem_client_def)

subsection \<open>Records by identity, size and truncation\<close>

definition stored :: "'f firestore_client \<Rightarrow> 'f \<Rightarrow> fs_path \<Rightarrow> fs_data option" where
  "stored C f p = (case fsGet C p f of Inl _ \<Rightarrow> None | Inr d \<Rightarrow> Some d)"

definition firestore_laws :: "'f firestore_client \<Rightarrow> bool" where
  "firestore_laws C \<longleftrightarrow>
     (\<forall>p d f f'. fsCreate C p d f = (None, f') \<longrightarrow>
        stored C f p = None \<and> (\<forall>q. stored C f' q = (if q = p then Some d else stored C f q))) \<and>
     (\<forall>p name n f q. q \<noteq> p \<longrightarrow> stored C (snd (fsIncrement C p name n f)) q = stored C f q)"

lemma create_doc_stores:
  assumes "firestore_laws C" "fs_create_doc C shard st (fs_doc st ident) item f = (FsRet (), item', f')"
  shows "stored C f (fs_doc st ident) = None" "stored C f' (fs_doc st ident) = Some (FsItem item)"
proof -
  obtain f1 where c: "fsCreate C (fs_doc st ident) (FsItem item) f = (None, f1)"
    and f': "f' = snd (incrementCounter C shard (fs_doc st counterDoc) f1)"
    using assms(2) by (auto simp: fs_create_doc_def of_step_def split: prod.splits option.splits)
  have "fs_doc st ident \<noteq> fs_doc st counterDoc @ [''shards'', itoa (int shard)]"
    by (simp add: fs_doc_def)
  then have "stored C f' (fs_doc st ident) = stored C f1 (fs_doc st ident)"
    using assms(1) unfolding firestore_laws_def f' incrementCounter_def by blast
  then show "stored C f (fs_doc st ident) = None" "stored C f' (fs_doc st ident) = Some (FsItem item)"
    using assms(1) c unfolding firestore_laws_def by auto
qed

text \<open>
  A record created under a key stays the only one with its value: a later creation with the same
  value is refused, although the further keys, which a store of bolt would make unique, are ignored.
\<close>

lemma firestore_identity_given_once:
  assumes "firestore_laws C" "\<not> no_key key"
    and "fs_createWithID C shard st key item uk f = (FsRet (), item', f')"
    and "getIndexValueFromItem key (reflect_scrape item2) = getIndexValueFromItem key (reflect_scrape item)"
  shows "fst (fs_createWithID C shard2 st key item2 uk2 f') \<noteq> FsRet ()"
    "\<exists>v. getIndexValueFromItem key (reflect_scrape item) = Some v \<and>
         stored C f' (fs_doc st v) = Some (FsItem item)"
proof -
  obtain v where v: "getIndexValueFromItem key (reflect_scrape item) = Some v" "v \<noteq> []"
    and c: "fs_create_doc C shard st (fs_doc st v) item f = (FsRet (), item', f')"
    using assms(2,3) by (auto simp: fs_createWithID_def split: option.splits if_splits)
  note s1 = create_doc_stores [OF assms(1) c]
  then show "\<exists>v. getIndexValueFromItem key (reflect_scrape item) = Some v \<and>
      stored C f' (fs_doc st v) = Some (FsItem item)" using v by blast
  have "fs_createWithID C shard2 st key item2 uk2 f' = fs_create_doc C shard2 st (fs_doc st v) item2 f'"
    using assms(2,4) v by (simp add: fs_createWithID_def)
  moreover have "fst (fs_create_doc C shard2 st (fs_doc st v) item2 f') \<noteq> FsRet ()"
    using create_doc_stores(1) [OF assms(1), of shard2 st v item2 f'] s1(2) by (metis option.distinct(1) prod.collapse)
  ultimately show "fst (fs_createWithID C shard2 st key item2 uk2 f') \<noteq> FsRet ()" by simp
qed

lemma truncate_never_succeeds: "fst (fs_truncate C st f) \<noteq> None"
proof -
  have "fst (truncate_loop C ds e f) \<noteq> None" for ds e
    by (induction C ds e f rule: truncate_loop.induct) (auto split: prod.splits option.splits)
  then show ?thesis by (simp add: fs_truncate_def split: prod.splits)
qed

text \<open>Firestore gives every whole number as an \<open>int64\<close>.\<close>

definition numbers_are_int64 :: "'f firestore_client \<Rightarrow> bool" where
  "numbers_are_int64 C \<longleftrightarrow> (\<forall>d name k n. fsField C d name = Some (VNum k n) \<longrightarrow> k = GoInt64)"

lemma firestore_size_unknown:
  "numbers_are_int64 C \<Longrightarrow> fs_size C st f = FsRet (- 1) \<or> fs_size C st f = FsPanic"
  by (auto simp: numbers_are_int64_def fs_size_def split: sum.splits option.splits go_value.splits int_kind.splits)

lemma map_of_update: "map_of (AList.update p d xs) = (map_of xs)(p \<mapsto> d)"
  by (simp add: update_conv')

lemma as_int64_kind: "as_int64 z = VNum k n \<Longrightarrow> k = GoInt64"
  by (cases z) (auto simp: as_int64_def)

lemma mem_laws: "firestore_laws mem_client" "numbers_are_int64 mem_client"
proof -
  have "stored mem_client f q = map_of (snd f) q" for f q
    by (simp add: stored_def mem_client_def split: option.splits)
  then show "firestore_laws mem_client"
    by (auto simp: firestore_laws_def mem_client_def mem_increment_def map_of_update map_add_def
        split: option.splits fs_data.splits if_splits)
  show "numbers_are_int64 mem_client"
    by (auto simp: numbers_are_int64_def mem_client_def mem_field_def as_int64_kind
        split: fs_data.splits if_splits)
qed

end
