(* ===== verification/Consumers.thy ===== *)
theory Consumers
  imports Server BoltStorage
begin

text \<open>
  What reads the results of a search of the facade: the RSS routes (\<open>server/rss/rss.go\<close>), the
  search for new items (\<open>torrent/torrentFetching.go\<close>), \<open>PrintResults\<close> of \<open>indexer/utils.go\<close> and the
  commands of \<open>cmd/\<close>. A search answers with an error, and then its channel is nil, or with a channel
  over which batches come and that may be closed at the end; \<open>found\<close> is that answer. The searches
  and the stores are arguments; a tab and a line feed are the bytes 9 and 10.
\<close>

subsection \<open>The answer of a search\<close>

datatype found = FoundLoginError | FoundError string | FoundPages "result_item list list" bool

text \<open>How a function that reads a channel ends: it returns, it waits for ever, the process exits with a
status or it panics; each with what it has put out before.\<close>

datatype ('o, 'r) ending = Returned 'o 'r | Blocked 'o | Exited 'o nat | Crashed 'o

text \<open>Ranging over a nil channel, or one that is never closed, does not end.\<close>

definition range_results :: "found \<Rightarrow> result_item list \<times> bool" where
  "range_results r =
     (case r of FoundPages pages closed \<Rightarrow> (concat pages, closed) | _ \<Rightarrow> ([], False))"

fun item_string :: "result_item \<Rightarrow> string" where
  "item_string (ScrapeResult i) = scrape_string i"
| "item_string (TorrentResult t) = torrent_string t"

definition tab_char :: char where "tab_char = char_of (9 :: nat)"
definition newline_char :: char where "newline_char = char_of (10 :: nat)"

definition result_line :: "string \<Rightarrow> string \<Rightarrow> string \<Rightarrow> string" where
  "result_line what ident text = what @ '' #'' @ ident @ '':'' @ [tab_char] @ text @ [newline_char]"

definition result_kind :: "scrape_item \<Rightarrow> string" where
  "result_kind i =
     (if isNew i \<or> isUpdate i
      then if isNew i \<and> \<not> isUpdate i then ''Found new result'' else ''Updated result''
      else ''Result'')"

subsection \<open>New items and printed results\<close>

definition new_item_line :: "result_item \<Rightarrow> string" where
  "new_item_line item =
     (let i = asScrapeItem item in result_line (result_kind i) (uuidValue i) (item_string item))"

text \<open>\<open>GetNewScrapeItems\<close>: only a login error is returned.\<close>

definition newItemsQuery :: query where
  "newItemsQuery = newQuery\<lparr>stopOnStale := True\<rparr>"

definition getNewScrapeItems :: "(query \<Rightarrow> found) \<Rightarrow> (string list, bool) ending" where
  "getNewScrapeItems search =
     (let r = search newItemsQuery
      in if r = FoundLoginError then Returned [] False
         else let (rs, closed) = range_results r; out = map new_item_line rs
              in if closed then Returned out True else Blocked out)"

text \<open>\<open>json\<close> is \<open>json.Marshal\<close>, whose error is ignored.\<close>

definition print_line :: "(result_item \<Rightarrow> string) \<Rightarrow> result_item \<Rightarrow> string" where
  "print_line json item =
     (let i = asScrapeItem item
      in result_line (result_kind i) (uuidValue i)
           (if isNew i \<and> \<not> isUpdate i then json item else item_string item))"

definition printResults :: "(result_item \<Rightarrow> string) \<Rightarrow> result_item list \<Rightarrow> string list" where
  "printResults json results = map (print_line json) results"

subsection \<open>The RSS feed of a search\<close>

record feed_item =
  fiTitle :: string
  fiHref :: string
  fiDescription :: string
  fiAuthor :: string
  fiCreated :: int

record rss_feed =
  rfTitle :: string
  rfHref :: string
  rfDescription :: string
  rfItems :: "feed_item list"

definition feed_item_of :: "torrent_item \<Rightarrow> feed_item" where
  "feed_item_of t =
     \<lparr>fiTitle = title t, fiHref = tSourceLink t, fiDescription = tLink t, fiAuthor = author t,
      fiCreated = publishDate (scraped t)\<rparr>"

definition sendRssFeed :: "string \<Rightarrow> string \<Rightarrow> torrent_item list \<Rightarrow> rss_feed" where
  "sendRssFeed hostname name torrents =
     \<lparr>rfTitle = name @ '' from Rutracker'', rfHref = ''http://'' @ hostname @ ''/'' @ name,
      rfDescription = name, rfItems = map feed_item_of torrents\<rparr>"

text \<open>\<open>addedOn\<close> prints a date.\<close>

definition rss_line :: "(int \<Rightarrow> string) \<Rightarrow> torrent_item \<Rightarrow> string" where
  "rss_line addedOn t =
     (let i = scraped t
      in result_line (result_kind i) (localID i)
           (addedOn (publishDate i) @ [tab_char] @ ''['' @
            (if isNew i \<or> isUpdate i then fingerprint t else ''#'') @ '']:'' @ [tab_char] @ title t))"

text \<open>A result that is no torrent fails the type assertion; the lines printed so far, the torrents, and
whether all results have been read.\<close>

fun rss_collect ::
    "(int \<Rightarrow> string) \<Rightarrow> result_item list \<Rightarrow> string list \<Rightarrow> torrent_item list \<Rightarrow>
     string list \<times> torrent_item list \<times> bool" where
  "rss_collect addedOn [] out ts = (out, ts, True)"
| "rss_collect addedOn (TorrentResult t # rs) out ts =
     rss_collect addedOn rs (out @ [rss_line addedOn t]) (ts @ [t])"
| "rss_collect addedOn (ScrapeResult i # rs) out ts = (out, ts, False)"

definition searchAndServe ::
    "(int \<Rightarrow> string) \<Rightarrow> (query \<Rightarrow> found) \<Rightarrow> string \<Rightarrow> (string list, rss_feed) ending" where
  "searchAndServe addedOn search param =
     (let name = queryEscape param
      in case newQueryFromQueryString name of
           Panics \<Rightarrow> Crashed []
         | Fails e \<Rightarrow> Blocked []
         | Returns q \<Rightarrow>
             let (rs, closed) = range_results (search (q\<lparr>qPage := 1, numberOfPagesToFetch := 1\<rparr>));
                 (out, ts, all) = rss_collect addedOn rs [] []
             in if \<not> all then Crashed out
                else if \<not> closed then Blocked out
                else Returned out (sendRssFeed [] name ts))"

subsection \<open>The commands\<close>

text \<open>\<open>facade\<close> says whether a facade can be made from the configuration. The error of the query of
\<open>get\<close> is ignored, and then the query is nil.\<close>

definition getCommand ::
    "(result_item \<Rightarrow> string) \<Rightarrow> bool \<Rightarrow> (query \<Rightarrow> found) \<Rightarrow> string \<Rightarrow> (string list, unit) ending" where
  "getCommand json facade search queryStr =
     (if \<not> facade then Exited [''Couldn't initialize index facade''] 1
      else case newQueryFromQueryString queryStr of
             Panics \<Rightarrow> Crashed []
           | Fails _ \<Rightarrow> Crashed []
           | Returns q \<Rightarrow>
               let q1 = q\<lparr>stopOnStale := True\<rparr>;
                   q2 = (if numberOfPagesToFetch q1 = 0 then q1\<lparr>numberOfPagesToFetch := 20\<rparr> else q1)
               in case search q2 of
                    FoundPages pages closed \<Rightarrow>
                      let out = concat (map (printResults json) pages)
                      in if closed then Returned out () else Blocked out
                  | _ \<Rightarrow> Exited [] 1)"

definition findSubtitles ::
    "bool \<Rightarrow> (query \<Rightarrow> found) \<Rightarrow> string list \<Rightarrow> (string list, unit) ending" where
  "findSubtitles facade search args =
     (if \<not> facade then Exited [''Couldn't initialize''] 1
      else case newQueryFromQueryString (join '' '' args) of
             Panics \<Rightarrow> Crashed []
           | Fails _ \<Rightarrow> Exited [] 1
           | Returns q \<Rightarrow>
               (case search (q\<lparr>qPage := 0, qCategories := [- 1]\<rparr>) of
                  FoundPages pages closed \<Rightarrow>
                    let out = map (\<lambda>r. item_string r @ '' - '' @ itLink (asScrapeItem r) @ [newline_char])
                                (concat pages)
                    in if closed then Returned out () else Blocked out
                | _ \<Rightarrow> Exited [] 1))"

definition fetchTorrents :: "bool \<Rightarrow> (query \<Rightarrow> found) \<Rightarrow> (string list, bool) ending" where
  "fetchTorrents facade search = (if \<not> facade then Exited [] 1 else getNewScrapeItems search)"

text \<open>What \<open>watch\<close> prints of the items that come over its channel, which is closed by nobody.\<close>

definition watch_line :: "result_item \<Rightarrow> string option" where
  "watch_line item =
     (let i = asScrapeItem item
      in if \<not> isNew i \<and> \<not> isUpdate i then None
         else Some (result_line (if isNew i \<and> \<not> isUpdate i then ''Found new result'' else ''Updated torrent'')
                (uuidValue i) (item_string item)))"

definition watch_lines :: "result_item list \<Rightarrow> string list" where
  "watch_lines results = List.map_filter watch_line results"

definition listLatestTorrents :: "(int \<Rightarrow> scrape_item list) \<Rightarrow> int \<Rightarrow> string list" where
  "listLatestTorrents latest n =
     map (\<lambda>i. uuidValue i @ '':'' @ [tab_char] @ scrape_string i) (latest n)"

definition getInfo :: "namespace_stats list option \<Rightarrow> string list" where
  "getInfo stats =
     (case stats of
        None \<Rightarrow> [''No stats information found.'']
      | Some namespaces \<Rightarrow>
          map (\<lambda>n. ''['' @ itoa (recordCount n) @ '']'' @ [tab_char] @ nsName n @ [newline_char]) namespaces)"

text \<open>\<open>GetAllPagesFromIndex\<close>: what comes over the channel it returns, which is never closed.\<close>

definition getAllPagesFromIndex ::
    "uint64 \<Rightarrow> (query \<Rightarrow> found) \<Rightarrow> query option \<Rightarrow> result_item list" where
  "getAllPagesFromIndex limit search query =
     (let q = (case query of None \<Rightarrow> newQuery | Some q \<Rightarrow> q)
      in fst (range_results (search (q\<lparr>numberOfPagesToFetch := limit, stopOnStale := True\<rparr>))))"

end
