(* ===== verification/ConsumerFacts.thy ===== *)
theory ConsumerFacts
  imports Consumers
begin

text \<open>
  What the readers of a search give: the RSS feed has exactly the torrents found, a search that fails
  leaves its reader waiting for ever, and the text of an RSS search is never read as a pattern.
\<close>

lemma hex_of_upper: "d < 16 \<Longrightarrow> hex_val (hex_upper d) = Some d"
  by (auto simp: hex_val_def hex_upper_def Let_def)

lemma of_char_less: "(of_char c :: nat) < 256"
  by (metis nat_of_char_less_256)

definition escape_char :: "char \<Rightarrow> string" where
  "escape_char c = queryEscape [c]"

lemma queryEscape_Cons: "queryEscape (c # s) = escape_char c @ queryEscape s"
  by (simp add: queryEscape_def escape_char_def)

lemma unescape_char: "queryUnescape (escape_char c @ s) = map_option ((#) c) (queryUnescape s)"
proof -
  define n where "n = (of_char c :: nat)"
  have n: "n < 256" "char_of n = c" using of_char_less by (simp_all add: n_def)
  show ?thesis
  proof (cases "unreserved c \<or> c = CHR '' ''")
    case True
    then have "c \<noteq> CHR ''%''" "c \<noteq> CHR ''+''" by (auto simp: unreserved_def)
    then show ?thesis using True by (auto simp: escape_char_def queryEscape_def)
  next
    case False
    have h: "hex_val (hex_upper (n div 16)) = Some (n div 16)"
      "hex_val (hex_upper (n mod 16)) = Some (n mod 16)"
      using n by (auto intro!: hex_of_upper)
    have "char_of (16 * (n div 16) + n mod 16) = c" using n by simp
    then show ?thesis using False h by (simp add: escape_char_def queryEscape_def flip: n_def)
  qed
qed

lemma escape_roundtrip: "queryUnescape (queryEscape s) = Some s"
  by (induction s) (simp_all add: queryEscape_Cons unescape_char, simp add: queryEscape_def)

lemma unreserved_digit: "d < 16 \<Longrightarrow> unreserved (hex_upper d)"
  by (auto simp: unreserved_def hex_upper_def Let_def)

lemma escaped_plain:
  assumes "c \<in> set (queryEscape s)"
  shows "unreserved c \<or> c = CHR ''+'' \<or> c = CHR ''%''"
proof -
  have "unreserved (hex_upper (of_char x div 16))" "unreserved (hex_upper (of_char x mod 16))" for x
    using of_char_less [of x] by (auto intro!: unreserved_digit simp: less_mult_imp_div_less)
  then show ?thesis using assms by (auto simp: queryEscape_def split: if_splits)
qed

lemma escaped_no_pattern: "\<not> queryUsesPatterns (queryEscape s)"
proof -
  have "CHR '';'' \<notin> set (queryEscape s)" "CHR ''$'' \<notin> set (queryEscape s)"
    using escaped_plain [of "CHR '';''" s] escaped_plain [of "CHR ''$''" s]
    by (auto simp: unreserved_def)
  then show ?thesis
    by (cases "queryEscape s") (auto simp: queryUsesPatterns_def go_split_single_notin has_prefix_def)
qed

fun torrents_before :: "result_item list \<Rightarrow> torrent_item list" where
  "torrents_before [] = []"
| "torrents_before (TorrentResult t # rs) = t # torrents_before rs"
| "torrents_before (ScrapeResult i # rs) = []"

definition all_torrents :: "result_item list \<Rightarrow> bool" where
  "all_torrents rs \<longleftrightarrow> (\<forall>i. ScrapeResult i \<notin> set rs)"

lemma all_torrents_before: "all_torrents rs \<longleftrightarrow> map TorrentResult (torrents_before rs) = rs"
  by (induction rs rule: torrents_before.induct) (auto simp: all_torrents_def)

lemma rss_collect_torrents:
  "rss_collect addedOn rs out ts =
     (out @ map (rss_line addedOn) (torrents_before rs), ts @ torrents_before rs, all_torrents rs)"
  by (induction addedOn rs out ts rule: rss_collect.induct) (auto simp: all_torrents_def)

definition rss_query :: "string \<Rightarrow> query" where
  "rss_query param = newQuery\<lparr>qType := ''search'', queryString := queryEscape param,
     qPage := 1, numberOfPagesToFetch := 1\<rparr>"

text \<open>The RSS route searches for the escaped text of its path, never for a pattern, on page one; when
  every result is a torrent and the channel of results is closed it answers with a feed of exactly
  the torrents in their order; it panics at the first result that is no torrent; and after a search
  that failed, whatever the error, it never answers.
\<close>

theorem rss_search_outcome:
  "searchAndServe addedOn search param =
     (case search (rss_query param) of
        FoundPages pages closed \<Rightarrow>
          let ts = torrents_before (concat pages); out = map (rss_line addedOn) ts
          in if \<not> all_torrents (concat pages) then Crashed out
             else if \<not> closed then Blocked out
             else Returned out (sendRssFeed [] (queryEscape param) ts)
      | _ \<Rightarrow> Blocked [])"
proof -
  have q: "newQueryFromQueryString (queryEscape param) =
      Returns (newQuery\<lparr>qType := ''search'', queryString := queryEscape param\<rparr>)"
    by (simp add: newQueryFromQueryString_def escaped_no_pattern)
  show ?thesis
    by (simp add: searchAndServe_def q rss_query_def range_results_def rss_collect_torrents Let_def
        all_torrents_def split: found.split)
qed

lemma failed_search_blocks_new_items:
  "search newItemsQuery = FoundError e \<Longrightarrow> getNewScrapeItems search = Blocked []"
  by (simp add: getNewScrapeItems_def range_results_def)

end
