(* ===== verification/TorrentFiles.thy ===== *)
theory TorrentFiles
  imports Consumers
begin

text \<open>
  The files of torrents (\<open>torrent/torrentParsing.go\<close>) and the resolution of the latest results with
  them (\<open>torrent/torrentDbResolution.go\<close>). Bencode, SHA-1 and the decoder of windows-1251 are the
  parameter \<open>torrent_lib\<close>. A Go \<open>uint\<close> is a word of 64 bits. \<open>Ok None\<close> is a nil pointer without an
  error.
\<close>

record torrent_file =
  fLength :: uint64
  fPath :: "string list"

record torrent_profile =
  acodec :: string
  vcodec :: string
  height :: uint64
  width :: uint64

record definition_info =
  fileDuration :: "int list"
  fileMedia :: "int list"
  infoFiles :: "torrent_file list"
  infoName :: string
  pieceLength :: uint64
  pieces :: string
  profiles :: "torrent_profile list"

record torrent_definition =
  tdAnnounce :: string
  announceList :: "string list list"
  tdComment :: string
  createdBy :: string
  creationDate :: uint64
  tdEncoding :: string
  tdInfo :: definition_info
  tdPublisher :: string
  publisherURL :: string
  infoBuffer :: string
  infoHash :: string

record torrent_lib =
  bcUnmarshal :: "string \<Rightarrow> string + torrent_definition"
  bcMarshalInfo :: "definition_info \<Rightarrow> string + string"
  sha1Hex :: "string \<Rightarrow> string"
  decode1251 :: "string \<Rightarrow> string"

type_synonym parsed_torrent = "(string, torrent_definition option) res"

definition parseMagnet :: "string \<Rightarrow> parsed_torrent" where
  "parseMagnet m = Ok None"

definition isTorrentBuff :: "string \<Rightarrow> bool" where
  "isTorrentBuff buff = True"

text \<open>The Russian word for pre-moderation in UTF-8, in bold.\<close>

definition premoderation :: string where
  "premoderation = ''<b>'' @
     [CHR 0xD0, CHR 0xBF, CHR 0xD1, CHR 0x80, CHR 0xD0, CHR 0xB5, CHR 0xD0, CHR 0xBC, CHR 0xD0, CHR 0xBE,
      CHR 0xD0, CHR 0xB4, CHR 0xD0, CHR 0xB5, CHR 0xD1, CHR 0x80, CHR 0xD0, CHR 0xB0, CHR 0xD1, CHR 0x86,
      CHR 0xD0, CHR 0xB8, CHR 0xD1, CHR 0x8F] @ ''</b>''"

definition decodeTorrentBuff :: "torrent_lib \<Rightarrow> string \<Rightarrow> parsed_torrent" where
  "decodeTorrentBuff L buff =
     (case bcUnmarshal L buff of
        Inl e \<Rightarrow>
          if str_contains (decode1251 L buff) premoderation
          then Err ''torrent is still now allowed to be downloaded'' else Err e
      | Inr data \<Rightarrow>
          (case bcMarshalInfo L (tdInfo data) of
             Inl e \<Rightarrow> Err e
           | Inr b \<Rightarrow> Ok (Some (data\<lparr>infoBuffer := b, infoHash := sha1Hex L b\<rparr>))))"

definition is_magnet :: "string \<Rightarrow> bool" where
  "is_magnet s \<longleftrightarrow> has_prefix s ''magnet:'' \<or> has_prefix s ''stream-magnet:''"

definition is_hex_hash :: "string \<Rightarrow> bool" where
  "is_hex_hash s \<longleftrightarrow> length s = 40 \<and> (\<forall>c\<in>set s. c \<in> set ''abcdef0123456789'')"

definition is_base32_hash :: "string \<Rightarrow> bool" where
  "is_base32_hash s \<longleftrightarrow>
     32 \<le> length s \<and> (\<forall>c\<in>set (take 32 s). c \<in> set ''abcdefghijklmnopqrstuvwxyz234567'')"

definition parseTorrent :: "torrent_lib \<Rightarrow> string \<Rightarrow> parsed_torrent" where
  "parseTorrent L torrent =
     (if is_magnet torrent then parseMagnet torrent
      else if is_hex_hash torrent \<or> is_base32_hash torrent then parseMagnet (''magnet:?xt=urn:btih:'' @ torrent)
      else if length torrent = 20 \<and> isTorrentBuff torrent then parseMagnet (''magnet:?xt=urn:btih:'' @ torrent)
      else if isTorrentBuff torrent then decodeTorrentBuff L torrent
      else Err ''invalid torrent'')"

text \<open>\<open>body\<close> is what reading the whole stream gives.\<close>

definition parseTorrentFromStream :: "torrent_lib \<Rightarrow> string + string \<Rightarrow> parsed_torrent" where
  "parseTorrentFromStream L body = (case body of Inl e \<Rightarrow> Err e | Inr s \<Rightarrow> parseTorrent L s)"

definition parseTorrentFromURL ::
    "torrent_lib \<Rightarrow> (string \<Rightarrow> string + (string + string)) \<Rightarrow> string \<Rightarrow> parsed_torrent" where
  "parseTorrentFromURL L download url =
     (case download url of Inl e \<Rightarrow> Err e | Inr body \<Rightarrow> parseTorrentFromStream L body)"

definition toMagnetURL :: "torrent_definition \<Rightarrow> string" where
  "toMagnetURL d = ''magnet:?xt=urn:btih:'' @ infoHash d"

definition getTotalFileSize :: "torrent_definition \<Rightarrow> uint32" where
  "getTotalFileSize d = foldl (\<lambda>total f. total + ucast (fLength f)) 0 (infoFiles (tdInfo d))"

subsection \<open>Resolving the latest results\<close>

text \<open>
  What the loop calls, over a state \<open>'s\<close> of the indexes and the store: the look-up of an index, its
  health check, opening a result (its answer is the body of the response, a nil proxy without an
  error being \<open>Ok None\<close>) and adding a result to the store.
\<close>

record 's resolver =
  rsLookup :: "string \<Rightarrow> 's \<Rightarrow> (string, nat list option) res \<times> 's"
  rsHealth :: "nat list \<Rightarrow> 's \<Rightarrow> (string, unit) res \<times> 's"
  rsOpen :: "nat list \<Rightarrow> torrent_item \<Rightarrow> 's \<Rightarrow> (string, (string + string) option) res \<times> 's"
  rsAdd :: "torrent_item \<Rightarrow> 's \<Rightarrow> torrent_item option \<times> 's"

definition with_torrent_file :: "torrent_definition \<Rightarrow> torrent_item \<Rightarrow> torrent_item" where
  "with_torrent_file d t =
     t\<lparr>announce := tdAnnounce d, publisher := tdPublisher d, originalTitle := infoName (tdInfo d),
       tSize := getTotalFileSize d, publishedWith := createdBy d\<rparr>"

text \<open>One result: \<open>None\<close> is a panic. The items are pointers, so a resolved one replaces the old.\<close>

definition resolve_item ::
    "torrent_lib \<Rightarrow> 's resolver \<Rightarrow> torrent_item \<Rightarrow> 's \<Rightarrow> torrent_item option \<times> 's" where
  "resolve_item L R t s =
     (if announce t \<noteq> [] then (Some t, s)
      else case rsLookup R (itSite (scraped t)) s of
             (Panic, s1) \<Rightarrow> (None, s1)
           | (Err _, s1) \<Rightarrow> (Some t, s1)
           | (Ok None, s1) \<Rightarrow> (Some t, s1)
           | (Ok (Some ix), s1) \<Rightarrow>
               (case rsHealth R ix s1 of
                  (Panic, s2) \<Rightarrow> (None, s2)
                | (Err _, s2) \<Rightarrow> (Some t, s2)
                | (Ok _, s2) \<Rightarrow>
                    (case rsOpen R ix t s2 of
                       (Panic, s3) \<Rightarrow> (None, s3)
                     | (Err _, s3) \<Rightarrow> (Some t, s3)
                     | (Ok None, s3) \<Rightarrow> (None, s3)
                     | (Ok (Some body), s3) \<Rightarrow>
                         (case parseTorrentFromStream L body of
                            Panic \<Rightarrow> (None, s3)
                          | Err _ \<Rightarrow> (Some t, s3)
                          | Ok None \<Rightarrow> (None, s3)
                          | Ok (Some d) \<Rightarrow> rsAdd R (with_torrent_file d t) s3))))"

fun resolve_loop ::
    "torrent_lib \<Rightarrow> 's resolver \<Rightarrow> any_item list \<Rightarrow> any_item list \<Rightarrow> 's \<Rightarrow> any_item list option \<times> 's" where
  "resolve_loop L R [] done s = (Some done, s)"
| "resolve_loop L R (PtrTorrent t # rest) done s =
     (case resolve_item L R t s of
        (None, s') \<Rightarrow> (None, s')
      | (Some t', s') \<Rightarrow> resolve_loop L R rest (done @ [PtrTorrent t']) s')"
| "resolve_loop L R (_ # rest) done s = (None, s)"

text \<open>\<open>latest\<close> are the last twenty records, read into new items of the type the store is built with,
which is \<open>ScrapeResultItem\<close>. The answer is nil when the health check gives an error.\<close>

definition resolveTorrents ::
    "torrent_lib \<Rightarrow> 's resolver \<Rightarrow> nat list \<Rightarrow> scrape_item list \<Rightarrow> 's \<Rightarrow>
     (unit, any_item list option) res \<times> 's" where
  "resolveTorrents L R indexes latest s =
     (case rsHealth R indexes s of
        (Panic, s1) \<Rightarrow> (Panic, s1)
      | (Err _, s1) \<Rightarrow> (Ok None, s1)
      | (Ok _, s1) \<Rightarrow>
          (case resolve_loop L R (map PtrScrape latest) [] s1 of
             (None, s2) \<Rightarrow> (Panic, s2)
           | (Some done, s2) \<Rightarrow> (Ok (Some done), s2)))"

subsection \<open>What they do\<close>

lemma total_size_loop:
  "uint (foldl (\<lambda>total f. total + ucast (fLength f)) (n :: uint32) fs) =
     (uint n + (\<Sum>f\<leftarrow>fs. uint (fLength f))) mod 2 ^ 32"
proof (induction fs arbitrary: n)
  case Nil
  then show ?case using uint_lt2p [of n] by simp
next
  case (Cons f fs)
  then show ?case
    by (simp add: uint_word_ariths uint_up_ucast unsigned_ucast_eq take_bit_eq_mod mod_simps ac_simps)
qed

text \<open>The size of a torrent of several files is taken modulo four gigabytes.\<close>

lemma total_file_size:
  "uint (getTotalFileSize d) = (\<Sum>f\<leftarrow>infoFiles (tdInfo d). uint (fLength f)) mod 2 ^ 32"
  using total_size_loop [of 0 "infoFiles (tdInfo d)"] by (simp add: getTotalFileSize_def)

text \<open>A hash or a magnet link parses to a nil definition without an error, and then the loop panics.\<close>

lemma short_torrent_is_nil: "length s = 20 \<or> is_magnet s \<or> is_hex_hash s \<or> is_base32_hash s \<Longrightarrow> parseTorrent L s = Ok None"
  by (auto simp: parseTorrent_def parseMagnet_def isTorrentBuff_def)

lemma never_invalid:
  assumes "parseTorrent L s = Err e"
  shows "bcUnmarshal L s = Inl e \<or> e = ''torrent is still now allowed to be downloaded'' \<or>
    (\<exists>d. bcUnmarshal L s = Inr d \<and> bcMarshalInfo L (tdInfo d) = Inl e)"
  using assms
  by (auto simp: parseTorrent_def parseMagnet_def isTorrentBuff_def decodeTorrentBuff_def
      split: if_splits sum.splits)

text \<open>Resolving never resolves anything: the items of the store are read as scraped items, and the first of them
  fails the type assertion. The command answers nil when the indexes are not well and nothing when
  the store is empty; in every other case it panics, without looking any index up, opening a
  result or changing the store.
\<close>

theorem resolving_never_resolves:
  "resolveTorrents L R indexes latest s =
     (let (h, s1) = rsHealth R indexes s in
      (case h of
         Panic \<Rightarrow> Panic
       | Err _ \<Rightarrow> Ok None
       | Ok _ \<Rightarrow> if latest = [] then Ok (Some []) else Panic, s1))"
  by (cases latest) (auto simp: resolveTorrents_def split: prod.splits res.splits)

text \<open>The loop itself, on torrents: the results already resolved are kept as they are.\<close>

lemma resolve_loop_resolved:
  "\<forall>t\<in>set ts. announce t \<noteq> [] \<Longrightarrow>
   resolve_loop L R (map PtrTorrent ts) acc s = (Some (acc @ map PtrTorrent ts), s)"
  by (induction ts arbitrary: acc) (auto simp: resolve_item_def)

end
