(* ===== verification/Bots.thy ===== *)
theory Bots
  imports KeyedStorage
begin

text \<open>
  The Telegram bot (\<open>bots/chat.go\<close>, \<open>bots/telegram.go\<close>): the chats it keeps, the messages it reads
  and those it sends. The API of Telegram is a source of updates and a list of what is sent; sending
  ignores errors. The store of the chats is a keyed storage over bolt: reading the key and the value
  of its index is modelled on the chat itself, what follows in the store is an argument.
\<close>

record chat =
  chUsername :: string
  chInitialText :: string
  chChatID :: int
  chUUIDValue :: string
  chRecordID :: uint32
  chIsUpdate :: bool
  chIsNew :: bool

definition chat_setUUID :: "string \<Rightarrow> chat \<Rightarrow> chat" where
  "chat_setUUID u c = c\<lparr>chUUIDValue := u\<rparr>"

definition chat_setID :: "uint32 \<Rightarrow> chat \<Rightarrow> chat" where
  "chat_setID n c = c\<lparr>chRecordID := n\<rparr>"

text \<open>\<open>SetState\<close> has a value receiver: it changes a copy, and the chat stays as it is.\<close>

definition chat_setState :: "bool \<Rightarrow> bool \<Rightarrow> chat \<Rightarrow> chat" where
  "chat_setState new updated c = (let copied = c\<lparr>chIsNew := new, chIsUpdate := updated\<rparr> in c)"

definition chat_fields :: "chat \<Rightarrow> (string \<times> go_value) list" where
  "chat_fields c =
     [(''Username'', VStr (chUsername c)), (''InitialText'', VStr (chInitialText c)),
      (''ChatID'', VNum GoInt64 (chChatID c)), (''UUIDValue'', VStr (chUUIDValue c)),
      (''RecordID'', VNum GoUInt32 (uint (chRecordID c))), (''isUpdate'', VHidden), (''isNew'', VHidden)]"

definition chat_methods :: "chat \<Rightarrow> (string \<times> go_value) list" where
  "chat_methods c =
     [(''UUID'', VStr (chUUIDValue c)), (''GetID'', VNum GoUInt32 (uint (chRecordID c))),
      (''IsNew'', VBool (chIsNew c)), (''IsUpdate'', VBool (chIsUpdate c))] @
     map (\<lambda>m. (m, VHidden)) [''SetUUID'', ''SetID'', ''SetState'']"

text \<open>A chat has no field \<open>ModelData\<close>.\<close>

definition reflect_chat :: "chat \<Rightarrow> reflected" where
  "reflect_chat c =
     \<lparr>fieldByName = map_of (chat_fields c), methodByName = map_of (chat_methods c), dataField = None\<rparr>"

subsection \<open>Storing a chat\<close>

definition chat_key :: key where
  "chat_key = newKey [''id'']"

text \<open>\<open>Create\<close> of the store of bolt, up to the value of the index; \<open>put\<close> is its transaction.\<close>

definition create_chat ::
    "(string \<Rightarrow> chat \<Rightarrow> 's \<Rightarrow> unit op_result \<times> 's) \<Rightarrow> string \<Rightarrow> chat \<Rightarrow> 's \<Rightarrow> unit op_result \<times> 's" where
  "create_chat put uuid c s =
     (let c' = chat_setUUID uuid c
      in case getIndexValueFromItem (Some getDefaultPK) (reflect_chat c') of
           None \<Rightarrow> (OpPanic, s)
         | Some v \<Rightarrow> put v c' s)"

text \<open>\<open>Add\<close> of the keyed storage; \<open>known\<close> is what follows when the chat has a value for the key.\<close>

definition add_chat ::
    "(string \<Rightarrow> chat \<Rightarrow> 's \<Rightarrow> unit op_result \<times> 's) \<Rightarrow> (key_query \<Rightarrow> chat \<Rightarrow> 's \<Rightarrow> unit op_result \<times> 's) \<Rightarrow>
     string \<Rightarrow> chat \<Rightarrow> 's \<Rightarrow> unit op_result \<times> 's" where
  "add_chat put known uuid c s =
     (case keyHasValue chat_key (reflect_chat c) of
        None \<Rightarrow> (OpPanic, s)
      | Some False \<Rightarrow> create_chat put uuid c s
      | Some True \<Rightarrow>
          (case getKeyQueryFromItem chat_key (reflect_chat c) of
             None \<Rightarrow> (OpPanic, s) | Some q \<Rightarrow> known q c s))"

subsection \<open>The bot\<close>

record bot_message =
  bmChat :: int
  bmText :: string
  bmPhoto :: "string option"

record chat_message =
  cmText :: string
  cmBanner :: string

text \<open>\<open>provider\<close> is nil or answers with an error or a bot.\<close>

definition newTelegram :: "string \<Rightarrow> (string \<Rightarrow> string + 'b) option \<Rightarrow> string + 'b" where
  "newTelegram token provider =
     (if token = [] then Inl ''token is required''
      else case provider of
             None \<Rightarrow> Inl ''telegram api provider is required''
           | Some p \<Rightarrow> p token)"

definition chat_storage_type :: "string \<Rightarrow> string" where
  "chat_storage_type configured = (if configured = [] then ''boltdb'' else configured)"

text \<open>An update: the name and the ID of the chat and the text, when it has a message.\<close>

type_synonym update = "(string \<times> int \<times> string) option"

definition greeting :: "int \<Rightarrow> bot_message" where
  "greeting chat = \<lparr>bmChat = chat, bmText = ''Hello. I'll keep you posted for new apartments.'', bmPhoto = None\<rparr>"

text \<open>The goroutine that reads the updates: what it has sent, the store, and whether it is still
running; a panic ends the whole process. An error of the store is ignored.\<close>

fun listenForUpdates ::
    "(chat \<Rightarrow> 's \<Rightarrow> unit op_result \<times> 's) \<Rightarrow> update list \<Rightarrow> bot_message list \<Rightarrow> 's \<Rightarrow>
     bot_message list \<times> 's \<times> bool" where
  "listenForUpdates add [] sent s = (sent, s, True)"
| "listenForUpdates add (None # us) sent s = listenForUpdates add us sent s"
| "listenForUpdates add (Some (user, cid, text) # us) sent s =
     (case add \<lparr>chUsername = user, chInitialText = text, chChatID = cid, chUUIDValue = [], chRecordID = 0,
                chIsUpdate = False, chIsNew = False\<rparr> s of
        (OpPanic, s') \<Rightarrow> (sent, s', False)
      | (_, s') \<Rightarrow>
          listenForUpdates add us (if text = ''/start'' then sent @ [greeting cid] else sent) s')"

definition chat_messages :: "chat_message \<Rightarrow> chat \<Rightarrow> bot_message list" where
  "chat_messages m c =
     \<lparr>bmChat = chChatID c, bmText = cmText m, bmPhoto = None\<rparr> #
     (if cmBanner m \<noteq> [] then [\<lparr>bmChat = chChatID c, bmText = [], bmPhoto = Some (cmBanner m)\<rparr>] else [])"

text \<open>\<open>chats\<close> are the chats \<open>ForEach\<close> of the store goes over.\<close>

definition broadcast :: "chat list \<Rightarrow> chat_message \<Rightarrow> bot_message list" where
  "broadcast chats m = concat (map (chat_messages m) chats)"

definition feedBroadcast :: "chat list \<Rightarrow> chat_message list option \<Rightarrow> string + bot_message list" where
  "feedBroadcast chats channel =
     (case channel of
        None \<Rightarrow> Inl ''message channel is required''
      | Some ms \<Rightarrow> Inr (concat (map (broadcast chats) ms)))"

subsection \<open>What it does\<close>

lemma chat_has_no_key: "keyHasValue chat_key (reflect_chat c) = Some False"
  by (simp add: keyHasValue_def chat_key_def newKey_def add_field_def parsed_name_def reflect_chat_def
      chat_fields_def model_prefix_def has_prefix_def)

lemma chat_has_no_index_value: "getIndexValueFromItem (Some k) (reflect_chat c) = None"
  by (simp add: getIndexValueFromItem_def reflect_chat_def)

text \<open>With a store of bolt, the first message anyone sends to the bot crashes the process, before it is
  stored or answered: the value of the index is read from a field that a chat does not have. Updates
  without a message are skipped.
\<close>

theorem first_message_crashes_bot:
  "listenForUpdates (add_chat put known uuid) us sent s =
     (sent, s, \<forall>u\<in>set us. u = None)"
proof (induction us arbitrary: sent)
  case Nil
  then show ?case by simp
next
  case (Cons u us)
  show ?case
  proof (cases u)
    case None
    then show ?thesis using Cons by simp
  next
    case (Some m)
    then show ?thesis
      by (cases m) (simp add: add_chat_def chat_has_no_key create_chat_def chat_setUUID_def chat_has_no_index_value)
  qed
qed

text \<open>With a store that takes chats, every chat that starts is greeted, in order.\<close>

lemma started_chats_greeted:
  assumes "\<And>c s. fst (add c s) \<noteq> OpPanic"
  shows "fst (listenForUpdates add us sent s) =
    sent @ map greeting (List.map_filter (\<lambda>u. case u of Some (_, cid, text) \<Rightarrow>
      (if text = ''/start'' then Some cid else None) | None \<Rightarrow> None) us)"
  using assms
proof (induction us arbitrary: sent s)
  case Nil
  then show ?case by (simp add: List.map_filter_simps)
next
  case (Cons u us)
  note step = Cons.IH [OF Cons.prems]
  show ?case
  proof (cases u)
    case None
    then show ?thesis using step by (simp add: List.map_filter_simps)
  next
    case (Some m)
    obtain user cid body where m: "m = (user, cid, body)" by (cases m)
    show ?thesis
      using Cons.prems step
      by (auto simp: Some m List.map_filter_simps split: prod.splits op_result.splits) (metis fst_conv)+
  qed
qed

lemma broadcast_chats:
  "map bmChat (filter (\<lambda>b. bmPhoto b = None) (broadcast chats m)) = map chChatID chats"
  by (induction chats) (simp_all add: broadcast_def chat_messages_def)

end
