(* ===== verification/FuzzyTime.thy ===== *)
theory FuzzyTime
  imports Filters RowExtraction
begin

text \<open>
  Times in words, \<open>ParseFuzzyTime\<close> and what it calls in \<open>indexer/utils/parsing.go\<close>. A time is an
  \<open>int\<close>, nanoseconds since 1970. The calendar, the layouts and the floats of the runtime and the
  library \<open>fuzzytime\<close> are the parameter \<open>fuzzy_lib\<close>; the regular expressions of the file and the tokens
  of \<open>text/scanner\<close> are written out, the latter for text without quotes, comments, and numbers with
  a prefix or an exponent.
\<close>

record fuzzy_dt =
  dtYear :: "int option"
  dtMonth :: "int option"
  dtDay :: "int option"
  dtHour :: "int option"
  dtMinute :: "int option"
  dtSecond :: "int option"
  dtOffset :: "int option"

record 'f fuzzy_lib =
  addDate :: "int \<Rightarrow> int \<Rightarrow> int \<Rightarrow> int \<Rightarrow> int"
  dateOf :: "int \<Rightarrow> int \<times> int \<times> int"
  clockOf :: "int \<Rightarrow> int \<times> int \<times> int"
  timeParse :: "string \<Rightarrow> string \<Rightarrow> int option"
  timeFormat :: "string \<Rightarrow> int \<Rightarrow> string"
  fraction :: "string \<Rightarrow> 'f option"
  positive :: "'f \<Rightarrow> bool"
  scaled :: "int \<Rightarrow> 'f \<Rightarrow> int"
  extractDate :: "string \<Rightarrow> string + fuzzy_dt"
  isoFormat :: "fuzzy_dt \<Rightarrow> string"
  timeEmpty :: "fuzzy_dt \<Rightarrow> bool"
  hasFullDate :: "fuzzy_dt \<Rightarrow> bool"
  hasSecond :: "fuzzy_dt \<Rightarrow> bool"
  hasOffset :: "fuzzy_dt \<Rightarrow> bool"

definition nanos :: int where "nanos = 1000000000"

subsection \<open>Text\<close>

definition utils_normalizeSpace :: "string \<Rightarrow> string" where
  "utils_normalizeSpace s = trim_space (map (\<lambda>c. if c \<in> set white_space then CHR '' '' else c) s)"

definition is_letter :: "char \<Rightarrow> bool" where
  "is_letter c \<longleftrightarrow> (let n = (of_char (lower_char c) :: nat) in 97 \<le> n \<and> n \<le> 122)"

definition word_char :: "char \<Rightarrow> bool" where
  "word_char c \<longleftrightarrow> is_letter c \<or> is_digit c \<or> c = CHR ''_''"

definition scan_number :: "string \<Rightarrow> string" where
  "scan_number s =
     (let ds = takeWhile is_digit s; rest = dropWhile is_digit s
      in case rest of
           c # cs \<Rightarrow> if c = CHR ''.'' then ds @ CHR ''.'' # takeWhile is_digit cs else ds
         | [] \<Rightarrow> ds)"

function scan_tokens :: "string \<Rightarrow> string list" where
  "scan_tokens [] = []"
| "scan_tokens (c # cs) =
     (if c \<in> {CHR '' '', CHR 0x09, CHR 0x0A, CHR 0x0D} then scan_tokens cs
      else if is_letter c \<or> c = CHR ''_'' then
        (c # takeWhile word_char cs) # scan_tokens (dropWhile word_char cs)
      else if is_digit c \<or> (c = CHR ''.'' \<and> cs \<noteq> [] \<and> is_digit (hd cs)) then
        scan_number (c # cs) # scan_tokens (drop (length (scan_number (c # cs)) - 1) cs)
      else [c] # scan_tokens cs)"
  by pat_completeness auto
termination
  by (relation "measure length") (auto intro: le_imp_less_Suc length_dropWhile_le)

text \<open>\<open>\b\<close> before a word, case-insensitively: the byte before is no word character.\<close>

definition starts_ci :: "string \<Rightarrow> string \<Rightarrow> bool" where
  "starts_ci s w = has_prefix (to_lower s) w"

fun matches_word :: "string \<Rightarrow> bool \<Rightarrow> string \<Rightarrow> bool" where
  "matches_word w prev [] = False"
| "matches_word w prev (c # cs) =
     (\<not> prev \<and> starts_ci (c # cs) w \<or> matches_word w (word_char c) cs)"

definition separator :: "char \<Rightarrow> bool" where
  "separator c \<longleftrightarrow> c \<in> set rx_space \<or> c = CHR '',''"

text \<open>The replacement of a word that separators or the end follow.\<close>

function replace_word :: "string \<Rightarrow> string \<Rightarrow> bool \<Rightarrow> string \<Rightarrow> string" where
  "replace_word w new prev [] = []"
| "replace_word w new prev (c # cs) =
     (let rest = drop (length w - 1) cs
      in if \<not> prev \<and> starts_ci (c # cs) w \<and> (rest = [] \<or> separator (hd rest))
         then new @ replace_word w new False (dropWhile separator rest)
         else c # replace_word w new (word_char c) cs)"
  by pat_completeness auto
termination
proof (relation "measure (\<lambda>(w, new, prev, s). length s)", goal_cases)
  case 1
  then show ?case by simp
next
  case (2 w new prev c cs rest)
  have "length (dropWhile separator rest) \<le> length cs"
    using 2(1) length_dropWhile_le [of separator rest] by simp
  then show ?case by simp
next
  case (3 w new prev c cs rest)
  then show ?case by simp
qed

text \<open>The match of a day and a month at the start, followed by no word character.\<close>

definition missing_year :: "string \<Rightarrow> string option" where
  "missing_year s =
     (let a = takeWhile is_digit s; rest = dropWhile is_digit s
      in case rest of
           [] \<Rightarrow> None
         | c # cs \<Rightarrow>
             let b = takeWhile is_digit cs; after = dropWhile is_digit cs
             in if c = CHR ''-'' \<and> length a \<in> {1, 2} \<and> length b \<in> {1, 2} \<and>
                   (after = [] \<or> \<not> word_char (hd after))
                then Some (a @ [c] @ b) else None)"

subsection \<open>A while ago\<close>

definition splitDecimalStr :: "'f fuzzy_lib \<Rightarrow> string \<Rightarrow> (int \<times> 'f option) option" where
  "splitDecimalStr L s =
     (case go_split2 s ''.'' of
        [a, b] \<Rightarrow>
          (case atoi a of
             (_, Some _) \<Rightarrow> None
           | (i, None) \<Rightarrow> (case fraction L b of None \<Rightarrow> None | Some f \<Rightarrow> Some (i, Some f)))
      | _ \<Rightarrow> (case atoi s of (_, Some _) \<Rightarrow> None | (i, None) \<Rightarrow> Some (i, None)))"

text \<open>The part after the point counts when it is positive; a whole number has the fraction 0.\<close>

definition has_fraction :: "'f fuzzy_lib \<Rightarrow> 'f option \<Rightarrow> bool" where
  "has_fraction L f = (case f of None \<Rightarrow> False | Some x \<Rightarrow> positive L x)"

definition part_of :: "'f fuzzy_lib \<Rightarrow> int \<Rightarrow> 'f option \<Rightarrow> int" where
  "part_of L n f = (case f of None \<Rightarrow> 0 | Some x \<Rightarrow> scaled L n x)"

text \<open>A fraction of a year, a month or a week is taken of the next one back.\<close>

definition back_by ::
    "'f fuzzy_lib \<Rightarrow> int \<times> int \<times> int \<Rightarrow> int \<times> int \<times> int \<Rightarrow> 'f option \<Rightarrow> int \<Rightarrow> int" where
  "back_by L whole one f now =
     (case whole of (y, m, d) \<Rightarrow>
        let t = addDate L y m d now
        in if has_fraction L f
           then (case one of (y1, m1, d1) \<Rightarrow> t + part_of L (addDate L y1 m1 d1 t - t) f)
           else t)"

definition back_exact :: "'f fuzzy_lib \<Rightarrow> int \<Rightarrow> int \<Rightarrow> 'f option \<Rightarrow> int \<Rightarrow> int" where
  "back_exact L whole part f t = (if has_fraction L f then t + wrap64 (part * - part_of L whole f) else t)"

definition unit_name :: "string \<Rightarrow> string" where
  "unit_name tok = (if tok \<noteq> ''s'' then trim_suffix tok ''s'' else tok)"

definition go_back :: "'f fuzzy_lib \<Rightarrow> string \<Rightarrow> int \<Rightarrow> 'f option \<Rightarrow> int \<Rightarrow> int option" where
  "go_back L u v f now =
     (if u \<in> {''year'', ''yr'', ''y''} then Some (back_by L (- v, 0, 0) (- 1, 0, 0) f now)
      else if u \<in> {''month'', ''mnth'', ''mo''} then Some (back_by L (0, - v, 0) (0, - 1, 0) f now)
      else if u \<in> {''week'', ''wk'', ''w''} then Some (back_by L (0, 0, - 7) (0, 0, - 7) f now)
      else if u \<in> {''day'', ''d''} then Some (back_exact L 1440 (60 * nanos) f (addDate L 0 0 (- v) now))
      else if u \<in> {''hour'', ''hr'', ''h''} then
        Some (back_exact L 3600 nanos f (now + wrap64 (3600 * nanos * - v)))
      else if u \<in> {''minute'', ''min'', ''m''} then
        Some (back_exact L 60 nanos f (now + wrap64 (60 * nanos * - v)))
      else if u \<in> {''second'', ''sec'', ''s''} then Some (now + wrap64 (nanos * - v))
      else None)"

fun ago_loop :: "'f fuzzy_lib \<Rightarrow> string list \<Rightarrow> int \<Rightarrow> string + int" where
  "ago_loop L [] now = Inr now"
| "ago_loop L (t # ts) now =
     (if t \<in> {'','', ''ago'', [], ''and''} then ago_loop L ts now
      else case splitDecimalStr L t of
             None \<Rightarrow> Inl (''failed to parse decimal time '' @ t)
           | Some (v, f) \<Rightarrow>
               (case ts of
                  [] \<Rightarrow> Inl ''expected a time unit''
                | u # rest \<Rightarrow>
                    (case go_back L (unit_name u) v f now of
                       None \<Rightarrow> Inl (''unsupporting unit of time '' @ unit_name u)
                     | Some t' \<Rightarrow> ago_loop L rest t')))"

definition parseTimeAgo :: "'f fuzzy_lib \<Rightarrow> string \<Rightarrow> int \<Rightarrow> string + int" where
  "parseTimeAgo L src now = ago_loop L (scan_tokens (to_lower (utils_normalizeSpace src))) now"

subsection \<open>Fuzzy times\<close>

definition empty_dt :: fuzzy_dt where
  "empty_dt = \<lparr>dtYear = None, dtMonth = None, dtDay = None, dtHour = None, dtMinute = None,
     dtSecond = None, dtOffset = None\<rparr>"

definition dt_at_clock :: "int \<times> int \<times> int \<Rightarrow> int \<times> int \<times> int \<Rightarrow> fuzzy_dt" where
  "dt_at_clock date clock =
     (case (date, clock) of ((y, m, d), (h, mi, s)) \<Rightarrow>
        empty_dt\<lparr>dtYear := Some y, dtMonth := Some m, dtDay := Some d, dtHour := Some h,
          dtMinute := Some mi, dtSecond := Some s\<rparr>)"

text \<open>The words are replaced by dates; \<open>today\<close> by the year alone.\<close>

definition dated_words :: "'f fuzzy_lib \<Rightarrow> string \<Rightarrow> int \<Rightarrow> string" where
  "dated_words L src now =
     (let s1 = replace_word ''today'' (timeFormat L ''2006 '' now) False (utils_normalizeSpace src);
          s2 = replace_word ''tomorrow'' (timeFormat L ''Mon, 02 Jan 2006 '' (addDate L 0 0 1 now)) False s1
      in replace_word ''yesterday'' (timeFormat L ''Mon, 02 Jan 2006 '' (addDate L 0 0 (- 1) now)) False s2)"

text \<open>The year is put into the text as it was given, not into the one with the words replaced.\<close>

definition with_year :: "'f fuzzy_lib \<Rightarrow> string \<Rightarrow> int \<Rightarrow> string \<Rightarrow> string" where
  "with_year L src now out =
     (case missing_year out of
        None \<Rightarrow> out
      | Some m \<Rightarrow>
          (case missing_year src of
             None \<Rightarrow> src
           | Some m' \<Rightarrow> m @ timeFormat L ''-2006'' now @ drop (length m') src))"

definition finish_dt :: "'f fuzzy_lib \<Rightarrow> bool \<Rightarrow> fuzzy_dt \<Rightarrow> string + int" where
  "finish_dt L allowPartialDate dt =
     (if \<not> allowPartialDate \<and> \<not> hasFullDate L dt then Inl (''found only partial date '' @ isoFormat L dt)
      else
        let dt1 = (if \<not> hasSecond L dt then dt\<lparr>dtSecond := Some 0\<rparr> else dt);
            dt2 = (if \<not> hasOffset L dt1 then dt1\<lparr>dtOffset := Some 0\<rparr> else dt1)
        in case timeParse L ''2006-01-02T15:04:05Z07:00'' (isoFormat L dt2) of
             None \<Rightarrow> Inl ''cannot parse time'' | Some t \<Rightarrow> Inr t)"

text \<open>A zero time stands for the value returned with an error of \<open>time.Parse\<close>, which is dropped.\<close>

definition parseFuzzyTime :: "'f fuzzy_lib \<Rightarrow> int \<Rightarrow> string \<Rightarrow> int \<Rightarrow> bool \<Rightarrow> string + int" where
  "parseFuzzyTime L zero src now allowPartialDate =
     (case timeParse L ''15:04:05'' src of
        Some ok \<Rightarrow>
          Inr (case timeParse L ''2006-01-02T15:04:05'' (isoFormat L (dt_at_clock (dateOf L now) (clockOf L ok))) of
                 None \<Rightarrow> zero | Some t \<Rightarrow> t)
      | None \<Rightarrow>
          if matches_word ''ago'' False src then
            (case parseTimeAgo L src now of
               Inl e \<Rightarrow> Inl (''error parsing time ago '' @ e) | Inr t \<Rightarrow> Inr t)
          else
            let out = with_year L src now (dated_words L src now)
            in case extractDate L out of
                 Inl e \<Rightarrow> Inl (''error extracting date from '' @ out)
               | Inr dt \<Rightarrow>
                   if timeEmpty L dt then
                     (case timeParse L ''2006'' out of
                        Some t \<Rightarrow> Inr t
                      | None \<Rightarrow>
                          (case timeParse L ''Jan 2006'' out of
                             Some t \<Rightarrow> Inr t
                           | None \<Rightarrow> finish_dt L allowPartialDate (dt\<lparr>dtHour := Some 0, dtMinute := Some 0\<rparr>)))
                   else finish_dt L allowPartialDate dt)"

definition filterTimeFormat :: string where
  "filterTimeFormat = ''Mon, 02 Jan 2006 15:04:05 -0700''"

definition filterFuzzyTime :: "'f fuzzy_lib \<Rightarrow> int \<Rightarrow> string \<Rightarrow> int \<Rightarrow> bool \<Rightarrow> string + string" where
  "filterFuzzyTime L zero src now allowPartialDate =
     (case parseFuzzyTime L zero src now allowPartialDate of
        Inl e \<Rightarrow> Inl (''error parsing fuzzy time '' @ e) | Inr t \<Rightarrow> Inr (timeFormat L filterTimeFormat t))"

text \<open>What the filters and the extraction of dates take from here: their parameters \<open>fuzzyTime\<close> and
\<open>fuzzyUnix\<close> at the time \<open>now\<close>.\<close>

definition fuzzyTime_at :: "'f fuzzy_lib \<Rightarrow> int \<Rightarrow> int \<Rightarrow> string \<Rightarrow> string option" where
  "fuzzyTime_at L zero now v = (case filterFuzzyTime L zero v now True of Inl _ \<Rightarrow> None | Inr s \<Rightarrow> Some s)"

definition fuzzyUnix_at :: "'f fuzzy_lib \<Rightarrow> int \<Rightarrow> int \<Rightarrow> string \<Rightarrow> int option" where
  "fuzzyUnix_at L zero now v =
     (case parseFuzzyTime L zero v now True of Inl _ \<Rightarrow> None | Inr t \<Rightarrow> Some (t div nanos))"

end
