(* ===== verification/FuzzyFacts.thy ===== *)
theory FuzzyFacts
  imports FuzzyTime
begin

text \<open>
  What a phrase such as \<open>2 days 3 hours ago\<close> stands for: every unit, in the singular or the plural,
  goes back by its number, in the order of the text, except that any number of weeks is one week.
\<close>

definition lower_letter :: "char \<Rightarrow> bool" where
  "lower_letter c \<longleftrightarrow> 97 \<le> (of_char c :: nat) \<and> (of_char c :: nat) \<le> 122"

definition plain_word :: "string \<Rightarrow> bool" where
  "plain_word s \<longleftrightarrow> s \<noteq> [] \<and> (\<forall>c\<in>set s. lower_letter c)"

definition plain_number :: "string \<Rightarrow> bool" where
  "plain_number s \<longleftrightarrow> s \<noteq> [] \<and> (\<forall>c\<in>set s. is_digit c)"

lemma lower_letter_facts:
  assumes "lower_letter c"
  shows "lower_char c = c" "is_letter c" "word_char c" "\<not> is_digit c" "c \<notin> set white_space"
  using assms
  by (auto simp: lower_letter_def lower_char_def is_letter_def word_char_def is_digit_def white_space_def)

lemma digit_facts:
  assumes "is_digit c"
  shows "lower_char c = c" "\<not> is_letter c" "word_char c" "c \<notin> set white_space" "c \<noteq> CHR ''_''"
  using assms
  by (auto simp: lower_char_def is_letter_def word_char_def is_digit_def white_space_def)

lemma scan_space: "scan_tokens (CHR '' '' # s) = scan_tokens s"
  by simp

lemma takeWhile_word:
  "\<forall>c\<in>set w. P c \<Longrightarrow> s = [] \<or> \<not> P (hd s) \<Longrightarrow> takeWhile P (w @ s) = w \<and> dropWhile P (w @ s) = s"
  by (induction w) (cases s; auto)+

lemma scan_word:
  assumes "plain_word w" "s = [] \<or> hd s = CHR '' ''"
  shows "scan_tokens (w @ s) = w # scan_tokens s"
proof -
  obtain c cs where w: "w = c # cs" using assms(1) by (cases w) (auto simp: plain_word_def)
  have c: "lower_letter c" "\<forall>x\<in>set cs. word_char x"
    using assms(1) lower_letter_facts(3) by (auto simp: w plain_word_def)
  have s: "s = [] \<or> \<not> word_char (hd s)"
    using assms(2) by (auto simp: word_char_def is_letter_def is_digit_def lower_char_def)
  have "c \<notin> {CHR '' '', CHR 0x09, CHR 0x0A, CHR 0x0D}"
    using lower_letter_facts(5) [OF c(1)] by (auto simp: white_space_def)
  then show ?thesis
    using takeWhile_word [OF c(2) s] lower_letter_facts(2) [OF c(1)] by (simp add: w)
qed

lemma scan_plain_number:
  assumes "plain_number w" "s = [] \<or> hd s = CHR '' ''"
  shows "scan_tokens (w @ s) = w # scan_tokens s"
proof -
  obtain c cs where w: "w = c # cs" using assms(1) by (cases w) (auto simp: plain_number_def)
  have c: "is_digit c" "\<forall>x\<in>set w. is_digit x" using assms(1) by (auto simp: w plain_number_def)
  have s: "s = [] \<or> \<not> is_digit (hd s)" using assms(2) by (auto simp: is_digit_def)
  have t: "takeWhile is_digit (w @ s) = w" "dropWhile is_digit (w @ s) = s"
    using takeWhile_word [OF c(2) s] by simp_all
  have "scan_number (w @ s) = w"
    unfolding scan_number_def Let_def t using assms(2) by (cases s) auto
  moreover have "c \<notin> {CHR '' '', CHR 0x09, CHR 0x0A, CHR 0x0D}"
    using digit_facts(4) [OF c(1)] by (auto simp: white_space_def)
  ultimately show ?thesis using digit_facts [OF c(1)] c(1) by (simp add: w)
qed

subsection \<open>Units\<close>

datatype time_unit = Years | Months | Weeks | Days | Hours | Minutes | Seconds

fun unit_words :: "time_unit \<Rightarrow> string list" where
  "unit_words Years = [''year'', ''yr'', ''y'']"
| "unit_words Months = [''month'', ''mnth'', ''mo'']"
| "unit_words Weeks = [''week'', ''wk'', ''w'']"
| "unit_words Days = [''day'', ''d'']"
| "unit_words Hours = [''hour'', ''hr'', ''h'']"
| "unit_words Minutes = [''minute'', ''min'', ''m'']"
| "unit_words Seconds = [''second'', ''sec'', ''s'']"

definition unit_names :: "time_unit \<Rightarrow> string list" where
  "unit_names u = unit_words u @ map (\<lambda>b. b @ ''s'') (unit_words u)"

fun earlier :: "'f fuzzy_lib \<Rightarrow> time_unit \<Rightarrow> int \<Rightarrow> int \<Rightarrow> int" where
  "earlier L Years n t = addDate L (- n) 0 0 t"
| "earlier L Months n t = addDate L 0 (- n) 0 t"
| "earlier L Weeks n t = addDate L 0 0 (- 7) t"
| "earlier L Days n t = addDate L 0 0 (- n) t"
| "earlier L Hours n t = t - n * 3600 * nanos"
| "earlier L Minutes n t = t - n * 60 * nanos"
| "earlier L Seconds n t = t - n * nanos"

lemma unit_names_plain: "list_all plain_word (unit_names u)"
  by (cases u) (simp_all add: unit_names_def plain_word_def lower_letter_def)

lemma unit_name_of: "list_all (\<lambda>w. unit_name w \<in> set (unit_words u)) (unit_names u)"
  by (cases u; simp only:; code_simp)

lemma back_whole:
  "back_by L (y, m, d) one None t = addDate L y m d t" "back_exact L whole part None t = t"
  by (simp_all add: back_by_def back_exact_def has_fraction_def)

lemma go_back_unit:
  "b \<in> set (unit_words u) \<Longrightarrow> go_back L b n None t = Some (case u of
     Years \<Rightarrow> addDate L (- n) 0 0 t | Months \<Rightarrow> addDate L 0 (- n) 0 t | Weeks \<Rightarrow> addDate L 0 0 (- 7) t
   | Days \<Rightarrow> addDate L 0 0 (- n) t | Hours \<Rightarrow> t + wrap64 (3600 * nanos * - n)
   | Minutes \<Rightarrow> t + wrap64 (60 * nanos * - n) | Seconds \<Rightarrow> t + wrap64 (nanos * - n))"
  by (cases u; simp only: unit_words.simps set_simps; elim insertE emptyE; simp add: go_back_def back_whole)

lemma go_back_whole:
  assumes "b \<in> set (unit_words u)" "0 \<le> n" "n \<le> 1000000"
  shows "go_back L b n None t = Some (earlier L u n t)"
proof -
  have w: "wrap64 (3600 * nanos * - n) = - (n * 3600 * nanos)"
    "wrap64 (60 * nanos * - n) = - (n * 60 * nanos)" "wrap64 (nanos * - n) = - (n * nanos)"
    using assms(2,3) by (subst wrap64_id; simp add: int64_range_def nanos_def)+
  show ?thesis
    unfolding go_back_unit [OF assms(1)] w by (cases u) simp_all
qed

subsection \<open>Phrases\<close>

type_synonym phrase = "(int \<times> time_unit \<times> string) list"

definition ago_phrase :: "phrase \<Rightarrow> string" where
  "ago_phrase ps = concat (map (\<lambda>(n, u, w). itoa n @ '' '' @ w @ '' '') ps) @ ''ago''"

definition phrase_ok :: "phrase \<Rightarrow> bool" where
  "phrase_ok ps \<longleftrightarrow>
     list_all (\<lambda>(n, u, w). 0 \<le> n \<and> n \<le> 1000000 \<and> w \<in> set (unit_names u)) ps"

lemma ago_phrase_Cons: "ago_phrase ((n, u, w) # ps) = itoa n @ CHR '' '' # w @ CHR '' '' # ago_phrase ps"
  by (simp add: ago_phrase_def)

lemma itoa_plain: "0 \<le> n \<Longrightarrow> plain_number (itoa n)"
  using nat_digits_is_digit by (auto simp: plain_number_def itoa_def list_all_iff)

lemma names_plain: "w \<in> set (unit_names u) \<Longrightarrow> plain_word w"
  using unit_names_plain by (auto simp: list_all_iff)

lemma scan_phrase:
  "phrase_ok ps \<Longrightarrow> scan_tokens (ago_phrase ps) = concat (map (\<lambda>(n, u, w). [itoa n, w]) ps) @ [''ago'']"
proof (induction ps)
  case Nil
  have "plain_word ''ago''" by (simp add: plain_word_def lower_letter_def)
  then have "scan_tokens (''ago'' @ []) = ''ago'' # scan_tokens []" by (rule scan_word) simp
  then show ?case by (simp add: ago_phrase_def del: scan_tokens.simps(2))
next
  case (Cons p ps)
  obtain n u w where p: "p = (n, u, w)" by (cases p)
  have w: "plain_number (itoa n)" "plain_word w" and ok: "phrase_ok ps"
    using Cons.prems itoa_plain names_plain by (auto simp: p phrase_ok_def)
  have "scan_tokens (itoa n @ CHR '' '' # w @ CHR '' '' # ago_phrase ps) =
      itoa n # scan_tokens (CHR '' '' # w @ CHR '' '' # ago_phrase ps)"
    by (rule scan_plain_number [OF w(1)]) simp
  moreover have "scan_tokens (w @ CHR '' '' # ago_phrase ps) = w # scan_tokens (CHR '' '' # ago_phrase ps)"
    by (rule scan_word [OF w(2)]) simp
  ultimately show ?case
    using Cons.IH [OF ok] by (simp add: p ago_phrase_Cons scan_space del: scan_tokens.simps(2))
qed

lemma number_token:
  assumes "0 \<le> n" "n \<le> 1000000"
  shows "itoa n \<notin> {'','', ''ago'', [], ''and''}" "splitDecimalStr L (itoa n) = Some (n, None)"
proof -
  have d: "\<forall>c\<in>set (itoa n). is_digit c" using itoa_plain [OF assms(1)] by (simp add: plain_number_def)
  then show "itoa n \<notin> {'','', ''ago'', [], ''and''}" by (auto simp: is_digit_def)
  have "CHR ''.'' \<notin> set (itoa n)" using d by (auto simp: is_digit_def)
  then have "go_split2 (itoa n) ''.'' = [itoa n]" by (simp add: go_split2_def index_of_single)
  moreover have "int64_range n" using assms by (simp add: int64_range_def)
  ultimately show "splitDecimalStr L (itoa n) = Some (n, None)"
    by (simp add: splitDecimalStr_def atoi_itoa)
qed

lemma ago_loop_phrase:
  "phrase_ok ps \<Longrightarrow> ago_loop L (concat (map (\<lambda>(n, u, w). [itoa n, w]) ps) @ [''ago'']) now =
     Inr (fold (\<lambda>(n, u, w). earlier L u n) ps now)"
proof (induction ps arbitrary: now)
  case Nil
  then show ?case by simp
next
  case (Cons p ps)
  obtain n u w where p: "p = (n, u, w)" by (cases p)
  have n: "0 \<le> n" "n \<le> 1000000" and w: "w \<in> set (unit_names u)" and ok: "phrase_ok ps"
    using Cons.prems by (auto simp: p phrase_ok_def)
  have name: "unit_name w \<in> set (unit_words u)" using unit_name_of w by (auto simp: list_all_iff)
  let ?rest = "concat (map (\<lambda>(n, u, w). [itoa n, w]) ps) @ [''ago'']"
  have "ago_loop L (itoa n # w # ?rest) now = ago_loop L ?rest (earlier L u n now)"
    using number_token(1) [OF n]
    by (simp add: number_token(2) [OF n] go_back_whole [OF name n])
  then show ?case by (simp only: p Cons.IH [OF ok] list.map concat.simps prod.case append_Cons append_Nil fold_simps)
qed

lemma phrase_chars:
  "phrase_ok ps \<Longrightarrow> c \<in> set (ago_phrase ps) \<Longrightarrow> is_digit c \<or> lower_letter c \<or> c = CHR '' ''"
proof (induction ps)
  case Nil
  then show ?case by (auto simp: ago_phrase_def lower_letter_def)
next
  case (Cons p ps)
  obtain n u w where p: "p = (n, u, w)" by (cases p)
  then have "plain_number (itoa n)" "plain_word w" "phrase_ok ps"
    using Cons.prems itoa_plain names_plain by (auto simp: phrase_ok_def)
  then show ?case using Cons by (auto simp: p ago_phrase_Cons plain_number_def plain_word_def)
qed

lemma phrase_ends:
  assumes "phrase_ok ps"
  shows "ago_phrase ps \<noteq> []" "hd (ago_phrase ps) \<notin> set white_space" "last (ago_phrase ps) = CHR ''o''"
proof -
  show "ago_phrase ps \<noteq> []" "last (ago_phrase ps) = CHR ''o''" by (simp_all add: ago_phrase_def)
  show "hd (ago_phrase ps) \<notin> set white_space"
  proof (cases ps)
    case Nil
    then show ?thesis by (simp add: ago_phrase_def white_space_def)
  next
    case (Cons p ps')
    obtain n u w where p: "p = (n, u, w)" by (cases p)
    then have "plain_number (itoa n)" using assms itoa_plain by (auto simp: Cons phrase_ok_def)
    then show ?thesis
      using digit_facts(4) by (cases "itoa n") (auto simp: Cons p ago_phrase_Cons plain_number_def)
  qed
qed

lemma normal_phrase:
  assumes "phrase_ok ps"
  shows "to_lower (utils_normalizeSpace (ago_phrase ps)) = ago_phrase ps"
proof -
  let ?s = "ago_phrase ps"
  have c: "lower_char c = c \<and> (c \<in> set white_space \<longrightarrow> c = CHR '' '')" if "c \<in> set ?s" for c
    using phrase_chars [OF assms that] lower_letter_facts(1,5) digit_facts(1,4)
    by (auto simp: lower_char_def)
  have "map (\<lambda>c. if c \<in> set white_space then CHR '' '' else c) ?s = ?s"
    using c by (intro map_idI) auto
  moreover have "go_trim ?s white_space = ?s"
    using phrase_ends [OF assms] by (intro go_trim_id) (simp add: white_space_def)
  moreover have "to_lower ?s = ?s" using c by (simp add: to_lower_def map_idI)
  ultimately show ?thesis by (simp add: utils_normalizeSpace_def trim_space_def)
qed

lemma matches_later: "matches_word w False s \<Longrightarrow> matches_word w prev (x @ CHR '' '' # s)"
proof (induction x arbitrary: prev)
  case Nil
  have "\<not> word_char (CHR '' '')" by (simp add: word_char_def is_letter_def lower_char_def is_digit_def)
  with Nil show ?case by simp
qed simp

lemma phrase_is_ago: "matches_word ''ago'' False (ago_phrase ps)"
proof (induction ps)
  case Nil
  then show ?case
    by (simp add: ago_phrase_def starts_ci_def to_lower_def lower_char_def has_prefix_def)
next
  case (Cons p ps)
  obtain n u w where p: "p = (n, u, w)" by (cases p)
  show ?case
    using matches_later [OF Cons, of False "itoa n @ CHR '' '' # w"] by (simp add: p ago_phrase_Cons)
qed

lemma phrase_time:
  assumes "phrase_ok ps" "timeParse L ''15:04:05'' (ago_phrase ps) = None"
  shows "parseFuzzyTime L zero (ago_phrase ps) now allow =
    Inr (fold (\<lambda>(n, u, w). earlier L u n) ps now)"
  unfolding parseFuzzyTime_def parseTimeAgo_def normal_phrase [OF assms(1)] scan_phrase [OF assms(1)]
    ago_loop_phrase [OF assms(1)]
  by (simp add: assms(2) phrase_is_ago)

text \<open>What the filter \<open>timeago\<close> and the date of an item make of it.\<close>

lemma timeago_filter:
  assumes "phrase_ok ps" "timeParse L ''15:04:05'' (ago_phrase ps) = None"
  shows "fuzzyTime_at L zero now (ago_phrase ps) =
      Some (timeFormat L filterTimeFormat (fold (\<lambda>(n, u, w). earlier L u n) ps now))"
    "fuzzyUnix_at L zero now (ago_phrase ps) = Some (fold (\<lambda>(n, u, w). earlier L u n) ps now div nanos)"
  using phrase_time [OF assms, of zero now True]
  by (simp_all add: fuzzyTime_at_def fuzzyUnix_at_def filterFuzzyTime_def)

text \<open>C35: A phrase of numbers and units that ends in \<open>ago\<close> is the time that many units before now, unit by
  unit in the order of the text, years, months and days by the calendar and the others by their
  length; but any number of weeks goes back one week only.
\<close>

theorem time_ago_phrases:
  assumes "phrase_ok ps" "timeParse L ''15:04:05'' (ago_phrase ps) = None"
  shows "parseFuzzyTime L zero (ago_phrase ps) now allow =
    Inr (fold (\<lambda>(n, u, w). earlier L u n) ps now)"
  by (rule phrase_time [OF assms])

text \<open>A calendar of years of 365 days and months of 30, without layouts.\<close>

definition plain_calendar :: "unit fuzzy_lib" where
  "plain_calendar =
     \<lparr>addDate = (\<lambda>y m d t. t + (365 * y + 30 * m + d) * 86400 * nanos),
      dateOf = (\<lambda>t. (1970, 1, 1)), clockOf = (\<lambda>t. (0, 0, 0)), timeParse = (\<lambda>l s. None),
      timeFormat = (\<lambda>l t. itoa t), fraction = (\<lambda>s. None), positive = (\<lambda>f. False), scaled = (\<lambda>n f. 0),
      extractDate = (\<lambda>s. Inl s), isoFormat = (\<lambda>d. []), timeEmpty = (\<lambda>d. dtHour d = None),
      hasFullDate = (\<lambda>d. False), hasSecond = (\<lambda>d. dtSecond d \<noteq> None), hasOffset = (\<lambda>d. dtOffset d \<noteq> None)\<rparr>"

definition sample_phrase :: phrase where
  "sample_phrase = [(3, Weeks, ''weeks''), (2, Days, ''days''), (1, Hours, ''hour'')]"

lemma sample_phrase_text: "ago_phrase sample_phrase = ''3 weeks 2 days 1 hour ago''"
  by code_simp

lemma sample_phrase_ok: "phrase_ok sample_phrase"
  by (simp add: phrase_ok_def sample_phrase_def unit_names_def)

theorem time_ago_phrases_witness:
  "parseFuzzyTime plain_calendar 0 ''3 weeks 2 days 1 hour ago'' (1000000 * nanos) True =
     Inr ((1000000 - (9 * 86400 + 3600)) * nanos)"
  using time_ago_phrases [OF sample_phrase_ok, of plain_calendar 0 "1000000 * nanos" True]
  unfolding sample_phrase_text by (simp add: sample_phrase_def plain_calendar_def nanos_def)

end
