(* ===== verification/GoRegexp.thy ===== *)
theory GoRegexp
  imports GoPrelude
begin

text \<open>
  Regular expressions of the package \<open>regexp\<close>, as far as the patterns written in the program use them:
  classes, sequence, alternatives, greedy and lazy repetition, numbered groups and the two anchors of a
  text. A text is a list of code points (valid UTF-8). A match is the first one a backtracking matcher
  finds, which is the leftmost-first match \<open>regexp\<close> documents; \<open>rx_m\<close> lists all of them in that order.
  \<open>rx_run\<close> says what a match is without an order, and the two agree.
\<close>

subsection \<open>Expressions and the matcher\<close>

type_synonym rune = int

datatype rx =
    Cls bool "(rune \<times> rune) list"
  | Eps
  | Seq rx rx
  | Alt rx rx
  | Many bool rx
  | Grp nat rx
  | Bot
  | Eot

text \<open>\<open>Cls neg\<close> is a class of ranges, negated when \<open>neg\<close>; \<open>Many greedy r\<close> is \<open>r*\<close> or \<open>r*?\<close>.\<close>

definition cls_has :: "bool \<Rightarrow> (rune \<times> rune) list \<Rightarrow> rune \<Rightarrow> bool" where
  "cls_has neg rs c \<longleftrightarrow> list_ex (\<lambda>(lo, hi). lo \<le> c \<and> c \<le> hi) rs \<noteq> neg"

text \<open>The state of a matcher: what is behind it, the last rune first, what is before it, and the groups,
  the last one set first.\<close>

type_synonym rx_state = "rune list \<times> rune list \<times> (nat \<times> rune list) list"

definition rest_of :: "rx_state \<Rightarrow> rune list" where
  "rest_of st = fst (snd st)"

fun many_loop :: "bool \<Rightarrow> (rx_state \<Rightarrow> rx_state list) \<Rightarrow> nat \<Rightarrow> rx_state \<Rightarrow> rx_state list" where
  "many_loop greedy m 0 st = [st]"
| "many_loop greedy m (Suc n) st =
     (let more = concat (map (many_loop greedy m n)
        (filter (\<lambda>st'. length (rest_of st') < length (rest_of st)) (m st)))
      in if greedy then more @ [st] else st # more)"

fun step_class :: "bool \<Rightarrow> (rune \<times> rune) list \<Rightarrow> rx_state \<Rightarrow> rx_state list" where
  "step_class neg rs (b, [], cs) = []"
| "step_class neg rs (b, c # s, cs) = (if cls_has neg rs c then [(c # b, s, cs)] else [])"

definition close_group :: "nat \<Rightarrow> rx_state \<Rightarrow> rx_state \<Rightarrow> rx_state" where
  "close_group k st st' = (case st' of (b, s, cs) \<Rightarrow>
     (b, s, (k, rev (take (length b - length (fst st)) b)) # cs))"

primrec rx_m :: "rx \<Rightarrow> rx_state \<Rightarrow> rx_state list" where
  "rx_m (Cls neg rs) st = step_class neg rs st"
| "rx_m Eps st = [st]"
| "rx_m (Seq r1 r2) st = concat (map (rx_m r2) (rx_m r1 st))"
| "rx_m (Alt r1 r2) st = rx_m r1 st @ rx_m r2 st"
| "rx_m (Many greedy r) st = many_loop greedy (rx_m r) (length (rest_of st)) st"
| "rx_m (Grp k r) st = map (close_group k st) (rx_m r st)"
| "rx_m Bot st = (if fst st = [] then [st] else [])"
| "rx_m Eot st = (if rest_of st = [] then [st] else [])"

subsection \<open>What a match is\<close>

inductive rx_run :: "rx \<Rightarrow> rx_state \<Rightarrow> rx_state \<Rightarrow> bool" where
  run_class: "cls_has neg rs c \<Longrightarrow> rx_run (Cls neg rs) (b, c # s, cs) (c # b, s, cs)"
| run_eps: "rx_run Eps st st"
| run_seq: "rx_run r1 st st1 \<Longrightarrow> rx_run r2 st1 st2 \<Longrightarrow> rx_run (Seq r1 r2) st st2"
| run_left: "rx_run r1 st st' \<Longrightarrow> rx_run (Alt r1 r2) st st'"
| run_right: "rx_run r2 st st' \<Longrightarrow> rx_run (Alt r1 r2) st st'"
| run_stop: "rx_run (Many greedy r) st st"
| run_more: "rx_run r st st1 \<Longrightarrow> length (rest_of st1) < length (rest_of st) \<Longrightarrow>
    rx_run (Many greedy r) st1 st2 \<Longrightarrow> rx_run (Many greedy r) st st2"
| run_group: "rx_run r st st' \<Longrightarrow> rx_run (Grp k r) st (close_group k st st')"
| run_bot: "fst st = [] \<Longrightarrow> rx_run Bot st st"
| run_eot: "rest_of st = [] \<Longrightarrow> rx_run Eot st st"

inductive_simps run_simps [simp]:
  "rx_run (Cls neg rs) st st'"
  "rx_run Eps st st'"
  "rx_run (Seq r1 r2) st st'"
  "rx_run (Alt r1 r2) st st'"
  "rx_run (Grp k r) st st'"
  "rx_run Bot st st'"
  "rx_run Eot st st'"

lemma step_class_set: "st' \<in> set (step_class neg rs st) \<longleftrightarrow> rx_run (Cls neg rs) st st'"
  by (cases "(neg, rs, st)" rule: step_class.cases) auto

lemma many_loop_step:
  "st' \<in> set (many_loop greedy m (Suc n) st) \<longleftrightarrow> st' = st
    \<or> (\<exists>st1\<in>set (m st). length (rest_of st1) < length (rest_of st) \<and> st' \<in> set (many_loop greedy m n st1))"
  unfolding many_loop.simps Let_def
  by (cases greedy) (simp_all only: if_True if_False set_append set_concat set_map set_filter list.set, blast+)

lemma many_loop_sound:
  assumes "\<And>st st'. st' \<in> set (m st) \<Longrightarrow> rx_run r st st'"
  shows "st' \<in> set (many_loop greedy m n st) \<Longrightarrow> rx_run (Many greedy r) st st'"
proof (induction n arbitrary: st)
  case 0
  then show ?case by (simp add: run_stop)
next
  case (Suc n)
  then consider "st' = st" | st1 where "st1 \<in> set (m st)" "length (rest_of st1) < length (rest_of st)"
      "st' \<in> set (many_loop greedy m n st1)"
    unfolding many_loop_step by blast
  then show ?case
  proof cases
    case 1
    then show ?thesis by (simp add: run_stop)
  next
    case 2
    then show ?thesis by (intro run_more [OF assms _ Suc.IH])
  qed
qed

lemma many_loop_complete:
  assumes "\<And>st st'. rx_run r st st' \<Longrightarrow> st' \<in> set (m st)"
  shows "rx_run q st st' \<Longrightarrow> q = Many greedy r \<Longrightarrow> length (rest_of st) \<le> n
    \<Longrightarrow> st' \<in> set (many_loop greedy m n st)"
proof (induction arbitrary: n rule: rx_run.induct)
  case (run_stop g r' st)
  then show ?case by (cases n) (auto simp: Let_def)
next
  case (run_more r' st st1 g st2)
  from run_more.prems run_more.hyps(2) obtain k where k: "n = Suc k" by (cases n) auto
  have "st2 \<in> set (many_loop greedy m k st1)"
    using run_more.IH(2) run_more.prems run_more.hyps(2) k by simp
  moreover have "st1 \<in> set (m st)" using assms run_more.hyps(1) run_more.prems(1) by simp
  ultimately show ?case using run_more.hyps(2) unfolding k many_loop_step by blast
qed simp_all

theorem matches_are_runs: "st' \<in> set (rx_m r st) \<longleftrightarrow> rx_run r st st'"
proof (induction r arbitrary: st st')
  case (Many greedy r)
  have "rx_run (Many greedy r) st st'" if "st' \<in> set (rx_m (Many greedy r) st)"
    using many_loop_sound [of "rx_m r" r] that Many.IH unfolding rx_m.simps by blast
  moreover have "st' \<in> set (rx_m (Many greedy r) st)" if "rx_run (Many greedy r) st st'"
    using many_loop_complete [OF _ that refl, of "rx_m r"] Many.IH by simp
  ultimately show ?case by blast
next
  case (Seq r1 r2)
  show ?case by (simp add: Bex_def Seq.IH)
next
  case (Grp k r)
  show ?case by (simp add: image_iff Bex_def Grp.IH conj_commute)
qed (auto simp: step_class_set simp del: run_simps(1))

subsection \<open>Searching and replacing\<close>

text \<open>The first place where the expression matches: what is skipped, and the states before and after the
  match.\<close>

fun rx_find :: "rx \<Rightarrow> rune list \<Rightarrow> rune list \<Rightarrow> (rune list \<times> rx_state \<times> rx_state) option" where
  "rx_find r b s = (case rx_m r (b, s, []) of
     st # _ \<Rightarrow> Some ([], (b, s, []), st)
   | [] \<Rightarrow> (case s of [] \<Rightarrow> None
       | c # s' \<Rightarrow> map_option (\<lambda>(skipped, m). (c # skipped, m)) (rx_find r (c # b) s')))"

declare rx_find.simps [simp del]

definition group_of :: "nat \<Rightarrow> (nat \<times> rune list) list \<Rightarrow> rune list" where
  "group_of k cs = (case map_of cs k of None \<Rightarrow> [] | Some t \<Rightarrow> t)"

text \<open>
  \<open>ReplaceAllString\<close>: \<open>out\<close> is the expanded replacement of a match. An empty match right after the
  previous one (\<open>just\<close>) is not replaced, and an empty match advances by one rune.
\<close>

lemma run_rest: "rx_run r st st' \<Longrightarrow> length (rest_of st') \<le> length (rest_of st)"
  by (induction rule: rx_run.induct) (auto simp: rest_of_def close_group_def split: prod.splits)

lemma rx_find_Some:
  "rx_find r b s = Some (skipped, st, st') \<Longrightarrow>
    rx_run r st st' \<and> s = skipped @ rest_of st \<and> fst st = rev skipped @ b \<and> snd (snd st) = []"
proof (induction s arbitrary: b skipped)
  case Nil
  then show ?case
    using matches_are_runs [of st' r "(b, [], [])"]
    by (auto simp: rx_find.simps [of r b "[]"] rest_of_def split: list.splits)
next
  case (Cons c s)
  show ?case
  proof (cases "rx_m r (b, c # s, [])")
    case Nil
    with Cons.prems obtain k where "rx_find r (c # b) s = Some (k, st, st')" "skipped = c # k"
      by (auto simp: rx_find.simps [of r b "c # s"])
    with Cons.IH show ?thesis by simp
  next
    case (Cons x xs)
    with Cons.prems show ?thesis
      using matches_are_runs [of st' r "(b, c # s, [])"]
      by (auto simp: rx_find.simps [of r b "c # s"] rest_of_def)
  qed
qed

function rx_replace_from :: "rx \<Rightarrow> ((nat \<times> rune list) list \<Rightarrow> rune list) \<Rightarrow> bool \<Rightarrow> rune list \<Rightarrow> rune list
    \<Rightarrow> rune list" where
  "rx_replace_from r out just b s = (case rx_find r b s of
     None \<Rightarrow> s
   | Some (skipped, st, (b', s', cs)) \<Rightarrow>
       if length s' < length (rest_of st) then skipped @ out cs @ rx_replace_from r out True b' s'
       else skipped @ (if just \<and> skipped = [] then [] else out cs)
         @ (case s' of [] \<Rightarrow> [] | c # s'' \<Rightarrow> c # rx_replace_from r out False (c # b') s''))"
  by pat_completeness auto

termination rx_replace_from
proof (relation "measure (\<lambda>(r, out, just, b, s). length s)", goal_cases)
  case 1
  then show ?case by simp
next
  case (2 r out just b s p skipped q st r' b' y s' cs)
  then show ?case using rx_find_Some [of r b s skipped st "(b', s', cs)"] by simp
next
  case (3 r out just b s p skipped q st r' b' y s' cs c s'')
  then show ?case
    using rx_find_Some [of r b s skipped st "(b', s', cs)"] run_rest [of r st "(b', s', cs)"]
    by (auto simp: rest_of_def)
qed

declare rx_replace_from.simps [simp del]

definition rx_replace :: "rx \<Rightarrow> ((nat \<times> rune list) list \<Rightarrow> rune list) \<Rightarrow> rune list \<Rightarrow> rune list" where
  "rx_replace r out s = rx_replace_from r out False [] s"

subsection \<open>What a match consumes\<close>

primrec min_len :: "rx \<Rightarrow> nat" where
  "min_len (Cls neg rs) = 1"
| "min_len Eps = 0"
| "min_len (Seq r1 r2) = min_len r1 + min_len r2"
| "min_len (Alt r1 r2) = min (min_len r1) (min_len r2)"
| "min_len (Many greedy r) = 0"
| "min_len (Grp k r) = min_len r"
| "min_len Bot = 0"
| "min_len Eot = 0"

primrec no_groups :: "rx \<Rightarrow> bool" where
  "no_groups (Cls neg rs) = True"
| "no_groups Eps = True"
| "no_groups (Seq r1 r2) = (no_groups r1 \<and> no_groups r2)"
| "no_groups (Alt r1 r2) = (no_groups r1 \<and> no_groups r2)"
| "no_groups (Many greedy r) = no_groups r"
| "no_groups (Grp k r) = False"
| "no_groups Bot = True"
| "no_groups Eot = True"

definition consumes :: "rx_state \<Rightarrow> rune list \<Rightarrow> rx_state \<Rightarrow> bool" where
  "consumes st t st' \<longleftrightarrow> rest_of st = t @ rest_of st' \<and> fst st' = rev t @ fst st"

lemma consumes_trans: "consumes st t st1 \<Longrightarrow> consumes st1 u st2 \<Longrightarrow> consumes st (t @ u) st2"
  by (simp add: consumes_def)

lemma consumes_refl: "consumes st [] st"
  by (simp add: consumes_def)

lemma run_consumes: "rx_run r st st' \<Longrightarrow> \<exists>t. consumes st t st' \<and> min_len r \<le> length t"
proof (induction rule: rx_run.induct)
  case (run_seq r1 st st1 r2 st2)
  then obtain t u where "consumes st t st1" "min_len r1 \<le> length t" "consumes st1 u st2" "min_len r2 \<le> length u"
    by blast
  then show ?case by (intro exI [of _ "t @ u"]) (simp add: consumes_trans)
next
  case (run_more r st st1 greedy st2)
  then obtain t u where "consumes st t st1" "consumes st1 u st2" by blast
  then show ?case by (intro exI [of _ "t @ u"]) (simp add: consumes_trans)
next
  case (run_group r st st' k)
  then show ?case by (auto simp: consumes_def close_group_def rest_of_def split: prod.splits)
next
  case (run_class neg rs c b s cs)
  then show ?case by (intro exI [of _ "[c]"]) (simp add: consumes_def rest_of_def)
next
  case (run_left r1 st st' r2)
  then show ?case by (auto intro: min.coboundedI1)
next
  case (run_right r2 st st' r1)
  then show ?case by (auto intro: min.coboundedI2)
qed (auto intro: consumes_refl)

lemma run_no_groups: "rx_run r st st' \<Longrightarrow> no_groups r \<Longrightarrow> snd (snd st') = snd (snd st)"
  by (induction rule: rx_run.induct) auto

lemma run_group_text:
  assumes "rx_run (Grp k r) st st'" "no_groups r"
  obtains t where "consumes st t st'" "snd (snd st') = (k, t) # snd (snd st)" "min_len r \<le> length t"
proof -
  from assms(1) obtain st1 where r: "rx_run r st st1" "st' = close_group k st st1" by auto
  from run_consumes [OF r(1)] obtain t where t: "consumes st t st1" "min_len r \<le> length t" by blast
  have "consumes st t st'" "snd (snd st') = (k, t) # snd (snd st)"
    using t(1) run_no_groups [OF r(1) assms(2)] unfolding r(2)
    by (auto simp: close_group_def consumes_def rest_of_def split: prod.splits)
  with t(2) that show ?thesis by blast
qed

subsection \<open>Replacements that shrink the text\<close>

definition shrinks :: "rx \<Rightarrow> ((nat \<times> rune list) list \<Rightarrow> rune list) \<Rightarrow> bool" where
  "shrinks r out \<longleftrightarrow> (\<forall>st st'. snd (snd st) = [] \<longrightarrow> rx_run r st st' \<longrightarrow>
     length (out (snd (snd st'))) + length (rest_of st') < length (rest_of st))"

lemma shrinksD:
  "shrinks r out \<Longrightarrow> rx_run r st (b', s', cs) \<Longrightarrow> snd (snd st) = [] \<Longrightarrow>
    length (out cs) + length s' < length (rest_of st)"
  unfolding shrinks_def rest_of_def by (metis fst_conv snd_conv)

lemma replace_from_shrinks:
  assumes "shrinks r out"
  shows "rx_find r b s = None \<and> rx_replace_from r out just b s = s
    \<or> length (rx_replace_from r out just b s) < length s"
  using assms
proof (induction r out just b s rule: rx_replace_from.induct)
  case (1 r out just b s)
  show ?case
  proof (cases "rx_find r b s")
    case None
    then show ?thesis by (simp add: rx_replace_from.simps [of r out just b s])
  next
    case (Some m)
    obtain skipped st b' s' cs where m: "m = (skipped, st, (b', s', cs))" by (metis prod_cases3)
    note f = rx_find_Some [OF Some [unfolded m]]
    have l: "length (out cs) + length s' < length (rest_of st)"
      by (rule shrinksD [OF "1.prems"]) (use f in auto)
    then have p: "length s' < length (rest_of st)" by simp
    have "length (rx_replace_from r out True b' s') \<le> length s'"
      using "1.IH"(1) [OF Some m [symmetric] refl refl refl p "1.prems"] by auto
    moreover have "rx_replace_from r out just b s = skipped @ out cs @ rx_replace_from r out True b' s'"
      using p by (simp add: rx_replace_from.simps [of r out just b s] Some m)
    moreover have "length s = length skipped + length (rest_of st)"
      using f by (metis length_append)
    ultimately show ?thesis using l by simp
  qed
qed

lemma replace_shrinks:
  "shrinks r out \<Longrightarrow>
    rx_find r [] s = None \<and> rx_replace r out s = s \<or> length (rx_replace r out s) < length s"
  unfolding rx_replace_def by (rule replace_from_shrinks)

lemma deletion_shrinks: "0 < min_len r \<Longrightarrow> shrinks r (\<lambda>cs. [])"
  unfolding shrinks_def using run_consumes by (fastforce simp: consumes_def)

end
