(* ===== verification/Fingerprint.thy ===== *)
theory Fingerprint
  imports GoRegexp
begin

text \<open>
  The fingerprint of a title (\<open>indexer/formatting/fingerprinting.go\<close>), which tells two releases of the same
  thing from each other: bracketed remarks, dates and counters are cut off until nothing more comes off,
  and of the rest the letters of two alphabets and some marks stay. The patterns are written as
  expressions of \<open>GoRegexp\<close>, Cyrillic letters by their code points. \<open>html.UnescapeString\<close> and the table of
  \<open>unicode.ToLower\<close> are parameters.
\<close>

subsection \<open>Pieces of patterns\<close>

definition asc :: "string \<Rightarrow> rune list" where
  "asc s = map of_char s"

abbreviation one_of :: "rune list \<Rightarrow> rx" where
  "one_of cs \<equiv> Cls False (map (\<lambda>c. (c, c)) cs)"

definition rx_lit :: "rune list \<Rightarrow> rx" where
  "rx_lit cs = foldr (\<lambda>c. Seq (one_of [c])) cs Eps"

definition rx_seq :: "rx list \<Rightarrow> rx" where
  "rx_seq rs = foldr Seq rs Eps"

fun rx_alt :: "rx list \<Rightarrow> rx" where
  "rx_alt [] = Cls False []"
| "rx_alt [r] = r"
| "rx_alt (r # r' # rs) = Alt r (rx_alt (r' # rs))"

definition rx_dot :: rx where
  "rx_dot = Cls True [(10, 10)]"

definition rx_blank :: rx where
  "rx_blank = one_of [9, 10, 12, 13, 32]"

definition rx_digit :: rx where
  "rx_digit = Cls False [(48, 57)]"

definition rx_plus :: "rx \<Rightarrow> rx" where
  "rx_plus r = Seq r (Many True r)"

definition rx_plus_lazy :: "rx \<Rightarrow> rx" where
  "rx_plus_lazy r = Seq r (Many False r)"

definition rx_opt :: "rx \<Rightarrow> rx" where
  "rx_opt r = Alt r Eps"

definition rx_times :: "nat \<Rightarrow> rx \<Rightarrow> rx" where
  "rx_times n r = rx_seq (replicate n r)"

lemma no_groups_pieces [simp]:
  "no_groups (rx_lit cs)" "no_groups (rx_seq rs) = list_all no_groups rs"
  "no_groups (rx_plus r) = no_groups r" "no_groups (rx_plus_lazy r) = no_groups r"
  "no_groups (rx_opt r) = no_groups r" "no_groups r \<Longrightarrow> no_groups (rx_times n r)"
proof -
  have s: "no_groups (rx_seq rs) = list_all no_groups rs" for rs
    by (induction rs) (simp_all add: rx_seq_def)
  show "no_groups (rx_seq rs) = list_all no_groups rs" by (rule s)
  show "no_groups (rx_lit cs)" by (induction cs) (simp_all add: rx_lit_def)
  show "no_groups r \<Longrightarrow> no_groups (rx_times n r)" by (simp add: rx_times_def s list_all_length)
qed (simp_all add: rx_plus_def rx_plus_lazy_def rx_opt_def)

lemma min_len_pieces [simp]:
  "min_len (rx_lit cs) = length cs" "min_len (rx_seq rs) = sum_list (map min_len rs)"
  "min_len (rx_plus r) = min_len r" "min_len (rx_plus_lazy r) = min_len r"
  "min_len (rx_opt r) = 0" "min_len (rx_times n r) = n * min_len r"
proof -
  have s: "min_len (rx_seq rs) = sum_list (map min_len rs)" for rs
    by (induction rs) (simp_all add: rx_seq_def)
  show "min_len (rx_seq rs) = sum_list (map min_len rs)" by (rule s)
  show "min_len (rx_lit cs) = length cs" by (induction cs) (simp_all add: rx_lit_def)
  show "min_len (rx_times n r) = n * min_len r" by (simp add: rx_times_def s sum_list_replicate)
qed (simp_all add: rx_plus_def rx_plus_lazy_def rx_opt_def)

subsection \<open>The patterns\<close>

text \<open>The patterns of the loop have one shape: a start that is kept, a remark, an end that is kept.\<close>

definition cut_rx :: "rx \<Rightarrow> rx \<Rightarrow> rx \<Rightarrow> rx" where
  "cut_rx kept remark tail = Seq Bot (Seq (Grp 1 kept) (Seq remark (Seq (Grp 2 tail) Eot)))"

definition bracketed :: "rune \<Rightarrow> rune \<Rightarrow> rx" where
  "bracketed l r = rx_seq [one_of [l], rx_plus_lazy (Cls True [(l, l), (r, r)]), one_of [r]]"

definition squareBracesRx :: rx where
  "squareBracesRx = cut_rx (Seq (rx_plus rx_dot) (Alt (rx_plus rx_blank) (one_of [41])))
     (bracketed 91 93) (Many True rx_dot)"

definition precedingSquareBracesRx :: rx where
  "precedingSquareBracesRx = cut_rx (Many True rx_blank) (bracketed 91 93) (rx_plus rx_dot)"

definition roundBracesRx :: rx where
  "roundBracesRx = cut_rx (Seq (rx_plus rx_dot) (Alt (rx_plus rx_blank) (one_of [93])))
     (bracketed 40 41) (Many True rx_dot)"

definition angleBracesRx :: rx where
  "angleBracesRx = cut_rx (rx_plus rx_dot)
     (rx_seq [rx_plus rx_blank, rx_lit (asc ''<<''), Many False rx_dot, rx_lit (asc ''>>'')]) (Many True rx_dot)"

definition rx_date :: rx where
  "rx_date = Alt
     (rx_seq [rx_digit, rx_opt rx_digit, one_of [46], rx_digit, rx_opt rx_digit, one_of [46], rx_times 4 rx_digit])
     (rx_seq [rx_times 4 rx_digit, one_of [46], rx_times 2 rx_digit, one_of [46], rx_times 2 rx_digit])"

definition dateRx :: rx where
  "dateRx = cut_rx (rx_plus rx_dot) (Seq (rx_plus rx_blank) rx_date) (Many True rx_dot)"

text \<open>The words are \<open>po\<close> and \<open>ot\<close> for a date, \<open>v\<close> and \<open>iz\<close> for a counter.\<close>

definition date2Rx :: rx where
  "date2Rx = cut_rx (rx_plus rx_dot)
     (rx_seq [rx_plus rx_blank, Alt (rx_lit [1087, 1086]) (rx_lit [1086, 1090]), rx_plus rx_blank, rx_date])
     (Many True rx_dot)"

definition releaseCounterRx :: rx where
  "releaseCounterRx = cut_rx (rx_plus rx_dot)
     (rx_seq [rx_plus rx_blank, rx_plus rx_digit, Many True rx_blank,
        Alt (rx_lit [1074]) (rx_lit [1080, 1079]), Many True rx_blank, rx_plus rx_digit])
     (Many True rx_dot)"

definition spacesRx :: rx where
  "spacesRx = rx_seq [rx_plus rx_blank, one_of [47], Many True rx_dot]"

definition spaces2Rx :: rx where
  "spaces2Rx = rx_plus rx_blank"

definition categoriesRx :: rx where
  "categoriesRx = rx_seq [Bot,
     Grp 1 (Alt (rx_seq [rx_lit (asc ''national''), rx_plus rx_blank, rx_lit (asc ''geographic''),
                 Many True rx_blank, one_of [58]])
               (rx_seq [rx_lit [1085, 1072, 1091, 1082, 1072], rx_plus rx_blank, rx_lit (asc ''2.0'')])),
     rx_plus rx_blank]"

definition arrowsRx :: rx where
  "arrowsRx = rx_seq [Bot, one_of [171],
     Grp 1 (Seq (rx_times 6 (Cls True [(187, 187)])) (Many True (Cls True [(187, 187)]))), one_of [187]]"

text \<open>The first part of a title up to its first mark, at least six characters in.\<close>

definition title_char :: rx where
  "title_char = Cls False ([(48, 57), (97, 122), (1072, 1103), (1105, 1105)] @ map (\<lambda>c. (c, c)) [46, 44, 32, 45, 58])"

definition cyrilicRx :: rx where
  "cyrilicRx = rx_seq [Bot,
     Grp 1 (rx_seq [rx_times 6 title_char, Many False title_char,
       rx_alt [one_of [58, 46, 63, 33], rx_lit [32, 45, 32], rx_lit [32, 8212, 32], one_of [124]]]),
     Many True rx_dot]"

text \<open>\<open>(:?vypusk|...)\<close>: what looks like a group without a number is one, that may begin with a colon.\<close>

definition bad_keywords :: "rune list list" where
  "bad_keywords = [[1074, 1099, 1087, 1091, 1089, 1082, 1080], [1074, 1099, 1087, 1091, 1089, 1082, 1086, 1074],
     [1086, 1073, 1085, 1086, 1074, 1083, 1077, 1085, 1086],
     [1087, 1077, 1088, 1077, 1076, 1072, 1095, 1080, 32, 1079, 1072],
     [1089, 1077, 1088, 1080, 1103, 32, 1080, 1079], [1089, 1077, 1079, 1086, 1085],
     [1089, 1077, 1088, 1080, 1103], [1089, 1077, 1088, 1080, 1080],
     [1087, 1088, 1077, 1084, 1100, 1077, 1088, 1072], [1101, 1092, 1080, 1088, 32, 1089],
     [1101, 1092, 1080, 1088, 32, 1086, 1090], [1101, 1092, 1080, 1088, 1099, 32, 1086, 1090]]"

definition badKeywordsRx :: rx where
  "badKeywordsRx = rx_seq [Alt rx_blank (one_of [40]),
     Grp 1 (rx_alt ([Seq (rx_opt (one_of [58])) (rx_lit [1074, 1099, 1087, 1091, 1089, 1082])]
       @ map rx_lit bad_keywords @ [rx_lit (asc ''satrip'')])),
     rx_alt [rx_blank, one_of [41], Eot]]"

definition tagsRx :: rx where
  "tagsRx = rx_seq [one_of [60], rx_opt (one_of [47]), rx_plus (Cls False [(97, 122)]), one_of [62]]"

subsection \<open>The fingerprint\<close>

definition rune_trim :: "rune list \<Rightarrow> rune list \<Rightarrow> rune list" where
  "rune_trim s cutset =
     rev (dropWhile (\<lambda>c. c \<in> set cutset) (rev (dropWhile (\<lambda>c. c \<in> set cutset) s)))"

text \<open>\<open>strings.ReplaceAll\<close> with an old text that is not empty.\<close>

definition rune_replace_all :: "rune list \<Rightarrow> rune list \<Rightarrow> rune list \<Rightarrow> rune list" where
  "rune_replace_all s old new = rx_replace (rx_lit old) (\<lambda>cs. new) s"

definition cutting_rxs :: "rx list" where
  "cutting_rxs = [squareBracesRx, precedingSquareBracesRx, roundBracesRx, angleBracesRx, dateRx, date2Rx,
     releaseCounterRx]"

definition cut_with :: "rx \<Rightarrow> rune list \<Rightarrow> rune list" where
  "cut_with r name =
     rx_replace r (\<lambda>cs. group_of 1 cs @ group_of 2 cs) (rune_trim name (asc '' .,''))"

definition cut_pass :: "rune list \<Rightarrow> rune list" where
  "cut_pass name = fold cut_with cutting_rxs name"

lemma run_cut:
  assumes "rx_run (cut_rx kept remark tail) st st'"
    and "no_groups kept" "no_groups remark" "no_groups tail" "snd (snd st) = []"
  obtains k d t s1 s2 where "consumes st (k @ d @ t) st'" "min_len remark \<le> length d" "rest_of st' = []"
    "group_of 1 (snd (snd st')) = k" "group_of 2 (snd (snd st')) = t"
    "fst st = []" "rx_run remark s1 s2" "consumes s1 d s2"
proof -
  from assms(1) obtain s1 s2 where r: "rx_run (Grp 1 kept) st s1" "rx_run remark s1 s2"
      "rx_run (Grp 2 tail) s2 st'" "rest_of st' = []" and b: "fst st = []"
    unfolding cut_rx_def by (simp only: run_simps(3,6,7)) blast
  from run_group_text [OF r(1) assms(2)] obtain k where
    k: "consumes st k s1" "snd (snd s1) = (1, k) # snd (snd st)" by metis
  from run_consumes [OF r(2)] obtain d where d: "consumes s1 d s2" "min_len remark \<le> length d" by blast
  from run_group_text [OF r(3) assms(4)] obtain t where
    t: "consumes s2 t st'" "snd (snd st') = (2, t) # snd (snd s2)" by metis
  have "consumes st (k @ d @ t) st'" using consumes_trans [OF k(1) consumes_trans [OF d(1) t(1)]] .
  moreover have "snd (snd st') = [(2, t), (1, k)]"
    using t(2) k(2) run_no_groups [OF r(2) assms(3)] assms(5) by simp
  ultimately show ?thesis using d r(2,4) b that by (simp add: group_of_def)
qed

lemma cut_shrinks:
  assumes "no_groups kept" "no_groups remark" "no_groups tail" "0 < min_len remark"
  shows "shrinks (cut_rx kept remark tail) (\<lambda>cs. group_of 1 cs @ group_of 2 cs)"
  unfolding shrinks_def
proof (intro allI impI)
  fix st st' :: rx_state
  assume "snd (snd st) = []" "rx_run (cut_rx kept remark tail) st st'"
  from run_cut [OF this(2) assms(1-3) this(1)] obtain k d t where
    "consumes st (k @ d @ t) st'" "min_len remark \<le> length d" "rest_of st' = []"
    "group_of 1 (snd (snd st')) = k" "group_of 2 (snd (snd st')) = t" by metis
  with assms(4) show "length (group_of 1 (snd (snd st')) @ group_of 2 (snd (snd st'))) + length (rest_of st')
      < length (rest_of st)"
    by (auto simp: consumes_def)
qed

lemma cutting_rxs_shrink: "r \<in> set cutting_rxs \<Longrightarrow> shrinks r (\<lambda>cs. group_of 1 cs @ group_of 2 cs)"
  unfolding cutting_rxs_def squareBracesRx_def precedingSquareBracesRx_def roundBracesRx_def angleBracesRx_def
    dateRx_def date2Rx_def releaseCounterRx_def
  by (auto intro!: cut_shrinks simp: rx_dot_def rx_blank_def rx_digit_def bracketed_def rx_date_def asc_def
      simp del: One_nat_def)

lemma dropWhile_length: "dropWhile P x = x \<or> length (dropWhile P x) < length x"
  by (cases x) (simp_all add: less_Suc_eq_le length_dropWhile_le)

lemma rune_trim_length: "rune_trim s cutset = s \<or> length (rune_trim s cutset) < length s"
proof -
  define d where "d = dropWhile (\<lambda>c. c \<in> set cutset) s"
  define e where "e = dropWhile (\<lambda>c. c \<in> set cutset) (rev d)"
  have "d = s \<or> length d < length s" unfolding d_def by (rule dropWhile_length)
  moreover have "e = rev d \<or> length e < length d" unfolding e_def using dropWhile_length [of _ "rev d"] by simp
  moreover have "rune_trim s cutset = rev e" by (simp add: rune_trim_def e_def d_def)
  ultimately show ?thesis by auto
qed

lemma cut_with_length:
  "r \<in> set cutting_rxs \<Longrightarrow> cut_with r s = s \<and> rune_trim s (asc '' .,'') = s \<and> rx_find r [] s = None
    \<or> length (cut_with r s) < length s"
  using replace_shrinks [OF cutting_rxs_shrink, of r "rune_trim s (asc '' .,'')"]
    rune_trim_length [of s "asc '' .,''"]
  unfolding cut_with_def by fastforce

lemma fold_shrinks:
  assumes "\<And>r x. r \<in> set rs \<Longrightarrow> f r x = x \<or> length (f r x) < length x"
  shows "(\<forall>r\<in>set rs. f r s = s) \<and> fold f rs s = s \<or> length (fold f rs s) < length (s :: rune list)"
  using assms
proof (induction rs arbitrary: s)
  case Nil
  then show ?case by simp
next
  case (Cons r rs)
  from Cons.prems [of r s] consider "f r s = s" | "length (f r s) < length s" by auto
  then show ?case
  proof cases
    case 1
    with Cons.IH [of s] Cons.prems show ?thesis by auto
  next
    case 2
    from Cons.IH [of "f r s"] Cons.prems have "length (fold f rs (f r s)) \<le> length (f r s)" by fastforce
    with 2 show ?thesis by simp
  qed
qed

lemma cut_pass_length:
  "(\<forall>r\<in>set cutting_rxs. cut_with r s = s) \<and> cut_pass s = s \<or> length (cut_pass s) < length s"
  unfolding cut_pass_def by (rule fold_shrinks) (use cut_with_length in blast)

text \<open>The loop, which ends because a pass that changes the name makes it shorter.\<close>

function cut_loop :: "rune list \<Rightarrow> rune list \<Rightarrow> rune list" where
  "cut_loop name oldName = (if name = oldName then name else cut_loop (cut_pass name) name)"
  by pat_completeness auto

termination cut_loop
  by (relation "measure (\<lambda>(name, oldName). if name = oldName then 0 else Suc (length name))")
     (use cut_pass_length in auto)

declare cut_loop.simps [simp del]

definition allowed_chars :: "rune list" where
  "allowed_chars = [97..122] @ [1072..1103] @ [1105, 32] @ [49..57] @ asc ''+-_.:!,''"

definition bad_step :: "rune list \<Rightarrow> rune list" where
  "bad_step name = rx_replace badKeywordsRx (\<lambda>cs. []) name"

lemma bad_step_length: "bad_step s = s \<or> length (bad_step s) < length s"
proof -
  have "0 < min_len badKeywordsRx" by (simp add: badKeywordsRx_def rx_blank_def)
  from replace_shrinks [OF deletion_shrinks [OF this], of s] show ?thesis unfolding bad_step_def by blast
qed

function bad_loop :: "rune list \<Rightarrow> rune list" where
  "bad_loop name = (let newName = bad_step name in if newName = name then name else bad_loop newName)"
  by pat_completeness auto

termination bad_loop
  by (relation "measure length") (use bad_step_length in auto)

declare bad_loop.simps [simp del]

text \<open>The names of the months, in the nominative and the genitive. The pattern is built with the string
  literal \<open>"\b"\<close>, which is a backspace and not a word boundary.\<close>

definition month_names :: "rune list list" where
  "month_names =
    [[1103, 1085, 1074, 1072, 1088, 1100], [1103, 1085, 1074, 1072, 1088, 1103],
     [1092, 1077, 1074, 1088, 1072, 1083, 1100], [1092, 1077, 1074, 1088, 1072, 1083, 1103],
     [1084, 1072, 1088, 1090], [1084, 1072, 1088, 1090, 1072],
     [1072, 1087, 1088, 1077, 1083, 1100], [1072, 1087, 1088, 1077, 1083, 1103],
     [1084, 1072, 1081], [1084, 1072, 1103], [1080, 1102, 1085, 1100], [1080, 1102, 1085, 1103],
     [1080, 1102, 1083, 1100], [1080, 1102, 1083, 1103],
     [1072, 1074, 1075, 1091, 1089, 1090], [1072, 1074, 1075, 1091, 1089, 1090, 1072],
     [1089, 1077, 1085, 1090, 1103, 1073, 1088, 1100], [1089, 1077, 1085, 1090, 1103, 1073, 1088, 1103],
     [1086, 1082, 1090, 1103, 1073, 1088, 1100], [1086, 1082, 1090, 1103, 1073, 1088, 1103],
     [1085, 1086, 1103, 1073, 1088, 1100], [1085, 1086, 1103, 1073, 1088, 1103],
     [1076, 1077, 1082, 1072, 1073, 1088, 1100], [1076, 1077, 1082, 1072, 1073, 1088, 1103]]"

definition monthRx :: "rune list \<Rightarrow> rx" where
  "monthRx month = rx_lit ([8] @ month @ [8])"

definition drop_months :: "rune list \<Rightarrow> rune list" where
  "drop_months name = fold (\<lambda>month n. rx_replace (monthRx month) (\<lambda>cs. []) n) month_names name"

definition fingerprint_head :: "(rune list \<Rightarrow> rune list) \<Rightarrow> rune list \<Rightarrow> rune list" where
  "fingerprint_head unescape title =
    (let name = map (\<lambda>c. if c = 1105 then 101 else c) title;
         name = rx_replace tagsRx (\<lambda>cs. []) (unescape name);
         name = cut_loop name []
     in rx_replace spacesRx (\<lambda>cs. []) name)"

definition fingerprint_tail :: "(rune \<Rightarrow> rune) \<Rightarrow> rune list \<Rightarrow> rune list" where
  "fingerprint_tail lower name =
    (let name = rx_replace categoriesRx (\<lambda>cs. []) (map lower name);
         name = rx_replace arrowsRx (group_of 1) name;
         name = rx_replace cyrilicRx (group_of 1) name;
         name = map (\<lambda>c. if c = 46 then 32 else c) name;
         name = filter (\<lambda>c. c \<in> set allowed_chars) name;
         name = rune_replace_all name [1075, 46] [];
         name = drop_months (bad_loop name)
     in rx_replace spaces2Rx (\<lambda>cs. [32]) name)"

definition getResultFingerprint :: "(rune list \<Rightarrow> rune list) \<Rightarrow> (rune \<Rightarrow> rune) \<Rightarrow> rune list \<Rightarrow> rune list" where
  "getResultFingerprint unescape lower title = fingerprint_tail lower (fingerprint_head unescape title)"

end
