(* ===== verification/FingerprintFacts.thy ===== *)
theory FingerprintFacts
  imports Fingerprint
begin

text \<open>
  What is proved of the fingerprint of a title: the alphabet it is written in and its single spaces, that
  the loop stops when none of its patterns applies any more, that a remark in brackets does not matter, that
  nothing after the first mark of a title matters, and that the names of the months stay.
\<close>

subsection \<open>Replacements by a text that does not depend on the match\<close>

lemma replace_from_set: "set (rx_replace_from r out just b s) \<subseteq> set s \<union> (\<Union>cs. set (out cs))"
proof (induction r out just b s rule: rx_replace_from.induct)
  case (1 r out just b s)
  show ?case
  proof (cases "rx_find r b s")
    case None
    then show ?thesis by (simp add: rx_replace_from.simps [of r out just b s])
  next
    case (Some m)
    obtain skipped st b' s' cs where m: "m = (skipped, st, (b', s', cs))" by (metis prod_cases3)
    note f = rx_find_Some [OF Some [unfolded m]]
    obtain t where "consumes st t (b', s', cs)" using run_consumes f by blast
    then have s: "set skipped \<subseteq> set s" "set s' \<subseteq> set s" "set s' \<subseteq> set (rest_of st)"
      using f by (auto simp: consumes_def rest_of_def)
    show ?thesis
    proof (cases "length s' < length (rest_of st)")
      case True
      with "1.IH"(1) [OF Some m [symmetric] refl refl refl True] s show ?thesis
        by (auto simp: rx_replace_from.simps [of r out just b s] Some m)
    next
      case False
      show ?thesis
      proof (cases s')
        case Nil
        with s False show ?thesis by (auto simp: rx_replace_from.simps [of r out just b s] Some m)
      next
        case (Cons c s'')
        with "1.IH"(2) [OF Some m [symmetric] refl refl refl False Cons] s False show ?thesis
          by (auto simp: rx_replace_from.simps [of r out just b s] Some m)
      qed
    qed
  qed
qed

lemma deletion_set: "set (rx_replace r (\<lambda>cs. []) s) \<subseteq> set s"
  unfolding rx_replace_def using replace_from_set [of r "\<lambda>cs. []"] by auto

lemma rx_find_None: "rx_find r b s = None \<longleftrightarrow> (\<forall>u t. s = u @ t \<longrightarrow> rx_m r (rev u @ b, t, []) = [])"
proof (induction s arbitrary: b)
  case Nil
  then show ?case by (auto simp: rx_find.simps [of r b "[]"] split: list.splits)
next
  case (Cons c s)
  have "(\<forall>u t. c # s = u @ t \<longrightarrow> rx_m r (rev u @ b, t, []) = []) \<longleftrightarrow>
    rx_m r (b, c # s, []) = [] \<and> (\<forall>u t. s = u @ t \<longrightarrow> rx_m r (rev u @ c # b, t, []) = [])"
    (is "?all \<longleftrightarrow> ?now \<and> ?later")
  proof (intro iffI conjI allI impI)
    assume a: ?all
    show ?now using a [rule_format, of "[]"] by simp
    show "rx_m r (rev u @ c # b, t, []) = []" if "s = u @ t" for u t
      using a [rule_format, of "c # u"] that by simp
  next
    fix u t assume "?now \<and> ?later" "c # s = u @ t"
    then show "rx_m r (rev u @ b, t, []) = []" by (cases u) auto
  qed
  with Cons show ?case by (auto simp: rx_find.simps [of r b "c # s"] split: list.splits)
qed

lemma replace_unmatched: "rx_find r [] s = None \<Longrightarrow> rx_replace r out s = s"
  by (simp add: rx_replace_def rx_replace_from.simps [of r out False "[]" s])

lemma run_lit: "rx_run (rx_lit cs) st st' \<Longrightarrow> consumes st cs st'"
proof (induction cs arbitrary: st)
  case Nil
  then show ?case by (simp add: rx_lit_def consumes_def)
next
  case (Cons c cs)
  from Cons.prems obtain st1 where s: "rx_run (one_of [c]) st st1" "rx_run (rx_lit cs) st1 st'"
    by (simp add: rx_lit_def) blast
  from s(1) have "consumes st [c] st1" by (auto simp: consumes_def rest_of_def cls_has_def)
  from consumes_trans [OF this Cons.IH [OF s(2)]] show ?case by simp
qed

lemma lit_unmatched:
  assumes "\<not> set cs \<subseteq> set s"
  shows "rx_find (rx_lit cs) [] s = None"
proof (rule ccontr)
  assume "rx_find (rx_lit cs) [] s \<noteq> None"
  then obtain skipped st st' where "rx_find (rx_lit cs) [] s = Some (skipped, st, st')" by auto
  from rx_find_Some [OF this] run_lit [of cs st st'] assms show False by (auto simp: consumes_def)
qed

subsection \<open>The names of the months stay\<close>

theorem month_names_stay: "8 \<notin> set name \<Longrightarrow> drop_months name = name"
proof -
  assume n: "8 \<notin> set name"
  have "rx_replace (monthRx m) (\<lambda>cs. []) name = name" for m
    unfolding monthRx_def by (rule replace_unmatched, rule lit_unmatched) (use n in auto)
  then have "fold (\<lambda>month n. rx_replace (monthRx month) (\<lambda>cs. []) n) ms name = name" for ms
    by (induction ms) auto
  then show ?thesis by (simp add: drop_months_def)
qed

subsection \<open>The loop that cuts\<close>

lemma cut_loop_fixed:
  "(name = oldName \<longrightarrow> cut_pass name = name) \<Longrightarrow> cut_pass (cut_loop name oldName) = cut_loop name oldName"
proof (induction name oldName rule: cut_loop.induct)
  case (1 name oldName)
  then show ?case by (subst (1 2) cut_loop.simps) auto
qed

theorem cutting_ends_clean:
  "rune_trim (cut_loop title []) (asc '' .,'') = cut_loop title []
   \<and> (\<forall>r\<in>set cutting_rxs. rx_find r [] (cut_loop title []) = None)"
proof -
  let ?n = "cut_loop title []"
  have "cut_pass [] = []" using cut_pass_length [of "[]"] by simp
  then have "cut_pass ?n = ?n" by (intro cut_loop_fixed) simp
  then have "\<forall>r\<in>set cutting_rxs. cut_with r ?n = ?n" using cut_pass_length [of ?n] by auto
  then have "\<forall>r\<in>set cutting_rxs. rune_trim ?n (asc '' .,'') = ?n \<and> rx_find r [] ?n = None"
    using cut_with_length by fastforce
  moreover have "squareBracesRx \<in> set cutting_rxs" by (simp add: cutting_rxs_def)
  ultimately show ?thesis by blast
qed

subsection \<open>A run of a class, replaced\<close>

lemma greedy_class_first:
  "length s \<le> n \<Longrightarrow> \<exists>more. many_loop True (step_class neg rs) n (b, s, cs)
    = (rev (takeWhile (cls_has neg rs) s) @ b, dropWhile (cls_has neg rs) s, cs) # more"
proof (induction n arbitrary: b s)
  case 0
  then show ?case by simp
next
  case (Suc n)
  show ?case
  proof (cases s)
    case Nil
    then show ?thesis by (simp add: Let_def)
  next
    case (Cons c t)
    with Suc.prems Suc.IH [of t "c # b"] show ?thesis by (auto simp: Let_def rest_of_def)
  qed
qed

lemma plus_class_first:
  "rx_m (rx_plus (Cls neg rs)) (b, [], cs) = []"
  "\<not> cls_has neg rs c \<Longrightarrow> rx_m (rx_plus (Cls neg rs)) (b, c # s, cs) = []"
  "cls_has neg rs c \<Longrightarrow> \<exists>more. rx_m (rx_plus (Cls neg rs)) (b, c # s, cs)
     = (rev (takeWhile (cls_has neg rs) s) @ c # b, dropWhile (cls_has neg rs) s, cs) # more"
proof -
  have m: "rx_m (Cls neg rs) = step_class neg rs" by (rule ext) simp
  show "rx_m (rx_plus (Cls neg rs)) (b, [], cs) = []"
    "\<not> cls_has neg rs c \<Longrightarrow> rx_m (rx_plus (Cls neg rs)) (b, c # s, cs) = []"
    "cls_has neg rs c \<Longrightarrow> \<exists>more. rx_m (rx_plus (Cls neg rs)) (b, c # s, cs)
     = (rev (takeWhile (cls_has neg rs) s) @ c # b, dropWhile (cls_has neg rs) s, cs) # more"
    using greedy_class_first [of s "length s" neg rs "c # b" cs]
    by (simp_all add: rx_plus_def rest_of_def m)
qed

lemma replace_skip:
  "rx_m r (b, c # s, []) = [] \<Longrightarrow>
    rx_replace_from r out just b (c # s) = c # rx_replace_from r out False (c # b) s"
  unfolding rx_replace_from.simps [of r out just b "c # s"] rx_replace_from.simps [of r out False "c # b" s]
  by (auto simp: rx_find.simps [of r b "c # s"] split: option.splits)

function collapse_runs :: "(rune \<Rightarrow> bool) \<Rightarrow> rune list \<Rightarrow> rune list \<Rightarrow> rune list" where
  "collapse_runs P w [] = []"
| "collapse_runs P w (c # cs) =
     (if P c then w @ collapse_runs P w (dropWhile P cs) else c # collapse_runs P w cs)"
  by pat_completeness auto

termination collapse_runs
  by (relation "measure (\<lambda>(P, w, s). length s)") (auto simp: less_Suc_eq_le length_dropWhile_le)

lemma replace_runs:
  "rx_replace_from (rx_plus (Cls neg rs)) (\<lambda>cs. w) just b s = collapse_runs (cls_has neg rs) w s"
proof (induction "cls_has neg rs" w s arbitrary: just b rule: collapse_runs.induct)
  case (1 w)
  then show ?case
    by (simp add: rx_replace_from.simps [of _ _ _ _ "[]"] rx_find.simps [of _ _ "[]"] plus_class_first)
next
  case (2 w c cs)
  show ?case
  proof (cases "cls_has neg rs c")
    case True
    from plus_class_first(3) [OF True, of b cs "[]"] obtain more where
      m: "rx_m (rx_plus (Cls neg rs)) (b, c # cs, [])
        = (rev (takeWhile (cls_has neg rs) cs) @ c # b, dropWhile (cls_has neg rs) cs, []) # more" by blast
    show ?thesis
      using 2(1) [OF True] True length_dropWhile_le [of "cls_has neg rs" cs]
      by (simp add: rx_replace_from.simps [of _ _ _ _ "c # cs"] rx_find.simps [of _ _ "c # cs"] m rest_of_def
          less_Suc_eq_le)
  next
    case False
    from 2(2) [OF False] False show ?thesis by (simp add: replace_skip plus_class_first(2))
  qed
qed

subsection \<open>The alphabet of a fingerprint\<close>

definition blank_rune :: "rune \<Rightarrow> bool" where
  "blank_rune c \<longleftrightarrow> c \<in> {9, 10, 12, 13, 32}"

lemma spaces2_collapses: "rx_replace spaces2Rx (\<lambda>cs. [32]) s = collapse_runs blank_rune [32] s"
proof -
  have "cls_has False (map (\<lambda>c. (c, c)) [9, 10, 12, 13, 32]) = blank_rune"
    by (rule ext) (auto simp: cls_has_def blank_rune_def)
  with replace_runs [of False "map (\<lambda>c. (c, c)) [9, 10, 12, 13, 32]" "[32]" False "[]" s] show ?thesis
    unfolding rx_replace_def spaces2Rx_def rx_blank_def by simp
qed

definition single_spaced :: "rune list \<Rightarrow> bool" where
  "single_spaced s \<longleftrightarrow> successively (\<lambda>a b. \<not> (a = 32 \<and> b = 32)) s"

lemma collapse_runs_spaces:
  "set (collapse_runs blank_rune [32] s) \<subseteq> (set s - Collect blank_rune) \<union> {32}
   \<and> single_spaced (collapse_runs blank_rune [32] s)
   \<and> (collapse_runs blank_rune [32] s \<noteq> [] \<longrightarrow> hd (collapse_runs blank_rune [32] s) = 32 \<longrightarrow> blank_rune (hd s))"
proof (induction blank_rune "[32 :: rune]" s rule: collapse_runs.induct)
  case 1
  then show ?case by (simp add: single_spaced_def)
next
  case (2 c cs)
  show ?case
  proof (cases "blank_rune c")
    case True
    have h: "dropWhile blank_rune cs \<noteq> [] \<Longrightarrow> \<not> blank_rune (hd (dropWhile blank_rune cs))"
      by (rule hd_dropWhile)
    have e: "collapse_runs blank_rune [32] (dropWhile blank_rune cs) = [] \<or> dropWhile blank_rune cs \<noteq> []"
      by (cases "dropWhile blank_rune cs = []") (simp_all only: collapse_runs.simps simp_thms)
    from 2(1) [OF True] h e True show ?thesis
      by (auto simp: single_spaced_def successively_Cons dest: set_dropWhileD)
  next
    case False
    from 2(2) [OF False] False show ?thesis
      by (auto simp: single_spaced_def successively_Cons blank_rune_def)
  qed
qed

lemma bad_loop_set: "set (bad_loop s) \<subseteq> set s"
proof (induction s rule: bad_loop.induct)
  case (1 name)
  have "set (bad_step name) \<subseteq> set name" unfolding bad_step_def by (rule deletion_set)
  with 1 show ?case by (subst bad_loop.simps) (auto simp: Let_def)
qed

definition fingerprint_chars :: "rune list" where
  "fingerprint_chars = [97..122] @ [1072..1103] @ [1105, 32] @ [49..57] @ asc ''+-_:!,''"

text \<open>What the steps after the filter do: the abbreviation of a year and the months are never found.\<close>

definition fingerprint_words :: "(rune \<Rightarrow> rune) \<Rightarrow> rune list \<Rightarrow> rune list" where
  "fingerprint_words lower name =
    filter (\<lambda>c. c \<in> set fingerprint_chars) (map (\<lambda>c. if c = 46 then 32 else c)
      (rx_replace cyrilicRx (group_of 1) (rx_replace arrowsRx (group_of 1)
        (rx_replace categoriesRx (\<lambda>cs. []) (map lower name)))))"

lemma asc_chars: "set (asc ''+-_:!,'') = {43, 45, 95, 58, 33, 44}"
  by (simp add: asc_def insert_commute)

lemma allowed_is: "set allowed_chars = insert 46 (set fingerprint_chars)"
  unfolding allowed_chars_def fingerprint_chars_def asc_def by (simp add: insert_commute Un_commute)

lemma fingerprint_tail_words:
  "fingerprint_tail lower name = collapse_runs blank_rune [32] (bad_loop (fingerprint_words lower name))"
proof -
  let ?w = "fingerprint_words lower name"
  define n where "n = rx_replace cyrilicRx (group_of 1) (rx_replace arrowsRx (group_of 1)
    (rx_replace categoriesRx (\<lambda>cs. []) (map lower name)))"
  have n8: "8 \<notin> set fingerprint_chars" "46 \<notin> set fingerprint_chars" "32 \<in> set fingerprint_chars"
    by (simp_all add: fingerprint_chars_def asc_chars)
  have f: "filter (\<lambda>c. c \<in> set allowed_chars) (map (\<lambda>c. if c = 46 then 32 else c) n) = ?w"
    unfolding fingerprint_words_def n_def [symmetric]
    by (rule filter_cong [OF refl]) (auto simp: allowed_is)
  have w: "set ?w \<subseteq> set fingerprint_chars" by (auto simp: fingerprint_words_def)
  have y: "rune_replace_all ?w [1075, 46] [] = ?w"
    unfolding rune_replace_all_def by (rule replace_unmatched, rule lit_unmatched) (use w n8 in auto)
  have m: "drop_months (bad_loop ?w) = bad_loop ?w"
    using bad_loop_set [of ?w] w n8 month_names_stay by blast
  show ?thesis
    unfolding fingerprint_tail_def Let_def n_def [symmetric] f y m by (rule spaces2_collapses)
qed

text \<open>C37: The fingerprint of any title, whatever the tables of entities and lower case hold, is made of the small
  letters of the Latin and the Russian alphabet, the digits from 1 to 9, blanks and the marks plus, minus,
  underscore, colon, exclamation mark and comma, and no two blanks follow each other.\<close>

theorem fingerprint_alphabet:
  "set (getResultFingerprint unescape lower title) \<subseteq> set fingerprint_chars
   \<and> single_spaced (getResultFingerprint unescape lower title)"
proof -
  define w where "w = bad_loop (fingerprint_words lower (fingerprint_head unescape title))"
  have "set w \<subseteq> set fingerprint_chars"
    unfolding w_def using bad_loop_set by (fastforce simp: fingerprint_words_def)
  moreover have "32 \<in> set fingerprint_chars" by (simp add: fingerprint_chars_def)
  ultimately show ?thesis
    unfolding getResultFingerprint_def fingerprint_tail_words w_def [symmetric]
    using collapse_runs_spaces [of w] by blast
qed

subsection \<open>A remark in brackets\<close>

lemma run_many_class: "rx_run (Many g (Cls neg rs)) st st' \<Longrightarrow> \<exists>t. consumes st t st' \<and> list_all (cls_has neg rs) t"
proof (induction "Many g (Cls neg rs)" st st' rule: rx_run.induct)
  case (run_stop st)
  show ?case by (intro exI [of _ "[]"]) (simp add: consumes_def)
next
  case (run_more st st1 st2)
  then obtain t where t: "consumes st1 t st2" "list_all (cls_has neg rs) t" by blast
  from run_more.hyps(1) obtain c where "consumes st [c] st1" "cls_has neg rs c"
    by (auto simp: consumes_def rest_of_def)
  with t consumes_trans [of st "[c]" st1 t st2] show ?case by (intro exI [of _ "c # t"]) simp
qed

lemma run_bracketed:
  assumes "rx_run (bracketed l r) st st'"
  shows "\<exists>m. consumes st (l # m @ [r]) st' \<and> l \<notin> set m \<and> r \<notin> set m"
proof -
  let ?in = "Cls True [(l, l), (r, r)]"
  from assms obtain s1 s2 s3 where s: "rx_run (one_of [l]) st s1" "rx_run ?in s1 s2"
      "rx_run (Many False ?in) s2 s3" "rx_run (one_of [r]) s3 st'"
    unfolding bracketed_def rx_seq_def rx_plus_lazy_def by (simp del: run_simps(1)) blast
  from run_many_class [OF s(3)] obtain t where t: "consumes s2 t s3" "list_all (cls_has True [(l, l), (r, r)]) t"
    by blast
  from s(2) obtain c where c: "consumes s1 [c] s2" "cls_has True [(l, l), (r, r)] c"
    by (auto simp: consumes_def rest_of_def)
  have "consumes st [l] s1" "consumes s3 [r] st'"
    using s(1,4) by (auto simp: consumes_def rest_of_def cls_has_def)
  with c(1) t(1) have "consumes st (l # (c # t) @ [r]) st'"
    by (auto simp: consumes_def)
  moreover have "l \<notin> set (c # t) \<and> r \<notin> set (c # t)" using c(2) t(2) by (auto simp: cls_has_def list_all_iff)
  ultimately show ?thesis by blast
qed

lemma many_class_run:
  "list_all (cls_has neg rs) t \<Longrightarrow> rx_run (Many g (Cls neg rs)) (b, t @ s, cs) (rev t @ b, s, cs)"
proof (induction t arbitrary: b)
  case Nil
  then show ?case by (simp add: run_stop)
next
  case (Cons c t)
  have c: "rx_run (Cls neg rs) (b, c # t @ s, cs) (c # b, t @ s, cs)" using Cons.prems by (simp add: run_class)
  have l: "length (rest_of (c # b, t @ s, cs)) < length (rest_of (b, c # t @ s, cs))" by (simp add: rest_of_def)
  have "rx_run (Many g (Cls neg rs)) (c # b, t @ s, cs) (rev t @ c # b, s, cs)"
    using Cons.IH [of "c # b"] Cons.prems by simp
  from run_more [OF c l this] show ?case by simp
qed

lemma plus_class_run:
  assumes "list_all (cls_has neg rs) t" "t \<noteq> []"
  shows "rx_run (rx_plus (Cls neg rs)) (b, t @ s, cs) (rev t @ b, s, cs)"
    and "rx_run (rx_plus_lazy (Cls neg rs)) (b, t @ s, cs) (rev t @ b, s, cs)"
proof -
  obtain c u where t: "t = c # u" using assms(2) by (cases t) auto
  have "rx_run (Seq (Cls neg rs) (Many g (Cls neg rs))) (b, t @ s, cs) (rev t @ b, s, cs)" for g
    using assms(1) many_class_run [of neg rs u g "c # b" s cs]
    by (intro run_seq [of _ _ "(c # b, u @ s, cs)"]) (simp_all add: t)
  then show "rx_run (rx_plus (Cls neg rs)) (b, t @ s, cs) (rev t @ b, s, cs)"
    "rx_run (rx_plus_lazy (Cls neg rs)) (b, t @ s, cs) (rev t @ b, s, cs)"
    by (simp_all add: rx_plus_def rx_plus_lazy_def)
qed

text \<open>A pattern of the loop matches the whole text or nothing.\<close>

lemma cut_replace:
  assumes "rx_run (cut_rx kept remark tail) ([], s, []) st" "no_groups kept" "no_groups remark" "no_groups tail"
    and "\<And>st'. rx_run (cut_rx kept remark tail) ([], s, []) st' \<Longrightarrow> out (snd (snd st')) = w"
    and "0 < min_len remark"
  shows "rx_replace (cut_rx kept remark tail) out s = w"
proof -
  let ?r = "cut_rx kept remark tail"
  obtain st' more where m: "rx_m ?r ([], s, []) = st' # more"
    using assms(1) matches_are_runs [of st ?r "([], s, [])"] by (cases "rx_m ?r ([], s, [])") auto
  then have r: "rx_run ?r ([], s, []) st'" using matches_are_runs [of st' ?r "([], s, [])"] by simp
  from run_cut [OF r assms(2-4)] obtain k d t where
    c: "consumes ([], s, []) (k @ d @ t) st'" "min_len remark \<le> length d" "rest_of st' = []"
    by (metis snd_conv)
  obtain b' cs where st': "st' = (b', [], cs)" using c(3) by (cases st') (auto simp: rest_of_def)
  have b: "b' \<noteq> []" "s \<noteq> []" using c(1,2) assms(6) by (auto simp: consumes_def st' rest_of_def)
  have "rx_m ?r (b', [], []) = []"
    using b(1) matches_are_runs [of _ ?r "(b', [], [])"] run_cut [OF _ assms(2-4), of "(b', [], [])"]
    by (metis fst_conv list.set_intros(1) neq_Nil_conv snd_conv)
  then have "rx_replace_from ?r out True b' [] = []"
    by (simp add: rx_replace_from.simps [of _ _ _ _ "[]"] rx_find.simps [of _ _ "[]"])
  with b(2) assms(5) [OF r] show ?thesis
    unfolding rx_replace_def
    by (simp add: rx_replace_from.simps [of _ _ _ "[]" s] rx_find.simps [of _ "[]" s] m st' rest_of_def)
qed

definition ends_kept :: "rune list \<Rightarrow> bool" where
  "ends_kept s \<longleftrightarrow> s \<noteq> [] \<and> hd s \<notin> {32, 46, 44} \<and> last s \<notin> {32, 46, 44}"

lemma trim_set: "set (asc '' .,'') = {32, 46, 44}"
  by (simp add: asc_def)

lemma dropWhile_kept: "s \<noteq> [] \<Longrightarrow> \<not> P (hd s) \<Longrightarrow> dropWhile P s = s"
  by (cases s) auto

lemma rune_trim_kept: "ends_kept s \<Longrightarrow> rune_trim s (asc '' .,'') = s"
  unfolding ends_kept_def rune_trim_def trim_set by (simp add: dropWhile_kept hd_rev)

lemma rune_trim_blank: "ends_kept s \<Longrightarrow> rune_trim (s @ [32]) (asc '' .,'') = s"
  unfolding ends_kept_def rune_trim_def trim_set by (simp add: dropWhile_kept hd_rev)

text \<open>What a remark in brackets is to \<open>squareBracesRx\<close>: the one match keeps what is before it.\<close>

lemma bracket_occurs_once:
  assumes "x @ 32 # 91 # y @ [93] = (k :: rune list) @ (91 # m @ [93]) @ t" "91 \<notin> set x" "91 \<notin> set y" "93 \<notin> set y" "93 \<notin> set m"
  shows "k = x @ [32] \<and> t = []"
proof -
  have "(x @ [32]) @ 91 # (y @ [93]) = k @ 91 # (m @ [93] @ t)" using assms(1) by simp
  moreover have n: "91 \<notin> set (x @ [32])" "91 \<notin> set (y @ [93])" using assms(2,3) by auto
  ultimately have e: "x @ [32] = k \<and> y @ [93] = m @ [93] @ t"
    by (subst (asm) append_Cons_eq_iff) auto
  then have "y @ 93 # [] = m @ 93 # t" by simp
  then have "y = m \<and> t = []" using assms(4,5) by (subst (asm) append_Cons_eq_iff) auto
  with e show ?thesis by simp
qed

abbreviation square_kept :: rx where
  "square_kept \<equiv> Seq (rx_plus rx_dot) (Alt (rx_plus rx_blank) (one_of [41]))"

lemma square_no_groups: "no_groups square_kept" "no_groups (bracketed l r)" "no_groups (Many True rx_dot)"
  by (simp_all add: rx_dot_def rx_blank_def bracketed_def)

lemma square_remark_match:
  assumes "x \<noteq> []" "10 \<notin> set x" "y \<noteq> []" "91 \<notin> set y" "93 \<notin> set y"
  shows "\<exists>st. rx_run squareBracesRx ([], x @ 32 # 91 # y @ [93], []) st"
proof -
  let ?s = "x @ 32 # 91 # y @ [93]"
  let ?st1 = "(rev x, 32 # 91 # y @ [93], [] :: (nat \<times> rune list) list)"
  let ?st2 = "(32 # rev x, 91 # y @ [93], [] :: (nat \<times> rune list) list)"
  let ?st3 = "(93 # rev y @ 91 # 32 # rev x, [] :: rune list, [(1 :: nat, x @ [32])])"
  have "rx_run (rx_plus rx_dot) ([], ?s, []) ?st1"
    using plus_class_run(1) [OF _ assms(1), of True "[(10, 10)]" "[]" "32 # 91 # y @ [93]" "[]"] assms(2)
    by (auto simp: rx_dot_def cls_has_def list_all_iff)
  moreover have "rx_run (Alt (rx_plus rx_blank) (one_of [41])) ?st1 ?st2"
    using plus_class_run(1) [of False "map (\<lambda>c. (c, c)) [9, 10, 12, 13, 32]" "[32]" "rev x" "91 # y @ [93]" "[]"]
    by (simp add: rx_blank_def cls_has_def del: run_simps(3))
  ultimately have "rx_run square_kept ([], ?s, []) ?st2" by (rule run_seq)
  from run_group [OF this, of 1] have k: "rx_run (Grp 1 square_kept) ([], ?s, [])
      (32 # rev x, 91 # y @ [93], [(1, x @ [32])])"
    by (simp add: close_group_def del: run_simps)
  have "rx_run (rx_plus_lazy (Cls True [(91, 91), (93, 93)])) (91 # 32 # rev x, y @ [93], [(1, x @ [32])])
      (rev y @ 91 # 32 # rev x, [93], [(1, x @ [32])])"
    using plus_class_run(2) [OF _ assms(3), of True "[(91, 91), (93, 93)]"] assms(4,5)
    by (auto simp: cls_has_def list_all_iff)
  then have "rx_run (bracketed 91 93) (32 # rev x, 91 # y @ [93], [(1, x @ [32])]) ?st3"
    unfolding bracketed_def rx_seq_def by (auto simp: cls_has_def)
  moreover have "rx_run (Seq (Grp 2 (Many True rx_dot)) Eot) ?st3 (close_group 2 ?st3 ?st3)"
    by (rule run_seq [OF run_group [OF run_stop] run_eot]) (simp add: close_group_def rest_of_def)
  ultimately have "rx_run (Seq (bracketed 91 93) (Seq (Grp 2 (Many True rx_dot)) Eot))
      (32 # rev x, 91 # y @ [93], [(1, x @ [32])]) (close_group 2 ?st3 ?st3)"
    by (rule run_seq)
  then have "rx_run squareBracesRx ([], ?s, []) (close_group 2 ?st3 ?st3)"
    unfolding squareBracesRx_def cut_rx_def by (rule run_seq [OF run_bot run_seq [OF k], rotated]) simp
  then show ?thesis by blast
qed

lemma square_remark_cut:
  assumes "ends_kept x" "10 \<notin> set x" "91 \<notin> set x" "y \<noteq> []" "91 \<notin> set y" "93 \<notin> set y"
  shows "cut_with squareBracesRx (x @ 32 # 91 # y @ [93]) = x @ [32]"
proof -
  let ?s = "x @ 32 # 91 # y @ [93]"
  have "ends_kept ?s" using assms(1) by (simp add: ends_kept_def)
  then have t: "rune_trim ?s (asc '' .,'') = ?s" by (rule rune_trim_kept)
  obtain st where "rx_run squareBracesRx ([], ?s, []) st"
    using square_remark_match [of x y] assms by (auto simp: ends_kept_def)
  then show ?thesis
    unfolding cut_with_def t unfolding squareBracesRx_def
  proof (rule cut_replace)
    fix st' assume "rx_run (cut_rx square_kept (bracketed 91 93) (Many True rx_dot)) ([], ?s, []) st'"
    from run_cut [OF this square_no_groups] obtain k d t s1 s2 where
        c: "consumes ([], ?s, []) (k @ d @ t) st'" "rest_of st' = []"
        "group_of 1 (snd (snd st')) = k" "group_of 2 (snd (snd st')) = t"
        "rx_run (bracketed 91 93) s1 s2" "consumes s1 d s2"
      by (metis snd_conv)
    from run_bracketed [OF c(5)] obtain m where m: "consumes s1 (91 # m @ [93]) s2" "93 \<notin> set m" by blast
    from m(1) c(6) have d: "d = 91 # m @ [93]" by (auto simp: consumes_def)
    from c(1,2) have "?s = k @ d @ t" by (simp add: consumes_def rest_of_def)
    from bracket_occurs_once [OF this [unfolded d] assms(3,5,6) m(2)] c(3,4)
    show "group_of 1 (snd (snd st')) @ group_of 2 (snd (snd st')) = x @ [32]" by simp
  qed (rule square_no_groups | simp add: bracketed_def)+
qed

lemma square_unmatched:
  assumes "91 \<notin> set x"
  shows "rx_find squareBracesRx [] x = None"
proof (rule ccontr)
  assume "rx_find squareBracesRx [] x \<noteq> None"
  then obtain p st st' where "rx_find squareBracesRx [] x = Some (p, st, st')" by auto
  note f = rx_find_Some [OF this]
  then have "rx_run (cut_rx square_kept (bracketed 91 93) (Many True rx_dot)) st st'"
    by (simp add: squareBracesRx_def)
  from run_cut [OF this square_no_groups] f obtain k d t s1 s2 where c: "consumes st (k @ d @ t) st'"
      "rx_run (bracketed 91 93) s1 s2" "consumes s1 d s2"
    by metis
  from run_bracketed [OF c(2)] c(3) have "91 \<in> set d" by (auto simp: consumes_def)
  with c(1) f assms show False by (auto simp: consumes_def)
qed

lemma cut_pass_remark:
  assumes "ends_kept x" "10 \<notin> set x" "91 \<notin> set x" "y \<noteq> []" "91 \<notin> set y" "93 \<notin> set y"
  shows "cut_pass (x @ 32 # 91 # y @ [93]) = cut_pass x"
proof -
  have "cut_with precedingSquareBracesRx (x @ [32]) = cut_with precedingSquareBracesRx x"
    using assms(1) by (simp add: cut_with_def rune_trim_blank rune_trim_kept)
  moreover have "cut_with squareBracesRx x = x"
    using assms(1,3) by (simp add: cut_with_def rune_trim_kept square_unmatched replace_unmatched)
  ultimately show ?thesis using square_remark_cut [OF assms] by (simp add: cut_pass_def cutting_rxs_def)
qed

text \<open>C38: A remark in square brackets at the end of a title makes no difference to what the loop leaves of it,
  when the title has no bracket and no line break and does not begin or end with a blank, point or comma.\<close>

theorem remark_in_brackets_ignored:
  assumes "ends_kept x" "10 \<notin> set x" "91 \<notin> set x" "y \<noteq> []" "91 \<notin> set y" "93 \<notin> set y"
  shows "cut_loop (x @ 32 # 91 # y @ [93]) [] = cut_loop x []"
proof -
  let ?s = "x @ 32 # 91 # y @ [93]"
  have l: "length (cut_pass x) \<le> length x" using cut_pass_length [of x] by auto
  then have n: "cut_pass x \<noteq> ?s" by (metis add_Suc_right length_Cons length_append not_add_less1 not_less le_imp_less_Suc)
  have "cut_loop ?s [] = cut_loop (cut_pass x) ?s"
    using cut_pass_remark [OF assms] by (simp add: cut_loop.simps [of ?s "[]"])
  also have "\<dots> = cut_loop (cut_pass (cut_pass x)) (cut_pass x)" using n by (simp add: cut_loop.simps [of "cut_pass x" ?s])
  also have "\<dots> = cut_loop (cut_pass x) x"
    by (cases "cut_pass x = x") (simp_all add: cut_loop.simps [of "cut_pass x" x])
  also have "\<dots> = cut_loop x []" using assms(1) by (simp add: cut_loop.simps [of x "[]"] ends_kept_def)
  finally show ?thesis .
qed

theorem remark_in_brackets_ignored_witness:
  "cut_loop (asc ''Show [720p]'') [] = cut_loop (asc ''Show'') []"
  using remark_in_brackets_ignored [of "asc ''Show''" "asc ''720p''"] by (simp add: asc_def ends_kept_def)

subsection \<open>Titles that are taken for one\<close>

text \<open>\<open>unicode.ToLower\<close> on the letters of ASCII, for the titles below.\<close>

definition ascii_lower :: "rune \<Rightarrow> rune" where
  "ascii_lower c = (if 65 \<le> c \<and> c \<le> 90 then c + 32 else c)"

text \<open>A number after a point is cut off and a zero dropped; a keyword takes the spaces around it with it.\<close>

lemma versions_taken_for_one:
  "getResultFingerprint id ascii_lower (asc ''Ubuntu 20.04'') = asc ''ubuntu 2 ''"
  "getResultFingerprint id ascii_lower (asc ''Ubuntu 20.10'') = asc ''ubuntu 2 ''"
  by code_simp+

lemma keyword_joins_words: "getResultFingerprint id ascii_lower (asc ''Ab satrip cd'') = asc ''abcd''"
  by code_simp

end
