(* ===== verification/DefinitionBlocks.thy ===== *)
theory DefinitionBlocks
  imports IndexLoaders KeyedStorage
begin

text \<open>
  How the blocks of a definition are read (the \<open>UnmarshalYAML\<close> methods of
  \<open>indexer/indexDefinitionParsing.go\<close>), and the storage of an index: the entity a search returns, its key
  (\<open>getSearchEntity\<close>, \<open>indexer/entities.go\<close>) and the database built for it (\<open>getIndexDatabase\<close> of
  \<open>indexer/runner.go\<close>, the table of \<open>storage/builder.go\<close>). What the YAML decoder makes of a node \<open>'n\<close> as a
  type of Go is a parameter, \<open>None\<close> for its error; the blocks are what the methods make of that.
\<close>

subsection \<open>The decoder\<close>

text \<open>A selector block comes with whether it has a filter configuration, which may be an empty map.\<close>

record 'n yaml_decoder =
  yString :: "'n \<Rightarrow> string option"
  yStrings :: "'n \<Rightarrow> string list option"
  yErrorBlock :: "'n \<Rightarrow> error_block option"
  yErrorBlocks :: "'n \<Rightarrow> error_block list option"
  yMapSlice :: "'n \<Rightarrow> ('n \<times> 'n) list option"
  yKeyString :: "'n \<Rightarrow> string option"
  yEncode :: "'n \<Rightarrow> string option"
  yDecodeSelector :: "string \<Rightarrow> (selector_block \<times> bool) option"
  ySelector :: "'n \<Rightarrow> selector_block option"
  yRowsRest :: "'n \<Rightarrow> (int \<times> string \<times> selector_block) option"
  yRatioRest :: "'n \<Rightarrow> string option"
  yCaps :: "'n \<Rightarrow> ((string \<times> string) list \<times> (string \<times> string list) list) option"

definition first_ok :: "'a option \<Rightarrow> 'a option \<Rightarrow> string \<Rightarrow> (string, 'a) res" where
  "first_ok x y err = (case x of Some a \<Rightarrow> Ok a | None \<Rightarrow> of_error err y)"

definition stringorslice_unmarshal :: "'n yaml_decoder \<Rightarrow> 'n \<Rightarrow> (string, string list) res" where
  "stringorslice_unmarshal Y n =
     first_ok (map_option (\<lambda>s. [s]) (yString Y n)) (yStrings Y n) ''failed to unmarshal stringorslice''"

definition errorBlockOrSlice_unmarshal :: "'n yaml_decoder \<Rightarrow> 'n \<Rightarrow> (string, error_block list) res" where
  "errorBlockOrSlice_unmarshal Y n =
     first_ok (map_option (\<lambda>b. [b]) (yErrorBlock Y n)) (yErrorBlocks Y n) ''failed to unmarshal errorBlockOrSlice''"

definition defaultFilterConfig :: "(string \<times> string) list" where
  "defaultFilterConfig = [(''striprussian'', ''true'')]"

text \<open>One field: its block is written out and read again. A key that is not a text panics, after its block was
  read.\<close>

definition field_unmarshal :: "'n yaml_decoder \<Rightarrow> 'n \<times> 'n \<Rightarrow> (string, field_block) res" where
  "field_unmarshal Y item =
     bind_res (of_error ''cannot marshal'' (yEncode Y (snd item))) (\<lambda>b.
     bind_res (of_error ''cannot unmarshal'' (yDecodeSelector Y b)) (\<lambda>(sb, configured).
     bind_res (of_panic (yKeyString Y (fst item))) (\<lambda>key.
       Ok \<lparr>fbField = key,
           fbBlock = (if configured then sb else sb\<lparr>selFilterConfig := defaultFilterConfig\<rparr>)\<rparr>)))"

fun fields_loop :: "'n yaml_decoder \<Rightarrow> field_block list \<Rightarrow> ('n \<times> 'n) list \<Rightarrow> (string, field_block list) res" where
  "fields_loop Y f [] = Ok f"
| "fields_loop Y f (item # items) =
     bind_res (field_unmarshal Y item) (\<lambda>b. fields_loop Y (f @ [b]) items)"

definition fieldsList_unmarshal ::
    "'n yaml_decoder \<Rightarrow> field_block list \<Rightarrow> 'n \<Rightarrow> (string, field_block list) res" where
  "fieldsList_unmarshal Y f n =
     bind_res (of_error ''failed to unmarshal fieldsListBlock'' (yMapSlice Y n)) (fields_loop Y f)"

definition rowsBlock_unmarshal :: "'n yaml_decoder \<Rightarrow> 'n \<Rightarrow> (string, rows_block) res" where
  "rowsBlock_unmarshal Y n =
     bind_res (of_error ''failed to unmarshal rowsBlock'' (ySelector Y n)) (\<lambda>sb.
     bind_res (of_error ''failed to unmarshal rowsBlock'' (yRowsRest Y n)) (\<lambda>(after, remove, headers).
       Ok \<lparr>rowsSelector = sb, rowsAfter = after, rowsRemove = remove, dateHeaders = headers\<rparr>))"

text \<open>The selector of the ratio and its path.\<close>

definition ratioBlock_unmarshal :: "'n yaml_decoder \<Rightarrow> 'n \<Rightarrow> (string, selector_block \<times> string) res" where
  "ratioBlock_unmarshal Y n =
     bind_res (of_error ''failed to unmarshal ratioBlock'' (ySelector Y n)) (\<lambda>sb.
     bind_res (of_error ''failed to unmarshal ratioBlock'' (yRatioRest Y n)) (\<lambda>path. Ok (sb, path)))"

definition capabilitiesBlock_unmarshal ::
    "'n yaml_decoder \<Rightarrow> categories \<Rightarrow> 'n \<Rightarrow> (string, capabilities_block) res" where
  "capabilitiesBlock_unmarshal Y allCats n =
     (case yCaps Y n of
        None \<Rightarrow> Err ''failed to unmarshal capabilities block''
      | Some (cats, modes) \<Rightarrow> Ok (unmarshal_capabilities allCats cats modes))"

subsection \<open>The entity of a search and its key\<close>

text \<open>The fields reflection finds in a \<open>ScrapeResultItem\<close>: its own and those of the structs in it.\<close>

definition scrape_struct_fields :: "string list" where
  "scrape_struct_fields =
     [''Model'', ''ModelData'', ''ScrapeLocalData'', ''isNew'', ''isUpdate'', ''Indexer'',
      ''ID'', ''UUIDValue'', ''CreatedAt'', ''UpdatedAt'', ''DeletedAt'',
      ''LocalID'', ''Site'', ''Link'', ''SourceLink'', ''PublishDate'']"

definition localized_key :: "string \<Rightarrow> string" where
  "localized_key k = (if k \<in> set scrape_struct_fields then k else model_prefix @ k)"

definition getSearchEntity :: "index_definition \<Rightarrow> entityBlock" where
  "getSearchEntity def =
     \<lparr>entityName = ''search'', indexKey = map localized_key (searchKey (defSearch def))\<rparr>"

subsection \<open>The database of an index\<close>

text \<open>The other entries of the table of backings: Firestore with the two settings it asserts to be texts, where
  an error gives a nil backing, and the one that always panics.\<close>

definition resolve_firebase ::
    "string option \<Rightarrow> string option \<Rightarrow> (string \<Rightarrow> string \<Rightarrow> string \<Rightarrow> (string, 's) res) \<Rightarrow> 's builder
     \<Rightarrow> 's option option" where
  "resolve_firebase project credentials newFirestore b =
     (case (project, credentials) of
        (Some p, Some c) \<Rightarrow>
          (case newFirestore (namespace b) p c of Ok s \<Rightarrow> Some (Some s) | Err _ \<Rightarrow> Some None | Panic \<Rightarrow> None)
      | _ \<Rightarrow> None)"

definition resolve_sqlite :: "'s builder \<Rightarrow> 's option" where
  "resolve_sqlite b = None"

text \<open>\<open>cfg\<close> looks up a setting. The builder takes the endpoint from it and is then given it again.\<close>

definition getIndexDatabase ::
    "(string \<Rightarrow> string) \<Rightarrow> (string \<Rightarrow> ('s builder \<Rightarrow> 's option) option) \<Rightarrow> string \<Rightarrow> entityBlock option
     \<Rightarrow> (keyed \<times> 's) option" where
  "getIndexDatabase cfg resolver name entity =
     (let storageType = cfg ''storage''; dbEndpoint = cfg ''storageendpoint'';
          finish = (\<lambda>b. build resolver (withRecord True (withBacking storageType b)))
      in if storageType = [] \<or> dbEndpoint = [] then None
         else case withNamespace name (newBuilder (Some dbEndpoint)) of
           None \<Rightarrow> None
         | Some b \<Rightarrow>
             let b = withEndpoint dbEndpoint b
             in (case entity of
                   None \<Rightarrow> finish b
                 | Some e \<Rightarrow> (case entity_getKey e of None \<Rightarrow> None | Some k \<Rightarrow> finish (withPK (Some k) b))))"

definition runner_getStorage ::
    "(string \<Rightarrow> string) \<Rightarrow> (string \<Rightarrow> ('s builder \<Rightarrow> 's option) option) \<Rightarrow> index_definition \<Rightarrow> (keyed \<times> 's) option" where
  "runner_getStorage cfg resolver def = getIndexDatabase cfg resolver (defName def) (Some (getSearchEntity def))"

subsection \<open>The fields of a definition\<close>

lemma fields_loop_append:
  "fields_loop Y f items = map_res (\<lambda>fs. f @ fs) (fields_loop Y [] items)"
proof (induction items arbitrary: f)
  case Nil
  then show ?case by simp
next
  case (Cons item items)
  have m: "map_res g (map_res h x) = map_res (g \<circ> h) x" for g :: "field_block list \<Rightarrow> field_block list" and h
    and x :: "(string, field_block list) res"
    by (cases x) auto
  show ?case
  proof (cases "field_unmarshal Y item")
    case (Ok b)
    then show ?thesis using Cons.IH [of "f @ [b]"] Cons.IH [of "[b]"] by (simp add: m comp_def)
  qed simp_all
qed

text \<open>The fields are those of the document in its order, none lost and none merged; a field that cannot be read
  fails the whole list.\<close>

lemma fields_loop_Ok:
  "fields_loop Y [] items = Ok fs \<longleftrightarrow> list_all2 (\<lambda>item b. field_unmarshal Y item = Ok b) items fs"
proof (induction items arbitrary: fs)
  case Nil
  then show ?case by auto
next
  case (Cons item items)
  show ?case
  proof (cases "field_unmarshal Y item")
    case (Ok b)
    then have "fields_loop Y [] (item # items) = map_res (\<lambda>fs. [b] @ fs) (fields_loop Y [] items)"
      using fields_loop_append [of Y "[b]" items] by simp
    with Ok Cons.IH show ?thesis
      by (cases "fields_loop Y [] items") (auto simp: list_all2_Cons1)
  qed (auto simp: list_all2_Cons1)
qed

lemma field_unmarshal_Ok:
  "field_unmarshal Y (k, v) = Ok b \<longleftrightarrow>
    (\<exists>t sb configured. yEncode Y v = Some t \<and> yDecodeSelector Y t = Some (sb, configured)
      \<and> yKeyString Y k = Some (fbField b)
      \<and> fbBlock b = (if configured then sb else sb\<lparr>selFilterConfig := defaultFilterConfig\<rparr>))"
  by (cases b) (auto simp: field_unmarshal_def of_error_def of_panic_def split: option.splits)

theorem fields_in_order:
  "fieldsList_unmarshal Y [] n = Ok fs \<longleftrightarrow>
    (\<exists>items. yMapSlice Y n = Some items
      \<and> list_all2 (\<lambda>(k, v) b. \<exists>t sb configured. yEncode Y v = Some t \<and> yDecodeSelector Y t = Some (sb, configured)
          \<and> yKeyString Y k = Some (fbField b)
          \<and> fbBlock b = (if configured then sb else sb\<lparr>selFilterConfig := defaultFilterConfig\<rparr>)) items fs)"
proof -
  have "(\<lambda>item b. field_unmarshal Y item = Ok b) = (\<lambda>(k, v) b. \<exists>t sb configured. yEncode Y v = Some t
      \<and> yDecodeSelector Y t = Some (sb, configured) \<and> yKeyString Y k = Some (fbField b)
      \<and> fbBlock b = (if configured then sb else sb\<lparr>selFilterConfig := defaultFilterConfig\<rparr>))"
    by (intro ext, rename_tac item b, case_tac item) (simp only: field_unmarshal_Ok prod.case)
  then show ?thesis
    unfolding fieldsList_unmarshal_def of_error_def by (cases "yMapSlice Y n") (simp_all add: fields_loop_Ok)
qed

subsection \<open>The key of an index\<close>

lemma entity_key_loop_new:
  "entity_key_loop names \<lparr>keyFields = fs, fieldsCache = Some c\<rparr> =
    (let (fs', c') = fold add_field names (fs, c) in Some \<lparr>keyFields = fs', fieldsCache = Some c'\<rparr>)"
  by (induction names arbitrary: fs c) (auto simp: key_add_def add_field_def)

lemma entity_getKey_new: "entity_getKey b = Some (newKey (indexKey b))"
  using entity_key_loop_new [of "indexKey b" "[]" "{}"]
  by (simp add: entity_getKey_def newKey_def Let_def case_prod_unfold)

lemma struct_fields: "set scrape_struct_fields = fst ` set (scrape_fields i)"
  by (auto simp: scrape_struct_fields_def scrape_fields_def)

lemma prefixed_no_field: "map_of (scrape_fields i) (model_prefix @ k) = None"
  by (simp add: scrape_fields_def model_prefix_def)

lemma parsed_prefixed: "parsed_name (model_prefix @ k) = k"
  by (simp add: parsed_name_def model_prefix_def has_prefix_def)

theorem localized_key_reads:
  assumes "k \<notin> fst ` set (scrape_methods i)"
  shows "index_part (reflect_scrape i) (data_of i) (localized_key k) =
    (case map_of (scrape_fields i) k of
       Some v \<Rightarrow> serializeKeyValue v
     | None \<Rightarrow> (case map_of (data_of i) k of Some v \<Rightarrow> serializeKeyValue v | None \<Rightarrow> Some []))"
proof (cases "k \<in> set scrape_struct_fields")
  case True
  then have "map_of (scrape_fields i) k \<noteq> None" by (simp add: struct_fields [of i] map_of_eq_None_iff)
  with True show ?thesis by (auto simp: localized_key_def reflect_scrape_def)
next
  case False
  then have "map_of (scrape_fields i) k = None" by (simp add: struct_fields [of i] map_of_eq_None_iff)
  moreover have "map_of (scrape_methods i) k = None" using assms by (simp add: map_of_eq_None_iff)
  ultimately show ?thesis using False
    by (simp add: localized_key_def reflect_scrape_def prefixed_no_field parsed_prefixed split: option.splits)
qed

subsection \<open>The database of an index\<close>

definition index_builder :: "(string \<Rightarrow> string) \<Rightarrow> index_definition \<Rightarrow> 's builder" where
  "index_builder cfg def =
     \<lparr>backingType = cfg ''storage'',
      pkFields = Some (newKey (map localized_key (searchKey (defSearch def)))),
      endpoint = cfg ''storageendpoint'', namespace = defName def, backedBy = None, hasRecordType = True\<rparr>"

theorem database_of_index:
  "runner_getStorage cfg resolver def =
    (if cfg ''storage'' = [] \<or> cfg ''storageendpoint'' = [] \<or> defName def = [] then None
     else case resolver (cfg ''storage'') of None \<Rightarrow> None | Some open_backing \<Rightarrow>
       map_option (\<lambda>s. (\<lparr>primaryKey = newKey (map localized_key (searchKey (defSearch def))), indexKeys = empty_key\<rparr>, s))
         (open_backing (index_builder cfg def)))"
  by (simp add: runner_getStorage_def getIndexDatabase_def entity_getKey_new getSearchEntity_def withNamespace_def
      newBuilder_def withDefaultBacking_def withEndpoint_def withPK_def withBacking_def withRecord_def build_def
      index_builder_def Let_def split: option.split)

end
