(* ===== verification/PageDumps.thy ===== *)
theory PageDumps
  imports IndexLoaders
begin

text \<open>
  What is written to disk while pages are fetched: the dumps of requests and responses
  (\<open>indexer/source/requestDumping.go\<close>), the cache of pages (\<open>indexer/indexContentCache.go\<close>), the directories
  they and the definitions are in (\<open>config/config.go\<close>), and the transport and options of the fetcher
  (\<open>indexer/browsing.go\<close>). Files are a map from absolute paths to directories and texts, with the permission
  bits of the owner as the package \<open>os\<close> and Unix have them; the process owns the files.
\<close>

unbundle bit_operations_syntax

subsection \<open>Files and the package os\<close>

type_synonym fmode = "9 word"

datatype inode = Folder fmode | Plain fmode string

type_synonym files = "string list \<Rightarrow> inode option"

record process =
  isRoot :: bool
  umask :: fmode
  cwd :: "string list"

datatype stat = Found inode | NotExist | Denied

definition allowed :: "process \<Rightarrow> fmode \<Rightarrow> fmode \<Rightarrow> bool" where
  "allowed P bits m \<longleftrightarrow> isRoot P \<or> m AND bits = bits"

text \<open>Every directory on the way must be searchable (64 is the bit of the owner).\<close>

fun walk_path :: "process \<Rightarrow> files \<Rightarrow> string list \<Rightarrow> string list \<Rightarrow> stat" where
  "walk_path P fs seen [] = (case fs seen of None \<Rightarrow> NotExist | Some n \<Rightarrow> Found n)"
| "walk_path P fs seen (c # cs) = (case fs seen of
     None \<Rightarrow> NotExist
   | Some (Plain m t) \<Rightarrow> Denied
   | Some (Folder m) \<Rightarrow> if allowed P 64 m then walk_path P fs (seen @ [c]) cs else Denied)"

definition os_stat :: "process \<Rightarrow> files \<Rightarrow> string list \<Rightarrow> stat" where
  "os_stat P fs p = walk_path P fs [] p"

definition is_folder :: "stat \<Rightarrow> bool" where
  "is_folder s \<longleftrightarrow> (case s of Found (Folder m) \<Rightarrow> True | _ \<Rightarrow> False)"

text \<open>An entry is made in a directory that can be searched and written (192).\<close>

definition can_make :: "process \<Rightarrow> files \<Rightarrow> string list \<Rightarrow> bool" where
  "can_make P fs p \<longleftrightarrow> os_stat P fs p = NotExist \<and> p \<noteq> []
     \<and> (case os_stat P fs (butlast p) of Found (Folder m) \<Rightarrow> allowed P 192 m | _ \<Rightarrow> False)"

definition os_mkdir :: "process \<Rightarrow> string list \<Rightarrow> fmode \<Rightarrow> files \<Rightarrow> files option" where
  "os_mkdir P p perm fs = (if can_make P fs p then Some (fs(p \<mapsto> Folder (perm AND NOT (umask P)))) else None)"

text \<open>\<open>MkdirAll\<close>, the last component of the path first; the result says whether it succeeded.\<close>

fun mkdir_all_rev :: "process \<Rightarrow> fmode \<Rightarrow> string list \<Rightarrow> files \<Rightarrow> bool \<times> files" where
  "mkdir_all_rev P perm [] fs = (is_folder (os_stat P fs []), fs)"
| "mkdir_all_rev P perm (c # up) fs =
     (let p = rev (c # up) in case os_stat P fs p of
        Found n \<Rightarrow> (is_folder (Found n), fs)
      | _ \<Rightarrow> (case mkdir_all_rev P perm up fs of
          (False, fs1) \<Rightarrow> (False, fs1)
        | (True, fs1) \<Rightarrow> (case os_mkdir P p perm fs1 of
            Some fs2 \<Rightarrow> (True, fs2)
          | None \<Rightarrow> (is_folder (os_stat P fs1 p), fs1))))"

definition os_mkdirAll :: "process \<Rightarrow> string list \<Rightarrow> fmode \<Rightarrow> files \<Rightarrow> bool \<times> files" where
  "os_mkdirAll P p perm fs = mkdir_all_rev P perm (rev p) fs"

text \<open>\<open>Create\<close> opens a file to read and write (384), empty, with the mode 0666 when it is new.\<close>

definition os_create :: "process \<Rightarrow> string list \<Rightarrow> files \<Rightarrow> files option" where
  "os_create P p fs =
     (case os_stat P fs p of
        Found (Plain m t) \<Rightarrow> if allowed P 384 m then Some (fs(p \<mapsto> Plain m [])) else None
      | _ \<Rightarrow> if can_make P fs p then Some (fs(p \<mapsto> Plain (438 AND NOT (umask P)) [])) else None)"

definition os_append :: "string list \<Rightarrow> string \<Rightarrow> files \<Rightarrow> files" where
  "os_append p t fs = (case fs p of Some (Plain m old) \<Rightarrow> fs(p \<mapsto> Plain m (old @ t)) | _ \<Rightarrow> fs)"

text \<open>A path as the system resolves it, and the functions of the package \<open>path\<close> on several elements.\<close>

definition resolve_path :: "process \<Rightarrow> string \<Rightarrow> string list" where
  "resolve_path P p =
     rev (fold (path_step True) (go_split p ''/'') (rev (if has_prefix p ''/'' then [] else cwd P)))"

definition path_joins :: "string list \<Rightarrow> string" where
  "path_joins elems = (case filter (\<lambda>e. e \<noteq> []) elems of [] \<Rightarrow> [] | es \<Rightarrow> path_clean (join ''/'' es))"

definition path_ext :: "string \<Rightarrow> string" where
  "path_ext p = (let base = rev (takeWhile (\<lambda>c. c \<noteq> CHR ''/'') (rev p)) in
     if CHR ''.'' \<in> set base then CHR ''.'' # rev (takeWhile (\<lambda>c. c \<noteq> CHR ''.'') (rev base)) else [])"

subsection \<open>Dumps\<close>

text \<open>The state of the browser after a fetch: the request, and the content type of the response, \<open>None\<close> when
  there is no response. \<open>bsDownload\<close> is what \<open>Download\<close> writes.\<close>

record browser_state =
  bsMethod :: string
  bsHost :: string
  bsPath :: string
  bsRawQuery :: string
  bsRequestType :: string
  bsBody :: "string option"
  bsResponseType :: "string option"
  bsDownload :: string

definition dumpFormatHTML :: string where
  "dumpFormatHTML = ''html''"

definition contentTypeToFileExtension :: "string \<Rightarrow> string" where
  "contentTypeToFileExtension t =
     (if hd (go_split t '';'') = ''application/json'' then ''json'' else dumpFormatHTML)"

definition resolveRequestDumpFormat :: "browser_state \<Rightarrow> string" where
  "resolveRequestDumpFormat st =
     (if bsMethod st = ''GET'' then dumpFormatHTML
      else if bsRequestType st = [] then [] else contentTypeToFileExtension (bsRequestType st))"

definition resolveResponseDumpFormat :: "browser_state \<Rightarrow> string option" where
  "resolveResponseDumpFormat st =
     map_option (\<lambda>t. if t = [] then dumpFormatHTML else contentTypeToFileExtension t) (bsResponseType st)"

text \<open>An error of the second \<open>Create\<close> is ignored; the copy to the nil file then fails.\<close>

definition dump_write :: "process \<Rightarrow> string \<Rightarrow> string \<Rightarrow> browser_state \<Rightarrow> files \<Rightarrow> files" where
  "dump_write P responseFile requestFile st fs =
     (case os_create P (resolve_path P responseFile) fs of
        None \<Rightarrow> fs
      | Some fs1 \<Rightarrow>
          let fs2 = os_append (resolve_path P responseFile) (bsDownload st) fs1
          in if path_ext requestFile = [] \<or> path_ext requestFile = ''.'' then fs2
             else case os_create P (resolve_path P requestFile) fs2 of
               None \<Rightarrow> fs2
             | Some fs3 \<Rightarrow> os_append (resolve_path P requestFile)
                 (if bsMethod st = ''GET'' then bsRawQuery st
                  else case bsBody st of None \<Rightarrow> [] | Some b \<Rightarrow> b) fs3)"

definition dump_dir :: "browser_state \<Rightarrow> string" where
  "dump_dir st = path_joins [path_joins [''dumps'', bsHost st],
     replace_all (bsMethod st @ ''_'' @ bsPath st) ''/'' ''_'']"

text \<open>Directories are made with the mode 007, which gives the owner nothing. The flag is a panic, where there is
  no response.\<close>

definition dumpFetchData :: "bool \<Rightarrow> process \<Rightarrow> int \<Rightarrow> browser_state \<Rightarrow> files \<Rightarrow> bool \<times> files" where
  "dumpFetchData shouldDump P now st fs =
     (if \<not> shouldDump then (False, fs)
      else let dir = dump_dir st;
               fs1 = (if os_stat P fs (resolve_path P dir) = NotExist
                      then snd (os_mkdirAll P (resolve_path P dir) 7 fs) else fs)
           in case resolveResponseDumpFormat st of
                None \<Rightarrow> (True, fs1)
              | Some ext \<Rightarrow>
                  (False, dump_write P (path_joins [dir, itoa now @ ''_resp.'' @ ext])
                     (path_joins [dir, itoa now @ ''_req.'' @ resolveRequestDumpFormat st]) st fs1))"

subsection \<open>Directories of the program\<close>

definition appname :: string where
  "appname = ''torrentd''"

definition getCachePath :: "process \<Rightarrow> string \<Rightarrow> string \<Rightarrow> files \<Rightarrow> string \<times> files" where
  "getCachePath P home subdir fs =
     (let dir = path_joins [home, ''.'' @ appname, ''cache'', subdir]
      in (dir, snd (os_mkdirAll P (resolve_path P dir) 511 fs)))"

definition config_init :: "process \<Rightarrow> string \<Rightarrow> files \<Rightarrow> files" where
  "config_init P home fs =
     snd (os_mkdirAll P (resolve_path P (path_joins [home, ''.'' @ appname, ''definitions''])) 511 fs)"

definition getDefinitionDirs :: "string option \<Rightarrow> string \<Rightarrow> string \<Rightarrow> string list" where
  "getDefinitionDirs wd home configDir =
     (case wd of None \<Rightarrow> [] | Some d \<Rightarrow> [path_joins [d, ''definitions'']])
     @ [path_joins [home, ''.'' @ appname, ''definitions'']]
     @ (if configDir = [] then [] else [path_joins [configDir, ''definitions'']])"

subsection \<open>The cache of pages\<close>

text \<open>\<open>tmp\<close> is the name \<open>TempFile\<close> chose, none of a file that is there; it opens with the mode 0600. An error of
  \<open>Rename\<close> is ignored.\<close>

definition os_rename :: "process \<Rightarrow> string list \<Rightarrow> string list \<Rightarrow> files \<Rightarrow> files" where
  "os_rename P old new fs =
     (case os_stat P fs old of
        Found n \<Rightarrow>
          (if can_make P fs new \<or> (case os_stat P fs new of Found (Plain m t) \<Rightarrow> True | _ \<Rightarrow> False)
           then (fs(new \<mapsto> n))(old := None) else fs)
      | _ \<Rightarrow> fs)"

definition cachePage ::
    "bool \<Rightarrow> process \<Rightarrow> string \<Rightarrow> string \<Rightarrow> string \<Rightarrow> string \<Rightarrow> files \<Rightarrow> bool \<times> files" where
  "cachePage cachePages P home site tmp page fs =
     (if \<not> cachePages then (True, fs)
      else let (dir, fs1) = getCachePath P home site fs;
               (made, fs2) = os_mkdirAll P (resolve_path P dir) 448 fs1;
               file = resolve_path P (path_joins [dir, tmp])
           in if \<not> made then (False, fs2)
              else if \<not> can_make P fs2 file then (False, fs2)
              else (True, os_rename P file (resolve_path P (path_joins [dir, tmp] @ ''.html''))
                      (os_append file page (fs2(file \<mapsto> Plain (384 AND NOT (umask P)) [])))))"

end
