(* ===== verification/DumpFacts.thy ===== *)
theory DumpFacts
  imports PageDumps
begin

text \<open>
  What is proved of the dumps: every dump lies in one directory below \<open>dumps\<close>, whatever is requested; and a
  process that is not root never writes one, since the mode of the directories it makes for them shuts it
  out of them.
\<close>

subsection \<open>Paths of plain components\<close>

definition plain_name :: "string \<Rightarrow> bool" where
  "plain_name c \<longleftrightarrow> c \<noteq> [] \<and> c \<noteq> ''.'' \<and> c \<noteq> ''..'' \<and> CHR ''/'' \<notin> set c"

lemma path_steps_plain: "list_all plain_name cs \<Longrightarrow> fold (path_step rooted) cs out = rev cs @ out"
  by (induction cs arbitrary: out) (auto simp: path_step_def plain_name_def)

lemma split_join_plain: "list_all plain_name cs \<Longrightarrow> cs \<noteq> [] \<Longrightarrow> go_split (join ''/'' cs) ''/'' = cs"
  by (rule go_split_join) (auto simp: list_all_iff plain_name_def)

lemma join_plain_start:
  assumes "list_all plain_name cs" "cs \<noteq> []"
  shows "join ''/'' cs \<noteq> []" "hd (join ''/'' cs) \<noteq> CHR ''/''"
proof -
  from assms obtain c ds where c: "cs = c # ds" "plain_name c" by (cases cs) auto
  obtain x xs where x: "c = x # xs" "x \<noteq> CHR ''/''" using c(2) by (cases c) (auto simp: plain_name_def)
  show "join ''/'' cs \<noteq> []" "hd (join ''/'' cs) \<noteq> CHR ''/''" using x unfolding c(1) by (cases ds; simp)+
qed

lemma path_clean_plain: "list_all plain_name cs \<Longrightarrow> cs \<noteq> [] \<Longrightarrow> path_clean (join ''/'' cs) = join ''/'' cs"
  using join_plain_start [of cs] by (simp add: path_clean_def split_join_plain path_steps_plain Let_def)

lemma join_snoc: "cs \<noteq> [] \<Longrightarrow> join sep [join sep cs, c] = join sep (cs @ [c])"
  by (induction sep cs rule: join.induct) auto

lemma path_joins_plain:
  assumes "list_all plain_name cs" "cs \<noteq> []" "plain_name c"
  shows "path_joins [join ''/'' cs, c] = join ''/'' (cs @ [c])"
  using assms join_plain_start(1) [OF assms(1,2)] path_clean_plain [of "cs @ [c]"]
  by (simp add: path_joins_def join_snoc plain_name_def del: join.simps(3))

lemma resolve_plain:
  "list_all plain_name cs \<Longrightarrow> cs \<noteq> [] \<Longrightarrow> resolve_path P (join ''/'' cs) = cwd P @ cs"
proof -
  assume cs: "list_all plain_name cs" "cs \<noteq> []"
  then have "\<not> has_prefix (join ''/'' cs) ''/''"
    using join_plain_start [of cs] by (cases "join ''/'' cs") (simp_all add: has_prefix_def)
  with cs show ?thesis by (simp add: resolve_path_def split_join_plain path_steps_plain)
qed

lemma replace_char: "replace_all s [c] [d] = map (\<lambda>x. if x = c then d else x) s"
proof (induction s "[c]" "[d]" rule: replace_all.induct)
  case (1 s)
  show ?case
  proof (cases "c \<in> set s")
    case False
    then have "map (\<lambda>x. if x = c then d else x) s = s" by (induction s) auto
    with False show ?thesis by (subst replace_all.simps) (simp add: index_of_single)
  next
    case True
    then obtain ys zs where s: "s = ys @ c # zs" "c \<notin> set ys" by (meson split_list_first)
    have "takeWhile (\<lambda>x. x \<noteq> c) s = ys" unfolding s(1) using s(2) by (subst takeWhile_append2) auto
    with True have i: "index_of [c] s = Some (length ys)" by (simp add: index_of_single)
    have "map (\<lambda>x. if x = c then d else x) ys = ys" using s(2) by (induction ys) auto
    with 1 [OF _ i] show ?thesis by (subst replace_all.simps) (simp add: i, simp add: s(1))
  qed
qed

subsection \<open>Where a dump goes\<close>

lemma dump_name_plain: "plain_name (replace_all (m @ ''_'' @ p) ''/'' ''_'')"
proof -
  have "CHR ''_'' \<in> set (replace_all (m @ ''_'' @ p) ''/'' ''_'')" by (simp add: replace_char)
  moreover have "CHR ''/'' \<notin> set (replace_all (m @ ''_'' @ p) ''/'' ''_'')" by (auto simp: replace_char)
  ultimately show ?thesis by (auto simp: plain_name_def)
qed

lemma dump_dir_plain:
  assumes "plain_name (bsHost st)"
  shows "dump_dir st = join ''/'' [''dumps'', bsHost st, replace_all (bsMethod st @ ''_'' @ bsPath st) ''/'' ''_'']"
proof -
  have d: "plain_name ''dumps''" by (simp add: plain_name_def)
  show ?thesis
    using path_joins_plain [of "[''dumps'']" "bsHost st"]
      path_joins_plain [of "[''dumps'', bsHost st]" "replace_all (bsMethod st @ ''_'' @ bsPath st) ''/'' ''_''"]
      assms d dump_name_plain [of "bsMethod st" "bsPath st"]
    by (simp add: dump_dir_def)
qed

lemma dump_file_plain:
  assumes "plain_name (bsHost st)" "ext = [] \<or> ext = ''html'' \<or> ext = ''json''"
  shows "\<exists>name. \<forall>kind \<in> {''_resp.'', ''_req.''}. resolve_path P (path_joins [dump_dir st, itoa now @ kind @ ext]) =
    cwd P @ [''dumps'', bsHost st, name, itoa now @ kind @ ext]"
proof -
  let ?name = "replace_all (bsMethod st @ ''_'' @ bsPath st) ''/'' ''_''"
  have "CHR ''/'' \<notin> set (itoa now)" using itoa_chars [of "CHR ''/''" now] by (auto simp: is_digit_def)
  then have f: "plain_name (itoa now @ kind @ ext)" if "kind \<in> {''_resp.'', ''_req.''}" for kind
    using assms(2) that by (auto simp: plain_name_def append_eq_Cons_conv)
  have c: "list_all plain_name [''dumps'', bsHost st, ?name]"
    using assms(1) dump_name_plain by (simp add: plain_name_def [of "''dumps''"])
  have "resolve_path P (path_joins [dump_dir st, itoa now @ kind @ ext]) =
      cwd P @ [''dumps'', bsHost st, ?name, itoa now @ kind @ ext]" if "kind \<in> {''_resp.'', ''_req.''}" for kind
    using path_joins_plain [OF c _ f [OF that]] resolve_plain [of "[''dumps'', bsHost st, ?name, itoa now @ kind @ ext]" P]
      c f [OF that] dump_dir_plain [OF assms(1)] by simp
  then show ?thesis by blast
qed

subsection \<open>Nothing is written\<close>

lemma walk_Found_append:
  "walk_path P fs seen a = Found (Folder m) \<Longrightarrow>
    walk_path P fs seen (a @ c # cs) = (if allowed P 64 m then walk_path P fs (seen @ a @ [c]) cs else Denied)"
  by (induction P fs seen a rule: walk_path.induct) (auto split: option.splits inode.splits if_splits)

lemma walk_cong:
  "(\<And>k. k \<le> length a \<Longrightarrow> fs (seen @ take k a) = fs' (seen @ take k a)) \<Longrightarrow>
    walk_path P fs seen a = walk_path P fs' seen a"
proof (induction a arbitrary: seen)
  case Nil
  from Nil [of 0] show ?case by simp
next
  case (Cons c a)
  have "fs seen = fs' seen" using Cons.prems [of 0] by simp
  moreover have "walk_path P fs (seen @ [c]) a = walk_path P fs' (seen @ [c]) a"
    by (rule Cons.IH) (use Cons.prems [of "Suc _"] in simp)
  ultimately show ?case by (simp split: option.splits inode.splits)
qed

text \<open>A directory or file that no one can go through.\<close>

definition shut :: "process \<Rightarrow> inode \<Rightarrow> bool" where
  "shut P n = (case n of Folder m \<Rightarrow> \<not> allowed P 64 m | Plain m t \<Rightarrow> True)"

lemma walk_shut: "fs seen = Some n \<Longrightarrow> shut P n \<Longrightarrow> walk_path P fs seen (c # cs) = Denied"
  by (simp add: shut_def split: inode.splits)

lemma made_shut: "\<not> isRoot P \<Longrightarrow> shut P (Folder (7 AND NOT (umask P)))"
proof -
  have "(7 AND NOT u) AND 64 \<noteq> (64 :: fmode)" for u
  proof -
    have "(7 AND NOT u) AND 64 = (7 AND 64) AND NOT u" by (simp only: and.assoc and.commute and.left_commute)
    also have "\<dots> = (0 :: fmode)" by simp
    finally show ?thesis by simp
  qed
  then show "\<not> isRoot P \<Longrightarrow> ?thesis" by (simp add: shut_def allowed_def)
qed

text \<open>The directory \<open>dumps\<close> is missing, with all that would be below it, or it is shut.\<close>

definition dumps_shut :: "process \<Rightarrow> files \<Rightarrow> bool" where
  "dumps_shut P fs \<longleftrightarrow> is_folder (os_stat P fs (cwd P))
     \<and> (case fs (cwd P @ [''dumps'']) of None \<Rightarrow> True | Some n \<Rightarrow> shut P n)"

lemma stat_in_dumps:
  assumes "dumps_shut P fs"
  shows "os_stat P fs (cwd P @ ''dumps'' # c # cs)
    \<in> (if fs (cwd P @ [''dumps'']) = None then {NotExist, Denied} else {Denied})"
proof -
  from assms obtain m where m: "walk_path P fs [] (cwd P) = Found (Folder m)"
    by (auto simp: dumps_shut_def is_folder_def os_stat_def split: stat.splits inode.splits)
  from walk_Found_append [OF this, of "''dumps''" "c # cs"] assms show ?thesis
    by (auto simp: os_stat_def dumps_shut_def walk_shut simp del: walk_path.simps split: option.splits)
       (simp_all add: walk_path.simps)
qed

lemma create_in_dumps: "dumps_shut P fs \<Longrightarrow> os_create P (cwd P @ ''dumps'' # c # c' # cs) fs = None"
  using stat_in_dumps [of P fs c "c' # cs"] stat_in_dumps [of P fs c "butlast (c' # cs)"]
  by (auto simp: os_create_def can_make_def butlast_append split: stat.splits if_splits inode.splits)

definition with_dumps :: "process \<Rightarrow> files \<Rightarrow> files" where
  "with_dumps P fs = fs(cwd P @ [''dumps''] \<mapsto> Folder (7 AND NOT (umask P)))"

lemma with_dumps_shut:
  assumes "dumps_shut P fs" "\<not> isRoot P"
  shows "dumps_shut P (with_dumps P fs)"
proof -
  have "os_stat P (with_dumps P fs) (cwd P) = os_stat P fs (cwd P)"
    unfolding os_stat_def by (rule walk_cong) (auto simp: with_dumps_def dest: arg_cong [of _ _ length])
  with assms show ?thesis by (simp add: dumps_shut_def made_shut) (simp add: with_dumps_def made_shut)
qed

lemma mkdir_all_cwd: "is_folder (os_stat P fs p) \<Longrightarrow> mkdir_all_rev P perm (rev p) fs = (True, fs)"
  by (cases p rule: rev_cases) (auto simp: is_folder_def split: stat.splits)

lemma mkdirAll_dumps:
  assumes "dumps_shut P fs" "\<not> isRoot P" "fs (cwd P @ [''dumps'']) = None"
    "os_stat P fs (cwd P @ [''dumps'', h, n]) = NotExist"
  shows "snd (os_mkdirAll P (cwd P @ [''dumps'', h, n]) 7 fs) \<in> {fs, with_dumps P fs}"
proof -
  let ?d = "cwd P @ [''dumps'']"
  have f: "is_folder (os_stat P fs (cwd P))" using assms(1) by (simp add: dumps_shut_def)
  have dn: "os_stat P fs ?d \<in> {NotExist, Denied}"
  proof -
    from f obtain m where "walk_path P fs [] (cwd P) = Found (Folder m)"
      by (auto simp: is_folder_def os_stat_def split: stat.splits inode.splits)
    from walk_Found_append [OF this, of "''dumps''" "[]"] assms(3) show ?thesis by (simp add: os_stat_def)
  qed
  have h: "os_stat P fs (cwd P @ [''dumps'', h]) \<in> {NotExist, Denied}"
    using stat_in_dumps [OF assms(1), of h "[]"] assms(3) by simp
  have d: "mkdir_all_rev P 7 (''dumps'' # rev (cwd P)) fs \<in> {(False, fs), (True, with_dumps P fs)}"
    using dn mkdir_all_cwd [OF f, of 7]
    by (auto simp: os_mkdir_def with_dumps_def is_folder_def Let_def split: stat.splits)
  have "os_stat P (with_dumps P fs) (cwd P @ [''dumps'', h]) = Denied"
    using stat_in_dumps [OF with_dumps_shut [OF assms(1,2)], of h "[]"] by (simp add: with_dumps_def)
  then have "mkdir_all_rev P 7 (h # ''dumps'' # rev (cwd P)) fs \<in> {(False, fs), (False, with_dumps P fs)}"
    using d h dn by (auto simp: os_mkdir_def can_make_def is_folder_def Let_def split: stat.splits)
  then show ?thesis using assms(4) by (auto simp: os_mkdirAll_def Let_def split: stat.splits)
qed

lemma dump_keeps:
  assumes "dumps_shut P fs" "\<not> isRoot P" "plain_name (bsHost st)"
  shows "snd (dumpFetchData b P now st fs) \<in> {fs, with_dumps P fs}"
proof -
  let ?n = "replace_all (bsMethod st @ ''_'' @ bsPath st) ''/'' ''_''"
  define fs1 where "fs1 = (if os_stat P fs (resolve_path P (dump_dir st)) = NotExist
    then snd (os_mkdirAll P (resolve_path P (dump_dir st)) 7 fs) else fs)"
  have r: "resolve_path P (dump_dir st) = cwd P @ [''dumps'', bsHost st, ?n]"
    using assms(3) dump_name_plain resolve_plain [of "[''dumps'', bsHost st, ?n]" P]
    by (simp add: dump_dir_plain plain_name_def [of "''dumps''"])
  have fs1: "fs1 \<in> {fs, with_dumps P fs}"
  proof (cases "fs (cwd P @ [''dumps'']) = None")
    case True
    with mkdirAll_dumps [OF assms(1,2) True, of "bsHost st" ?n] show ?thesis by (simp add: fs1_def r)
  next
    case False
    with stat_in_dumps [OF assms(1), of "bsHost st" "[?n]"] show ?thesis by (simp add: fs1_def r)
  qed
  then have s: "dumps_shut P fs1" using with_dumps_shut [OF assms(1,2)] assms(1) by auto
  have w: "dump_write P (path_joins [dump_dir st, itoa now @ ''_resp.'' @ ext]) q st fs1 = fs1"
    if "ext = ''html'' \<or> ext = ''json''" for ext q
  proof -
    have "ext = [] \<or> ext = ''html'' \<or> ext = ''json''" using that by blast
    from dump_file_plain [OF assms(3) this, of P now] obtain name where
      "resolve_path P (path_joins [dump_dir st, itoa now @ ''_resp.'' @ ext]) =
        cwd P @ [''dumps'', bsHost st, name, itoa now @ ''_resp.'' @ ext]"
      by (metis insertI1)
    with create_in_dumps [OF s, of "bsHost st" name "[itoa now @ ''_resp.'' @ ext]"] show ?thesis
      by (simp add: dump_write_def)
  qed
  have e: "resolveResponseDumpFormat st = Some ext \<Longrightarrow> ext = ''html'' \<or> ext = ''json''" for ext
    by (auto simp: resolveResponseDumpFormat_def contentTypeToFileExtension_def dumpFormatHTML_def split: if_splits)
  show ?thesis
    unfolding dumpFetchData_def Let_def fs1_def [symmetric] using fs1 w e
    by (cases b; cases "resolveResponseDumpFormat st") simp_all
qed

text \<open>C39: Where a process is not root and there is no directory of dumps yet, or one made by an earlier fetch,
  any number of fetches that should be dumped leave the files as they are, except that the directory
  \<open>dumps\<close> is made with the mode that shuts the process out of it.\<close>

theorem dumps_never_written:
  assumes "dumps_shut P fs" "\<not> isRoot P" "\<forall>(now, st)\<in>set fetches. plain_name (bsHost st)"
  shows "fold (\<lambda>(now, st) fs. snd (dumpFetchData True P now st fs)) fetches fs \<in> {fs, with_dumps P fs}"
proof -
  have w: "with_dumps P (with_dumps P fs) = with_dumps P fs" by (simp add: with_dumps_def)
  have "fold (\<lambda>(now, st) fs. snd (dumpFetchData True P now st fs)) fetches g \<in> {fs, with_dumps P fs}"
    if "g \<in> {fs, with_dumps P fs}" for g
    using that assms(3)
  proof (induction fetches arbitrary: g)
    case Nil
    then show ?case by simp
  next
    case (Cons x fetches)
    obtain now st where x: "x = (now, st)" by (cases x)
    have "dumps_shut P g" using Cons.prems(1) assms(1) with_dumps_shut [OF assms(1,2)] by auto
    from dump_keeps [OF this assms(2), of st True now] Cons.prems x
    have "snd (dumpFetchData True P now st g) \<in> {fs, with_dumps P fs}" using w by auto
    with Cons.IH Cons.prems(2) show ?case by (simp add: x)
  qed
  then show ?thesis by blast
qed

definition some_fetch :: "string \<Rightarrow> browser_state" where
  "some_fetch path = \<lparr>bsMethod = ''GET'', bsHost = ''site'', bsPath = path, bsRawQuery = ''q=1'', bsRequestType = [],
     bsBody = None, bsResponseType = Some ''text/html; charset=utf-8'', bsDownload = ''<p>''\<rparr>"

definition empty_disk :: files where
  "empty_disk = [[] \<mapsto> Folder 493]"

theorem dumps_never_written_witness:
  "fold (\<lambda>(now, st) fs. snd (dumpFetchData True \<lparr>isRoot = False, umask = 18, cwd = []\<rparr> now st fs))
     [(1, some_fetch ''/a/b''), (2, some_fetch ''/'')] empty_disk
   \<in> {empty_disk, with_dumps \<lparr>isRoot = False, umask = 18, cwd = []\<rparr> empty_disk}"
  by (rule dumps_never_written)
     (auto simp: dumps_shut_def is_folder_def os_stat_def empty_disk_def some_fetch_def plain_name_def)

text \<open>The superuser is let through, and the dump is written.\<close>

lemma root_dumps:
  "snd (dumpFetchData True \<lparr>isRoot = True, umask = 18, cwd = []\<rparr> 1 (some_fetch ''/a/b'') empty_disk)
     [''dumps'', ''site'', ''GET__a_b'', ''1_resp.html''] = Some (Plain 420 ''<p>'')"
  by code_simp

end
