(* ===== verification/FetcherSetup.thy ===== *)
theory FetcherSetup
  imports PageDumps
begin

text \<open>
  The fetcher of an index as it is set up from the environment and the definition
  (\<open>indexer/browsing.go\<close>), and the settings of sites (\<open>config/viper.go\<close>). The environment is a map from
  names to values; viper, the SOCKS5 dialer and the agent string are parameters.
\<close>

subsection \<open>The transport\<close>

text \<open>Five seconds to connect and for the handshake, unless the environment asks for something else.\<close>

record transport =
  trProxy :: "string option"
  trInsecure :: bool
  trDialTimeout :: "int option"
  trHandshakeTimeout :: "int option"

definition createTransport :: "(string \<Rightarrow> string option) \<Rightarrow> (string \<Rightarrow> bool) \<Rightarrow> (string, transport) res" where
  "createTransport env socks =
     (let insecure = env ''TLS_INSECURE'' \<noteq> None
      in case env ''SOCKS_PROXY'' of
           Some addr \<Rightarrow>
             if \<not> socks addr then Err (''can'' @ [CHR 0x27] @ ''t connect to the proxy '' @ addr)
             else Ok \<lparr>trProxy = Some addr, trInsecure = insecure, trDialTimeout = None, trHandshakeTimeout = None\<rparr>
         | None \<Rightarrow>
             if insecure
             then Ok \<lparr>trProxy = None, trInsecure = True, trDialTimeout = None, trHandshakeTimeout = None\<rparr>
             else Ok \<lparr>trProxy = None, trInsecure = False, trDialTimeout = Some 5, trHandshakeTimeout = Some 5\<rparr>)"

subsection \<open>The fetcher\<close>

datatype 't round_tripper = Made transport | Given 't

datatype http_trace = NoTrace | TraceBasic | TraceBody

record 't content_fetcher =
  cfUserAgent :: string
  cfEncoding :: string
  cfSendReferer :: bool
  cfMetaRefresh :: bool
  cfRateLimit :: int
  cfTransport :: "'t round_tripper"
  cfTrace :: http_trace
  cfShouldDumpData :: bool
  cfFakeReferer :: bool

definition trace_of :: "string \<Rightarrow> http_trace option" where
  "trace_of v = (if v \<in> {''1'', ''true'', ''basic''} then Some TraceBasic
     else if v = ''body'' then Some TraceBody else if v = [] then Some NoTrace else None)"

text \<open>\<open>None\<close> is a panic: a proxy that can not be used, even when a transport is given, or an unknown value of
  \<open>DEBUG_HTTP\<close>.\<close>

definition createContentFetcher ::
    "(string \<Rightarrow> string option) \<Rightarrow> (string \<Rightarrow> bool) \<Rightarrow> bool \<Rightarrow> string \<Rightarrow> loaded_definition \<Rightarrow> 't option
     \<Rightarrow> 't content_fetcher option" where
  "createContentFetcher env socks dump agent def given =
     (case createTransport env socks of
        Ok t \<Rightarrow>
          map_option (\<lambda>trace.
            \<lparr>cfUserAgent = agent, cfEncoding = defEncoding (ldDefinition def), cfSendReferer = True,
             cfMetaRefresh = True, cfRateLimit = ldRateLimit def,
             cfTransport = (case given of None \<Rightarrow> Made t | Some g \<Rightarrow> Given g), cfTrace = trace,
             cfShouldDumpData = dump, cfFakeReferer = True\<rparr>)
            (trace_of (case env ''DEBUG_HTTP'' of None \<Rightarrow> [] | Some v \<Rightarrow> v))
      | _ \<Rightarrow> None)"

text \<open>Asking for anything of the transport takes its timeouts away.\<close>

theorem transport_timeouts:
  assumes "createTransport env socks = Ok t"
  shows "trDialTimeout t \<noteq> None \<longleftrightarrow> env ''SOCKS_PROXY'' = None \<and> env ''TLS_INSECURE'' = None"
  using assms by (auto simp: createTransport_def Let_def split: option.splits if_splits)

text \<open>A fetcher is made, or the program panics, and which does not depend on the transport that is given; one
  made from a definition read by \<open>parseDefinition\<close> waits between requests.\<close>

lemma fetcher_made:
  "createContentFetcher env socks dump agent def given = None \<longleftrightarrow>
    (\<exists>addr. env ''SOCKS_PROXY'' = Some addr \<and> \<not> socks addr)
    \<or> trace_of (case env ''DEBUG_HTTP'' of None \<Rightarrow> [] | Some v \<Rightarrow> v) = None"
  by (auto simp: createContentFetcher_def createTransport_def Let_def split: option.splits if_splits)

theorem fetcher_waits:
  assumes "parseDefinition E now src = Ok def" "createContentFetcher env socks dump agent def given = Some f"
  shows "cfRateLimit f \<noteq> 0"
  using assms
  by (auto simp: createContentFetcher_def parseDefinition_def defaultRateLimit_def split: option.splits res.splits if_splits)

subsection \<open>Settings of sites\<close>

text \<open>\<open>getMap\<close> is the section viper finds under a name. An option that is not a text panics.\<close>

definition getSiteOption :: "(string \<Rightarrow> (string \<times> go_value) list) \<Rightarrow> string \<Rightarrow> string \<Rightarrow> (string \<times> bool) option" where
  "getSiteOption getMap name key =
     (case map_of (getMap (''indexers.'' @ name)) key of
        None \<Rightarrow> Some ([], False)
      | Some (VStr s) \<Rightarrow> Some (s, True)
      | Some _ \<Rightarrow> None)"

definition site_option_name :: "string \<Rightarrow> string \<Rightarrow> string" where
  "site_option_name section key = ''indexers.'' @ section @ ''.'' @ key"

definition setSiteOption :: "(string \<Rightarrow> go_value \<Rightarrow> 'v \<Rightarrow> 'v) \<Rightarrow> string \<Rightarrow> string \<Rightarrow> string \<Rightarrow> 'v \<Rightarrow> 'v" where
  "setSiteOption viperSet section key v conf = viperSet (site_option_name section key) (VStr v) conf"

definition getBytes :: "(string \<Rightarrow> string) \<Rightarrow> string \<Rightarrow> string" where
  "getBytes getString param = getString param"

text \<open>The directories of definitions are the only default; \<open>verbose\<close> chooses the level of the log.\<close>

definition setDefaults :: "(string \<Rightarrow> string list \<Rightarrow> 'v \<Rightarrow> 'v) \<Rightarrow> string option \<Rightarrow> string \<Rightarrow> string \<Rightarrow> 'v \<Rightarrow> 'v" where
  "setDefaults viperSet wd home configDir conf = viperSet ''definition.dirs'' (getDefinitionDirs wd home configDir) conf"

datatype log_level = DebugLevel | InfoLevel

definition getMinLogLevel :: "(string \<Rightarrow> bool) \<Rightarrow> log_level" where
  "getMinLogLevel getBool = (if getBool ''verbose'' then DebugLevel else InfoLevel)"

end
