(* ===== verification/Aggregates.thy ===== *)
theory Aggregates
  imports Facade
begin

text \<open>
  An index made of others (\<open>indexer/aggregate.go\<close>), which no code constructs any more, and the codec with
  the type of its records (\<open>storage/serializers\<close>). What the aggregate asks of an index is
  a record; a search by it is commented out in the source.
\<close>

subsection \<open>The aggregate\<close>

text \<open>\<open>aiSite\<close> is the site of the definition, \<open>aiName\<close> its name and \<open>aiSiteName\<close> what \<open>Site()\<close> answers.\<close>

record agg_index =
  aiSite :: string
  aiName :: string
  aiSiteName :: string
  aiErrors :: "string list"
  aiSinglePaged :: bool
  aiEncoding :: string

record 's aggregate =
  agIndexes :: "agg_index list"
  agStorage :: "'s option"

definition ag_setStorage :: "'s \<Rightarrow> 's aggregate \<Rightarrow> 's aggregate" where
  "ag_setStorage s ag = ag\<lparr>agStorage := Some s\<rparr>"

definition ag_errors :: "'s aggregate \<Rightarrow> string list" where
  "ag_errors ag = concat (map (\<lambda>i. map (\<lambda>e. aiSite i @ '': '' @ e) (aiErrors i)) (agIndexes ag))"

definition aggregateSiteName :: string where
  "aggregateSiteName = ''aggregate''"

text \<open>The site and the name of the definition of an aggregate; the rest of it is empty.\<close>

definition ag_getDefinition :: "'s aggregate \<Rightarrow> string \<times> string" where
  "ag_getDefinition ag = (aggregateSiteName, join '','' (map aiName (agIndexes ag)))"

definition ag_searchIsSinglePaged :: "'s aggregate \<Rightarrow> bool" where
  "ag_searchIsSinglePaged ag = list_all aiSinglePaged (agIndexes ag)"

definition ag_getEncoding :: "'s aggregate \<Rightarrow> string" where
  "ag_getEncoding ag = (case agIndexes ag of [] \<Rightarrow> ''utf-8'' | i # _ \<Rightarrow> aiEncoding i)"

definition ag_site :: "'s aggregate \<Rightarrow> string" where
  "ag_site ag = trim_right (concat (map (\<lambda>i. aiSiteName i @ '','') (agIndexes ag))) '',''"

definition ag_capabilities :: capabilities where
  "ag_capabilities = \<lparr>capModes =
     [\<lparr>modeKey = ''movie-search'', available = True, supportedParams = [''q'', ''imdbid'']\<rparr>,
      \<lparr>modeKey = ''tv-search'', available = True, supportedParams = [''q'', ''season'', ''ep'']\<rparr>,
      \<lparr>modeKey = ''search'', available = True, supportedParams = [''q'']\<rparr>],
     capCategories = []\<rparr>"

definition ag_download :: "'s aggregate \<Rightarrow> string \<Rightarrow> (string, 'r) res" where
  "ag_download ag url = Err ''not implemented''"

text \<open>The names joined by commas; commas at the end of the last name are cut off.\<close>

lemma concat_commas: "xs \<noteq> [] \<Longrightarrow> concat (map (\<lambda>x. x @ '','') xs) = join '','' xs @ '',''"
  by (induction xs rule: list_nonempty_induct) (auto simp: neq_Nil_conv)

lemma last_join: "xs \<noteq> [] \<Longrightarrow> last xs \<noteq> [] \<Longrightarrow> join sep xs \<noteq> [] \<and> last (join sep xs) = last (last xs)"
  by (induction sep xs rule: join.induct) auto

lemma ag_site_join:
  assumes "agIndexes ag \<noteq> []" "aiSiteName (last (agIndexes ag)) \<noteq> []"
    and "last (aiSiteName (last (agIndexes ag))) \<noteq> CHR '',''"
  shows "ag_site ag = join '','' (map aiSiteName (agIndexes ag))"
proof -
  let ?names = "map aiSiteName (agIndexes ag)"
  have j: "join '','' ?names \<noteq> [] \<and> last (join '','' ?names) \<noteq> CHR '',''"
    using last_join [of ?names "'',''"] assms by (simp add: last_map)
  have "concat (map (\<lambda>i. aiSiteName i @ '','') (agIndexes ag)) = join '','' ?names @ '',''"
    using concat_commas [of ?names] assms(1) by (simp add: comp_def)
  with j show ?thesis
    by (cases "join '','' ?names" rule: rev_cases) (auto simp: ag_site_def trim_right_def)
qed

subsection \<open>The codec of records\<close>

text \<open>\<open>smMarshal\<close> and \<open>smUnmarshal\<close> are those of JSON or gob; the latter decodes into a value and says whether
  it succeeded. The zero value of a type stands for what reflection allocates.\<close>

record 'v serializer =
  smName :: string
  smMarshal :: "'v \<Rightarrow> string option"
  smUnmarshal :: "string \<Rightarrow> 'v \<Rightarrow> 'v \<times> bool"

record ('t, 'v) dynamicMarshaler =
  recordType :: 't
  codec_of :: "'v serializer"

text \<open>What a type is: a pointer to another, or something else.\<close>

datatype 't go_type = Pointer 't | NoPointer

definition newDynamicMarshaler :: "'t go_type \<Rightarrow> 'v serializer \<Rightarrow> ('t, 'v) dynamicMarshaler option" where
  "newDynamicMarshaler t m = (case t of Pointer u \<Rightarrow> Some \<lparr>recordType = u, codec_of = m\<rparr> | NoPointer \<Rightarrow> None)"

definition setOutputType :: "'t go_type \<Rightarrow> ('t, 'v) dynamicMarshaler \<Rightarrow> ('t, 'v) dynamicMarshaler option" where
  "setOutputType t d = (case t of Pointer u \<Rightarrow> Some (d\<lparr>recordType := u\<rparr>) | NoPointer \<Rightarrow> None)"

definition dm_new :: "('t \<Rightarrow> 'v) \<Rightarrow> ('t, 'v) dynamicMarshaler \<Rightarrow> 'v" where
  "dm_new zero d = zero (recordType d)"

definition dm_unmarshal :: "('t \<Rightarrow> 'v) \<Rightarrow> ('t, 'v) dynamicMarshaler \<Rightarrow> string \<Rightarrow> 'v \<times> bool" where
  "dm_unmarshal zero d data = smUnmarshal (codec_of d) data (dm_new zero d)"

definition dm_unmarshalAt :: "('t, 'v) dynamicMarshaler \<Rightarrow> string \<Rightarrow> 'v \<Rightarrow> 'v \<times> bool" where
  "dm_unmarshalAt d data v = smUnmarshal (codec_of d) data v"

definition dm_marshal :: "('t, 'v) dynamicMarshaler \<Rightarrow> 'v \<Rightarrow> string option" where
  "dm_marshal d v = smMarshal (codec_of d) v"

text \<open>The serializer the store uses.\<close>

definition json_serializer :: "('v \<Rightarrow> string option) \<Rightarrow> (string \<Rightarrow> 'v \<Rightarrow> 'v \<times> bool) \<Rightarrow> 'v serializer" where
  "json_serializer m u = \<lparr>smName = ''json'', smMarshal = m, smUnmarshal = u\<rparr>"

text \<open>A record is read into a new value, so that what the record read before it had does not show.\<close>

lemma unmarshal_after_marshal:
  assumes "\<And>t v data. smMarshal m v = Some data \<Longrightarrow> smUnmarshal m data (zero t) = (v, True)"
    and "newDynamicMarshaler (Pointer t) m = Some d" "dm_marshal d v = Some data"
  shows "dm_unmarshal zero d data = (v, True)"
  using assms by (auto simp: newDynamicMarshaler_def dm_marshal_def dm_unmarshal_def dm_new_def)

end
