(* ===== verification/StatusMessages.thy ===== *)
theory StatusMessages
  imports Runner
begin

text \<open>
  The messages a search publishes (\<open>indexer/status\<close>, \<open>generateSchemeOkStatus\<close> and
  \<open>generateSchemeErrorStatus\<close> of \<open>indexer/runner.go\<close>, \<open>StatusReporter.Error\<close> of
  \<open>indexer/statusReporter.go\<close>). A message is a value; the bus that carries it is a service.
\<close>

record scheme_message =
  smSchemeVersion :: string
  smSite :: string
  smCode :: string
  smResultsFound :: nat

record scheme_error =
  seCode :: string
  seMessage :: string
  seSite :: string
  seSchemeVersion :: string

text \<open>Topic and content.\<close>

datatype published = SchemeStatus scheme_message | SchemeError scheme_error

definition topic_of :: "published \<Rightarrow> string" where
  "topic_of m = (case m of SchemeStatus _ \<Rightarrow> ''scrapescheme'' | SchemeError _ \<Rightarrow> ''scheme.topic'')"

definition generateSchemeOkStatus :: "index_definition \<Rightarrow> 'a list \<Rightarrow> scheme_message" where
  "generateSchemeOkStatus def results =
     \<lparr>smSchemeVersion = defVersion def, smSite = defSite def,
      smCode = (if results \<noteq> [] then ''ok-data'' else ''ok''), smResultsFound = length results\<rparr>"

text \<open>\<open>%s\<close> of a nil error.\<close>

definition generateSchemeErrorStatus :: "string \<Rightarrow> string option \<Rightarrow> index_definition \<Rightarrow> scheme_error" where
  "generateSchemeErrorStatus code err def =
     \<lparr>seCode = code,
      seMessage = ''couldn'' @ [CHR 0x27] @ ''t log in: '' @ (case err of Some e \<Rightarrow> e | None \<Rightarrow> ''%!s(<nil>)''),
      seSite = defSite def, seSchemeVersion = defVersion def\<rparr>"

text \<open>\<open>StatusReporter.Error\<close>: what it publishes when it is given the report.\<close>

definition reporter_published :: "index_definition \<Rightarrow> reportable option \<Rightarrow> published list" where
  "reporter_published def rep =
     (case rep of None \<Rightarrow> []
      | Some r \<Rightarrow> [SchemeError (generateSchemeErrorStatus (rptType r) (rptError r) def)])"

text \<open>The report of a search by how it ended: the type is set before the way out, and the deferred call
  reports whatever the error is then.\<close>

definition search_report ::
    "('e, 'd, 'j, 'w) runner_env \<Rightarrow> (search_error, result_item list) res \<Rightarrow> reportable option" where
  "search_report E result =
     (case result of
        Panic \<Rightarrow> None
      | Ok _ \<Rightarrow> newError ''login'' None
      | Err (SessionError e) \<Rightarrow> newError ''login'' (Some (reErrorText E (SessionError e)))
      | Err (FetchError e) \<Rightarrow> newError ''cant-fetch-content'' (Some e)
      | Err (EnumerationError e) \<Rightarrow> newError ''cant-fetch-content'' e
      | Err e \<Rightarrow> newError ''bad-target'' (Some (reErrorText E e)))"

definition search_published ::
    "('e, 'd, 'j, 'w) runner_env \<Rightarrow> index_definition \<Rightarrow> (search_error, result_item list) res \<Rightarrow> published list" where
  "search_published E def result =
     (case result of Ok results \<Rightarrow> [SchemeStatus (generateSchemeOkStatus def results)] | _ \<Rightarrow> [])
     @ reporter_published def (search_report E result)"

subsection \<open>What is published is what is reported\<close>

lemma inputs_loop_Err: "inputs_loop E td ins vals = Err e \<Longrightarrow> e = TemplateError \<or> e = RawInputError"
  by (induction E td ins vals rule: inputs_loop.induct) (auto simp: Let_def split: option.splits if_splits)

lemma map_res_Err: "map_res f x = Err e \<longleftrightarrow> x = Err e"
  by (cases x) auto

lemma createRequest_Err:
  assumes "createRequest E def q cats job session w = (Err e, w')"
  shows "e = TemplateError \<or> e = RawInputError \<or> e = TargetURLError"
proof -
  let ?td = "newSearchTemplateData q job cats"
  show ?thesis
  proof (cases "reTemplate E (searchPath (defSearch def)) ?td")
    case None
    with assms show ?thesis by (simp add: createRequest_def Let_def)
  next
    case (Some path)
    obtain u w1 where u: "seResolve (reSession E) path w = (u, w1)" by (cases "seResolve (reSession E) path w")
    show ?thesis
    proof (cases u)
      case None
      with assms Some u show ?thesis by (simp add: createRequest_def Let_def)
    next
      case (Some v)
      with assms \<open>reTemplate E _ _ = Some path\<close> u have "getURLValuesForSearch E (defSearch def) ?td = Err e"
        by (simp add: createRequest_def Let_def map_res_Err)
      then show ?thesis unfolding getURLValuesForSearch_def by (auto dest: inputs_loop_Err)
    qed
  qed
qed

lemma fetch_reports:
  assumes "fetch_rows E now q cats req job r w = (res, job', r', w')" "res \<noteq> Panic"
  shows "rnErrors r' = reporter_error now (search_report E res) (rnErrors r)"
  using assms unfolding fetch_rows_def
  by (auto simp: search_report_def note_error_def noteError_def
      split: res.splits prod.splits option.splits scrape_rows.splits)

lemma search_reports:
  assumes "runner_search E all_cats now q job r w = (res, job', r', w')" "res \<noteq> Panic"
  shows "rnErrors r' = reporter_error now (search_report E res) (rnErrors r)"
proof -
  obtain x m w1 where a: "acquire (reSession E) (rnSessions r) w = (x, m, w1)" by (metis prod_cases3)
  let ?r1 = "r\<lparr>rnSessions := m\<rparr>"
  show ?thesis
  proof (cases x)
    case Panic
    with a assms show ?thesis by (simp add: runner_search_def)
  next
    case (Err e)
    with a assms show ?thesis
      by (auto simp: runner_search_def search_report_def note_error_def noteError_def)
  next
    case (Ok session)
    let ?cats = "getLocalCategoriesMatchingQuery all_cats (qCategories q)
      (categoryMap (defCapabilities (rnDefinition r)))"
    obtain y w2 where c: "createRequest E (rnDefinition r) q ?cats job session w1 = (y, w2)"
      by (cases "createRequest E (rnDefinition r) q ?cats job session w1")
    show ?thesis
    proof (cases y)
      case Panic
      with a Ok c assms show ?thesis by (simp add: runner_search_def Let_def)
    next
      case (Err e)
      with a Ok c assms createRequest_Err [OF c [unfolded Err]] show ?thesis
        by (auto simp: runner_search_def Let_def search_report_def note_error_def noteError_def)
    next
      case (Ok req)
      with a \<open>x = Ok session\<close> c assms(1) have "fetch_rows E now q ?cats req job ?r1 w2 = (res, job', r', w')"
        by (simp add: runner_search_def Let_def)
      from fetch_reports [OF this assms(2)] show ?thesis by simp
    qed
  qed
qed

text \<open>C40: A search that does not panic publishes an error message last, with the type and error it notes in its
  list; a successful search publishes its status and then that it could not log in.\<close>

theorem every_search_publishes_an_error:
  assumes "runner_search E all_cats now q job r w = (res, job', r', w')" "res \<noteq> Panic"
  shows "(\<exists>code err. last (search_published E def res) = SchemeError (generateSchemeErrorStatus code err def)
           \<and> rnErrors r' = noteError now code err (rnErrors r) \<and> noted res err)
    \<and> (\<forall>results. res = Ok results \<longrightarrow> search_published E def res =
          [SchemeStatus (generateSchemeOkStatus def results),
           SchemeError (generateSchemeErrorStatus ''login'' None def)])"
proof -
  from assms(2) obtain rep where rep: "search_report E res = Some rep" "noted res (rptError rep)"
    by (cases res; cases "case res of Err e \<Rightarrow> e | _ \<Rightarrow> TemplateError")
      (auto simp: search_report_def newError_def noted_def)
  have "last (search_published E def res) = SchemeError (generateSchemeErrorStatus (rptType rep) (rptError rep) def)"
    by (simp add: search_published_def reporter_published_def rep)
  moreover have "rnErrors r' = noteError now (rptType rep) (rptError rep) (rnErrors r)"
    using search_reports [OF assms] by (cases rep) (simp add: rep noteError_def newError_def)
  moreover have "search_published E def res = [SchemeStatus (generateSchemeOkStatus def results),
      SchemeError (generateSchemeErrorStatus ''login'' None def)]" if "res = Ok results" for results
    by (simp add: that search_published_def search_report_def newError_def reporter_published_def)
  ultimately show ?thesis using rep(2) by blast
qed

theorem every_search_publishes_an_error_witness:
  "search_published sample_runner_env (sample_definition [] []) (Ok []) =
    [SchemeStatus (generateSchemeOkStatus (sample_definition [] []) ([] :: result_item list)),
     SchemeError (generateSchemeErrorStatus ''login'' None (sample_definition [] []))]"
proof -
  let ?run = "runner_search sample_runner_env [] 5 newQuery None sample_runner 0"
  have "fst ?run = Ok []" by code_simp
  then obtain job' r' w' where "?run = (Ok [], job', r', w')" by (metis prod.collapse)
  from every_search_publishes_an_error [OF this, of "sample_definition [] []"] show ?thesis by simp
qed

end
