(* ===== verification/SearchRuns.thy ===== *)
theory SearchRuns
  imports WorkpoolFacts ServerFacts
begin

text \<open>
  A search from the call of \<open>Facade.Search\<close> to the closed channel (\<open>indexer/facade.go\<close>,
  \<open>indexer/workpool.go\<close>), and the torznab feed made of it (\<open>server/torznab.go\<close>). Once the feeder has
  ended every schedule of the workers and the reader comes to an end, at which all that was stored has
  been delivered once; a page is delivered at most once, as the answer to its own job.
\<close>

subsection \<open>The end of a search\<close>

text \<open>The channel of results is closed when every worker has ended; the reader has ended when it is also
  empty.\<close>

definition channel_closed :: "pool \<Rightarrow> bool" where
  "channel_closed s \<longleftrightarrow> list_all (\<lambda>w. w = Gone) (workers s)"

definition search_over :: "pool \<Rightarrow> bool" where
  "search_over s \<longleftrightarrow> feeder s = FeedDone \<and> channel_closed s \<and> resultsChannel s = []"

text \<open>What is left to do for a worker, and after the feeder has ended for all: a job in the channel is at most
  five steps of a worker and one of the reader.\<close>

fun worker_rest :: "worker \<Rightarrow> nat" where
  "worker_rest Waiting = 1"
| "worker_rest (Got j) = 6"
| "worker_rest (Searching j) = 5"
| "worker_rest (Sending batch j) = 4"
| "worker_rest (Sent j) = 2"
| "worker_rest Gone = 0"

definition rest_of_search :: "pool \<Rightarrow> nat" where
  "rest_of_search s =
     6 * length (workChannel s) + sum_list (map worker_rest (workers s)) + length (resultsChannel s)"

lemma worker_rest_goto:
  assumes "n < length (workers s)"
  shows "sum_list (map worker_rest ((workers s)[n := w])) + worker_rest (workers s ! n) =
    sum_list (map worker_rest (workers s)) + worker_rest w"
  by (rule sum_list_replace [OF assms])

lemma work_step_rest:
  assumes "work_step answers n s t" "n < length (workers s)"
  shows "rest_of_search t < rest_of_search s \<and> feeder t = feeder s"
  using assms(1)
proof cases
  case (work_take j js)
  then show ?thesis using worker_rest_goto [OF assms(2), of "Got j"] by (simp add: rest_of_search_def goto_def)
next
  case work_ended
  then show ?thesis using worker_rest_goto [OF assms(2), of Gone] by (simp add: rest_of_search_def)
next
  case (work_break j)
  then show ?thesis using worker_rest_goto [OF assms(2), of Gone] by (simp add: rest_of_search_def)
next
  case (work_search j)
  then show ?thesis using worker_rest_goto [OF assms(2), of "Searching j"] by (simp add: rest_of_search_def goto_def)
next
  case (work_failed j e)
  then show ?thesis using worker_rest_goto [OF assms(2), of Waiting] by (simp add: rest_of_search_def)
next
  case (work_nothing j)
  then show ?thesis using worker_rest_goto [OF assms(2), of "Sent j"] by (simp add: rest_of_search_def)
next
  case (work_found j batch)
  then show ?thesis using worker_rest_goto [OF assms(2), of "Sending batch j"]
    by (simp add: rest_of_search_def goto_def update_iterator_def)
next
  case (work_send batch j)
  then show ?thesis using worker_rest_goto [OF assms(2), of "Sent j"] by (simp add: rest_of_search_def goto_def)
next
  case (work_stop j)
  then show ?thesis using worker_rest_goto [OF assms(2), of Gone] by (simp add: rest_of_search_def)
next
  case (work_on j)
  then show ?thesis using worker_rest_goto [OF assms(2), of Waiting] by (simp add: rest_of_search_def)
qed

lemma step_after_feeding:
  assumes "pool_step answers s t" "feeder s = FeedDone"
  shows "rest_of_search t < rest_of_search s \<and> feeder t = FeedDone"
  using assms(1)
proof cases
  case feed
  then show ?thesis using assms(2) by cases simp_all
next
  case (work n)
  then show ?thesis using work_step_rest assms(2) by auto
next
  case (receive r rs)
  then show ?thesis by (simp add: rest_of_search_def)
qed

text \<open>A worker that has not ended can go on, unless it waits for room in the channel of results; and then the
  reader can.\<close>

lemma worker_goes_on:
  assumes "n < length (workers s)" "workers s ! n \<noteq> Gone" "feeder s = FeedDone" "\<forall>j. \<exists>r. answers j r"
  shows "(\<exists>t. work_step answers n s t) \<or> resultsChannel s \<noteq> []"
proof (cases "workers s ! n")
  case Waiting
  then show ?thesis using assms(3) work_take [OF Waiting] work_ended [OF Waiting]
    by (cases "workChannel s") blast+
next
  case (Got j)
  then show ?thesis using work_break [OF Got] work_search [OF Got] by blast
next
  case (Searching j)
  obtain r where r: "answers j r" using assms(4) by blast
  show ?thesis
  proof (cases r)
    case (Inl e)
    then show ?thesis using work_failed [OF Searching] r by blast
  next
    case (Inr x)
    then show ?thesis using work_nothing [OF Searching] work_found [OF Searching] r by (cases x) blast+
  qed
next
  case (Sending batch j)
  have "0 < workerCount s" using assms(1) by (auto simp: workerCount_def)
  then show ?thesis using work_send [OF Sending] by (cases "resultsChannel s") auto
next
  case (Sent j)
  then show ?thesis using work_stop [OF Sent] work_on [OF Sent] by blast
qed (use assms(2) in simp)

lemma search_goes_on:
  assumes "feeder s = FeedDone" "\<not> search_over s" "\<forall>j. \<exists>r. answers j r"
  shows "\<exists>t. pool_step answers s t"
proof (cases "resultsChannel s")
  case (Cons r rs)
  then show ?thesis using pool_step.receive [OF assms(1)] by blast
next
  case Nil
  then obtain n where n: "n < length (workers s)" "workers s ! n \<noteq> Gone"
    using assms(1,2) by (auto simp: search_over_def channel_closed_def list_all_length)
  then show ?thesis using worker_goes_on [OF n assms(1,3)] Nil pool_step.work [OF n(1)] by blast
qed

lemma steps_after_feeding:
  assumes "(pool_step answers ^^ n) s t" "feeder s = FeedDone"
  shows "n + rest_of_search t \<le> rest_of_search s \<and> feeder t = FeedDone"
  using assms(1)
proof (induction n arbitrary: t)
  case (Suc n)
  then obtain u where u: "(pool_step answers ^^ n) s u" "pool_step answers u t" by auto
  from Suc.IH [OF u(1)] step_after_feeding [OF u(2)] show ?case by auto
qed (use assms(2) in simp)

subsection \<open>What is delivered\<close>

fun sending_of :: "worker \<Rightarrow> scrape_item list multiset" where
  "sending_of (Sending batch j) = {#batch#}"
| "sending_of _ = {#}"

fun busy_of :: "worker \<Rightarrow> worker_job multiset" where
  "busy_of (Searching j) = {#j#}"
| "busy_of _ = {#}"

text \<open>The batches found so far: those received, those in the channel and those a worker is about to send.\<close>

definition batches :: "pool \<Rightarrow> scrape_item list multiset" where
  "batches s = mset (received s) + mset (resultsChannel s) + sum_list (map sending_of (workers s))"

text \<open>Every batch has a job of its own that it answers, apart from the jobs being searched; and what was
  stored is what is in the batches.\<close>

definition accounted_jobs ::
    "(worker_job \<Rightarrow> string + scrape_item list option \<Rightarrow> bool) \<Rightarrow> pool \<Rightarrow> (worker_job \<times> scrape_item list) multiset \<Rightarrow> bool" where
  "accounted_jobs answers s M \<longleftrightarrow>
     image_mset fst M + sum_list (map busy_of (workers s)) \<subseteq># mset (searchedJobs s)
     \<and> image_mset snd M = batches s \<and> (\<forall>(j, batch)\<in>#M. answers j (Inr (Some batch)))
     \<and> mset (savedItems s) = (\<Sum>batch\<in>#batches s. mset batch)"

lemma busy_replace:
  assumes "n < length ws"
  shows "sum_list (map busy_of (ws[n := w])) + busy_of (ws ! n) = sum_list (map busy_of ws) + busy_of w"
    "sum_list (map sending_of (ws[n := w])) + sending_of (ws ! n) = sum_list (map sending_of ws) + sending_of w"
  by (rule sum_list_replace [OF assms])+

text \<open>A step of a worker that neither searches, finds nor sends leaves the account as it is.\<close>

lemma account_kept:
  assumes "accounted_jobs answers s M" "searchedJobs t = searchedJobs s" "savedItems t = savedItems s"
    and "sum_list (map busy_of (workers t)) \<subseteq># sum_list (map busy_of (workers s))" "batches t = batches s"
  shows "accounted_jobs answers t M"
proof -
  have "image_mset fst M + sum_list (map busy_of (workers t)) \<subseteq># image_mset fst M + sum_list (map busy_of (workers s))"
    using assms(4) by simp
  also have "\<dots> \<subseteq># mset (searchedJobs s)" using assms(1) by (simp add: accounted_jobs_def)
  finally show ?thesis using assms(1-3,5) by (simp add: accounted_jobs_def)
qed

lemma work_step_account:
  assumes "work_step answers n s t" "n < length (workers s)" "accounted_jobs answers s M"
  shows "\<exists>M'. accounted_jobs answers t M'"
proof -
  note b = busy_replace [OF assms(2)]
  have idle: "\<exists>M'. accounted_jobs answers t M'"
    if "workers t = (workers s)[n := w]" "busy_of w = {#}" "sending_of w = sending_of (workers s ! n)"
      "searchedJobs t = searchedJobs s" "savedItems t = savedItems s" "received t = received s"
      "resultsChannel t = resultsChannel s" for w
  proof -
    have "sum_list (map busy_of (workers t)) \<subseteq># sum_list (map busy_of (workers s))"
      using b(1) [of w] that(1,2) by (metis add_0_right mset_subset_eq_add_left)
    moreover have "batches t = batches s" using b(2) [of w] that by (simp add: batches_def)
    ultimately show ?thesis using account_kept [OF assms(3)] that by blast
  qed
  show ?thesis
    using assms(1)
  proof cases
    case (work_take j js)
    then show ?thesis by (intro idle [of "Got j"]) (simp_all add: goto_def)
  next
    case work_ended
    then show ?thesis by (intro idle [of Gone]) (simp_all add: goto_def)
  next
    case (work_break j)
    then show ?thesis by (intro idle [of Gone]) (simp_all add: goto_def)
  next
    case (work_search j)
    have "accounted_jobs answers t M"
      using assms(3) b(1) [of "Searching j"] b(2) [of "Searching j"] work_search
      by (simp add: accounted_jobs_def goto_def batches_def)
    then show ?thesis by blast
  next
    case (work_failed j e)
    then show ?thesis by (intro idle [of Waiting]) (simp_all add: goto_def)
  next
    case (work_nothing j)
    then show ?thesis by (intro idle [of "Sent j"]) (simp_all add: goto_def update_iterator_def)
  next
    case (work_found j batch)
    have w: "batches t = add_mset batch (batches s)"
      "sum_list (map busy_of (workers s)) = add_mset j (sum_list (map busy_of (workers t)))"
      "savedItems t = savedItems s @ batch" "searchedJobs t = searchedJobs s"
      using b(1) [of "Sending batch j"] b(2) [of "Sending batch j"] work_found
      by (simp_all add: batches_def goto_def update_iterator_def)
    then have "accounted_jobs answers t (add_mset (j, batch) M)"
      using assms(3) work_found by (simp add: accounted_jobs_def ac_simps)
    then show ?thesis by blast
  next
    case (work_send batch j)
    have "batches t = batches s" "sum_list (map busy_of (workers t)) = sum_list (map busy_of (workers s))"
      using b(1) [of "Sent j"] b(2) [of "Sent j"] work_send by (simp_all add: batches_def goto_def)
    then show ?thesis using account_kept [OF assms(3), of t] work_send by (auto simp: goto_def)
  next
    case (work_stop j)
    then show ?thesis by (intro idle [of Gone]) (simp_all add: goto_def)
  next
    case (work_on j)
    then show ?thesis by (intro idle [of Waiting]) (simp_all add: goto_def)
  qed
qed

lemma pool_step_account:
  assumes "pool_step answers s t" "accounted_jobs answers s M"
  shows "\<exists>M'. accounted_jobs answers t M'"
  using assms(1)
proof cases
  case feed
  then have "searchedJobs t = searchedJobs s \<and> savedItems t = savedItems s \<and> workers t = workers s \<and> batches t = batches s"
    by cases (simp_all add: batches_def)
  then show ?thesis using account_kept [OF assms(2), of t] by auto
next
  case (work n)
  then show ?thesis using work_step_account assms(2) by blast
next
  case (receive r rs)
  then have "batches t = batches s" by (simp add: batches_def)
  then show ?thesis using account_kept [OF assms(2), of t] receive by auto
qed

lemma sum_empty [simp]: "sum_list (replicate k {#}) = {#}"
  by (induction k) simp_all

lemma run_account:
  assumes "pool_run answers s t" "createWorkerPool m q w = Some s"
  shows "\<exists>M. accounted_jobs answers t M"
  using assms
proof (induction rule: pool_run.induct)
  case (start s)
  then have "accounted_jobs answers s {#}"
    using start by (auto simp: createWorkerPool_def accounted_jobs_def batches_def split: if_splits)
  then show ?case by blast
next
  case (step s t u)
  then show ?case using pool_step_account by blast
qed

lemma no_sending: "channel_closed s \<Longrightarrow> sum_list (map sending_of (workers s)) = {#}"
proof -
  have "list_all (\<lambda>w. w = Gone) ws \<Longrightarrow> sum_list (map sending_of ws) = {#}" for ws
    by (induction ws) simp_all
  then show "channel_closed s \<Longrightarrow> ?thesis" by (simp add: channel_closed_def)
qed

lemma batches_over: "search_over s \<Longrightarrow> batches s = mset (received s)"
  by (simp add: search_over_def batches_def no_sending)

lemma concat_batches: "(\<Sum>rs\<in>#mset rss. mset rs) = mset (concat rss)"
  by (induction rss) simp_all

subsection \<open>Schedules that are carried out\<close>

text \<open>A step of each goroutine as a function, where an index answers a job with \<open>reply\<close>.\<close>

definition feed_act :: "nat list \<Rightarrow> pool \<Rightarrow> pool option" where
  "feed_act order s =
     (case feeder s of
        FeedLoop \<Rightarrow>
          if pool_isComplete s then Some (s\<lparr>feeder := FeedDone\<rparr>)
          else if sort order = [0..<length (iterators s)] then Some (s\<lparr>feeder := FeedRange order\<rparr>) else None
      | FeedRange [] \<Rightarrow> Some (s\<lparr>feeder := FeedLoop\<rparr>)
      | FeedRange (i # is) \<Rightarrow>
          if iter_isComplete (iterators s ! i) \<or> pool_isComplete s then Some (s\<lparr>feeder := FeedRange is\<rparr>)
          else let ((fs, page), it) = iter_next (iterators s ! i)
               in Some (s\<lparr>iterators := (iterators s)[i := it], feeder := FeedSend (newWorkerJob i fs page) is\<rparr>)
      | FeedSend j is \<Rightarrow>
          if length (workChannel s) < workerCount s
          then Some (s\<lparr>workChannel := workChannel s @ [j], feeder := FeedRange is\<rparr>) else None
      | FeedDone \<Rightarrow> None)"

definition work_act ::
    "(worker_job \<Rightarrow> string + scrape_item list option) \<Rightarrow> nat \<Rightarrow> pool \<Rightarrow> pool option" where
  "work_act reply n s =
     (case workers s ! n of
        Waiting \<Rightarrow>
          (case workChannel s of
             j # js \<Rightarrow> Some (goto n (Got j) (s\<lparr>workChannel := js\<rparr>))
           | [] \<Rightarrow> if feeder s = FeedDone then Some (goto n Gone s) else None)
      | Got j \<Rightarrow>
          if pool_isComplete s \<or> job_complete s j then Some (goto n Gone s)
          else Some (goto n (Searching j) (s\<lparr>searchedJobs := searchedJobs s @ [j]\<rparr>))
      | Searching j \<Rightarrow>
          Some (case reply j of
             Inl _ \<Rightarrow> goto n Waiting s
           | Inr None \<Rightarrow> goto n (Sent j) (update_iterator (jobIndex j) (updateIteratorState []) s)
           | Inr (Some batch) \<Rightarrow> goto n (Sending batch j)
               (update_iterator (jobIndex j) (updateIteratorState (map isNew batch))
                 (s\<lparr>savedItems := savedItems s @ batch\<rparr>)))
      | Sending batch j \<Rightarrow>
          if length (resultsChannel s) < workerCount s
          then Some (goto n (Sent j) (s\<lparr>resultsChannel := resultsChannel s @ [batch]\<rparr>)) else None
      | Sent j \<Rightarrow> Some (goto n (if job_complete s j then Gone else Waiting) s)
      | Gone \<Rightarrow> None)"

datatype pool_act = Feed "nat list" | Work nat | Receive

fun pool_do :: "(worker_job \<Rightarrow> string + scrape_item list option) \<Rightarrow> pool_act \<Rightarrow> pool \<Rightarrow> pool option" where
  "pool_do reply (Feed order) s = feed_act order s"
| "pool_do reply (Work n) s = (if n < length (workers s) then work_act reply n s else None)"
| "pool_do reply Receive s =
     (case resultsChannel s of
        r # rs \<Rightarrow> if feeder s = FeedDone then Some (s\<lparr>resultsChannel := rs, received := received s @ [r]\<rparr>) else None
      | [] \<Rightarrow> None)"

fun pool_schedule ::
    "(worker_job \<Rightarrow> string + scrape_item list option) \<Rightarrow> pool_act list \<Rightarrow> pool \<Rightarrow> pool option" where
  "pool_schedule reply [] s = Some s"
| "pool_schedule reply (a # as) s = Option.bind (pool_do reply a s) (pool_schedule reply as)"

lemma feed_act_step: "feed_act order s = Some t \<Longrightarrow> feed_step s t"
  using feed_close [of s] feed_range [of s order] feed_again [of s] feed_skip [of s] feed_next [of s] feed_send [of s]
  by (auto simp: feed_act_def Let_def split: feeder.splits list.splits if_splits prod.splits)
    (metis mset_sort mset_upt)

lemma work_act_step: "work_act reply n s = Some t \<Longrightarrow> work_step (\<lambda>j r. r = reply j) n s t"
  unfolding work_act_def
  by (auto split: worker.splits list.splits if_splits sum.splits option.splits intro: work_step.intros)

lemma pool_do_step: "pool_do reply a s = Some t \<Longrightarrow> pool_step (\<lambda>j r. r = reply j) s t"
  by (cases a) (auto split: if_splits list.splits intro: pool_step.intros feed_act_step work_act_step)

lemma schedule_steps:
  "pool_schedule reply as s = Some t \<Longrightarrow> (pool_step (\<lambda>j r. r = reply j) ^^ length as) s t"
proof (induction as arbitrary: s)
  case (Cons a as)
  then obtain u where "pool_do reply a s = Some u" "pool_schedule reply as u = Some t" by (auto split: Option.bind_splits)
  with Cons.IH [of u] pool_do_step show ?case by (auto simp del: relpowp.simps intro!: relpowp_Suc_I2)
qed simp

lemma schedule_run:
  assumes "pool_schedule reply as s = Some t" "pool_run (\<lambda>j r. r = reply j) s0 s"
  shows "pool_run (\<lambda>j r. r = reply j) s0 t"
  using assms
proof (induction as arbitrary: s)
  case (Cons a as)
  then obtain u where u: "pool_do reply a s = Some u" "pool_schedule reply as u = Some t" by (auto split: Option.bind_splits)
  show ?case by (rule Cons.IH [OF u(2) pool_run.step [OF Cons.prems(2) pool_do_step [OF u(1)]]])
qed simp

subsection \<open>The answer of a search\<close>

text \<open>A search of the facade by one run of its pool: the error of its start, or the batches that are read from
  the channel until it is closed. The reader sees an item as the scraped item in it.\<close>

definition found_by_pool ::
    "facade_config \<Rightarrow> (string \<Rightarrow> string option) \<Rightarrow> (worker_job \<Rightarrow> string + scrape_item list option \<Rightarrow> bool) \<Rightarrow>
     query \<Rightarrow> facade \<Rightarrow> (string, result_item list list) res \<Rightarrow> bool" where
  "found_by_pool cf setKey answers q f found \<longleftrightarrow>
     (case fst (facade_search cf setKey q f) of
        Panic \<Rightarrow> found = Panic
      | Err e \<Rightarrow> found = Err e
      | Ok s \<Rightarrow> \<exists>t pages. pool_run answers s t \<and> search_over t \<and> found = Ok pages
          \<and> map (map asScrapeItem) pages = received t)"

definition without_link :: "scrape_item \<Rightarrow> scrape_item" where
  "without_link i = i\<lparr>itLink := []\<rparr>"

lemma rewrite_item_keeps:
  "rewrite_item V now key root item = Some item' \<Longrightarrow> without_link (asScrapeItem item') = without_link (asScrapeItem item)"
  by (auto simp: rewrite_item_def without_link_def Let_def split: if_splits)

lemma rewrite_loop_keeps:
  assumes "\<And>i j. f i = Some j \<Longrightarrow> g j = g i"
  shows "rewrite_loop f is = Some js \<Longrightarrow> map g js = map g is"
  using assms by (induction "is" arbitrary: js) (auto split: option.splits)

lemma rewriteLinks_keeps:
  assumes "rewriteLinks V p r results = Ok results'"
  shows "map (without_link \<circ> asScrapeItem) results' = map (without_link \<circ> asScrapeItem) results"
proof -
  obtain root where l: "rewrite_loop (rewrite_item V (rqNow r) (sharedKey (svSha1 V) (rqRandom r) p) root) results = Some results'"
    using assms by (auto simp: rewriteLinks_def of_error_def split: option.splits)
  show ?thesis by (rule rewrite_loop_keeps [OF _ l]) (simp add: rewrite_item_keeps)
qed

lemma saved_is_received:
  assumes "accounted_jobs answers t M" "search_over t"
  shows "mset (savedItems t) = mset (concat (received t))"
  using assms batches_over [OF assms(2)] by (simp add: accounted_jobs_def concat_batches)

lemma ordered_preimage:
  "image_mset g M = mset ys \<Longrightarrow> \<exists>xs. mset xs = M \<and> map g xs = ys"
proof (induction ys arbitrary: M)
  case (Cons y ys)
  then obtain x N where x: "M = add_mset x N" "g x = y" "image_mset g N = mset ys"
    by (auto dest!: msed_map_invR)
  from Cons.IH [OF x(3)] obtain xs where "mset xs = N" "map g xs = ys" by blast
  with x show ?case by (intro exI [of _ "x # xs"]) simp
qed simp

lemma searched_once:
  assumes "createWorkerPool m q w = Some s" "qFields q = []" "0 < pages q" "pool_run answers s t"
    and "mset js \<subseteq># mset (searchedJobs t)"
  shows "distinct (map (job_place q) js)"
proof -
  have "once (image_mset (job_place q) (jobs_of t))"
    using run_paging [OF assms(4) create_paging [OF assms(1,2)] assms(3)] by (simp only: paging_def)
  moreover have "mset js \<subseteq># jobs_of t"
    using assms(5) by (rule subset_mset.order_trans) (simp add: jobs_of_def add.assoc)
  ultimately have "once (mset (map (job_place q) js))" using once_image_mono by fastforce
  then show ?thesis by (rule once_distinct)
qed

subsection \<open>A search over two pages\<close>

definition sample_found :: scrape_item where
  "sample_found = empty_scrape_item\<lparr>itLink := ''u/8'', isNew := True, itIndexer := Some \<lparr>riID = [], riName = ''n''\<rparr>\<rparr>"

definition sample_reply :: "worker_job \<Rightarrow> string + scrape_item list option" where
  "sample_reply j = Inr (Some [sample_found])"

abbreviation sample_answers :: "worker_job \<Rightarrow> string + scrape_item list option \<Rightarrow> bool" where
  "sample_answers \<equiv> \<lambda>j r. r = sample_reply j"

text \<open>The first page is searched while the feeder is still at work; the reader comes after it.\<close>

definition fed_schedule :: "pool_act list" where
  "fed_schedule = [Feed [0], Feed [], Feed [], Work 0, Work 0, Work 0, Work 0, Feed [], Feed [0], Feed [], Feed [],
     Feed [], Feed []]"

definition sample_created :: pool where
  "sample_created = the (createWorkerPool 1 (page_query 2) 1)"

definition sample_fed :: pool where
  "sample_fed = the (pool_schedule sample_reply fed_schedule sample_created)"

definition sample_over :: pool where
  "sample_over = the (pool_schedule sample_reply [Work 0, Receive] sample_fed)"

lemma sample_search_facts:
  "createWorkerPool 1 (page_query 2) 1 = Some sample_created"
  "pool_schedule sample_reply fed_schedule sample_created = Some sample_fed"
  "pool_schedule sample_reply [Work 0, Receive] sample_fed = Some sample_over"
  "feeder sample_fed = FeedDone" "search_over sample_over" "received sample_over = [[sample_found]]"
  "savedItems sample_over = [sample_found]" "rest_of_search sample_fed = 9"
proof -
  have o: "createWorkerPool 1 (page_query 2) 1 \<noteq> None" "pool_schedule sample_reply fed_schedule sample_created \<noteq> None"
    "pool_schedule sample_reply [Work 0, Receive] sample_fed \<noteq> None"
    by code_simp+
  show "createWorkerPool 1 (page_query 2) 1 = Some sample_created"
    "pool_schedule sample_reply fed_schedule sample_created = Some sample_fed"
    "pool_schedule sample_reply [Work 0, Receive] sample_fed = Some sample_over"
    using o by (auto simp: sample_created_def sample_fed_def sample_over_def)
  show "feeder sample_fed = FeedDone" "search_over sample_over" "received sample_over = [[sample_found]]"
    "savedItems sample_over = [sample_found]" "rest_of_search sample_fed = 9"
    by code_simp+
qed

lemma sample_search_run: "pool_run sample_answers sample_created sample_over"
  by (rule schedule_run [OF sample_search_facts(3) schedule_run [OF sample_search_facts(2) pool_run.start]])

lemma sample_query_paged: "qFields (page_query 2) = []" "0 < pages (page_query 2)"
  by (simp_all add: page_query_def newQuery_def pages_def)

subsection \<open>Properties\<close>

text \<open>C6: Once \<open>Facade.Search\<close> has handed out the channel, the search comes to an end in every schedule of the
  workers and the reader, whatever the indexes answer: no schedule has more steps than are left to do, and
  one can only stop where the channel is closed and read to its end. So a search that blocks does so before.\<close>

theorem handed_out_search_ends:
  assumes "feeder s = FeedDone" "\<forall>j. \<exists>r. answers j r" "(pool_step answers ^^ n) s t"
  shows "n + rest_of_search t \<le> rest_of_search s \<and> ((\<exists>u. pool_step answers t u) \<longleftrightarrow> \<not> search_over t)"
proof -
  note f = steps_after_feeding [OF assms(3,1)]
  have "\<not> pool_step answers t u" if o: "search_over t" for u
  proof
    assume "pool_step answers t u"
    then show False
    proof cases
      case feed
      then show False using o by cases (simp_all add: search_over_def)
    next
      case (work n)
      then have "workers t ! n = Gone" using o by (simp add: search_over_def channel_closed_def list_all_length)
      with work(2) show False by cases simp_all
    qed (use o in \<open>simp add: search_over_def\<close>)
  qed
  then show ?thesis using f search_goes_on [OF _ _ assms(2), of t] by blast
qed

theorem handed_out_search_ends_witness:
  "(pool_step sample_answers ^^ 2) sample_fed sample_over \<and> (\<nexists>u. pool_step sample_answers sample_over u)
    \<and> 2 + rest_of_search sample_over \<le> 9"
proof -
  have r: "(pool_step sample_answers ^^ 2) sample_fed sample_over"
    using schedule_steps [OF sample_search_facts(3)] by (simp add: numeral_2_eq_2)
  have a: "\<forall>j. \<exists>r. sample_answers j r" by blast
  from handed_out_search_ends [OF sample_search_facts(4) a r] r sample_search_facts(5,8) show ?thesis by simp
qed




definition feed_handler_env :: "nat handler_env" where
  "feed_handler_env = sample_handler_env\<lparr>hvSearch := (\<lambda>f q w. (Ok [[ScrapeResult sample_found]], Suc w))\<rparr>"

definition feed_server :: "nat server" where
  "feed_server = sample_server\<lparr>srFacade := (srFacade sample_server)\<lparr>fcIndexes := [0], fcStorage := Some ''s''\<rparr>\<rparr>"


end
