(* ===== verification/StoreTable.thy ===== *)
theory StoreTable
  imports KeyedStorage SearchIterator
begin

text \<open>
  The keyed storage over bolt as a map from the values of its key to records
  (\<open>storage/keyedStorage.go\<close>, \<open>storage/bolt/boltStorageBacking.go\<close>), and \<open>saveDiscoveredItems\<close> of
  \<open>indexer/workpool.go\<close>, which adds the items of a page one after the other: every accepted \<open>Add\<close> changes the
  map at the key of its item and nowhere else, whatever buckets, IDs and sequences are behind it.
\<close>

subsection \<open>IDs\<close>

lemma char_of_byte: "char_of (a :: nat) = (char_of b :: char) \<longleftrightarrow> a mod 256 = b mod 256"
  by (metis char_of_mod_256 of_char_of)

lemma id_bytes_inject: "id_bytes m = id_bytes n \<longleftrightarrow> m = n"
proof
  assume e: "id_bytes m = id_bytes n"
  have byte: "bit m (k + r) = bit n (k + r)" if "k \<in> {24, 16, 8, 0}" "r < 8" for k r
  proof -
    have "unat (drop_bit k m) mod 256 = unat (drop_bit k n) mod 256"
      using e that(1) by (auto simp: id_bytes_def char_of_byte)
    then have "take_bit 8 (unat (drop_bit k m)) = take_bit 8 (unat (drop_bit k n))" by (simp add: take_bit_eq_mod)
    then have "bit (unat (drop_bit k m)) r = bit (unat (drop_bit k n)) r"
      using that(2) by (metis bit_take_bit_iff)
    then show ?thesis by (simp add: bit_unsigned_iff bit_drop_bit_eq)
  qed
  show "m = n"
  proof (rule bit_word_eqI)
    fix i
    assume "i < LENGTH(32)"
    then have "i div 8 = 0 \<or> i div 8 = 1 \<or> i div 8 = 2 \<or> i div 8 = 3" by (simp, linarith)
    then have "8 * (i div 8) \<in> {24, 16, 8, 0}" by auto
    from byte [OF this, of "i mod 8"] show "bit m i = bit n i" by simp
  qed
qed simp

subsection \<open>Sequences\<close>

lemma put_seq:
  assumes "bolt_laws B" "db_put B p k v d = (ok, d')"
  shows "db_seq B q d' = db_seq B q d"
  using put_law [OF assms(1), where p = p and k = k and v = v and d = d] assms(2)
  by (cases "q = p") (auto simp: same_items_def split: if_splits)

lemma of_bolt_put_seq: "bolt_laws B \<Longrightarrow> of_bolt (db_put B p k v d) = TxOk u d' \<Longrightarrow> db_seq B q d' = db_seq B q d"
  by (cases "db_put B p k v d") (auto simp: of_bolt_ok dest: put_seq)

lemma ui_add_seq: "bolt_laws B \<Longrightarrow> ui_add B ix (Some v) (Some n) d = TxOk u d' \<Longrightarrow> db_seq B q d' = db_seq B q d"
  by (auto simp: ui_add_cases dest: of_bolt_put_seq split: option.splits if_splits)

lemma push_seq:
  assumes L: "bolt_laws B" and "pushToLatestItems B (Some v) d = TxOk u d'" and q: "q \<noteq> [latestResultsBucketName]"
  shows "db_seq B q d' = db_seq B q d"
proof -
  obtain b d1 k d2 where a: "create_if_missing B [] latestResultsBucketName d = (True, d1)"
    and p: "of_bolt (db_put B b k v d1) = TxOk () d2" "of_bolt (db_put B b latestResultsIndexKey k d2) = TxOk u d'"
    using assms(2) by (auto simp: pushToLatestItems_def assertBucket_def tx_bind_ok Let_def split: prod.splits bool.splits)
  have "db_seq B q d1 = db_seq B q d"
    using create_law [OF L, where p = "[]" and n = latestResultsBucketName and d = d] a q
    by (cases "q = []") (auto simp: create_if_missing_def same_items_def split: if_splits)
  then show ?thesis using of_bolt_put_seq [OF L p(1)] of_bolt_put_seq [OF L p(2)] by simp
qed

subsection \<open>The map and its invariant\<close>

definition record_table :: "'d db_ops \<Rightarrow> string \<Rightarrow> 'd storage \<Rightarrow> string \<Rightarrow> string option" where
  "record_table B f s v =
     Option.bind (bucket_get B (index_path s f) v (stDb s)) (\<lambda>b. bucket_get B (results_path s) b (stDb s))"

text \<open>The buckets of the namespace and the index are there, an entry of the index leads to a record whose ID has
  been given out, and no two to the same.\<close>

definition table_ok :: "'d db_ops \<Rightarrow> string \<Rightarrow> 'd storage \<Rightarrow> bool" where
  "table_ok B f s \<longleftrightarrow>
     (\<forall>i. 0 < i \<and> i \<le> Suc (length (rootBucket s)) \<longrightarrow> bucket_exists B (take i (results_path s)) (stDb s))
     \<and> bucket_exists B (index_path s f) (stDb s)
     \<and> (\<forall>v b. bucket_get B (index_path s f) v (stDb s) = Some b \<longrightarrow>
          bucket_get B (results_path s) b (stDb s) \<noteq> None
          \<and> (\<exists>n. 0 < n \<and> n \<le> db_seq B (results_path s) (stDb s) \<and> b = id_bytes (word_of_nat n)))
     \<and> (\<forall>v w b. bucket_get B (index_path s f) v (stDb s) = Some b \<longrightarrow>
          bucket_get B (index_path s f) w (stDb s) = Some b \<longrightarrow> v = w)"

definition record_count :: "'d db_ops \<Rightarrow> 'd storage \<Rightarrow> nat" where
  "record_count B s = db_seq B (results_path s) (stDb s)"

lemma table_cong:
  assumes "stDb t = stDb s" "rootBucket t = rootBucket s"
  shows "record_table B f t = record_table B f s" "table_ok B f t = table_ok B f s" "record_count B t = record_count B s"
  using assms by (simp_all add: record_table_def table_ok_def record_count_def index_path_def results_path_def fun_eq_iff)

lemma table_bucket:
  assumes "table_ok B f s"
  shows "getBucket B (rootBucket s) [namespaceResultsBucketName] (stDb s) = Some (results_path s)"
  unfolding getBucket_def results_path_def [symmetric]
  by (rule getRootBucket_exists) (use assms in \<open>auto simp: table_ok_def results_path_def\<close>)

lemma table_stored:
  assumes "table_ok B f s" "record_table B f s v = Some bytes"
  shows "\<exists>b. stored_at B f v b bytes s"
  using assms table_bucket [OF assms(1)] by (auto simp: record_table_def stored_at_def table_ok_def Option.bind_eq_Some_conv)

lemma table_entry:
  assumes "table_ok B f s" "bucket_get B (index_path s f) w (stDb s) = Some c"
  shows "bucket_get B (results_path s) c (stDb s) \<noteq> None"
    "\<exists>m. 0 < m \<and> m \<le> record_count B s \<and> c = id_bytes (word_of_nat m)"
  using assms unfolding table_ok_def record_count_def by blast+

lemma table_inj:
  assumes "table_ok B f s" "bucket_get B (index_path s f) v (stDb s) = Some c" "bucket_get B (index_path s f) w (stDb s) = Some c"
  shows "v = w"
  using assms unfolding table_ok_def by blast

lemma table_None:
  "table_ok B f s \<Longrightarrow> record_table B f s v = None \<longleftrightarrow> bucket_get B (index_path s f) v (stDb s) = None"
  by (cases "bucket_get B (index_path s f) v (stDb s)") (auto simp: record_table_def table_ok_def)

text \<open>Looking up does not change the database once the index is there.\<close>

lemma find_in_table:
  assumes "table_ok B f s" "getIndexValueFromQuery [(f, w)] = Some v"
  shows "fst (storage_find B C (Some [(f, w)]) result s) =
      (case record_table B f s v of None \<Rightarrow> OpError NotFound
       | Some bytes \<Rightarrow> (case unmarshalAt C (Some bytes) result of None \<Rightarrow> OpError MarshalError | Some r \<Rightarrow> OpOk r))"
    "stDb (snd (storage_find B C (Some [(f, w)]) result s)) = stDb s"
    "rootBucket (snd (storage_find B C (Some [(f, w)]) result s)) = rootBucket s"
proof -
  let ?p = "results_path s"
  have e: "bucket_exists B (?p @ [indexPrefix @ f]) (stDb s)" using assms(1) by (simp add: table_ok_def index_path_def)
  obtain m' where x: "getIndex B C False (Some ?p) KindUnique f (stMeta s, ()) (stDb s) =
      (TxOk (UniqueIx (?p @ [indexPrefix @ f])) (stDb s), m')"
    using view_getIndex [OF e] by blast
  note ev = getFromIndexedQuery_def assms(2) table_bucket [OF assms(1)] tx_then_def getIndexFromQuery_def
    index_name_single x getRecordByIndexOrDefault_def tx_lift_def getByIndex_def index_first_def ui_all_def
  have look: "getFromIndexedQuery B C False (rootBucket s) namespaceResultsBucketName [(f, w)] result (stMeta s, ()) (stDb s) =
      ((case record_table B f s v of None \<Rightarrow> TxError NotFound
        | Some bytes \<Rightarrow> (case unmarshalAt C (Some bytes) result of None \<Rightarrow> TxError MarshalError | Some r \<Rightarrow> TxOk r (stDb s))), m')"
  proof (cases "record_table B f s v")
    case None
    then have "bucket_get B (?p @ [indexPrefix @ f]) v (stDb s) = None"
      using table_None [OF assms(1)] by (simp add: index_path_def)
    then show ?thesis using None by (simp add: ev)
  next
    case (Some bytes)
    then obtain b where "bucket_get B (?p @ [indexPrefix @ f]) v (stDb s) = Some b" "bucket_get B ?p b (stDb s) = Some bytes"
      by (auto simp: record_table_def index_path_def Option.bind_eq_Some_conv)
    then show ?thesis using Some by (simp add: ev decode_into_def split: option.splits)
  qed
  then have f: "storage_find B C (Some [(f, w)]) result s =
      ((case record_table B f s v of None \<Rightarrow> OpError NotFound
       | Some bytes \<Rightarrow> (case unmarshalAt C (Some bytes) result of None \<Rightarrow> OpError MarshalError | Some r \<Rightarrow> OpOk r)),
       s\<lparr>stMeta := fst m'\<rparr>)"
    by (cases m') (auto simp: storage_find_def Let_def dbView_def split: option.splits)
  show "fst (storage_find B C (Some [(f, w)]) result s) =
      (case record_table B f s v of None \<Rightarrow> OpError NotFound
       | Some bytes \<Rightarrow> (case unmarshalAt C (Some bytes) result of None \<Rightarrow> OpError MarshalError | Some r \<Rightarrow> OpOk r))"
    "stDb (snd (storage_find B C (Some [(f, w)]) result s)) = stDb s"
    "rootBucket (snd (storage_find B C (Some [(f, w)]) result s)) = rootBucket s"
    by (simp_all only: f fst_conv snd_conv) simp_all
qed

subsection \<open>Writing a record\<close>

text \<open>Where the buckets are there, a transaction that writes goes on in the same database.\<close>

lemma assert_existing:
  assumes "\<And>i. 0 < i \<Longrightarrow> i \<le> length ns \<Longrightarrow> bucket_exists B (p @ take i ns) d"
  shows "assert_loop B p ns d = TxOk (p @ ns) d"
  using assms
proof (induction ns arbitrary: p)
  case (Cons n ns)
  have "bucket_exists B (p @ [n]) d" using Cons.prems [of 1] by simp
  moreover have "assert_loop B (p @ [n]) ns d = TxOk ((p @ [n]) @ ns) d"
    by (rule Cons.IH) (use Cons.prems [of "Suc i" for i] in simp)
  ultimately show ?case by (simp add: create_if_missing_def)
qed simp

lemma table_assert:
  assumes "table_ok B f s"
  shows "assertNamespaceBucket B True (rootBucket s) namespaceResultsBucketName (stDb s) = TxOk (results_path s) (stDb s)"
proof -
  have "assert_loop B [] (results_path s) (stDb s) = TxOk ([] @ results_path s) (stDb s)"
    by (rule assert_existing) (use assms in \<open>simp add: table_ok_def results_path_def\<close>)
  then show ?thesis
    by (simp add: assertNamespaceBucket_def assertBucket_def results_path_def namespaceResultsBucketName_def)
qed

lemma table_index:
  assumes "bolt_laws B" "table_ok B f s" "getIndex B C True (Some (results_path s)) KindUnique f m (stDb s) = (TxOk x d, m')"
  shows "x = UniqueIx (index_path s f)" "frame B {(results_path s, metaBucketName)} (stDb s) d"
    "db_seq B (results_path s) d = record_count B s" "snd m' = snd m"
proof -
  note g = getIndex_ok [OF assms(1,3)]
  show "x = UniqueIx (index_path s f)" "frame B {(results_path s, metaBucketName)} (stDb s) d" "snd m' = snd m"
    using g(1,2,4) by (simp_all add: index_path_def)
  have e: "bucket_exists B (results_path s @ [indexPrefix @ f]) (stDb s)" using assms(2) by (simp add: table_ok_def index_path_def)
  obtain meta i where m: "m = (meta, i)" by (cases m)
  have "d = stDb s \<or> (\<exists>meta'. d = saveMetadata B C True (results_path s) meta' (stDb s))"
    using assms(3) e unfolding m
    by (auto simp: getIndex_def tx_then_ok tx_lift_ok open_index_def tx_bind_ok newUniqueIndex_def split: prod.splits bool.splits)
  moreover have "db_seq B q (saveMetadata B C True p meta' d) = db_seq B q d" for q p meta' d
    using put_seq [OF assms(1)] by (cases "db_put B p metaBucketName (metadataBytes C meta') d") (simp add: saveMetadata_def)
  ultimately show "db_seq B (results_path s) d = record_count B s" by (auto simp: record_count_def)
qed

text \<open>What changes the entry of a value, its record, the metadata and the latest results only, and leads the value
  to an ID nothing else leads to, changes the map at the value.\<close>

lemma table_write:
  assumes t: "table_ok B f s" and r: "rootBucket t = rootBucket s"
    and fr: "frame B ({(results_path s, metaBucketName), (index_path s f, v), (results_path s, b)} \<union> {[latestResultsBucketName]} \<times> UNIV)
      (stDb s) (stDb t)"
    and g: "bucket_get B (index_path s f) v (stDb t) = Some b" "bucket_get B (results_path s) b (stDb t) = Some bytes"
    and n: "record_count B s \<le> record_count B t" "0 < n" "n \<le> record_count B t" "b = id_bytes (word_of_nat n)"
    and own: "\<And>w. bucket_get B (index_path s f) w (stDb s) = Some b \<Longrightarrow> w = v"
  shows "table_ok B f t \<and> record_table B f t = (record_table B f s)(v \<mapsto> bytes)"
proof -
  let ?p = "results_path s" and ?ix = "index_path s f"
  have p: "results_path t = ?p" "index_path t f = ?ix" by (simp_all add: results_path_def index_path_def r)
  have ne: "?ix \<noteq> ?p" "[latestResultsBucketName] \<noteq> ?ix" "[latestResultsBucketName] \<noteq> ?p"
    by (auto simp: index_path_def results_path_def latestResultsBucketName_def namespaceResultsBucketName_def)
  have ix: "bucket_get B ?ix w (stDb t) = (if w = v then Some b else bucket_get B ?ix w (stDb s))" for w
    using g(1) frame_get [OF fr, of ?ix w] ne by auto
  have rec: "bucket_get B ?p c (stDb t) = (if c = b then Some bytes else bucket_get B ?p c (stDb s))"
    if "c = id_bytes m" for c m
    using g(2) frame_get [OF fr, of ?p c] ne id_bytes_neq_meta that by auto
  note old = table_entry [OF t] and inj = table_inj [OF t]
  have "record_table B f t w = ((record_table B f s)(v \<mapsto> bytes)) w" for w
  proof (cases "bucket_get B ?ix w (stDb s)")
    case None
    then show ?thesis using ix [of w] g(2) by (simp add: record_table_def p)
  next
    case (Some c)
    from old(2) [OF Some] obtain m where "c = id_bytes (word_of_nat m)" by blast
    from rec [OF this] show ?thesis using Some ix [of w] own [of w] g(2) by (auto simp: record_table_def p)
  qed
  moreover have "table_ok B f t"
    unfolding table_ok_def p r
  proof (intro conjI allI impI)
    show "bucket_exists B (take i ?p) (stDb t)" if "0 < i \<and> i \<le> Suc (length (rootBucket s))" for i
      using t that frame_exists [OF fr] by (simp add: table_ok_def)
    show "bucket_exists B ?ix (stDb t)" using t frame_exists [OF fr] by (simp add: table_ok_def)
    fix w c
    assume w: "bucket_get B ?ix w (stDb t) = Some c"
    have "bucket_get B ?p c (stDb t) \<noteq> None \<and> (\<exists>m>0. m \<le> record_count B t \<and> c = id_bytes (word_of_nat m))"
    proof (cases "w = v")
      case True
      then show ?thesis using w ix [of w] n g(2) by auto
    next
      case False
      then have "bucket_get B ?ix w (stDb s) = Some c" using w ix [of w] by simp
      from old [OF this] obtain m where m: "bucket_get B ?p c (stDb s) \<noteq> None" "0 < m" "m \<le> record_count B s"
        "c = id_bytes (word_of_nat m)" by blast
      from m(3) n(1) have "m \<le> record_count B t" by (rule le_trans)
      then show ?thesis using m rec [OF m(4)] by (auto split: if_splits)
    qed
    then show "bucket_get B ?p c (stDb t) \<noteq> None" "\<exists>m>0. m \<le> db_seq B ?p (stDb t) \<and> c = id_bytes (word_of_nat m)"
      by (simp_all add: record_count_def p)
    fix x
    assume "bucket_get B ?ix x (stDb t) = Some c"
    then show "w = x" using w ix [of w] ix [of x] own [of w] own [of x] inj [of w c x] by (simp split: if_splits)
  qed
  ultimately show ?thesis by blast
qed

lemma table_create:
  assumes L: "bolt_laws B" and t: "table_ok B f s" and k: "keyFields k = [f]" and uk: "key_isEmpty uk"
    and v: "getIndexValueFromItem (Some k) (reflect_scrape item) = Some v"
    and c: "createWithID B C (Some k) item (Some uk) s = (OpOk (), item', s')"
    and lim: "Suc (record_count B s) < 2 ^ 32"
  shows "record_table B f s v = None \<and> table_ok B f s' \<and> record_count B s' = Suc (record_count B s) \<and>
    (\<exists>n bytes. item' = setID n item \<and> marshal C item' = Some bytes \<and> record_table B f s' = (record_table B f s)(v \<mapsto> bytes))"
proof -
  let ?p = "results_path s" and ?ix = "index_path s f" and ?N = "record_count B s"
  obtain u where u: "getIndexValueFromItem (Some uk) (reflect_scrape item) = Some u"
    using c v by (auto simp: createWithID_def split: option.splits)
  obtain d1 pi d2 m2 b bytes d3 m3 d5 m5 where
    s2: "getIndex B C True (Some ?p) KindUnique f (stMeta s, item) (stDb s) = (TxOk pi d2, m2)" and
    s3: "createWithAutoIncrementingID B C ?p (\<lambda>i _. i) item pi v m2 d2 = (TxOk (b, bytes) d3, m3)" and
    s5: "pushToLatestItems B (Some bytes) d3 = TxOk () d5" and
    s6: "m3 = (m5, item')" "s' = s\<lparr>stDb := d5, stMeta := m5\<rparr>"
    using c uk k unfolding createWithID_def v u
    by (auto simp: Let_def update_ok tx_then_ok tx_lift_ok getUniqueIndexFromKeys_def table_assert [OF t]
        addUniqueIndexRecord_def unique_index_of_keys_def tx_return_def split: prod.splits)
  note i = table_index [OF L t s2]
  have e: "bucket_exists B ?p d2"
    using t frame_exists [OF i(2)] by (auto simp: table_ok_def results_path_def)
  have ne: "?ix \<noteq> ?p" by (simp add: index_path_def)
  note a = create_auto_ok [OF L e s3 [unfolded i(1)] ne]
  define n where "n = Suc ?N"
  obtain d4 where q: "db_next_seq B ?p d2 = (n, d4)" "db_seq B ?p d4 = n"
    using next_seq_law [OF L, of ?p d2] e i(3) by (cases "db_next_seq B ?p d2") (auto simp: bucket_exists_def n_def)
  have b: "b = id_bytes (word_of_nat n)" "m3 = (fst m2, setID (word_of_nat n) item)" "db_seq B ?p d3 = n"
    "bucket_get B ?ix v d4 \<in> {None, Some b}"
  proof -
    obtain d where ui: "ui_add B ?ix (Some v) (Some (id_bytes (word_of_nat n))) d4 = TxOk () d"
      and put: "of_bolt (db_put B ?p (id_bytes (word_of_nat n)) bytes d) = TxOk () d3"
      and m: "b = id_bytes (word_of_nat n)" "m3 = (fst m2, setID (word_of_nat n) item)"
      using s3 unfolding createWithAutoIncrementingID_def i(1)
      by (auto simp: q(1) Let_def tx_bind_ok setID_def split: option.splits)
    show "b = id_bytes (word_of_nat n)" "m3 = (fst m2, setID (word_of_nat n) item)" by (rule m)+
    show "db_seq B ?p d3 = n" using ui_add_seq [OF L ui] of_bolt_put_seq [OF L put] q(2) by simp
    show "bucket_get B ?ix v d4 \<in> {None, Some b}" using ui_add_frame(3) [OF L ui] m(1) by simp
  qed
  have fresh: "bucket_get B ?ix w (stDb s) \<noteq> Some b" for w
  proof
    assume "bucket_get B ?ix w (stDb s) = Some b"
    then obtain m where m: "0 < m" "m \<le> ?N" "b = id_bytes (word_of_nat m)"
      using table_entry(2) [OF t] by blast
    then have "(word_of_nat m :: uint32) = word_of_nat n" using b(1) id_bytes_inject by metis
    then have "take_bit 32 m = take_bit 32 n" unfolding word_of_nat_eq_iff by simp
    moreover have "m < 2 ^ 32" "n < 2 ^ 32" using m(2) lim n_def by simp_all
    ultimately have "m = n" by (simp only: take_bit_nat_eq_self)
    then show False using m(2) n_def by simp
  qed
  note f5 = push_frame [OF L s5]
  have l: "[latestResultsBucketName] \<noteq> ?ix" "[latestResultsBucketName] \<noteq> ?p"
    by (auto simp: index_path_def results_path_def latestResultsBucketName_def namespaceResultsBucketName_def)
  have fr: "frame B ({(?p, metaBucketName), (?ix, v), (?p, b)} \<union> {[latestResultsBucketName]} \<times> UNIV) (stDb s) (stDb s')"
    using frame_trans [OF i(2) frame_trans [OF a(4) f5]] s6(2) by (auto intro: frame_mono)
  have get: "bucket_get B ?ix v (stDb s') = Some b" "bucket_get B ?p b (stDb s') = Some bytes"
    using a(2,3) frame_get [OF f5] l s6(2) by auto
  have count: "record_count B s' = n"
    using push_seq [OF L s5, of ?p] l b(3) s6(2) by (auto simp: record_count_def results_path_def)
  have "table_ok B f s' \<and> record_table B f s' = (record_table B f s)(v \<mapsto> bytes)"
    by (rule table_write [OF t _ fr get, of n]) (use s6(2) count b(1) fresh in \<open>simp_all add: n_def\<close>)
  moreover have "record_table B f s v = None"
  proof -
    have "bucket_get B ?ix v d4 = bucket_get B ?ix v (stDb s)"
      using frame_get [OF i(2), of ?ix v] frame_get [OF next_seq_frame [OF L e q(1)], of ?ix v] ne by simp
    then show ?thesis using b(4) fresh [of v] table_None [OF t] by auto
  qed
  moreover have "marshal C item' = Some bytes" "item' = setID (word_of_nat n) item"
    using a(1) b(2) s6(1) by auto
  ultimately show ?thesis using count n_def by blast
qed

lemma table_update:
  assumes L: "bolt_laws B" and t: "table_ok B f s" and q: "getIndexValueFromQuery [(f, w)] = Some v"
    and u: "storage_update B C (Some [(f, w)]) item s = (OpOk (), s')"
  shows "table_ok B f s' \<and> record_count B s' = record_count B s \<and>
    (\<exists>bytes. marshal C item = Some bytes \<and> record_table B f s' = (record_table B f s)(v \<mapsto> bytes))"
proof -
  let ?p = "results_path s" and ?ix = "index_path s f"
  obtain x d2 m2 d3 m3 where
    s2: "getIndex B C True (Some ?p) KindUnique f (stMeta s, ()) (stDb s) = (TxOk x d2, m2)" and
    c: "(case (idx_all B x v singleItemCursor d2, marshal C item) of
           (_, None) \<Rightarrow> (TxError MarshalError, m2)
         | (Some (i # _), Some bytes) \<Rightarrow> (of_bolt (db_put B ?p i bytes d2), m2)
         | _ \<Rightarrow> (TxPanic, m2)) = (TxOk () d3, m3)" and
    s6: "s' = s\<lparr>stDb := d3, stMeta := fst m3\<rparr>"
    using u unfolding storage_update_def
    by (auto simp: update_ok tx_then_ok tx_lift_ok getIndexFromQuery_def index_name_single q table_assert [OF t] split: prod.splits)
  obtain bytes where y: "marshal C item = Some bytes" using c by (cases "marshal C item") (auto split: option.splits list.splits)
  obtain b rest where s3: "idx_all B x v singleItemCursor d2 = Some (b # rest)"
    using c y by (cases "idx_all B x v singleItemCursor d2"; cases "the (idx_all B x v singleItemCursor d2)") auto
  have s5: "db_put B ?p b bytes d2 = (True, d3)" using c s3 y by (simp add: of_bolt_ok)
  note i = table_index [OF L t s2]
  have ne: "?ix \<noteq> ?p" by (simp add: index_path_def)
  have b: "bucket_get B ?ix v d2 = Some b" using s3 by (auto simp: i(1) ui_all_def)
  then have old: "bucket_get B ?ix v (stDb s) = Some b" using frame_get [OF i(2), of ?ix v] ne by simp
  then obtain n where n: "0 < n" "n \<le> record_count B s" "b = id_bytes (word_of_nat n)"
    using table_entry(2) [OF t] by blast
  note f3 = put_frame [OF L s5]
  have fr: "frame B ({(?p, metaBucketName), (?ix, v), (?p, b)} \<union> {[latestResultsBucketName]} \<times> UNIV) (stDb s) (stDb s')"
    using frame_trans [OF i(2) f3] s6 by (auto intro: frame_mono)
  have get: "bucket_get B ?ix v (stDb s') = Some b" "bucket_get B ?p b (stDb s') = Some bytes"
    using b frame_get [OF f3, of ?ix v] ne put_ok_get [OF L s5] s6 by simp_all
  have count: "record_count B s' = record_count B s"
    using put_seq [OF L s5, of ?p] i(3) s6 by (simp add: record_count_def results_path_def)
  have "table_ok B f s' \<and> record_table B f s' = (record_table B f s)(v \<mapsto> bytes)"
  proof (rule table_write [OF t _ fr get _ n(1) _ n(3)])
    show "w = v" if "bucket_get B ?ix w (stDb s) = Some b" for w by (rule table_inj [OF t that old])
  qed (use s6 count n in simp_all)
  then show ?thesis using y count by blast
qed

subsection \<open>Adding is an update of the map\<close>

text \<open>What \<open>Add\<close> promises: a value without a record gets one, a record that equals the item stays, another is
  replaced; and the item is told which.\<close>

definition added_to_table ::
    "codec \<Rightarrow> string \<Rightarrow> scrape_item \<Rightarrow> (string \<Rightarrow> string option) \<Rightarrow> scrape_item \<Rightarrow> (string \<Rightarrow> string option) \<Rightarrow> bool" where
  "added_to_table C v item table item' table' \<longleftrightarrow>
     (case table v of
        None \<Rightarrow> \<exists>n bytes. item' = setState True False (setID n item) \<and> marshal C (setID n item) = Some bytes
          \<and> table' = table(v \<mapsto> bytes)
      | Some old \<Rightarrow> \<exists>r. unmarshalAt C (Some old) empty_scrape_item = Some r
          \<and> (if scrape_equals r (PtrScrape item) = Some True then item' = setState False False item \<and> table' = table
             else \<exists>bytes. item' = setState False True item \<and> marshal C item = Some bytes \<and> table' = table(v \<mapsto> bytes)))"

lemma add_in_table:
  assumes L: "bolt_laws B" and t: "table_ok B f s" and k: "keyed_by (primaryKey st) f item" and uk: "key_isEmpty (indexKeys st)"
    and a: "keyed_add (bolt_backing B C) uuid st item s = (OpOk (), item', s')"
    and lim: "Suc (record_count B s) < 2 ^ 32"
  shows "added_to_table C (key_string (reflect_scrape item) f) item (record_table B f s) item' (record_table B f s')
    \<and> table_ok B f s' \<and> record_count B s' \<le> Suc (record_count B s)"
proof -
  let ?v = "key_string (reflect_scrape item) f" and ?q = "key_query_of f item"
  obtain res s1 where f: "storage_find B C (Some ?q) empty_scrape_item s = (res, s1)"
    by (cases "storage_find B C (Some ?q) empty_scrape_item s")
  note fd = find_in_table [OF t key_value(3) [OF k], of C empty_scrape_item, unfolded f fst_conv snd_conv]
  note c = table_cong [OF fd(2,3)]
  note v = key_value(2) [OF k]
  have pk: "keyFields (primaryKey st) = [f]" using k by (simp add: keyed_by_def)
  note add = a [unfolded add_cases [OF k], simplified bolt_backing_def backing.simps f prod.case]
  show ?thesis
  proof (cases res)
    case OpPanic
    then show ?thesis using add by simp
  next
    case (OpError e)
    obtain i2 where "createWithID B C (Some (primaryKey st)) item (Some (indexKeys st)) s1 = (OpOk (), i2, s')"
      and i: "item' = setState True False i2"
      using add OpError by (auto simp: add_new_def split: prod.splits op_result.splits)
    from table_create [OF L _ pk uk v this(1), unfolded c] t lim
    obtain n bytes where "record_table B f s ?v = None" "table_ok B f s'" "record_count B s' = Suc (record_count B s)"
      "i2 = setID n item" "marshal C i2 = Some bytes" "record_table B f s' = (record_table B f s)(?v \<mapsto> bytes)"
      by auto
    then show ?thesis using i by (auto simp: added_to_table_def)
  next
    case (OpOk r)
    then obtain old where old: "record_table B f s ?v = Some old" "unmarshalAt C (Some old) empty_scrape_item = Some r"
      using fd(1) by (auto split: option.splits)
    show ?thesis
    proof (cases "scrape_equals r (PtrScrape item) = Some True")
      case True
      then have "item' = setState False False item" "s' = s1" using add OpOk by (simp_all add: add_found_def)
      then show ?thesis using old True t c by (simp add: added_to_table_def)
    next
      case False
      then have u: "storage_update B C (Some ?q) item s1 = (OpOk (), s')" and i: "item' = setState False True item"
        using add OpOk by (auto simp: add_found_def split: prod.splits op_result.splits option.splits bool.splits)
      from table_update [OF L _ key_value(3) [OF k] u, unfolded c] t obtain bytes where
        "table_ok B f s'" "record_count B s' = record_count B s" "marshal C item = Some bytes"
        "record_table B f s' = (record_table B f s)(?v \<mapsto> bytes)" by auto
      then show ?thesis using old False i by (auto simp: added_to_table_def)
    qed
  qed
qed

subsection \<open>Saving a page\<close>

text \<open>\<open>saveDiscoveredItems\<close>: the errors are logged and the loop goes on; \<open>None\<close> is a panic. \<open>uuid n\<close> is the UUID
  that would be drawn for the item at place \<open>n\<close>.\<close>

fun saveDiscoveredItems ::
    "'s backing \<Rightarrow> (nat \<Rightarrow> string) \<Rightarrow> keyed \<Rightarrow> nat \<Rightarrow> scrape_item list \<Rightarrow> 's \<Rightarrow>
     (store_error list \<times> scrape_item list \<times> 's) option" where
  "saveDiscoveredItems bk uuid st n [] s = Some ([], [], s)"
| "saveDiscoveredItems bk uuid st n (item # rest) s =
     (case keyed_add bk (uuid n) st item s of
        (OpPanic, _, _) \<Rightarrow> None
      | (r, item', s1) \<Rightarrow>
          map_option (\<lambda>(errors, rest', s2).
              ((case r of OpError e \<Rightarrow> e # errors | _ \<Rightarrow> errors), item' # rest', s2))
            (saveDiscoveredItems bk uuid st (Suc n) rest s1))"

text \<open>The map has a record for the value that reads as equal to the item.\<close>

definition settled :: "codec \<Rightarrow> (string \<Rightarrow> string option) \<Rightarrow> string \<Rightarrow> scrape_item \<Rightarrow> bool" where
  "settled C table v item \<longleftrightarrow>
     (\<exists>bytes r. table v = Some bytes \<and> unmarshalAt C (Some bytes) empty_scrape_item = Some r
        \<and> scrape_equals r (PtrScrape item) = Some True)"

lemma textual_setID: "textual (setID n i) = textual i" "modelData (setID n i) = modelData i"
  by (simp_all add: setID_def textual_def data_of_def)

lemma written_settled:
  assumes "keeps_text C" "textual item" "textual i" "marshal C i = Some bytes" "modelData i = modelData item"
  shows "settled C (table(v \<mapsto> bytes)) v item"
proof -
  obtain r where "unmarshalAt C (Some bytes) empty_scrape_item = Some r" "modelData r = modelData i"
    using assms(1,3,4) by (auto simp: keeps_text_def)
  moreover have "scrape_equals r (PtrScrape item) = Some True"
    by (rule equal_data) (use calculation assms(2,5) textual_comparable in auto)
  ultimately show ?thesis by (auto simp: settled_def)
qed

lemma added_settled:
  assumes "keeps_text C" "textual item" "added_to_table C v item table item' table'"
  shows "settled C table' v item" "w \<noteq> v \<Longrightarrow> table' w = table w"
proof -
  show "settled C table' v item"
  proof (cases "table v")
    case None
    then obtain n bytes where "marshal C (setID n item) = Some bytes" "table' = table(v \<mapsto> bytes)"
      using assms(3) by (auto simp: added_to_table_def)
    then show ?thesis using written_settled [OF assms(1,2), of "setID n item"] assms(2) textual_setID by simp
  next
    case (Some old)
    then obtain r where r: "unmarshalAt C (Some old) empty_scrape_item = Some r"
      "if scrape_equals r (PtrScrape item) = Some True then item' = setState False False item \<and> table' = table
       else \<exists>bytes. item' = setState False True item \<and> marshal C item = Some bytes \<and> table' = table(v \<mapsto> bytes)"
      using assms(3) unfolding added_to_table_def by auto
    show ?thesis
    proof (cases "scrape_equals r (PtrScrape item) = Some True")
      case True
      then show ?thesis using r Some by (auto simp: settled_def)
    next
      case False
      with r(2) obtain bytes where "marshal C item = Some bytes" "table' = table(v \<mapsto> bytes)" by auto
      then show ?thesis using written_settled [OF assms(1,2) assms(2)] by simp
    qed
  qed
  show "w \<noteq> v \<Longrightarrow> table' w = table w"
    using assms(3) by (auto simp: added_to_table_def split: option.splits if_splits)
qed

lemma add_settled:
  assumes t: "table_ok B f s" and k: "keyed_by (primaryKey st) f item"
    and d: "settled C (record_table B f s) (key_string (reflect_scrape item) f) item"
  shows "\<exists>s'. keyed_add (bolt_backing B C) uuid st item s = (OpOk (), setState False False item, s')
    \<and> stDb s' = stDb s \<and> rootBucket s' = rootBucket s"
proof -
  let ?q = "key_query_of f item"
  obtain res s1 where f: "storage_find B C (Some ?q) empty_scrape_item s = (res, s1)"
    by (cases "storage_find B C (Some ?q) empty_scrape_item s")
  note fd = find_in_table [OF t key_value(3) [OF k], of C empty_scrape_item, unfolded f fst_conv snd_conv]
  obtain r where "res = OpOk r" "scrape_equals r (PtrScrape item) = Some True"
    using d fd(1) by (auto simp: settled_def)
  then show ?thesis using f fd(2,3) by (simp add: add_cases [OF k] bolt_backing_def add_found_def)
qed

lemma page_settled:
  assumes "bolt_laws B" "keeps_text C" "key_isEmpty (indexKeys st)"
  shows "saveDiscoveredItems (bolt_backing B C) uuid st n page s = Some ([], page', s') \<Longrightarrow> table_ok B f s \<Longrightarrow>
    \<forall>i\<in>set page. keyed_by (primaryKey st) f i \<and> textual i \<Longrightarrow>
    distinct (map (\<lambda>i. key_string (reflect_scrape i) f) page) \<Longrightarrow> record_count B s + length page < 2 ^ 32 \<Longrightarrow>
    table_ok B f s' \<and> (\<forall>i\<in>set page. settled C (record_table B f s') (key_string (reflect_scrape i) f) i)
    \<and> (\<forall>w. w \<notin> (\<lambda>i. key_string (reflect_scrape i) f) ` set page \<longrightarrow> record_table B f s' w = record_table B f s w)"
proof (induction page arbitrary: n s page')
  case (Cons item rest)
  let ?v = "\<lambda>i. key_string (reflect_scrape i) f"
  obtain item' s1 rest' where a: "keyed_add (bolt_backing B C) (uuid n) st item s = (OpOk (), item', s1)"
    and r: "saveDiscoveredItems (bolt_backing B C) uuid st (Suc n) rest s1 = Some ([], rest', s')"
    using Cons.prems(1) by (auto split: prod.splits op_result.splits)
  have k: "keyed_by (primaryKey st) f item" "textual item" using Cons.prems(3) by simp_all
  note t = add_in_table [OF assms(1) Cons.prems(2) k(1) assms(3) a]
  have lim: "Suc (record_count B s) < 2 ^ 32" using Cons.prems(5) by simp
  note t = t [OF lim]
  then have IH: "table_ok B f s' \<and> (\<forall>i\<in>set rest. settled C (record_table B f s') (?v i) i)
      \<and> (\<forall>w. w \<notin> ?v ` set rest \<longrightarrow> record_table B f s' w = record_table B f s1 w)"
    by (intro Cons.IH [OF r]) (use Cons.prems in auto)
  note d = added_settled [OF assms(2) k(2) conjunct1 [OF t]]
  have "?v item \<notin> ?v ` set rest" using Cons.prems(4) by auto
  then have "record_table B f s' (?v item) = record_table B f s1 (?v item)" using IH by blast
  then have "settled C (record_table B f s') (?v item) item" using d(1) by (simp add: settled_def)
  then show ?case using IH d(2) by auto
qed simp

lemma page_again:
  assumes "table_ok B f s" "\<forall>i\<in>set page. keyed_by (primaryKey st) f i"
    and "\<forall>i\<in>set page. settled C (record_table B f s) (key_string (reflect_scrape i) f) i"
  shows "\<exists>s'. saveDiscoveredItems (bolt_backing B C) uuid st n page s = Some ([], map (setState False False) page, s')"
  using assms
proof (induction page arbitrary: n s)
  case (Cons item rest)
  obtain s1 where s1: "keyed_add (bolt_backing B C) (uuid n) st item s = (OpOk (), setState False False item, s1)"
    "stDb s1 = stDb s" "rootBucket s1 = rootBucket s"
    using add_settled [OF Cons.prems(1)] Cons.prems(2,3) by fastforce
  note c = table_cong [OF s1(2,3)]
  from Cons.IH [of s1 "Suc n"] Cons.prems c obtain s' where
    "saveDiscoveredItems (bolt_backing B C) uuid st (Suc n) rest s1 = Some ([], map (setState False False) rest, s')" by auto
  then show ?case using s1(1) by simp
qed simp

definition sample_table_db :: ref_db where
  "sample_table_db =
     (let ix = indexPrefix @ ''ModelData.a''
      in [[] \<mapsto> ([(''ns'', None)], 0), [''ns''] \<mapsto> ([(''results'', None)], 0), [''ns'', ''results''] \<mapsto> ([(ix, None)], 0),
          [''ns'', ''results'', ix] \<mapsto> ([], 0)])"

definition sample_table :: "ref_db storage" where
  "sample_table = \<lparr>stDb = sample_table_db, rootBucket = [''ns''],
     stMeta = [(''ModelData.a'', \<lparr>imName = ''ModelData.a'', imUnique = True, imLocation = indexPrefix @ ''ModelData.a''\<rparr>)]\<rparr>"

lemma sample_table_ok: "table_ok ref_ops ''ModelData.a'' sample_table"
proof -
  let ?s = sample_table
  have "db_items ref_ops (index_path ?s ''ModelData.a'') (stDb ?s) = Some []" by code_simp
  then have n: "bucket_get ref_ops (index_path ?s ''ModelData.a'') v (stDb ?s) = None"
      "bucket_exists ref_ops (index_path ?s ''ModelData.a'') (stDb ?s)" for v
    by (simp_all add: bucket_get_def bucket_items_def bucket_exists_def)
  have e: "bucket_exists ref_ops [''ns''] (stDb ?s)" "bucket_exists ref_ops [''ns'', ''results''] (stDb ?s)" by code_simp+
  have r: "rootBucket ?s = [''ns'']" "results_path ?s = [''ns'', ''results'']"
    by (simp_all add: sample_table_def results_path_def namespaceResultsBucketName_def)
  have "bucket_exists ref_ops (take i (results_path ?s)) (stDb ?s)" if "0 < i" "i \<le> 2" for i
  proof -
    have "i = 1 \<or> i = 2" using that by linarith
    then show ?thesis using e r by auto
  qed
  then show ?thesis using n r by (simp add: table_ok_def)
qed

abbreviation sample_backing :: "ref_db storage backing" where
  "sample_backing \<equiv> bolt_backing ref_ops text_codec"

lemma sample_table_add:
  "fst (keyed_add sample_backing ''u'' sample_keyed sample_record sample_table) = OpOk ()"
  "record_count ref_ops sample_table = 0" "key_isEmpty (indexKeys sample_keyed)"
  "record_table ref_ops ''ModelData.a'' sample_table (key_string (reflect_scrape sample_record) ''ModelData.a'') = None"
  by code_simp+

subsection \<open>Properties\<close>

text \<open>C1: The keyed storage over bolt implements a map. An accepted \<open>Add\<close> of an item with a key of one field is
  the update of the map at the item's value that \<open>added_to_table\<close> describes: new, unchanged or replaced, and the
  item is told which; the records of all other values stay as they are. This needs fewer than \<open>2 ^ 32\<close> records,
  the range of the IDs.\<close>

theorem keyed_add_refines_map:
  assumes "bolt_laws B" "table_ok B f s" "keyed_by (primaryKey st) f item" "key_isEmpty (indexKeys st)"
    and "Suc (record_count B s) < 2 ^ 32" "keyed_add (bolt_backing B C) uuid st item s = (OpOk (), item', s')"
  shows "added_to_table C (key_string (reflect_scrape item) f) item (record_table B f s) item' (record_table B f s')
    \<and> table_ok B f s'"
  using add_in_table [OF assms(1-4) assms(6,5)] by blast

theorem keyed_add_refines_map_witness:
  "\<exists>item' s' n bytes. keyed_add sample_backing ''u'' sample_keyed sample_record sample_table = (OpOk (), item', s')
    \<and> item' = setState True False (setID n sample_record)
    \<and> record_table ref_ops ''ModelData.a'' s' = (record_table ref_ops ''ModelData.a'' sample_table)
        (key_string (reflect_scrape sample_record) ''ModelData.a'' \<mapsto> bytes)"
proof -
  obtain item' s' where a: "keyed_add sample_backing ''u'' sample_keyed sample_record sample_table = (OpOk (), item', s')"
    using sample_table_add(1) by (cases "keyed_add sample_backing ''u'' sample_keyed sample_record sample_table") auto
  have "Suc (record_count ref_ops sample_table) < 2 ^ 32" by (simp add: sample_table_add(2))
  from keyed_add_refines_map [OF ref_laws sample_table_ok sample_facts(1) sample_table_add(3) this a] a sample_table_add(4)
  show ?thesis by (auto simp: added_to_table_def)
qed



end
