(* ===== verification/Spec2Isabelle.thy ===== *)
theory Spec2Isabelle
  imports LruRuns TtlCache CacheInterface Connectivity Categories Query SearchIterator ResultItem KeyedStorage
    WorkpoolFacts Filters Selectors RowFacts WebClient Sessions UrlResolver StatusReports Runner ServerFacts
    TimerFacts FirestoreFacts ConsumerFacts TorrentFiles Bots FuzzyFacts FingerprintFacts DefinitionBlocks
    DumpFacts FetcherSetup Aggregates StatusMessages SearchRuns StoreTable
begin

text \<open>
  A model of torrentd, a program that searches sites whose pages are described by YAML definitions, keeps
  what it finds in a store and serves it as torznab feeds. The paths below are those under \<open>src/\<close>.

  \<^bold>\<open>The program and the theories.\<close> A request comes to the server, which looks up indexes in a scope; the
  scope loads their definitions and makes a runner for each. A facade starts a pool of workers; the pool
  asks the iterator of every index for the next page, and a runner searches it: it logs in, makes a request
  from the definition and the query, fetches the page, reads its rows with selectors and filters, and
  makes items of them. The items are stored under their keys, in a database with indexes of its own, and
  come back over a channel; the server rewrites their links and caches the feed.

  \<^item> \<open>GoPrelude\<close>, \<open>GoStrconv\<close>: Go strings as byte lists, the functions of \<open>strings\<close>, \<open>strconv\<close> and
    \<open>fmt\<close> that are called, 64-bit wrap-around; splitting and joining, printing and reading numbers are
    inverse.
  \<^item> \<open>LruCache\<close> (\<open>indexer/cache/lru.go\<close>): the list of entries and the map to them; \<open>LruSpec\<close> has the
    invariant and the abstract cache, a list in recency order, which every operation implements;
    \<open>LruRuns\<close> lifts this to runs: refinement, the bound, what the callback is told, retention.
  \<^item> \<open>TtlCache\<close> (\<open>ttledLru.go\<close>): times of entries and the sweep in its two critical sections.
    \<open>CacheInterface\<close> (\<open>threadsafeLru.go\<close>, \<open>lruIface.go\<close>): the interface of a cache as the locale
    \<open>lru_cache\<close>, interpreted by both caches; \<open>Connectivity\<close> (\<open>optimisticCache.go\<close>,
    \<open>connectivityCache.go\<close>) is proved against it.
  \<^item> \<open>Categories\<close> (\<open>indexer/categories\<close>, \<open>categoryMap.go\<close>, \<open>torznab/capabilities.go\<close>), \<open>Query\<close>
    (\<open>indexer/search/query.go\<close>), \<open>SearchIterator\<close> (\<open>searchIterator.go\<close>, \<open>rangeFieldState.go\<close>) and
    \<open>ResultItem\<close> (\<open>result.go\<close>, \<open>torrent.go\<close>).
  \<^item> \<open>IndexKeys\<close> (\<open>storage/indexing\<close>), \<open>BoltDb\<close> (what is relied on of the database bolt),
    \<open>BoltIndex\<close>, \<open>BoltStorage\<close> (\<open>storage/bolt\<close>), \<open>StorageFacts\<close> (what an operation leaves alone, and that
    a created record is found), \<open>KeyedStorage\<close> (\<open>storage/keyedStorage.go\<close>).
  \<^item> \<open>Workpool\<close> and \<open>WorkpoolFacts\<close> (\<open>indexer/workpool.go\<close>): one rule for each action of a goroutine
    between two points where another can interfere.
  \<^item> \<open>Filters\<close>, \<open>Selectors\<close> (\<open>indexer/source\<close>, \<open>indexer/formatting\<close>, \<open>indexer/utils\<close>),
    \<open>RowExtraction\<close> and \<open>RowFacts\<close> (\<open>resultExtraction.go\<close>, \<open>torrentScheme.go\<close>, \<open>rowsEnumeration.go\<close>),
    \<open>WebClient\<close> (\<open>source/web.go\<close>), \<open>Sessions\<close> (\<open>browsingSession.go\<close>), \<open>UrlResolver\<close> (\<open>utils.go\<close>),
    \<open>StatusReports\<close> (\<open>statusReporter.go\<close>), \<open>Runner\<close> (\<open>runner.go\<close>, \<open>searchTemplate.go\<close>,
    \<open>context.go\<close>): one search by one index.
  \<^item> \<open>IndexLoaders\<close> (\<open>indexSelection.go\<close>, \<open>fsLoader.go\<close>, \<open>assetLoader.go\<close>, \<open>multipleDefsLoader.go\<close>),
    \<open>IndexScope\<close> and \<open>ScopeFacts\<close> (\<open>indexesCollection.go\<close>), \<open>Facade\<close> (\<open>facade.go\<close>, \<open>watch.go\<close>),
    \<open>Server\<close> and \<open>ServerFacts\<close> (\<open>server\<close>, \<open>indexer/download.go\<close>, \<open>torrent/enriching.go\<close>).
  \<^item> \<open>FuzzyTime\<close> and \<open>FuzzyFacts\<close> (\<open>indexer/utils/parsing.go\<close>): times in words, which the filters and the
    dates of items take as \<open>fuzzyTime\<close> and \<open>fuzzyUnix\<close>; phrases that end in \<open>ago\<close> are proved unit by unit.
  \<^item> \<open>TimerHeap\<close> and \<open>TimerFacts\<close> (\<open>indexer/cache/heapTimer.go\<close>): the binary heap with the loops of
    \<open>container/heap\<close>, the timers in a store of their own, and the tick; the due timers fire in order.
  \<^item> \<open>Firestore\<close> and \<open>FirestoreFacts\<close> (\<open>storage/firebase\<close>): the second backing of the store.
  \<^item> \<open>Consumers\<close> and \<open>ConsumerFacts\<close> (\<open>server/rss\<close>, \<open>torrent/torrentFetching.go\<close>, \<open>cmd\<close>): what reads the
    channel of a search, with its endings; \<open>TorrentFiles\<close> (\<open>torrent/torrentParsing.go\<close>,
    \<open>torrentDbResolution.go\<close>) and \<open>Bots\<close> (\<open>bots\<close>).
  \<^item> \<open>GoRegexp\<close>: expressions with the leftmost match the runtime finds, related to their runs
    (\<open>matches_are_runs\<close>); \<open>Fingerprint\<close> and \<open>FingerprintFacts\<close> (\<open>formatting/fingerprinting.go\<close>): what a
    fingerprint is made of, and which titles it takes for one.
  \<^item> \<open>DefinitionBlocks\<close> (the methods \<open>UnmarshalYAML\<close> of \<open>indexDefinitionParsing.go\<close>, \<open>getIndexDatabase\<close>,
    the table of \<open>storage/builder.go\<close>): from what the YAML decoder gives to the blocks, in order.
  \<^item> \<open>PageDumps\<close> and \<open>DumpFacts\<close> (\<open>source/requestDumping.go\<close>, \<open>indexContentCache.go\<close>, \<open>config\<close>): files
    with their modes, and who may write into a directory the program makes. \<open>FetcherSetup\<close>
    (\<open>browsing.go\<close>, \<open>config/viper.go\<close>), \<open>Aggregates\<close> (\<open>aggregate.go\<close>, \<open>storage/serializers\<close>).
  \<^item> \<open>StatusMessages\<close> (\<open>indexer/status\<close>): the messages a search publishes; the report in them is the one
    the search notes among its errors.

  \<^item> What spans components: \<open>StoreTable\<close> shows that the keyed storage over bolt implements a map from the values
    of its key to records, and that a page saved twice is stale for the iterator; \<open>SearchRuns\<close> follows a search
    from the pool over its channel to the feed of the server: it ends, and what it stored is delivered once.

  \<^bold>\<open>Interfaces.\<close> A locale stands where one component relies on another, and is interpreted on the model
  of the component that provides it: \<open>lru_cache\<close> (the connectivity testers on a cache), and the testers
  over it, \<open>optimistic_tester\<close> and \<open>pessimistic_tester\<close>; \<open>heap_order\<close> (a binary heap on the comparison of
  its elements, interpreted on that of timers), \<open>bolt_store\<close> (the
  indexes and the store on the database, interpreted on sorted buckets), \<open>item_backing\<close> (the keyed storage
  on a backing, interpreted on the bolt storage), \<open>element_source\<close> (the selectors on a document),
  \<open>connectivity_tester\<close> (the resolver of URLs on a cache of tested hosts), \<open>definition_loader\<close> (the scope
  on the loaders of definitions, interpreted on each loader and on their combination) and
  \<open>index_lookup\<close> (the loop over the members of a collection on the lookup it is part of).

  \<^bold>\<open>Conventions.\<close> A struct is a record, a pointer to shared state an index into a list or a map, an error
  the left side of a sum or \<open>Err\<close> of \<open>res\<close>, a panic \<open>Panic\<close> or \<open>None\<close>. A map whose order of iteration shows
  is an association list, and its order is any order of the runtime. The clock is an argument. Where a
  call works on the browser, the network or the disk, its state is the type variable \<open>'w\<close>.

  \<^bold>\<open>Parameters.\<close> Regular expressions (but those of times in words and of titles, which are written out),
  parsers of dates and floats, the calendar, templates, YAML, goquery, paths into JSON, the browser, bolt,
  Firestore, the codec of records, bencode, JWT, SHA-1, the embedded assets and the services that know movies
  and shows are arguments of the definitions that call them. What is assumed of them is a hypothesis of the
  theorem: that a codec reads back what it wrote, that a signed token gives back its claims, the laws of a
  bucket, that a query keeps its limit. The tables of character entities and of lower case are arguments
  without assumptions.

  \<^bold>\<open>Bounds.\<close> \<open>latest_loop\<close> and the loops over a cursor run for the number of entries of the bucket.
  \<open>web_get\<close> is partial, since following refreshes need not end, and so are the listings of Firestore
  (\<open>firestore_listings\<close> says when they end) and \<open>tick\<close>, which ends when the callbacks leave the timers
  alone (\<open>tick_fires_due_in_order\<close>). \<open>lookup\<close> has a depth: two is enough when
  the members of a selector are single names (\<open>several_indexes_are_their_members\<close>), and no depth is when
  a selector lists itself (\<open>self_listing_never_found\<close>). The loops of the fingerprint end because a pass
  that changes the title shortens it (\<open>shrinks\<close>); a repetition stops
  at a round that consumes nothing, and no pattern repeats what can match the empty text. The pool has no bound: its theorems hold in every
  reachable state. \<open>rest_of_search\<close> bounds the steps left once the feeder has ended. The map of
  \<open>StoreTable\<close> holds for fewer than \<open>2 ^ 32\<close> records, after which IDs repeat.

  \<^bold>\<open>Not modelled.\<close> \<open>server/routes.go\<close> is a table and the commands of \<open>cmd\<close> read flags before they call what is
  modelled; \<open>indexer/definitions/assets.go\<close>, \<open>docs\<close> and the mocks are generated; \<open>indexer/templates\<close> registers
  functions with the template engine of the runtime; \<open>db/models.go\<close> is structs nothing uses, and the
  serializer of gob is used by nothing. The bytes of a feed are not modelled, only what is put into it, nor
  is \<open>Truncate\<close> of bolt, which deletes while it ranges, what the library then does not define. Of the store of
  the bot's chats only the key and the value of the index are modelled: adding a chat goes no further. Lines of
  the log and methods that only print a value for it are left out.

  \<^bold>\<open>Plan.\<close> The answers of the pool's environment as searches of the runners, which are functions of their own
  in \<open>Runner\<close>; the keyed storage over Firestore; the fingerprint of a title in the extraction, which takes it
  as an argument over byte strings, by the decoding of UTF-8 to the code points of \<open>Fingerprint\<close>.
\<close>

end
